(* ===== verification/Petgraph.thy ===== *)
theory Petgraph
  imports MsPrelude "HOL-Library.Multiset"
begin

text \<open>
  The interface of \<^verbatim>\<open>petgraph::stable_graph::StableDiGraph\<close>, which is not part of the
  repository: a record of the operations the DAG runtime calls, and the locale
  \<open>petgraph_contract\<close> with the documented behaviour it relies on. The graph type \<open>'g\<close> stays
  abstract; two graphs are told apart by their node weights and by the multiset of their
  edges (parallel edges are allowed). Fresh indices, iteration order and the choice among
  topological orders are left open. \<open>ref_petgraph\<close> is an executable implementation of the
  interface (association lists and Kahn's algorithm); the interpretation at the end of the
  theory shows that the contract can be met.
\<close>

record ('g, 'n, 'e) petgraph =
  pg_empty :: 'g
  pg_add_node :: "'n \<Rightarrow> 'g \<Rightarrow> 'g \<times> nat"
  pg_weight :: "'g \<Rightarrow> nat \<Rightarrow> 'n option"
  pg_set_weight :: "nat \<Rightarrow> 'n \<Rightarrow> 'g \<Rightarrow> 'g"
  pg_add_edge :: "nat \<Rightarrow> nat \<Rightarrow> 'e \<Rightarrow> 'g \<Rightarrow> 'g"
  pg_connecting :: "'g \<Rightarrow> nat \<Rightarrow> nat \<Rightarrow> nat list"
  pg_remove_edge :: "nat \<Rightarrow> 'g \<Rightarrow> 'g"
  pg_remove_node :: "nat \<Rightarrow> 'g \<Rightarrow> 'g \<times> 'n option"
  pg_indices :: "'g \<Rightarrow> nat list"
  pg_edges :: "'g \<Rightarrow> (nat \<times> nat \<times> 'e) list"
  pg_incoming :: "'g \<Rightarrow> nat \<Rightarrow> nat list"
  pg_outgoing :: "'g \<Rightarrow> nat \<Rightarrow> nat list"
  pg_cyclic :: "'g \<Rightarrow> bool"
  pg_toposort :: "'g \<Rightarrow> nat list option"

definition endpoints :: "('g, 'n, 'e) petgraph \<Rightarrow> 'g \<Rightarrow> (nat \<times> nat) multiset" where
  "endpoints P g = mset (map (\<lambda>(a, b, w). (a, b)) (pg_edges P g))"

definition edge_rel :: "('g, 'n, 'e) petgraph \<Rightarrow> 'g \<Rightarrow> (nat \<times> nat) set" where
  "edge_rel P g = set_mset (endpoints P g)"

definition live :: "('g, 'n, 'e) petgraph \<Rightarrow> 'g \<Rightarrow> nat set" where
  "live P g = dom (pg_weight P g)"

definition edges_live :: "('g, 'n, 'e) petgraph \<Rightarrow> 'g \<Rightarrow> bool" where
  "edges_live P g \<longleftrightarrow> edge_rel P g \<subseteq> live P g \<times> live P g"

definition same_graph :: "('g, 'n, 'e) petgraph \<Rightarrow> 'g \<Rightarrow> 'g \<Rightarrow> bool" where
  "same_graph P g h \<longleftrightarrow> pg_weight P g = pg_weight P h \<and> endpoints P g = endpoints P h"

lemma same_graph_refl [simp]: "same_graph P g g"
  by (simp add: same_graph_def)

lemma finite_edge_rel [simp]: "finite (edge_rel P g)"
  by (simp add: edge_rel_def)

text \<open>No element of the list is the target of an edge from itself or from a later one.\<close>

fun topo_sorted :: "(nat \<times> nat) set \<Rightarrow> nat list \<Rightarrow> bool" where
  "topo_sorted r [] \<longleftrightarrow> True"
| "topo_sorted r (x # xs) \<longleftrightarrow> (\<forall>y \<in> set (x # xs). (y, x) \<notin> r) \<and> topo_sorted r xs"

lemma topo_sorted_rank:
  "topo_sorted r xs \<Longrightarrow> \<exists>f :: nat \<Rightarrow> nat. \<forall>a \<in> set xs. \<forall>b \<in> set xs. (a, b) \<in> r \<longrightarrow> f a < f b"
proof (induction xs)
  case Nil
  then show ?case by simp
next
  case (Cons x xs)
  then obtain f :: "nat \<Rightarrow> nat"
    where f: "\<forall>a \<in> set xs. \<forall>b \<in> set xs. (a, b) \<in> r \<longrightarrow> f a < f b" by auto
  define h where "h z = (if z = x then 0 else Suc (f z))" for z
  have "\<forall>a \<in> set (x # xs). \<forall>b \<in> set (x # xs). (a, b) \<in> r \<longrightarrow> h a < h b"
    using f Cons.prems by (auto simp: h_def)
  then show ?case by blast
qed

lemma topo_sorted_acyclic:
  assumes "topo_sorted r xs" "r \<subseteq> set xs \<times> set xs"
  shows "acyclic r"
proof -
  from topo_sorted_rank [OF assms(1)] obtain f :: "nat \<Rightarrow> nat"
    where f: "\<forall>a \<in> set xs. \<forall>b \<in> set xs. (a, b) \<in> r \<longrightarrow> f a < f b" by blast
  with assms(2) have "r \<subseteq> inv_image less_than f" by (auto simp: inv_image_def)
  then have "wf r" by (rule wf_subset [OF wf_inv_image [OF wf_less_than]])
  then show ?thesis by (rule wf_acyclic)
qed

lemma acyclic_has_source:
  assumes "acyclic r" "finite r" "A \<noteq> {}"
  shows "\<exists>x \<in> A. \<forall>y \<in> A. (y, x) \<notin> r"
proof -
  from assms(1,2) have "wf r" by (simp add: finite_acyclic_wf)
  with assms(3) show ?thesis by (metis ex_in_conv wfE_min)
qed

subsection \<open>The contract\<close>

locale petgraph_contract =
  fixes P :: "('g, 'n, 'e) petgraph"
  assumes empty_weight: "pg_weight P (pg_empty P) i = None"
    and empty_edges: "endpoints P (pg_empty P) = {#}"
    and add_node_fresh: "pg_add_node P n g = (g', i) \<Longrightarrow> pg_weight P g i = None"
    and add_node_weight: "pg_add_node P n g = (g', i) \<Longrightarrow> pg_weight P g' = (pg_weight P g)(i \<mapsto> n)"
    and add_node_edges: "pg_add_node P n g = (g', i) \<Longrightarrow> endpoints P g' = endpoints P g"
    and set_weight: "i \<in> live P g \<Longrightarrow> pg_weight P (pg_set_weight P i n g) = (pg_weight P g)(i \<mapsto> n)"
    and set_weight_edges: "endpoints P (pg_set_weight P i n g) = endpoints P g"
    and add_edge_weight: "pg_weight P (pg_add_edge P a b e g) = pg_weight P g"
    and add_edge_edges: "\<lbrakk>a \<in> live P g; b \<in> live P g\<rbrakk> \<Longrightarrow>
      endpoints P (pg_add_edge P a b e g) = add_mset (a, b) (endpoints P g)"
    and connecting: "pg_connecting P g a b = [] \<longleftrightarrow> (a, b) \<notin> edge_rel P g"
    and remove_edge_weight: "pg_weight P (pg_remove_edge P k g) = pg_weight P g"
    and remove_edge_edges: "k \<in> set (pg_connecting P g a b) \<Longrightarrow>
      endpoints P (pg_remove_edge P k g) = endpoints P g - {#(a, b)#}"
    and remove_node_weight: "pg_remove_node P i g = (g', w) \<Longrightarrow>
      pg_weight P g' = (pg_weight P g)(i := None) \<and> w = pg_weight P g i"
    and remove_node_edges: "pg_remove_node P i g = (g', w) \<Longrightarrow>
      endpoints P g' = filter_mset (\<lambda>(a, b). a \<noteq> i \<and> b \<noteq> i) (endpoints P g)"
    and indices: "distinct (pg_indices P g) \<and> set (pg_indices P g) = live P g"
    and incoming: "set (pg_incoming P g i) = {a. (a, i) \<in> edge_rel P g}"
    and outgoing: "set (pg_outgoing P g i) = {b. (i, b) \<in> edge_rel P g}"
    and cyclic: "edges_live P g \<Longrightarrow> pg_cyclic P g \<longleftrightarrow> \<not> acyclic (edge_rel P g)"
    and toposort_None: "edges_live P g \<Longrightarrow> pg_toposort P g = None \<longleftrightarrow> \<not> acyclic (edge_rel P g)"
    and toposort_Some: "\<lbrakk>edges_live P g; pg_toposort P g = Some xs\<rbrakk> \<Longrightarrow>
      distinct xs \<and> set xs = live P g \<and> topo_sorted (edge_rel P g) xs"
begin

lemma live_empty [simp]: "live P (pg_empty P) = {}"
  by (auto simp: live_def empty_weight)

lemma finite_live: "finite (live P g)"
  using indices [of g] by (metis List.finite_set)

lemma live_set_weight: "i \<in> live P g \<Longrightarrow> live P (pg_set_weight P i n g) = live P g"
  by (auto simp: live_def [of P "pg_set_weight P i n g"] set_weight) (auto simp: live_def)

lemma edge_rel_set_weight [simp]: "edge_rel P (pg_set_weight P i n g) = edge_rel P g"
  by (simp add: edge_rel_def set_weight_edges)

lemma live_add_edge [simp]: "live P (pg_add_edge P a b e g) = live P g"
  by (simp add: live_def add_edge_weight)

lemma edge_rel_add_edge:
  "a \<in> live P g \<Longrightarrow> b \<in> live P g \<Longrightarrow> edge_rel P (pg_add_edge P a b e g) = insert (a, b) (edge_rel P g)"
  by (simp add: edge_rel_def add_edge_edges)

text \<open>Removing one of the edges that connect the end points undoes the insertion.\<close>

lemma rollback:
  assumes "a \<in> live P g" "b \<in> live P g"
  shows "pg_connecting P (pg_add_edge P a b e g) a b \<noteq> []"
    and "same_graph P (pg_remove_edge P (last (pg_connecting P (pg_add_edge P a b e g) a b))
           (pg_add_edge P a b e g)) g"
proof -
  let ?h = "pg_add_edge P a b e g"
  show ne: "pg_connecting P ?h a b \<noteq> []"
    by (simp add: connecting edge_rel_add_edge [OF assms])
  then have "last (pg_connecting P ?h a b) \<in> set (pg_connecting P ?h a b)" by simp
  from remove_edge_edges [OF this]
  show "same_graph P (pg_remove_edge P (last (pg_connecting P ?h a b)) ?h) g"
    by (simp add: same_graph_def remove_edge_weight add_edge_weight add_edge_edges [OF assms])
qed

lemma toposort_exists:
  "edges_live P g \<Longrightarrow> acyclic (edge_rel P g) \<Longrightarrow> \<exists>xs. pg_toposort P g = Some xs"
  using toposort_None [of g] by auto

end

subsection \<open>An executable implementation\<close>

record ('n, 'e) ref_graph =
  rg_nodes :: "(nat \<times> 'n) list"
  rg_edges :: "(nat \<times> nat \<times> 'e) list"

definition ref_fresh :: "(nat \<times> 'n) list \<Rightarrow> nat" where
  "ref_fresh ns = foldr (\<lambda>(i, _) m. max (Suc i) m) ns 0"

definition edge_ends :: "(nat \<times> nat \<times> 'e) \<Rightarrow> nat \<times> nat" where
  "edge_ends = (\<lambda>(a, b, w). (a, b))"

lemma edge_ends_simp [simp]: "edge_ends (a, b, w) = (a, b)"
  by (simp add: edge_ends_def)

fun kahn :: "nat \<Rightarrow> (nat \<times> nat) list \<Rightarrow> nat list \<Rightarrow> nat list option" where
  "kahn 0 es xs = (if xs = [] then Some [] else None)"
| "kahn (Suc k) es xs =
    (if xs = [] then Some []
     else case List.find (\<lambda>x. \<forall>y \<in> set xs. (y, x) \<notin> set es) xs of
       None \<Rightarrow> None
     | Some x \<Rightarrow> map_option (Cons x) (kahn k es (filter (\<lambda>y. y \<noteq> x) xs)))"

definition ref_indices :: "('n, 'e) ref_graph \<Rightarrow> nat list" where
  "ref_indices g = remdups (map fst (rg_nodes g))"

definition ref_toposort :: "('n, 'e) ref_graph \<Rightarrow> nat list option" where
  "ref_toposort g =
     (let xs = ref_indices g in kahn (length xs) (map edge_ends (rg_edges g)) xs)"

definition ref_connecting :: "('n, 'e) ref_graph \<Rightarrow> nat \<Rightarrow> nat \<Rightarrow> nat list" where
  "ref_connecting g a b =
     filter (\<lambda>k. edge_ends (rg_edges g ! k) = (a, b)) [0..<length (rg_edges g)]"

definition ref_petgraph :: "(('n, 'e) ref_graph, 'n, 'e) petgraph" where
  "ref_petgraph =
    \<lparr> pg_empty = \<lparr> rg_nodes = [], rg_edges = [] \<rparr>,
      pg_add_node = (\<lambda>n g. let i = ref_fresh (rg_nodes g) in
         (g\<lparr> rg_nodes := rg_nodes g @ [(i, n)] \<rparr>, i)),
      pg_weight = (\<lambda>g i. map_of (rg_nodes g) i),
      pg_set_weight = (\<lambda>i n g. g\<lparr> rg_nodes := map (\<lambda>(j, m). (j, if j = i then n else m)) (rg_nodes g) \<rparr>),
      pg_add_edge = (\<lambda>a b e g. g\<lparr> rg_edges := rg_edges g @ [(a, b, e)] \<rparr>),
      pg_connecting = ref_connecting,
      pg_remove_edge = (\<lambda>k g. g\<lparr> rg_edges := take k (rg_edges g) @ drop (Suc k) (rg_edges g) \<rparr>),
      pg_remove_node = (\<lambda>i g.
         (g\<lparr> rg_nodes := filter (\<lambda>(j, m). j \<noteq> i) (rg_nodes g),
             rg_edges := filter (\<lambda>(a, b, w). a \<noteq> i \<and> b \<noteq> i) (rg_edges g) \<rparr>,
          map_of (rg_nodes g) i)),
      pg_indices = ref_indices,
      pg_edges = rg_edges,
      pg_incoming = (\<lambda>g i. map fst (filter (\<lambda>(a, b, w). b = i) (rg_edges g))),
      pg_outgoing = (\<lambda>g i. map (fst \<circ> snd) (filter (\<lambda>(a, b, w). a = i) (rg_edges g))),
      pg_cyclic = (\<lambda>g. ref_toposort g = None),
      pg_toposort = ref_toposort \<rparr>"

lemma kahn_sound:
  "kahn k es xs = Some ys \<Longrightarrow> distinct xs \<Longrightarrow>
    distinct ys \<and> set ys = set xs \<and> topo_sorted (set es) ys"
proof (induction k es xs arbitrary: ys rule: kahn.induct)
  case (1 es xs)
  then show ?case by (auto split: if_split_asm)
next
  case (2 k es xs)
  show ?case
  proof (cases "xs = []")
    case True
    with "2.prems" show ?thesis by simp
  next
    case False
    with "2.prems"(1) obtain x zs where x: "List.find (\<lambda>x. \<forall>y \<in> set xs. (y, x) \<notin> set es) xs = Some x"
      and zs: "kahn k es (filter (\<lambda>y. y \<noteq> x) xs) = Some zs" and ys: "ys = x # zs"
      by (auto split: option.splits)
    from find_Some_in [OF x] have xin: "x \<in> set xs" and src: "\<forall>y \<in> set xs. (y, x) \<notin> set es" by auto
    from "2.IH" [OF False x zs] "2.prems"(2)
    have IH: "distinct zs" "set zs = set xs - {x}" "topo_sorted (set es) zs" by auto
    with xin src ys show ?thesis by auto
  qed
qed

lemma kahn_complete:
  "acyclic (set es) \<Longrightarrow> length xs \<le> k \<Longrightarrow> \<exists>ys. kahn k es xs = Some ys"
proof (induction k es xs rule: kahn.induct)
  case (1 es xs)
  then show ?case by simp
next
  case (2 k es xs)
  show ?case
  proof (cases "xs = []")
    case True
    then show ?thesis by simp
  next
    case False
    with acyclic_has_source [OF "2.prems"(1), of "set xs"]
    obtain x where x: "List.find (\<lambda>x. \<forall>y \<in> set xs. (y, x) \<notin> set es) xs = Some x"
      by (cases "List.find (\<lambda>x. \<forall>y \<in> set xs. (y, x) \<notin> set es) xs") (auto simp: find_None_iff)
    from find_Some_in [OF x] have "length (filter (\<lambda>y. y \<noteq> x) xs) < length xs"
      by (intro length_filter_less [of x]) auto
    with "2.prems"(2) have "length (filter (\<lambda>y. y \<noteq> x) xs) \<le> k" by simp
    from "2.IH" [OF False x "2.prems"(1) this] x False show ?thesis by auto
  qed
qed

lemma ref_fresh_not_in: "i \<in> fst ` set ns \<Longrightarrow> i < ref_fresh ns"
  unfolding ref_fresh_def by (induction ns) (force simp: less_max_iff_disj)+

lemma map_of_set_value:
  "map_of (map (\<lambda>(j, m). (j, if j = i then n else m)) ns) j =
    (if j = i then map_option (\<lambda>_. n) (map_of ns i) else map_of ns j)"
  by (induction ns) auto

lemma map_of_set_weight:
  "i \<in> dom (map_of ns) \<Longrightarrow>
    map_of (map (\<lambda>(j, m). (j, if j = i then n else m)) ns) = (map_of ns)(i \<mapsto> n)"
  by (auto simp: fun_eq_iff map_of_set_value)

lemma map_of_remove: "map_of (filter (\<lambda>(j, m). j \<noteq> i) ns) = (map_of ns)(i := None)"
  by (rule ext, induction ns) auto

lemma endpoints_ref: "endpoints ref_petgraph g = mset (map edge_ends (rg_edges g))"
  by (simp add: endpoints_def ref_petgraph_def edge_ends_def)

lemma live_ref: "live ref_petgraph g = set (ref_indices g)"
  by (auto simp: live_def ref_petgraph_def ref_indices_def dom_map_of_conv_image_fst)

lemma ref_toposort_Some:
  "ref_toposort g = Some xs \<Longrightarrow>
    distinct xs \<and> set xs = live ref_petgraph g \<and> topo_sorted (edge_rel ref_petgraph g) xs"
  using kahn_sound [of _ "map edge_ends (rg_edges g)" "ref_indices g" xs]
  by (simp add: ref_toposort_def Let_def live_ref edge_rel_def endpoints_ref) (simp add: ref_indices_def)

lemma ref_toposort_None:
  assumes "edges_live ref_petgraph g"
  shows "ref_toposort g = None \<longleftrightarrow> \<not> acyclic (edge_rel ref_petgraph g)"
proof
  assume "ref_toposort g = None"
  then show "\<not> acyclic (edge_rel ref_petgraph g)"
    using kahn_complete [of "map edge_ends (rg_edges g)" "ref_indices g" "length (ref_indices g)"]
    by (auto simp: ref_toposort_def Let_def edge_rel_def endpoints_ref)
next
  assume c: "\<not> acyclic (edge_rel ref_petgraph g)"
  show "ref_toposort g = None"
  proof (cases "ref_toposort g")
    case (Some xs)
    with ref_toposort_Some [OF Some] assms
    have "acyclic (edge_rel ref_petgraph g)"
      by (intro topo_sorted_acyclic [of _ xs]) (auto simp: edges_live_def)
    with c show ?thesis by simp
  qed simp
qed

lemma ref_connecting_in:
  "k \<in> set (ref_connecting g a b) \<longleftrightarrow> k < length (rg_edges g) \<and> edge_ends (rg_edges g ! k) = (a, b)"
  by (auto simp: ref_connecting_def)

lemma mset_remove_nth:
  "k < length es \<Longrightarrow> mset (map f (take k es @ drop (Suc k) es)) = mset (map f es) - {# f (es ! k) #}"
proof -
  assume k: "k < length es"
  have "mset (map f es) = mset (map f (take k es @ es ! k # drop (Suc k) es))"
    using id_take_nth_drop [OF k] by simp
  then show ?thesis by simp
qed

interpretation ref_pg: petgraph_contract
  "ref_petgraph :: (('n, 'e) ref_graph, 'n, 'e) petgraph"
proof (unfold_locales, goal_cases)
  case (3 n g g' i)
  then show ?case
    using ref_fresh_not_in [of i "rg_nodes g"]
    by (auto simp: ref_petgraph_def Let_def map_of_eq_None_iff)
next
  case (4 n g g' i)
  then have "map_of (rg_nodes g) i = None"
    using ref_fresh_not_in [of i "rg_nodes g"] by (auto simp: ref_petgraph_def Let_def map_of_eq_None_iff)
  with 4 show ?case
    by (auto simp: ref_petgraph_def Let_def map_add_def fun_eq_iff split: option.splits)
next
  case (6 i g n)
  then show ?case using map_of_set_weight [of i "rg_nodes g" n] by (simp add: live_def ref_petgraph_def)
next
  case (10 g a b)
  have "ref_connecting g a b = [] \<longleftrightarrow> (a, b) \<notin> set (map edge_ends (rg_edges g))"
    unfolding ref_connecting_def filter_empty_conv set_map by (force simp: in_set_conv_nth)
  then show ?case by (simp add: edge_rel_def endpoints_ref) (simp add: ref_petgraph_def)
next
  case (12 k g a b)
  then have k: "k < length (rg_edges g)" "edge_ends (rg_edges g ! k) = (a, b)"
    by (simp_all add: ref_petgraph_def ref_connecting_in)
  with mset_remove_nth [OF k(1), of edge_ends] show ?case
    by (simp add: endpoints_ref) (simp add: ref_petgraph_def)
next
  case (14 i g g' w)
  have "filter_mset (\<lambda>(a, b). a \<noteq> i \<and> b \<noteq> i) (mset (map edge_ends es)) =
        mset (map edge_ends (filter (\<lambda>(a, b, w). a \<noteq> i \<and> b \<noteq> i) es))" for es :: "(nat \<times> nat \<times> 'e) list"
    by (induction es) auto
  with 14 show ?case by (auto simp: endpoints_ref) (auto simp: ref_petgraph_def)
next
  case (18 g)
  then show ?case using ref_toposort_None [of g] by (simp add: ref_petgraph_def)
next
  case (19 g)
  then show ?case using ref_toposort_None [of g] by (simp add: ref_petgraph_def)
next
  case (20 g xs)
  then show ?case using ref_toposort_Some [of g xs] by (simp add: ref_petgraph_def)
next
  case 1
  show ?case by (simp add: ref_petgraph_def)
next
  case 2
  show ?case by (simp add: endpoints_ref) (simp add: ref_petgraph_def)
next
  case (5 n g g' i)
  then show ?case by (simp add: endpoints_ref) (auto simp: ref_petgraph_def Let_def)
next
  case (7 i n g)
  show ?case by (simp add: endpoints_ref) (simp add: ref_petgraph_def)
next
  case (8 a b e g)
  show ?case by (simp add: ref_petgraph_def)
next
  case (9 a g b e)
  show ?case by (simp add: endpoints_ref) (simp add: ref_petgraph_def)
next
  case (11 k g)
  show ?case by (simp add: ref_petgraph_def)
next
  case (13 i g g' w)
  then show ?case by (auto simp: ref_petgraph_def map_of_remove)
next
  case (15 g)
  show ?case by (simp add: live_ref) (simp add: ref_petgraph_def ref_indices_def)
next
  case (16 g i)
  show ?case by (simp add: edge_rel_def endpoints_ref) (force simp: ref_petgraph_def edge_ends_def)
next
  case (17 g i)
  show ?case by (simp add: edge_rel_def endpoints_ref) (force simp: ref_petgraph_def edge_ends_def)
qed

end
