(* ===== verification/RustStr.thy ===== *)
theory RustStr
  imports MsPrelude "HOL-Library.Sublist"
begin

text \<open>
  Rust strings. A \<^verbatim>\<open>String\<close> or \<^verbatim>\<open>&str\<close> is the list of its UTF-8 bytes (an Isabelle
  \<open>char\<close> is a byte), so that \<open>length\<close> is \<^verbatim>\<open>len()\<close> and an index is a byte offset. \<open>chars\<close>
  groups the bytes into code points, which is what the Unicode-aware operations of the
  standard library (\<^verbatim>\<open>trim\<close>, \<^verbatim>\<open>split_whitespace\<close>, \<^verbatim>\<open>char_indices\<close>) work on. \<open>utf8_valid\<close>
  is \<^verbatim>\<open>std::str::from_utf8(..).is_ok()\<close>.
\<close>

subsection \<open>Bytes and code points\<close>

definition byte :: "char \<Rightarrow> nat" where
  "byte c = of_char c"

definition is_cont :: "char \<Rightarrow> bool" where
  "is_cont c \<longleftrightarrow> 128 \<le> byte c \<and> byte c < 192"

fun chars :: "string \<Rightarrow> string list" where
  "chars [] = []"
| "chars (b # bs) = (b # takeWhile is_cont bs) # chars (dropWhile is_cont bs)"

lemma concat_chars [simp]: "concat (chars s) = s"
  by (induction s rule: chars.induct) auto

lemma chars_eq_Nil [simp]: "chars s = [] \<longleftrightarrow> s = []"
  by (cases s) auto

lemma chars_nonempty: "c \<in> set (chars s) \<Longrightarrow> c \<noteq> []"
  by (induction s rule: chars.induct) auto

lemma chars_Cons_ascii: "bs = [] \<or> \<not> is_cont (hd bs) \<Longrightarrow> chars (b # bs) = [b] # chars bs"
  by (cases bs) auto

text \<open>Bytes below 128 are code points of their own.\<close>

definition ascii :: "string \<Rightarrow> bool" where
  "ascii s \<longleftrightarrow> (\<forall>c \<in> set s. byte c < 128)"

lemma chars_ascii: "ascii s \<Longrightarrow> chars s = map (\<lambda>c. [c]) s"
proof (induction s)
  case Nil
  then show ?case by simp
next
  case (Cons b bs)
  then have "bs = [] \<or> \<not> is_cont (hd bs)"
    by (cases bs) (auto simp: ascii_def is_cont_def)
  then have "chars (b # bs) = [b] # chars bs" by (rule chars_Cons_ascii)
  moreover have "ascii bs" using Cons.prems by (simp add: ascii_def)
  ultimately show ?case using Cons.IH by simp
qed

definition utf8_two :: "nat \<Rightarrow> nat \<Rightarrow> bool" where
  "utf8_two a b \<longleftrightarrow> 0xC2 \<le> a \<and> a \<le> 0xDF \<and> 0x80 \<le> b \<and> b \<le> 0xBF"

definition utf8_three :: "nat \<Rightarrow> nat \<Rightarrow> nat \<Rightarrow> bool" where
  "utf8_three a b c \<longleftrightarrow>
     0xE0 \<le> a \<and> a \<le> 0xEF \<and>
     (if a = 0xE0 then 0xA0 else 0x80) \<le> b \<and> b \<le> (if a = 0xED then 0x9F else 0xBF) \<and>
     0x80 \<le> c \<and> c \<le> 0xBF"

definition utf8_four :: "nat \<Rightarrow> nat \<Rightarrow> nat \<Rightarrow> nat \<Rightarrow> bool" where
  "utf8_four a b c d \<longleftrightarrow>
     0xF0 \<le> a \<and> a \<le> 0xF4 \<and>
     (if a = 0xF0 then 0x90 else 0x80) \<le> b \<and> b \<le> (if a = 0xF4 then 0x8F else 0xBF) \<and>
     0x80 \<le> c \<and> c \<le> 0xBF \<and> 0x80 \<le> d \<and> d \<le> 0xBF"

text \<open>The length of the well-formed sequence at the front, 0 when there is none.\<close>

definition utf8_len :: "nat list \<Rightarrow> nat" where
  "utf8_len s = (case s of [] \<Rightarrow> 0 | a # bs \<Rightarrow> if a < 0x80 then 1
     else case bs of [] \<Rightarrow> 0 | b # cs \<Rightarrow> if utf8_two a b then 2
     else case cs of [] \<Rightarrow> 0 | c # ds \<Rightarrow> if utf8_three a b c then 3
     else case ds of [] \<Rightarrow> 0 | d # _ \<Rightarrow> if utf8_four a b c d then 4 else 0)"

function utf8_ok :: "nat list \<Rightarrow> bool" where
  "utf8_ok s =
    (if s = [] then True
     else if utf8_len s = 0 then False
     else utf8_ok (drop (utf8_len s) s))"
  by pat_completeness auto
termination
  by (relation "measure length") auto

declare utf8_ok.simps [simp del]

definition utf8_valid :: "string \<Rightarrow> bool" where
  "utf8_valid s = utf8_ok (map byte s)"

lemma utf8_len_append:
  assumes "0 < utf8_len s"
  shows "utf8_len (s @ t) = utf8_len s \<and> utf8_len s \<le> length s"
proof (cases s)
  case Nil
  with assms show ?thesis by (simp add: utf8_len_def)
next
  case (Cons a bs)
  show ?thesis
  proof (cases "a < 0x80")
    case True
    with Cons show ?thesis by (simp add: utf8_len_def)
  next
    case a: False
    with assms Cons obtain b cs where b: "bs = b # cs"
      by (cases bs) (auto simp: utf8_len_def)
    show ?thesis
    proof (cases "utf8_two a b")
      case True
      with Cons a b show ?thesis by (simp add: utf8_len_def)
    next
      case two: False
      with assms Cons a b obtain c ds where c: "cs = c # ds"
        by (cases cs) (auto simp: utf8_len_def)
      show ?thesis
      proof (cases "utf8_three a b c")
        case True
        with Cons a b two c show ?thesis by (simp add: utf8_len_def)
      next
        case three: False
        with assms Cons a b two c obtain d es where "ds = d # es"
          by (cases ds) (auto simp: utf8_len_def)
        with assms Cons a b two c three show ?thesis
          by (simp add: utf8_len_def split: if_split_asm)
      qed
    qed
  qed
qed

lemma utf8_ok_step:
  "s \<noteq> [] \<Longrightarrow> utf8_ok s \<longleftrightarrow> 0 < utf8_len s \<and> utf8_ok (drop (utf8_len s) s)"
  using utf8_ok.simps [of s] by auto

lemma utf8_ok_Nil [simp]: "utf8_ok []"
  by (simp add: utf8_ok.simps [of "[]"])

lemma utf8_ok_append: "utf8_ok s \<Longrightarrow> utf8_ok (s @ t) = utf8_ok t"
proof (induction s rule: utf8_ok.induct)
  case (1 s)
  show ?case
  proof (cases "s = []")
    case True
    then show ?thesis by simp
  next
    case False
    with "1.prems" have l: "0 < utf8_len s" and r: "utf8_ok (drop (utf8_len s) s)"
      by (simp_all add: utf8_ok_step)
    have "utf8_ok (s @ t) \<longleftrightarrow> utf8_ok (drop (utf8_len s) (s @ t))"
      using False utf8_len_append [OF l, of t] l by (simp add: utf8_ok_step [of "s @ t"])
    also have "drop (utf8_len s) (s @ t) = drop (utf8_len s) s @ t"
      using utf8_len_append [OF l] by simp
    also have "utf8_ok (drop (utf8_len s) s @ t) = utf8_ok t"
      using "1.IH" False l r by simp
    finally show ?thesis .
  qed
qed

lemma utf8_valid_append: "utf8_valid s \<Longrightarrow> utf8_valid (s @ t) = utf8_valid t"
  by (simp add: utf8_valid_def utf8_ok_append)

lemma utf8_valid_Nil [simp]: "utf8_valid []"
  by (simp add: utf8_valid_def)

lemma utf8_valid_Cons_ascii [simp]: "byte c < 128 \<Longrightarrow> utf8_valid (c # s) = utf8_valid s"
  unfolding utf8_valid_def using utf8_ok_step [of "map byte (c # s)"] by (simp add: utf8_len_def)

lemma utf8_valid_ascii: "ascii s \<Longrightarrow> utf8_valid s"
  by (induction s) (auto simp: ascii_def)

subsection \<open>White space and trimming\<close>

text \<open>The 25 code points of the Unicode property White\_Space, in UTF-8.\<close>

definition white_space :: "string list" where
  "white_space =
     map (\<lambda>b. [b]) [CHR 0x09, CHR 0x0A, CHR 0x0B, CHR 0x0C, CHR 0x0D, CHR 0x20] @
     [[CHR 0xC2, CHR 0x85], [CHR 0xC2, CHR 0xA0], [CHR 0xE1, CHR 0x9A, CHR 0x80]] @
     map (\<lambda>b. [CHR 0xE2, CHR 0x80, b])
       [CHR 0x80, CHR 0x81, CHR 0x82, CHR 0x83, CHR 0x84, CHR 0x85, CHR 0x86, CHR 0x87,
        CHR 0x88, CHR 0x89, CHR 0x8A, CHR 0xA8, CHR 0xA9, CHR 0xAF] @
     [[CHR 0xE2, CHR 0x81, CHR 0x9F], [CHR 0xE3, CHR 0x80, CHR 0x80]]"

definition is_ws :: "string \<Rightarrow> bool" where
  "is_ws c \<longleftrightarrow> c \<in> set white_space"

definition trim_start :: "string \<Rightarrow> string" where
  "trim_start s = concat (dropWhile is_ws (chars s))"

definition trim :: "string \<Rightarrow> string" where
  "trim s = concat (rev (dropWhile is_ws (rev (dropWhile is_ws (chars s)))))"

definition all_ws :: "string \<Rightarrow> bool" where
  "all_ws s \<longleftrightarrow> (\<forall>c \<in> set (chars s). is_ws c)"

lemma concat_eq_Nil_nonempty: "\<forall>x \<in> set xs. x \<noteq> [] \<Longrightarrow> concat xs = [] \<longleftrightarrow> xs = []"
  by (cases xs) auto

lemma trim_eq_Nil: "trim s = [] \<longleftrightarrow> all_ws s"
proof -
  let ?m = "rev (dropWhile is_ws (rev (dropWhile is_ws (chars s))))"
  have "\<forall>x \<in> set ?m. x \<noteq> []"
    by (auto dest!: set_dropWhileD chars_nonempty)
  then have "trim s = [] \<longleftrightarrow> ?m = []"
    unfolding trim_def by (rule concat_eq_Nil_nonempty)
  also have "\<dots> \<longleftrightarrow> all_ws s"
  proof
    assume "?m = []"
    then have d: "\<forall>c \<in> set (dropWhile is_ws (chars s)). is_ws c"
      by simp
    show "all_ws s"
    proof (cases "dropWhile is_ws (chars s) = []")
      case True
      then show ?thesis by (simp add: all_ws_def)
    next
      case False
      then have "\<not> is_ws (hd (dropWhile is_ws (chars s)))" by (rule hd_dropWhile)
      with d False show ?thesis by auto
    qed
  next
    assume "all_ws s"
    then have "dropWhile is_ws (chars s) = []" by (simp add: all_ws_def)
    then show "?m = []" by (simp del: dropWhile_eq_Nil_conv)
  qed
  finally show ?thesis .
qed

lemma trim_Nil [simp]: "trim [] = []"
  by (simp add: trim_def)

text \<open>A string whose first and last code points are not white space is left alone.\<close>

lemma trim_id:
  assumes "s = [] \<or> \<not> is_ws (hd (chars s)) \<and> \<not> is_ws (last (chars s))"
  shows "trim s = s"
proof (cases "s = []")
  case True
  then show ?thesis by simp
next
  case False
  with assms obtain c cs d ds where c: "chars s = c # cs" "\<not> is_ws c"
    and d: "rev (chars s) = d # ds" "\<not> is_ws d"
    by (metis chars_eq_Nil hd_rev list.exhaust list.sel(1) rev_is_Nil_conv)
  from c have "dropWhile is_ws (chars s) = chars s" by simp
  moreover from d have "dropWhile is_ws (rev (chars s)) = rev (chars s)" by simp
  ultimately show ?thesis by (simp add: trim_def)
qed

text \<open>\<^verbatim>\<open>split_whitespace\<close>: the maximal runs of other code points.\<close>

function split_ws_chars :: "string list \<Rightarrow> string list" where
  "split_ws_chars cs =
    (let ds = dropWhile is_ws cs in
     if ds = [] then []
     else concat (takeWhile (\<lambda>c. \<not> is_ws c) ds) #
          split_ws_chars (dropWhile (\<lambda>c. \<not> is_ws c) ds))"
  by pat_completeness auto
termination
proof (relation "measure length", simp)
  fix cs x
  assume x: "x = dropWhile is_ws cs" and ne: "x \<noteq> []"
  then obtain d ds where d: "x = d # ds" and nd: "\<not> is_ws d"
    by (metis hd_dropWhile list.exhaust list.sel(1))
  then have "length (dropWhile (\<lambda>c. \<not> is_ws c) x) < length x"
    by (simp add: length_dropWhile_less_Suc)
  also have "\<dots> \<le> length cs" using x by (simp add: length_dropWhile_le)
  finally show "(dropWhile (\<lambda>c. \<not> is_ws c) x, cs) \<in> measure length" by simp
qed

declare split_ws_chars.simps [simp del]

lemma split_ws_chars_stop: "dropWhile is_ws cs = [] \<Longrightarrow> split_ws_chars cs = []"
  by (subst split_ws_chars.simps) (simp only: Let_def if_True simp_thms)

lemma split_ws_chars_step:
  assumes "dropWhile is_ws cs = d # ds"
  shows "split_ws_chars cs = concat (d # takeWhile (\<lambda>c. \<not> is_ws c) ds) #
           split_ws_chars (dropWhile (\<lambda>c. \<not> is_ws c) ds)"
proof -
  from assms have "\<not> is_ws d" by (simp add: dropWhile_eq_Cons_conv)
  with assms show ?thesis
    by (subst split_ws_chars.simps) (simp add: Let_def del: dropWhile_eq_Nil_conv)
qed

definition split_whitespace :: "string \<Rightarrow> string list" where
  "split_whitespace s = split_ws_chars (chars s)"

lemma split_ws_chars_nonempty:
  "(\<forall>c \<in> set cs. c \<noteq> []) \<Longrightarrow> w \<in> set (split_ws_chars cs) \<Longrightarrow> w \<noteq> []"
proof (induction "length cs" arbitrary: cs rule: less_induct)
  case less
  show ?case
  proof (cases "dropWhile is_ws cs")
    case Nil
    with less.prems show ?thesis by (simp add: split_ws_chars_stop)
  next
    case (Cons d ds)
    let ?r = "dropWhile (\<lambda>c. \<not> is_ws c) ds"
    have sub: "set (d # ds) \<subseteq> set cs"
      using Cons by (metis set_dropWhileD subsetI)
    have "length ?r \<le> length ds" by (rule length_dropWhile_le)
    also have "\<dots> < length (d # ds)" by simp
    also have "\<dots> \<le> length cs" using length_dropWhile_le [of is_ws cs] Cons by simp
    finally have lt: "length ?r < length cs" .
    have "\<forall>c \<in> set ?r. c \<noteq> []" using less.prems(1) sub by (auto dest: set_dropWhileD)
    with less.hyps [OF lt] less.prems sub Cons show ?thesis
      by (auto simp: split_ws_chars_step [OF Cons])
  qed
qed

lemma split_whitespace_nonempty: "w \<in> set (split_whitespace s) \<Longrightarrow> w \<noteq> []"
  unfolding split_whitespace_def
  by (rule split_ws_chars_nonempty) (auto dest: chars_nonempty)

lemma while_split:
  assumes "\<forall>x \<in> set xs. P x" "t = [] \<or> \<not> P (hd t)"
  shows "takeWhile P (xs @ t) = xs" "dropWhile P (xs @ t) = t"
  using assms by (induction xs) (cases t; simp)+

text \<open>Code points of a string: a first byte and continuation bytes. Only the first one of a string
  can begin with a continuation byte.\<close>

definition code_point :: "string \<Rightarrow> bool" where
  "code_point c \<longleftrightarrow> c \<noteq> [] \<and> \<not> is_cont (hd c) \<and> (\<forall>x \<in> set (tl c). is_cont x)"

definition token :: "string \<Rightarrow> bool" where
  "token w \<longleftrightarrow> w \<noteq> [] \<and> \<not> is_cont (hd w) \<and> (\<forall>c \<in> set (chars w). \<not> is_ws c)"

lemma chars_code_points: "\<forall>c \<in> set (tl (chars s)). code_point c"
proof (induction s rule: chars.induct)
  case 1
  then show ?case by simp
next
  case (2 b bs)
  let ?r = "dropWhile is_cont bs"
  show ?case
  proof (cases ?r)
    case Nil
    then show ?thesis by (simp del: dropWhile_eq_Nil_conv)
  next
    case (Cons x xs)
    then have "\<not> is_cont x" by (simp add: dropWhile_eq_Cons_conv)
    then have "code_point (x # takeWhile is_cont xs)" by (auto simp: code_point_def dest: set_takeWhileD)
    with 2 Cons show ?thesis by auto
  qed
qed

lemma chars_code_points_all:
  assumes "s = [] \<or> \<not> is_cont (hd s)" shows "\<forall>c \<in> set (chars s). code_point c"
proof (cases s)
  case Nil
  then show ?thesis by simp
next
  case (Cons b bs)
  then have "code_point (b # takeWhile is_cont bs)"
    using assms by (auto simp: code_point_def dest: set_takeWhileD)
  with chars_code_points [of s] Cons show ?thesis by simp
qed

lemma chars_concat: "\<forall>c \<in> set cs. code_point c \<Longrightarrow> chars (concat cs) = cs"
proof (induction cs)
  case Nil
  then show ?case by simp
next
  case (Cons c cs)
  then obtain b bs where c: "c = b # bs" "\<forall>x \<in> set bs. is_cont x"
    by (cases c) (auto simp: code_point_def)
  have h: "concat cs = [] \<or> \<not> is_cont (hd (concat cs))"
    using Cons.prems by (cases cs) (auto simp: code_point_def)
  show ?case using Cons while_split [OF c(2) h] by (simp add: c(1))
qed

lemma chars_append:
  assumes "t = [] \<or> \<not> is_cont (hd t)" shows "chars (s @ t) = chars s @ chars t"
proof (induction s rule: chars.induct)
  case 1
  then show ?case by simp
next
  case (2 b bs)
  show ?case
  proof (cases "dropWhile is_cont bs = []")
    case True
    then have c: "\<forall>x \<in> set bs. is_cont x" by simp
    have "takeWhile is_cont bs = bs" using c by simp
    with while_split [OF c assms] True show ?thesis by (simp del: dropWhile_eq_Nil_conv takeWhile_eq_all_conv)
  next
    case False
    then have "\<exists>x \<in> set bs. \<not> is_cont x" by auto
    then have "takeWhile is_cont (bs @ t) = takeWhile is_cont bs"
      "dropWhile is_cont (bs @ t) = dropWhile is_cont bs @ t"
      by auto
    with 2 show ?thesis by simp
  qed
qed

lemma split_ws_chars_tokens: "\<forall>c \<in> set cs. code_point c \<Longrightarrow> \<forall>w \<in> set (split_ws_chars cs). token w"
proof (induction "length cs" arbitrary: cs rule: less_induct)
  case less
  show ?case
  proof (cases "dropWhile is_ws cs")
    case Nil
    then show ?thesis by (simp add: split_ws_chars_stop)
  next
    case (Cons d ds)
    let ?w = "d # takeWhile (\<lambda>c. \<not> is_ws c) ds" and ?r = "dropWhile (\<lambda>c. \<not> is_ws c) ds"
    have sub: "set (d # ds) \<subseteq> set cs" using Cons by (metis set_dropWhileD subsetI)
    have nd: "\<not> is_ws d" using Cons by (simp add: dropWhile_eq_Cons_conv)
    have cp: "\<forall>c \<in> set ?w. code_point c" "\<forall>c \<in> set ?r. code_point c"
      using less.prems sub by (auto dest: set_takeWhileD set_dropWhileD)
    have "token (concat ?w)"
      using chars_concat [OF cp(1)] nd cp(1) by (auto simp: token_def code_point_def dest: set_takeWhileD)
    moreover have "length ?r < length cs"
      using length_dropWhile_le [of "\<lambda>c. \<not> is_ws c" ds] length_dropWhile_le [of is_ws cs] Cons by simp
    ultimately show ?thesis
      using less.hyps [OF _ cp(2)] by (simp add: split_ws_chars_step [OF Cons])
  qed
qed

text \<open>The words of a string after the first one are tokens, whatever the string.\<close>

lemma split_whitespace_tl_tokens: "w \<in> set (tl (split_whitespace s)) \<Longrightarrow> token w"
proof -
  assume w: "w \<in> set (tl (split_whitespace s))"
  show "token w"
  proof (cases "dropWhile is_ws (chars s)")
    case Nil
    with w show ?thesis by (simp add: split_whitespace_def split_ws_chars_stop)
  next
    case (Cons d ds)
    obtain us where "chars s = us @ d # ds"
      using Cons by (metis takeWhile_dropWhile_id)
    then have "set ds \<subseteq> set (tl (chars s))" by (cases us) auto
    then have "\<forall>c \<in> set (dropWhile (\<lambda>c. \<not> is_ws c) ds). code_point c"
      using chars_code_points [of s] by (auto dest: set_dropWhileD)
    from split_ws_chars_tokens [OF this] w show ?thesis
      by (simp add: split_whitespace_def split_ws_chars_step [OF Cons])
  qed
qed

lemma space_ws [simp]: "is_ws '' ''"
  by (simp add: is_ws_def white_space_def)

lemma not_cont_space [simp]: "\<not> is_cont CHR 0x20"
  by (simp add: is_cont_def byte_def)

lemma split_word:
  assumes "token w" "r = [] \<or> \<not> is_cont (hd r) \<and> is_ws (hd (chars r))"
  shows "split_whitespace (w @ r) = w # split_ws_chars (chars r)"
proof -
  from assms(1) obtain d ds where c: "chars w = d # ds" by (cases "chars w") (auto simp: token_def)
  then have nd: "\<not> is_ws d" "\<forall>x \<in> set ds. \<not> is_ws x" using assms(1) by (auto simp: token_def)
  have "r = [] \<or> \<not> is_cont (hd r)" using assms(2) by blast
  then have ch: "chars (w @ r) = d # ds @ chars r" using c by (simp only: chars_append append_Cons)
  have dw: "dropWhile is_ws (chars (w @ r)) = d # ds @ chars r" using nd by (simp add: ch)
  have t: "takeWhile (\<lambda>c. \<not> is_ws c) (ds @ chars r) = ds" "dropWhile (\<lambda>c. \<not> is_ws c) (ds @ chars r) = chars r"
    using assms(2) while_split [of ds "\<lambda>c. \<not> is_ws c" "chars r"] nd(2) by auto
  have "concat (d # ds) = w" using c by (metis concat_chars)
  with t show ?thesis by (simp add: split_whitespace_def split_ws_chars_step [OF dw])
qed

lemma split_ws_chars_skip: "is_ws c \<Longrightarrow> split_ws_chars (c # cs) = split_ws_chars cs"
  by (subst (1 2) split_ws_chars.simps) simp

lemma split_join: "\<forall>w \<in> set ws. token w \<Longrightarrow> split_whitespace (join '' '' ws) = ws"
proof (induction ws)
  case Nil
  then show ?case by (simp add: split_whitespace_def split_ws_chars_stop)
next
  case (Cons w ws)
  show ?case
  proof (cases "ws = []")
    case True
    with Cons show ?thesis using split_word [of w "[]"] by (simp add: split_ws_chars_stop)
  next
    case False
    then have "join '' '' ws \<noteq> [] \<and> \<not> is_cont (hd (join '' '' ws))"
      using Cons.prems by (cases ws; cases "tl ws") (auto simp: token_def hd_append join_Cons)
    then have ch: "chars (CHR '' '' # join '' '' ws) = '' '' # chars (join '' '' ws)"
      by (intro chars_Cons_ascii) auto
    have "split_whitespace (join '' '' (w # ws)) = w # split_ws_chars (chars (CHR '' '' # join '' '' ws))"
      using split_word [of w "CHR '' '' # join '' '' ws"] Cons.prems False ch by (simp add: join_Cons)
    also have "\<dots> = w # split_whitespace (join '' '' ws)"
      by (simp only: ch split_ws_chars_skip [OF space_ws] split_whitespace_def)
    finally show ?thesis using Cons by simp
  qed
qed

subsection \<open>Searching and cutting\<close>

text \<open>\<^verbatim>\<open>strip_prefix\<close> and \<^verbatim>\<open>strip_suffix\<close>; \<^verbatim>\<open>starts_with\<close> is \<open>prefix\<close> with its arguments swapped.\<close>

fun strip_prefix :: "string \<Rightarrow> string \<Rightarrow> string option" where
  "strip_prefix [] s = Some s"
| "strip_prefix (p # ps) [] = None"
| "strip_prefix (p # ps) (c # cs) = (if p = c then strip_prefix ps cs else None)"

lemma strip_prefix_Some: "strip_prefix p s = Some r \<longleftrightarrow> s = p @ r"
  by (induction p s rule: strip_prefix.induct) auto

lemma strip_prefix_append [simp]: "strip_prefix p (p @ r) = Some r"
  by (simp add: strip_prefix_Some)

definition strip_suffix :: "string \<Rightarrow> string \<Rightarrow> string option" where
  "strip_suffix p s = map_option rev (strip_prefix (rev p) (rev s))"

lemma strip_suffix_Some: "strip_suffix p s = Some r \<longleftrightarrow> s = r @ p"
  unfolding strip_suffix_def by (auto simp: strip_prefix_Some rev_swap)

definition starts_with :: "string \<Rightarrow> string \<Rightarrow> bool" where
  "starts_with p s \<longleftrightarrow> strip_prefix p s \<noteq> None"

lemma starts_with_iff: "starts_with p s \<longleftrightarrow> (\<exists>r. s = p @ r)"
  by (auto simp: starts_with_def strip_prefix_Some)

text \<open>\<^verbatim>\<open>find(needle)\<close>: the byte offset of the first occurrence.\<close>

fun find_sub :: "string \<Rightarrow> string \<Rightarrow> nat option" where
  "find_sub p [] = (if p = [] then Some 0 else None)"
| "find_sub p (c # cs) =
    (if starts_with p (c # cs) then Some 0 else map_option Suc (find_sub p cs))"

definition contains_sub :: "string \<Rightarrow> string \<Rightarrow> bool" where
  "contains_sub p s \<longleftrightarrow> find_sub p s \<noteq> None"

lemma find_sub_Some: "find_sub p s = Some i \<Longrightarrow> \<exists>r. s = take i s @ p @ r \<and> i \<le> length s"
proof (induction p s arbitrary: i rule: find_sub.induct)
  case (1 p)
  then show ?case by (auto split: if_split_asm)
next
  case (2 p c cs)
  show ?case
  proof (cases "starts_with p (c # cs)")
    case True
    with "2.prems" show ?thesis by (auto simp: starts_with_iff)
  next
    case False
    with "2.prems" obtain k where k: "find_sub p cs = Some k" "i = Suc k" by auto
    from "2.IH" [OF False k(1)] k(2) show ?thesis by auto
  qed
qed

lemma find_sub_first: "find_sub p s = Some i \<Longrightarrow> j < i \<Longrightarrow> \<not> starts_with p (drop j s)"
proof (induction p s arbitrary: i j rule: find_sub.induct)
  case (1 p)
  then show ?case by (auto split: if_split_asm)
next
  case (2 p c cs)
  show ?case
  proof (cases "starts_with p (c # cs)")
    case True
    with "2.prems" show ?thesis by auto
  next
    case False
    with "2.prems" obtain k where k: "find_sub p cs = Some k" "i = Suc k" by auto
    from "2.IH" [OF False k(1)] k(2) "2.prems"(2) False show ?thesis by (cases j) auto
  qed
qed

lemma find_sub_None: "find_sub p s = None \<longleftrightarrow> (\<nexists>l r. s = l @ p @ r)"
proof (induction p s rule: find_sub.induct)
  case (1 p)
  then show ?case by auto
next
  case (2 p c cs)
  show ?case
  proof (cases "starts_with p (c # cs)")
    case True
    then show ?thesis by (auto simp: starts_with_iff intro: exI [of _ "[]"])
  next
    case False
    have "(\<exists>l r. c # cs = l @ p @ r) \<longleftrightarrow> (\<exists>l r. cs = l @ p @ r)"
      using False by (auto simp: starts_with_iff Cons_eq_append_conv intro: exI [of _ "c # _"])
    with 2 False show ?thesis by auto
  qed
qed

lemma contains_sub_iff: "contains_sub p s \<longleftrightarrow> (\<exists>l r. s = l @ p @ r)"
  using find_sub_None [of p s] by (auto simp: contains_sub_def)

text \<open>\<^verbatim>\<open>split(sep)\<close> on one byte, and \<^verbatim>\<open>lines()\<close>: a final empty piece is dropped and each
  piece loses one trailing carriage return that stood before its newline.\<close>

fun split_byte :: "char \<Rightarrow> string \<Rightarrow> string list" where
  "split_byte d [] = [[]]"
| "split_byte d (c # cs) =
    (if c = d then [] # split_byte d cs
     else case split_byte d cs of [] \<Rightarrow> [[c]] | w # ws \<Rightarrow> (c # w) # ws)"

lemma split_byte_nonempty [simp]: "split_byte d s \<noteq> []"
  by (induction s) (auto split: list.splits)

lemma join_split_byte: "join [d] (split_byte d s) = s"
proof (induction s)
  case Nil
  then show ?case by simp
next
  case (Cons c cs)
  then show ?case
    by (cases "split_byte d cs"; cases "tl (split_byte d cs)") (auto simp: join_Cons)
qed

lemma split_byte_no_sep: "w \<in> set (split_byte d s) \<Longrightarrow> d \<notin> set w"
  by (induction s arbitrary: w) (auto split: list.splits if_splits)

lemma split_byte_single: "d \<notin> set s \<Longrightarrow> split_byte d s = [s]"
  by (induction s) auto

lemma split_byte_append: "d \<notin> set s \<Longrightarrow> split_byte d (s @ d # t) = s # split_byte d t"
  by (induction s) auto

lemma split_byte_join:
  "ws \<noteq> [] \<Longrightarrow> \<forall>w \<in> set ws. d \<notin> set w \<Longrightarrow> split_byte d (join [d] ws) = ws"
proof (induction ws)
  case Nil
  then show ?case by simp
next
  case (Cons w ws)
  then show ?case
    by (cases "ws = []") (simp_all add: split_byte_single split_byte_append join_Cons)
qed

abbreviation nl :: char where "nl \<equiv> CHR 0x0A"
abbreviation cr :: char where "cr \<equiv> CHR 0x0D"

definition strip_cr :: "string \<Rightarrow> string" where
  "strip_cr l = (if l \<noteq> [] \<and> last l = cr then butlast l else l)"

definition str_lines :: "string \<Rightarrow> string list" where
  "str_lines s =
    (let ps = split_byte nl s
     in map strip_cr (butlast ps) @ (if last ps = [] then [] else [last ps]))"

lemma str_lines_Nil [simp]: "str_lines [] = []"
  by (simp add: str_lines_def)

lemma str_lines_Cons:
  "nl \<notin> set l \<Longrightarrow> str_lines (l @ nl # t) = strip_cr l # str_lines t"
  by (simp add: str_lines_def Let_def split_byte_append)

lemma str_lines_single: "nl \<notin> set l \<Longrightarrow> l \<noteq> [] \<Longrightarrow> str_lines l = [l]"
  by (simp add: str_lines_def split_byte_single)

lemma strip_cr_id: "cr \<notin> set l \<Longrightarrow> strip_cr l = l"
  unfolding strip_cr_def using last_in_set by fastforce

text \<open>\<^verbatim>\<open>Path::join\<close> on Unix.\<close>

definition path_join :: "string \<Rightarrow> string \<Rightarrow> string" where
  "path_join base p =
    (if p \<noteq> [] \<and> hd p = CHR 0x2F then p
     else if base = [] \<or> last base = CHR 0x2F then base @ p
     else base @ [CHR 0x2F] @ p)"

subsection \<open>ASCII case and decimal numbers\<close>

definition ascii_lower :: "char \<Rightarrow> char" where
  "ascii_lower c = (if 65 \<le> byte c \<and> byte c \<le> 90 then char_of (byte c + 32) else c)"

definition is_digit_char :: "char \<Rightarrow> bool" where
  "is_digit_char c \<longleftrightarrow> 48 \<le> byte c \<and> byte c \<le> 57"

function show_nat :: "nat \<Rightarrow> string" where
  "show_nat n =
    (if n < 10 then [char_of (48 + n)] else show_nat (n div 10) @ [char_of (48 + n mod 10)])"
  by pat_completeness auto
termination by (relation "measure id") auto

declare show_nat.simps [simp del]

lemma show_nat_digits: "\<forall>c \<in> set (show_nat n). is_digit_char c"
proof (induction n rule: show_nat.induct)
  case (1 n)
  have d: "k < 10 \<Longrightarrow> is_digit_char (char_of (48 + k))" for k :: nat
    by (simp add: is_digit_char_def byte_def)
  show ?case
    using 1 d [of n] d [of "n mod 10"] by (subst show_nat.simps) (auto simp del: of_char_of)
qed

subsection \<open>Columns\<close>

text \<open>Left-aligned in a column of \<open>n\<close> characters, \<^verbatim>\<open>{:<n}\<close>.\<close>

definition column :: "nat \<Rightarrow> string \<Rightarrow> string" where
  "column n s = s @ replicate (n - length (chars s)) (CHR '' '')"

end
