(* ===== verification/Json.thy ===== *)
theory Json
  imports RustStr
begin

text \<open>
  \<^verbatim>\<open>serde_json::Value\<close> as a datatype, with the accessors the repository uses. Numbers are the
  integers and the 64-bit patterns of floats that serde\_json keeps apart; an object is an
  association list in the order its fields are written. The text form of a value (the
  serializer and the parser of serde\_json) is not modelled here: the components that write
  or read JSON text take the two functions as a parameter, the record \<open>json_text\<close>.
\<close>

datatype json =
    JNull
  | JBool bool
  | JInt int
  | JFloat u64
  | JStr string
  | JArr "json list"
  | JObj "(string \<times> json) list"

text \<open>\<^verbatim>\<open>Value::get\<close>, \<^verbatim>\<open>as_str\<close>, \<^verbatim>\<open>as_array\<close>, \<^verbatim>\<open>as_u64\<close>, \<^verbatim>\<open>as_bool\<close>.\<close>

fun jget :: "json \<Rightarrow> string \<Rightarrow> json option" where
  "jget (JObj fs) k = map_of fs k"
| "jget _ k = None"

fun jstr :: "json \<Rightarrow> string option" where
  "jstr (JStr s) = Some s"
| "jstr _ = None"

fun jarr :: "json \<Rightarrow> json list option" where
  "jarr (JArr xs) = Some xs"
| "jarr _ = None"

fun jnat :: "json \<Rightarrow> nat option" where
  "jnat (JInt i) = (if 0 \<le> i \<and> i < 2 ^ 64 then Some (nat i) else None)"
| "jnat _ = None"

fun jbool :: "json \<Rightarrow> bool option" where
  "jbool (JBool b) = Some b"
| "jbool _ = None"

text \<open>The \<^verbatim>\<open>Option\<close> of a value: \<open>None\<close> is \<^verbatim>\<open>null\<close>.\<close>

fun jopt :: "('a \<Rightarrow> json) \<Rightarrow> 'a option \<Rightarrow> json" where
  "jopt f None = JNull"
| "jopt f (Some x) = f x"

text \<open>The text form, for the components that read and write it.\<close>

record json_text =
  jt_print :: "json \<Rightarrow> string"
  jt_parse :: "string \<Rightarrow> json option"

subsection \<open>Derived serialization\<close>

text \<open>What serde derives for a struct: an object, unknown fields ignored, or the fields in order.\<close>

definition struct_fields :: "string list \<Rightarrow> json \<Rightarrow> (string \<Rightarrow> json option) option" where
  "struct_fields ns j =
    (case j of
       JObj fs \<Rightarrow> Some (map_of fs)
     | JArr xs \<Rightarrow> if length xs \<le> length ns then Some (map_of (zip ns xs)) else None
     | _ \<Rightarrow> None)"

definition req_field :: "(json \<Rightarrow> 'a option) \<Rightarrow> (string \<Rightarrow> json option) \<Rightarrow> string \<Rightarrow> 'a option" where
  "req_field get f k = Option.bind (f k) get"

definition opt_field :: "(json \<Rightarrow> 'a option) \<Rightarrow> (string \<Rightarrow> json option) \<Rightarrow> string \<Rightarrow> 'a option option" where
  "opt_field get f k =
    (case f k of None \<Rightarrow> Some None | Some JNull \<Rightarrow> Some None | Some j \<Rightarrow> map_option Some (get j))"

text \<open>What serde derives; a field that is skipped when it is \<^verbatim>\<open>None\<close> is left out, and \<^verbatim>\<open>null\<close> reads
  back as \<^verbatim>\<open>None\<close>. Read from text, a known field twice is an error.\<close>

definition skip_none :: "string \<Rightarrow> ('a \<Rightarrow> json) \<Rightarrow> 'a option \<Rightarrow> (string \<times> json) list" where
  "skip_none k f v = (case v of None \<Rightarrow> [] | Some x \<Rightarrow> [(k, f x)])"

definition text_fields :: "string list \<Rightarrow> json \<Rightarrow> (string \<Rightarrow> json option) option" where
  "text_fields ns j =
    (case j of
       JObj fs \<Rightarrow> if distinct (filter (\<lambda>k. k \<in> set ns) (map fst fs)) then struct_fields ns j else None
     | _ \<Rightarrow> struct_fields ns j)"

end
