(* ===== verification/DagGraph.thy ===== *)
theory DagGraph
  imports Petgraph Json
begin

text \<open>
  The crate \<^verbatim>\<open>dag-runtime\<close> (types.rs, error.rs, graph.rs): nodes with a life cycle, the graph
  operations that keep the graph acyclic, and the claim protocol. A \<^verbatim>\<open>NodeIndex\<close> is a \<open>nat\<close>,
  a PID a 32-bit word, a UUID its text. Every operation of \<^verbatim>\<open>DagGraph\<close> takes the record of
  petgraph operations as its first argument; an operation on \<^verbatim>\<open>&mut self\<close> returns its result
  and the new graph.
\<close>

subsection \<open>Types (types.rs, error.rs)\<close>

datatype dag_status = Pending | Running | Completed | Failed | Skipped

definition is_terminal :: "dag_status \<Rightarrow> bool" where
  "is_terminal s \<longleftrightarrow> s = Completed \<or> s = Failed \<or> s = Skipped"

record dag_node =
  nd_id :: string
  nd_label :: string
  nd_status :: dag_status
  nd_claimed_by :: "u32 option"
  nd_inputs :: json
  nd_outputs :: json
  nd_error_message :: "string option"

definition dag_node_new :: "string \<Rightarrow> string \<Rightarrow> json \<Rightarrow> dag_node" where
  "dag_node_new uuid label inputs =
    \<lparr> nd_id = uuid, nd_label = label, nd_status = Pending, nd_claimed_by = None,
      nd_inputs = inputs, nd_outputs = JNull, nd_error_message = None \<rparr>"

definition dag_node_with_label :: "string \<Rightarrow> string \<Rightarrow> dag_node" where
  "dag_node_with_label uuid label = dag_node_new uuid label JNull"

record dag_edge =
  edge_label :: "string option"

definition dag_edge_new :: dag_edge where
  "dag_edge_new = \<lparr> edge_label = None \<rparr>"

datatype dag_error =
    CycleDetected nat nat
  | NodeNotFound nat
  | InvalidState dag_status dag_status
  | AlreadyClaimed nat u32
  | Serialization string

type_synonym 'g dag_api = "('g, dag_node, dag_edge) petgraph"

subsection \<open>Structure (graph.rs)\<close>

definition dag_new :: "'g dag_api \<Rightarrow> 'g" where
  "dag_new P = pg_empty P"

definition add_node :: "'g dag_api \<Rightarrow> 'g \<Rightarrow> dag_node \<Rightarrow> 'g \<times> nat" where
  "add_node P g n = pg_add_node P n g"

definition has_node :: "'g dag_api \<Rightarrow> 'g \<Rightarrow> nat \<Rightarrow> bool" where
  "has_node P g i \<longleftrightarrow> pg_weight P g i \<noteq> None"

definition node :: "'g dag_api \<Rightarrow> 'g \<Rightarrow> nat \<Rightarrow> dag_node option" where
  "node P g i = pg_weight P g i"

text \<open>\<^verbatim>\<open>node_mut\<close>, with what the caller does to the node it lends.\<close>

definition node_mut :: "'g dag_api \<Rightarrow> 'g \<Rightarrow> nat \<Rightarrow> (dag_node \<Rightarrow> dag_node) \<Rightarrow> 'g" where
  "node_mut P g i f = (case node P g i of None \<Rightarrow> g | Some n \<Rightarrow> pg_set_weight P i (f n) g)"

definition status :: "'g dag_api \<Rightarrow> 'g \<Rightarrow> nat \<Rightarrow> dag_status option" where
  "status P g i = map_option nd_status (node P g i)"

definition add_edge :: "'g dag_api \<Rightarrow> 'g \<Rightarrow> nat \<Rightarrow> nat \<Rightarrow> (unit, dag_error) result \<times> 'g" where
  "add_edge P g from to =
    (if from = to then (Err (CycleDetected from to), g)
     else if \<not> has_node P g from \<or> \<not> has_node P g to
     then (Err (NodeNotFound (if \<not> has_node P g from then from else to)), g)
     else
       let g1 = pg_add_edge P from to dag_edge_new g in
       if pg_cyclic P g1 then
         let ids = pg_connecting P g1 from to;
             g2 = (if ids = [] then g1 else pg_remove_edge P (last ids) g1)
         in (Err (CycleDetected from to), g2)
       else (Ok (), g1))"

definition nodes_iter :: "'g dag_api \<Rightarrow> 'g \<Rightarrow> (nat \<times> dag_node) list" where
  "nodes_iter P g = map (\<lambda>i. (i, the (pg_weight P g i))) (pg_indices P g)"

definition node_count :: "'g dag_api \<Rightarrow> 'g \<Rightarrow> nat" where
  "node_count P g = length (pg_indices P g)"

definition edge_count :: "'g dag_api \<Rightarrow> 'g \<Rightarrow> nat" where
  "edge_count P g = length (pg_edges P g)"

definition predecessors :: "'g dag_api \<Rightarrow> 'g \<Rightarrow> nat \<Rightarrow> nat list" where
  "predecessors P g i = pg_incoming P g i"

definition successors :: "'g dag_api \<Rightarrow> 'g \<Rightarrow> nat \<Rightarrow> nat list" where
  "successors P g i = pg_outgoing P g i"

definition validate_dag :: "'g dag_api \<Rightarrow> 'g \<Rightarrow> (unit, dag_error) result" where
  "validate_dag P g =
    (if pg_cyclic P g then Err (CycleDetected 0 0)
     else if pg_toposort P g = None then Err (CycleDetected 0 0)
     else Ok ())"

definition toposort :: "'g dag_api \<Rightarrow> 'g \<Rightarrow> (nat list, dag_error) result" where
  "toposort P g = opt_ok_or (pg_toposort P g) (CycleDetected 0 0)"

fun first_ready :: "'g dag_api \<Rightarrow> 'g \<Rightarrow> nat list \<Rightarrow> nat option" where
  "first_ready P g [] = None"
| "first_ready P g (i # is) =
    (case node P g i of
       None \<Rightarrow> first_ready P g is
     | Some n \<Rightarrow>
         if nd_status n \<noteq> Pending then first_ready P g is
         else if list_all (\<lambda>p. status P g p = Some Completed) (predecessors P g i) then Some i
         else first_ready P g is)"

definition next_ready :: "'g dag_api \<Rightarrow> 'g \<Rightarrow> nat option" where
  "next_ready P g =
    (case toposort P g of Err _ \<Rightarrow> None | Ok order \<Rightarrow> first_ready P g order)"

definition remove_node :: "'g dag_api \<Rightarrow> 'g \<Rightarrow> nat \<Rightarrow> 'g \<times> dag_node option" where
  "remove_node P g i = pg_remove_node P i g"

subsection \<open>Life cycle (graph.rs)\<close>

definition claim :: "'g dag_api \<Rightarrow> 'g \<Rightarrow> nat \<Rightarrow> u32 \<Rightarrow> (unit, dag_error) result \<times> 'g" where
  "claim P g i pid =
    (case node P g i of
       None \<Rightarrow> (Err (NodeNotFound i), g)
     | Some n \<Rightarrow>
       (case nd_claimed_by n of
          Some existing \<Rightarrow>
            if existing \<noteq> pid then (Err (AlreadyClaimed i existing), g) else (Ok (), g)
        | None \<Rightarrow>
            if nd_status n \<noteq> Pending then (Err (InvalidState (nd_status n) Pending), g)
            else (Ok (), pg_set_weight P i
                    (n\<lparr> nd_claimed_by := Some pid, nd_status := Running \<rparr>) g)))"

definition release :: "'g dag_api \<Rightarrow> 'g \<Rightarrow> nat \<Rightarrow> 'g" where
  "release P g i =
    (case node P g i of
       None \<Rightarrow> g
     | Some n \<Rightarrow> pg_set_weight P i
         (n\<lparr> nd_claimed_by := None,
             nd_status := (if nd_status n = Running then Pending else nd_status n) \<rparr>) g)"

definition complete :: "'g dag_api \<Rightarrow> 'g \<Rightarrow> nat \<Rightarrow> json \<Rightarrow> (unit, dag_error) result \<times> 'g" where
  "complete P g i output =
    (case node P g i of
       None \<Rightarrow> (Err (NodeNotFound i), g)
     | Some n \<Rightarrow>
         if nd_status n = Completed then (Ok (), g)
         else if nd_status n \<noteq> Running then (Err (InvalidState (nd_status n) Running), g)
         else (Ok (), pg_set_weight P i
                 (n\<lparr> nd_status := Completed, nd_outputs := output, nd_claimed_by := None,
                     nd_error_message := None \<rparr>) g))"

definition fail :: "'g dag_api \<Rightarrow> 'g \<Rightarrow> nat \<Rightarrow> string \<Rightarrow> 'g" where
  "fail P g i msg =
    (case node P g i of
       None \<Rightarrow> g
     | Some n \<Rightarrow> pg_set_weight P i
         (n\<lparr> nd_status := Failed, nd_error_message := Some msg, nd_claimed_by := None \<rparr>) g)"

definition skip :: "'g dag_api \<Rightarrow> 'g \<Rightarrow> nat \<Rightarrow> 'g" where
  "skip P g i =
    (case node P g i of
       None \<Rightarrow> g
     | Some n \<Rightarrow> pg_set_weight P i (n\<lparr> nd_status := Skipped, nd_claimed_by := None \<rparr>) g)"

subsection \<open>Reports (graph.rs)\<close>

record dag_counts =
  sc_pending :: nat
  sc_running :: nat
  sc_completed :: nat
  sc_failed :: nat
  sc_skipped :: nat

definition status_counts_total :: "dag_counts \<Rightarrow> nat" where
  "status_counts_total c = sc_pending c + sc_running c + sc_completed c + sc_failed c + sc_skipped c"

fun count_status :: "dag_status \<Rightarrow> dag_counts \<Rightarrow> dag_counts" where
  "count_status Pending c = c\<lparr> sc_pending := sc_pending c + 1 \<rparr>"
| "count_status Running c = c\<lparr> sc_running := sc_running c + 1 \<rparr>"
| "count_status Completed c = c\<lparr> sc_completed := sc_completed c + 1 \<rparr>"
| "count_status Failed c = c\<lparr> sc_failed := sc_failed c + 1 \<rparr>"
| "count_status Skipped c = c\<lparr> sc_skipped := sc_skipped c + 1 \<rparr>"

definition status_counts :: "'g dag_api \<Rightarrow> 'g \<Rightarrow> dag_counts" where
  "status_counts P g =
    fold (\<lambda>(i, n). count_status (nd_status n)) (nodes_iter P g)
      \<lparr> sc_pending = 0, sc_running = 0, sc_completed = 0, sc_failed = 0, sc_skipped = 0 \<rparr>"

fun status_json :: "dag_status \<Rightarrow> json" where
  "status_json Pending = JStr ''pending''"
| "status_json Running = JStr ''running''"
| "status_json Completed = JStr ''completed''"
| "status_json Failed = JStr ''failed''"
| "status_json Skipped = JStr ''skipped''"

definition node_json :: "dag_node \<Rightarrow> json" where
  "node_json n = JObj
    [(''id'', JStr (nd_id n)), (''label'', JStr (nd_label n)), (''status'', status_json (nd_status n)),
     (''claimed_by'', jopt (\<lambda>p. JInt (uint p)) (nd_claimed_by n)),
     (''inputs'', nd_inputs n), (''outputs'', nd_outputs n),
     (''error_message'', jopt JStr (nd_error_message n))]"

definition to_json :: "'g dag_api \<Rightarrow> 'g \<Rightarrow> (json, dag_error) result" where
  "to_json P g = Ok (JObj
    [(''nodes'', JArr (map (\<lambda>(i, n). JObj [(''index'', JInt (int i)), (''node'', node_json n)])
        (nodes_iter P g))),
     (''edges'', JArr (map (\<lambda>(a, b, e). JObj [(''from'', JInt (int a)), (''to'', JInt (int b))])
        (pg_edges P g)))])"

subsection \<open>The structural invariant\<close>

definition dag_wf :: "'g dag_api \<Rightarrow> 'g \<Rightarrow> bool" where
  "dag_wf P g \<longleftrightarrow> edges_live P g \<and> acyclic (edge_rel P g)"

text \<open>What the claim protocol keeps of every node.\<close>

definition node_ok :: "dag_node \<Rightarrow> bool" where
  "node_ok n \<longleftrightarrow>
     (nd_claimed_by n \<noteq> None \<longleftrightarrow> nd_status n = Running) \<and>
     (nd_status n = Failed \<longrightarrow> nd_error_message n \<noteq> None) \<and>
     (nd_status n \<in> {Pending, Running, Completed} \<longrightarrow> nd_error_message n = None) \<and>
     (nd_status n \<in> {Pending, Running} \<longrightarrow> nd_outputs n = JNull)"

definition nodes_ok :: "'g dag_api \<Rightarrow> 'g \<Rightarrow> bool" where
  "nodes_ok P g \<longleftrightarrow> (\<forall>i n. pg_weight P g i = Some n \<longrightarrow> node_ok n)"

definition dag_inv :: "'g dag_api \<Rightarrow> 'g \<Rightarrow> bool" where
  "dag_inv P g \<longleftrightarrow> dag_wf P g \<and> nodes_ok P g"

lemma same_graph_live: "same_graph P g h \<Longrightarrow> live P g = live P h"
  by (simp add: same_graph_def live_def)

lemma same_graph_edges: "same_graph P g h \<Longrightarrow> edge_rel P g = edge_rel P h"
  by (simp add: same_graph_def edge_rel_def)

lemma same_graph_wf: "same_graph P g h \<Longrightarrow> dag_wf P g = dag_wf P h"
  by (simp add: dag_wf_def edges_live_def same_graph_live same_graph_edges)

lemma same_graph_inv: "same_graph P g h \<Longrightarrow> dag_inv P g = dag_inv P h"
  by (simp add: dag_inv_def same_graph_wf nodes_ok_def) (simp add: same_graph_def)

lemma live_iff: "i \<in> live P g \<longleftrightarrow> (\<exists>n. pg_weight P g i = Some n)"
  by (auto simp: live_def)

lemma has_node_iff: "has_node P g i \<longleftrightarrow> i \<in> live P g"
  by (auto simp: has_node_def live_def)

lemma dag_node_new_ok [simp]: "node_ok (dag_node_new u l inp)"
  by (simp add: node_ok_def dag_node_new_def)

text \<open>The contract of petgraph at the node and edge types of the DAG runtime.\<close>

locale dag_contract = petgraph_contract P for P :: "'g dag_api"
begin

lemma dag_new_wf: "dag_wf P (dag_new P)"
proof -
  have "edge_rel P (pg_empty P) = {}" by (simp add: edge_rel_def empty_edges)
  then show ?thesis by (simp add: dag_wf_def dag_new_def edges_live_def acyclic_def)
qed

lemma add_node_wf:
  assumes "add_node P g n = (g', i)" "dag_wf P g"
  shows "dag_wf P g'"
proof -
  from assms(1) have a: "pg_add_node P n g = (g', i)" by (simp add: add_node_def)
  have "live P g' = insert i (live P g)" by (simp add: live_def add_node_weight [OF a])
  moreover have "edge_rel P g' = edge_rel P g" by (simp add: edge_rel_def add_node_edges [OF a])
  ultimately show ?thesis using assms(2) by (auto simp: dag_wf_def edges_live_def)
qed

lemma set_weight_wf: "i \<in> live P g \<Longrightarrow> dag_wf P (pg_set_weight P i n g) = dag_wf P g"
  by (simp add: dag_wf_def edges_live_def live_set_weight)

lemma add_edge_self: "add_edge P g a a = (Err (CycleDetected a a), g)"
  by (simp add: add_edge_def)

lemma add_edge_dead:
  "a \<noteq> b \<Longrightarrow> a \<notin> live P g \<or> b \<notin> live P g \<Longrightarrow>
    add_edge P g a b = (Err (NodeNotFound (if a \<notin> live P g then a else b)), g)"
  by (auto simp: add_edge_def has_node_iff)

lemma pg_cyclic_add:
  assumes "dag_wf P g" "a \<in> live P g" "b \<in> live P g"
  shows "pg_cyclic P (pg_add_edge P a b e g) \<longleftrightarrow> (b, a) \<in> (edge_rel P g)\<^sup>*"
proof -
  have r: "edge_rel P (pg_add_edge P a b e g) = insert (a, b) (edge_rel P g)"
    using assms by (simp add: edge_rel_add_edge)
  with assms have "edges_live P (pg_add_edge P a b e g)" by (auto simp: edges_live_def dag_wf_def)
  with r assms(1) show ?thesis by (simp add: cyclic acyclic_insert dag_wf_def)
qed

lemma add_edge_cycle:
  assumes "dag_wf P g" "a \<in> live P g" "b \<in> live P g" "(b, a) \<in> (edge_rel P g)\<^sup>*"
  shows "\<exists>h. add_edge P g a b = (Err (CycleDetected a b), h) \<and> same_graph P h g"
  using assms pg_cyclic_add [OF assms(1-3)] rollback [OF assms(2,3)]
  by (auto simp: add_edge_def has_node_iff Let_def)

lemma add_edge_ok:
  assumes "dag_wf P g" "a \<in> live P g" "b \<in> live P g" "(b, a) \<notin> (edge_rel P g)\<^sup>*"
  shows "add_edge P g a b = (Ok (), pg_add_edge P a b dag_edge_new g)"
  using assms pg_cyclic_add [OF assms(1-3)]
  by (auto simp: add_edge_def has_node_iff Let_def)

lemma add_edge_same_nodes:
  "dag_wf P g \<Longrightarrow> pg_weight P (snd (add_edge P g a b)) = pg_weight P g"
  by (cases "a = b"; cases "a \<in> live P g"; cases "b \<in> live P g"; cases "(b, a) \<in> (edge_rel P g)\<^sup>*")
     (auto simp: add_edge_self add_edge_dead add_edge_ok add_edge_weight same_graph_def
        dest: add_edge_cycle)

lemma add_edge_wf:
  assumes "dag_wf P g"
  shows "dag_wf P (snd (add_edge P g a b))"
proof (cases "a \<noteq> b \<and> a \<in> live P g \<and> b \<in> live P g")
  case False
  with assms show ?thesis by (cases "a = b") (auto simp: add_edge_self add_edge_dead)
next
  case True
  then have l: "a \<in> live P g" "b \<in> live P g" by auto
  show ?thesis
  proof (cases "(b, a) \<in> (edge_rel P g)\<^sup>*")
    case True
    from add_edge_cycle [OF assms l True] assms show ?thesis by (auto simp: same_graph_wf)
  next
    case False
    with assms l have "edges_live P (pg_add_edge P a b dag_edge_new g)"
      by (auto simp: edges_live_def dag_wf_def edge_rel_add_edge)
    with add_edge_ok [OF assms l False] assms l False show ?thesis
      by (simp add: dag_wf_def edge_rel_add_edge acyclic_insert)
  qed
qed

lemma remove_node_wf:
  assumes "remove_node P g i = (g', w)" "dag_wf P g"
  shows "dag_wf P g'"
proof -
  from assms(1) have r: "pg_remove_node P i g = (g', w)" by (simp add: remove_node_def)
  have "edge_rel P g' = {(a, b) \<in> edge_rel P g. a \<noteq> i \<and> b \<noteq> i}"
    by (auto simp: edge_rel_def remove_node_edges [OF r])
  moreover have "live P g' = live P g - {i}"
    using remove_node_weight [OF r] by (auto simp: live_def)
  moreover have "acyclic {(a, b) \<in> edge_rel P g. a \<noteq> i \<and> b \<noteq> i}"
    using assms(2) by (auto simp: dag_wf_def intro: acyclic_subset)
  ultimately show ?thesis using assms(2) by (auto simp: dag_wf_def edges_live_def)
qed

text \<open>The life-cycle operations rewrite one node and leave the structure alone.\<close>

lemma claim_cases:
  assumes "claim P g i pid = (r, g')"
  shows "g' = g \<or> (\<exists>n. pg_weight P g i = Some n \<and> nd_claimed_by n = None \<and> nd_status n = Pending \<and>
           r = Ok () \<and> g' = pg_set_weight P i (n\<lparr> nd_claimed_by := Some pid, nd_status := Running \<rparr>) g)"
  using assms by (auto simp: claim_def node_def split: option.splits if_splits)

lemma complete_cases:
  assumes "complete P g i out = (r, g')"
  shows "g' = g \<or> (\<exists>n. pg_weight P g i = Some n \<and> nd_status n = Running \<and> r = Ok () \<and>
           g' = pg_set_weight P i (n\<lparr> nd_status := Completed, nd_outputs := out,
                  nd_claimed_by := None, nd_error_message := None \<rparr>) g)"
  using assms by (auto simp: complete_def node_def split: option.splits if_splits)

lemma rewrite_wf:
  "pg_weight P g i = Some m \<Longrightarrow> dag_wf P (pg_set_weight P i n g) = dag_wf P g"
  by (rule set_weight_wf) (simp add: live_iff)

lemma rewrite_nodes_ok:
  "pg_weight P g i = Some m \<Longrightarrow> nodes_ok P g \<Longrightarrow> node_ok n \<Longrightarrow> nodes_ok P (pg_set_weight P i n g)"
  using set_weight [of i g n] by (auto simp: nodes_ok_def live_iff)

lemma rewrite_inv:
  "pg_weight P g i = Some m \<Longrightarrow> dag_inv P g \<Longrightarrow> (node_ok m \<Longrightarrow> node_ok n) \<Longrightarrow>
    dag_inv P (pg_set_weight P i n g)"
  unfolding dag_inv_def using rewrite_wf rewrite_nodes_ok by (metis nodes_ok_def)

lemma new_inv [inv_intros]: "dag_inv P (dag_new P)"
  by (simp add: dag_inv_def dag_new_wf nodes_ok_def) (simp add: dag_new_def empty_weight)

lemma add_node_inv [inv_intros]:
  assumes "dag_inv P g" "node_ok n" "add_node P g n = (g', i)"
  shows "dag_inv P g'"
proof -
  from assms(3) have a: "pg_add_node P n g = (g', i)" by (simp add: add_node_def)
  with assms add_node_wf [OF assms(3)] show ?thesis
    by (auto simp: dag_inv_def nodes_ok_def add_node_weight [OF a] split: if_splits)
qed

lemma add_edge_inv [inv_intros]: "dag_inv P g \<Longrightarrow> dag_inv P (snd (add_edge P g a b))"
  using add_edge_wf [of g a b] add_edge_same_nodes [of g a b]
  by (simp add: dag_inv_def nodes_ok_def)

lemma claim_inv [inv_intros]: "dag_inv P g \<Longrightarrow> dag_inv P (snd (claim P g i pid))"
  using claim_cases [of g i pid "fst (claim P g i pid)" "snd (claim P g i pid)"]
  by (auto intro!: rewrite_inv) (auto simp: node_ok_def)

lemma release_inv [inv_intros]: "dag_inv P g \<Longrightarrow> dag_inv P (release P g i)"
  by (auto simp: release_def node_def node_ok_def split: option.splits intro!: rewrite_inv)

lemma complete_inv [inv_intros]: "dag_inv P g \<Longrightarrow> dag_inv P (snd (complete P g i out))"
  using complete_cases [of g i out "fst (complete P g i out)" "snd (complete P g i out)"]
  by (auto intro!: rewrite_inv) (auto simp: node_ok_def)

lemma fail_inv [inv_intros]: "dag_inv P g \<Longrightarrow> dag_inv P (fail P g i msg)"
  by (auto simp: fail_def node_def node_ok_def split: option.splits intro!: rewrite_inv)

lemma skip_inv [inv_intros]: "dag_inv P g \<Longrightarrow> dag_inv P (skip P g i)"
  by (auto simp: skip_def node_def node_ok_def split: option.splits intro!: rewrite_inv)

lemma remove_node_inv [inv_intros]:
  assumes "dag_inv P g" "remove_node P g i = (g', w)"
  shows "dag_inv P g'"
proof -
  from assms(2) have r: "pg_remove_node P i g = (g', w)" by (simp add: remove_node_def)
  with assms remove_node_wf [OF assms(2)] remove_node_weight [OF r] show ?thesis
    by (auto simp: dag_inv_def nodes_ok_def split: if_splits)
qed

end

subsection \<open>The graph as a transition system\<close>

text \<open>The operations of the claim protocol, one rule each: new nodes come from \<^verbatim>\<open>DagNode::new\<close>, and nodes change
  only by the life-cycle operations.\<close>

inductive dag_step :: "'g dag_api \<Rightarrow> 'g \<Rightarrow> 'g \<Rightarrow> bool" for P where
  step_add_node: "dag_step P g (fst (add_node P g (dag_node_new uuid label inputs)))"
| step_add_edge: "dag_step P g (snd (add_edge P g a b))"
| step_claim: "dag_step P g (snd (claim P g i pid))"
| step_release: "dag_step P g (release P g i)"
| step_complete: "dag_step P g (snd (complete P g i out))"
| step_fail: "dag_step P g (fail P g i msg)"
| step_skip: "dag_step P g (skip P g i)"
| step_remove: "dag_step P g (fst (remove_node P g i))"

inductive dag_reachable :: "'g dag_api \<Rightarrow> 'g \<Rightarrow> bool" for P where
  reach_new: "dag_reachable P (dag_new P)"
| reach_step: "dag_reachable P g \<Longrightarrow> dag_step P g h \<Longrightarrow> dag_reachable P h"

text \<open>The whole public interface: besides, \<^verbatim>\<open>add_node\<close> takes any node and \<^verbatim>\<open>node_mut\<close> lets the caller make
  any change \<open>f\<close> to a node.\<close>

inductive dag_public :: "'g dag_api \<Rightarrow> 'g \<Rightarrow> bool" for P where
  public_new: "dag_public P (dag_new P)"
| public_step: "dag_public P g \<Longrightarrow> dag_step P g h \<Longrightarrow> dag_public P h"
| public_add: "dag_public P g \<Longrightarrow> dag_public P (fst (add_node P g n))"
| public_mut: "dag_public P g \<Longrightarrow> dag_public P (node_mut P g i f)"

lemma reachable_public: "dag_reachable P g \<Longrightarrow> dag_public P g"
  by (induction rule: dag_reachable.induct) (auto intro: dag_public.intros)

context dag_contract
begin

lemma step_inv: "dag_step P g h \<Longrightarrow> dag_inv P g \<Longrightarrow> dag_inv P h"
  by (erule dag_step.cases) (auto intro!: inv_intros add_node_inv [OF _ _ surjective_pairing]
       remove_node_inv [OF _ surjective_pairing])

lemma reachable_inv: "dag_reachable P g \<Longrightarrow> dag_inv P g"
  by (induction rule: dag_reachable.induct) (auto intro: new_inv step_inv)

text \<open>The structure survives any change of a node, so the structural part holds for the whole interface.\<close>

lemma release_mut: "release P g i =
    node_mut P g i (\<lambda>n. n\<lparr> nd_claimed_by := None, nd_status := (if nd_status n = Running then Pending else nd_status n) \<rparr>)"
  by (simp add: release_def node_mut_def)

lemma fail_mut: "fail P g i msg =
    node_mut P g i (\<lambda>n. n\<lparr> nd_status := Failed, nd_error_message := Some msg, nd_claimed_by := None \<rparr>)"
  by (simp add: fail_def node_mut_def)

lemma skip_mut: "skip P g i = node_mut P g i (\<lambda>n. n\<lparr> nd_status := Skipped, nd_claimed_by := None \<rparr>)"
  by (simp add: skip_def node_mut_def)

lemma node_mut_wf: "dag_wf P (node_mut P g i f) = dag_wf P g"
  by (auto simp: node_mut_def node_def rewrite_wf split: option.split)

lemma step_wf:
  assumes "dag_step P g h" "dag_wf P g" shows "dag_wf P h"
  using assms(1)
proof cases
  case (step_claim i pid)
  with claim_cases [of g i pid "fst (claim P g i pid)" h] assms(2) show ?thesis by (auto simp: rewrite_wf)
next
  case (step_complete i out)
  with complete_cases [of g i out "fst (complete P g i out)" h] assms(2) show ?thesis by (auto simp: rewrite_wf)
qed (use assms(2) in \<open>simp_all add: release_mut fail_mut skip_mut node_mut_wf add_edge_wf
       add_node_wf [OF surjective_pairing] remove_node_wf [OF surjective_pairing]\<close>)

lemma public_wf: "dag_public P g \<Longrightarrow> dag_wf P g"
  by (induction rule: dag_public.induct)
    (simp_all add: dag_new_wf step_wf node_mut_wf add_node_wf [OF surjective_pairing])

end

subsection \<open>Scheduling\<close>

text \<open>A node may start when it is \<open>Pending\<close> and every predecessor is \<open>Completed\<close>.\<close>

definition ready :: "'g dag_api \<Rightarrow> 'g \<Rightarrow> nat \<Rightarrow> bool" where
  "ready P g i \<longleftrightarrow> status P g i = Some Pending \<and>
     (\<forall>p. (p, i) \<in> edge_rel P g \<longrightarrow> status P g p = Some Completed)"

text \<open>A driver that starts only what \<open>next_ready\<close> returns.\<close>

inductive sched_step :: "'g dag_api \<Rightarrow> 'g \<Rightarrow> 'g \<Rightarrow> bool" for P where
  sched_start: "next_ready P g = Some i \<Longrightarrow> sched_step P g (snd (claim P g i pid))"
| sched_complete: "sched_step P g (snd (complete P g i out))"
| sched_release: "sched_step P g (release P g i)"
| sched_fail: "status P g i = Some Running \<Longrightarrow> sched_step P g (fail P g i msg)"
| sched_skip: "status P g i = Some Pending \<Longrightarrow> sched_step P g (skip P g i)"

definition deps_done :: "'g dag_api \<Rightarrow> 'g \<Rightarrow> bool" where
  "deps_done P g \<longleftrightarrow> (\<forall>a b. (a, b) \<in> edge_rel P g \<longrightarrow>
     status P g b \<in> {Some Running, Some Completed, Some Failed} \<longrightarrow> status P g a = Some Completed)"

lemma deps_doneD:
  "deps_done P g \<Longrightarrow> (a, b) \<in> edge_rel P g \<Longrightarrow>
    status P g b \<in> {Some Running, Some Completed, Some Failed} \<Longrightarrow> status P g a = Some Completed"
  unfolding deps_done_def by blast

lemma status_Some: "status P g i = Some s \<longleftrightarrow> (\<exists>n. pg_weight P g i = Some n \<and> nd_status n = s)"
  by (auto simp: status_def node_def)

context dag_contract
begin

lemma status_rewrite:
  "pg_weight P g i = Some m \<Longrightarrow>
    status P (pg_set_weight P i n g) j = (if j = i then Some (nd_status n) else status P g j)"
  using set_weight [of i g n] by (auto simp: status_def node_def live_iff)

lemma ready_test:
  "pg_weight P g i = Some n \<Longrightarrow> nd_status n = Pending \<Longrightarrow>
    list_all (\<lambda>p. status P g p = Some Completed) (predecessors P g i) \<longleftrightarrow> ready P g i"
  by (auto simp: ready_def list_all_iff predecessors_def incoming status_Some)

lemma first_ready_Some:
  "first_ready P g xs = Some i \<Longrightarrow> \<exists>ys zs. xs = ys @ i # zs \<and> ready P g i \<and> (\<forall>y \<in> set ys. \<not> ready P g y)"
proof (induction xs)
  case Nil
  then show ?case by simp
next
  case (Cons x xs)
  show ?case
  proof (cases "ready P g x")
    case True
    then obtain n where "pg_weight P g x = Some n" "nd_status n = Pending"
      by (auto simp: ready_def status_Some)
    with Cons.prems True have "i = x" by (simp add: node_def ready_test)
    with True have "x # xs = [] @ i # xs \<and> ready P g i \<and> (\<forall>y \<in> set []. \<not> ready P g y)" by simp
    then show ?thesis by blast
  next
    case False
    with Cons.prems have "first_ready P g xs = Some i"
      by (auto simp: node_def ready_test split: option.splits if_splits)
    from Cons.IH [OF this] obtain ys zs
      where "xs = ys @ i # zs" "ready P g i" "\<forall>y \<in> set ys. \<not> ready P g y" by auto
    with False have "x # xs = (x # ys) @ i # zs \<and> ready P g i \<and> (\<forall>y \<in> set (x # ys). \<not> ready P g y)"
      by simp
    then show ?thesis by blast
  qed
qed

lemma first_ready_None: "first_ready P g xs = None \<Longrightarrow> i \<in> set xs \<Longrightarrow> \<not> ready P g i"
proof (induction xs)
  case Nil
  then show ?case by simp
next
  case (Cons x xs)
  have "\<not> ready P g x \<and> first_ready P g xs = None"
  proof (cases "ready P g x")
    case True
    then obtain n where "pg_weight P g x = Some n" "nd_status n = Pending"
      by (auto simp: ready_def status_Some)
    with Cons.prems(1) True show ?thesis by (simp add: node_def ready_test)
  next
    case False
    with Cons.prems(1) show ?thesis
      by (auto simp: node_def ready_test split: option.splits if_splits)
  qed
  with Cons show ?case by auto
qed

lemma toposort_wf:
  assumes "dag_wf P g"
  obtains xs where "toposort P g = Ok xs" "distinct xs" "set xs = live P g"
    "topo_sorted (edge_rel P g) xs"
proof -
  from assms have l: "edges_live P g" and "acyclic (edge_rel P g)" by (auto simp: dag_wf_def)
  with toposort_exists obtain xs where xs: "pg_toposort P g = Some xs" by blast
  from toposort_Some [OF l xs] xs that show ?thesis by (auto simp: toposort_def)
qed

lemma validate_wf: "dag_wf P g \<Longrightarrow> validate_dag P g = Ok ()"
  using toposort_exists [of g] cyclic [of g] by (auto simp: validate_dag_def dag_wf_def)

lemma next_ready_Some:
  assumes "dag_wf P g" "next_ready P g = Some i"
  shows "\<exists>ys zs. toposort P g = Ok (ys @ i # zs) \<and> ready P g i \<and> (\<forall>y \<in> set ys. \<not> ready P g y)"
proof -
  from toposort_wf [OF assms(1)] obtain xs where "toposort P g = Ok xs" .
  with assms(2) first_ready_Some [of g xs i] show ?thesis by (auto simp: next_ready_def)
qed

lemma next_ready_None:
  assumes "dag_wf P g"
  shows "next_ready P g = None \<longleftrightarrow> (\<forall>i. \<not> ready P g i)"
proof -
  from toposort_wf [OF assms(1)] obtain xs where xs: "toposort P g = Ok xs" "set xs = live P g" .
  have "ready P g i \<Longrightarrow> i \<in> set xs" for i
    using xs(2) by (auto simp: ready_def status_Some live_iff)
  with xs(1) first_ready_Some [of g xs] first_ready_None [of g xs] show ?thesis
    by (auto simp: next_ready_def) (metis option.exhaust)
qed

lemma progress:
  assumes "dag_wf P g" "status P g k = Some Pending"
    and "\<forall>i s. status P g i = Some s \<longrightarrow> s = Pending \<or> s = Completed"
  shows "\<exists>i. ready P g i"
proof -
  let ?A = "{i. status P g i = Some Pending}"
  from assms(1) have a: "acyclic (edge_rel P g)" and l: "edges_live P g" by (auto simp: dag_wf_def)
  from assms(2) have "?A \<noteq> {}" by auto
  from acyclic_has_source [OF a finite_edge_rel this] obtain x
    where x: "x \<in> ?A" "\<forall>y \<in> ?A. (y, x) \<notin> edge_rel P g" by auto
  have "status P g p = Some Completed" if e: "(p, x) \<in> edge_rel P g" for p
  proof -
    from e l have "p \<in> live P g" by (auto simp: edges_live_def)
    then obtain s where "status P g p = Some s" by (auto simp: live_iff status_Some)
    with assms(3) x(2) e show ?thesis by auto
  qed
  with x(1) show ?thesis by (auto simp: ready_def)
qed

lemma sched_wf: "sched_step P g h \<Longrightarrow> dag_wf P g \<Longrightarrow> dag_wf P h \<and> edge_rel P h = edge_rel P g"
  by (erule sched_step.cases)
     (auto simp: claim_def complete_def release_def fail_def skip_def node_def rewrite_wf
        split: option.splits)

text \<open>A rewritten node keeps \<open>deps_done\<close> when it was not \<open>Completed\<close> and, if it starts, was ready.\<close>

lemma rewrite_deps:
  assumes "deps_done P g" "pg_weight P g i = Some m"
    and "nd_status m \<noteq> Completed \<or> nd_status n = Completed"
    and "nd_status n \<in> {Running, Completed, Failed} \<Longrightarrow>
      nd_status m \<in> {Running, Completed, Failed} \<or> ready P g i"
  shows "deps_done P (pg_set_weight P i n g)"
  unfolding deps_done_def edge_rel_set_weight status_rewrite [OF assms(2)]
proof (intro allI impI)
  fix a b
  assume e: "(a, b) \<in> edge_rel P g"
    and s: "(if b = i then Some (nd_status n) else status P g b) \<in> {Some Running, Some Completed, Some Failed}"
  have "status P g a = Some Completed"
  proof (cases "b = i")
    case True
    with s assms(4) have "nd_status m \<in> {Running, Completed, Failed} \<or> ready P g b" by auto
    then show ?thesis
      using deps_doneD [OF assms(1) e] True assms(2) e by (auto simp: ready_def status_Some)
  next
    case False
    with s deps_doneD [OF assms(1) e] show ?thesis by simp
  qed
  with assms(2,3) show "(if a = i then Some (nd_status n) else status P g a) = Some Completed"
    by (auto simp: status_Some)
qed

lemma sched_deps:
  assumes "sched_step P g h" "dag_wf P g" "deps_done P g"
  shows "deps_done P h"
  using assms(1)
proof cases
  case (sched_start i pid)
  with next_ready_Some [OF assms(2), of i] have "ready P g i" by auto
  with sched_start(1) claim_cases [of g i pid "fst (claim P g i pid)" h] assms(3)
  show ?thesis by (auto intro!: rewrite_deps)
next
  case (sched_complete i out)
  with complete_cases [of g i out "fst (complete P g i out)" h] assms(3)
  show ?thesis by (auto intro!: rewrite_deps)
next
  case (sched_release i)
  with assms(3) show ?thesis
    by (auto simp: release_def node_def split: option.splits intro!: rewrite_deps)
next
  case (sched_fail i msg)
  with assms(3) show ?thesis
    by (auto simp: fail_def node_def status_Some split: option.splits intro!: rewrite_deps)
next
  case (sched_skip i)
  with assms(3) show ?thesis
    by (auto simp: skip_def node_def status_Some split: option.splits intro!: rewrite_deps)
qed

lemma sched_run:
  "(sched_step P)\<^sup>*\<^sup>* g h \<Longrightarrow> dag_wf P g \<Longrightarrow> deps_done P g \<Longrightarrow> dag_wf P h \<and> deps_done P h"
  by (induction rule: rtranclp_induct) (use sched_wf sched_deps in blast)+

end

definition holder :: "'g dag_api \<Rightarrow> 'g \<Rightarrow> nat \<Rightarrow> u32 option" where
  "holder P g i = Option.bind (node P g i) nd_claimed_by"

context dag_contract
begin

lemma holder_rewrite:
  "pg_weight P g i = Some m \<Longrightarrow>
    holder P (pg_set_weight P i n g) j = (if j = i then nd_claimed_by n else holder P g j)"
  using set_weight [of i g n] by (auto simp: holder_def node_def live_iff)

lemma holder_step:
  assumes "dag_step P g h" "dag_wf P g" "holder P g i = Some p"
  shows "holder P h i = Some p \<or> holder P h i = None"
  using assms(1)
proof cases
  case (step_add_node uuid label inputs)
  then obtain k where a: "pg_add_node P (dag_node_new uuid label inputs) g = (h, k)"
    by (metis add_node_def prod.collapse)
  with assms(3) add_node_fresh [OF a] show ?thesis
    by (auto simp: holder_def node_def add_node_weight [OF a])
next
  case (step_add_edge a b)
  with assms show ?thesis using add_edge_same_nodes [of g a b] by (simp add: holder_def node_def)
next
  case (step_claim k pid)
  with claim_cases [of g k pid "fst (claim P g k pid)" h] assms(3) show ?thesis
    by (cases "i = k") (auto simp: holder_rewrite, auto simp: holder_def node_def)
next
  case (step_complete k out)
  with complete_cases [of g k out "fst (complete P g k out)" h] assms(3) show ?thesis
    by (cases "i = k") (auto simp: holder_rewrite)
next
  case (step_remove k)
  then obtain w where r: "pg_remove_node P k g = (h, w)" by (metis remove_node_def prod.collapse)
  with remove_node_weight [OF r] assms(3) show ?thesis by (auto simp: holder_def node_def)
qed (use assms(3) in \<open>auto simp: release_def fail_def skip_def node_def [of P g] holder_rewrite
       split: option.splits\<close>)

lemma add_edge_spec_aux:
  assumes "dag_wf P g"
  shows "case add_edge P g a b of
      (Ok _, h) \<Rightarrow> a \<noteq> b \<and> a \<in> live P g \<and> b \<in> live P g \<and> (b, a) \<notin> (edge_rel P g)\<^sup>* \<and>
        pg_weight P h = pg_weight P g \<and> endpoints P h = add_mset (a, b) (endpoints P g) \<and> dag_wf P h
    | (Err e, h) \<Rightarrow> same_graph P h g \<and>
        (e = CycleDetected a b \<and> (b, a) \<in> (edge_rel P g)\<^sup>* \<or>
         e = NodeNotFound (if a \<notin> live P g then a else b) \<and> a \<noteq> b \<and> (a \<notin> live P g \<or> b \<notin> live P g))"
proof (cases "a \<noteq> b \<and> a \<in> live P g \<and> b \<in> live P g")
  case False
  then show ?thesis by (cases "a = b") (auto simp: add_edge_self add_edge_dead)
next
  case True
  then have l: "a \<in> live P g" "b \<in> live P g" by auto
  show ?thesis
  proof (cases "(b, a) \<in> (edge_rel P g)\<^sup>*")
    case True
    from add_edge_cycle [OF assms l True] True show ?thesis by auto
  next
    case False
    with add_edge_ok [OF assms l False] add_edge_wf [OF assms, of a b] True l show ?thesis
      by (auto simp: add_edge_weight add_edge_edges)
  qed
qed

lemma claim_held:
  "holder P g i = Some p \<Longrightarrow>
    claim P g i q = (if q = p then Ok () else Err (AlreadyClaimed i p), g)"
  by (auto simp: claim_def holder_def node_def bind_eq_Some_conv)

lemma complete_spec:
  assumes "complete P g i out = (Ok (), h)"
  shows "complete P h i out' = (Ok (), h) \<and> status P h i = Some Completed \<and>
    (status P g i = Some Completed \<and> h = g \<or>
     status P g i = Some Running \<and> holder P h i = None \<and> map_option nd_outputs (node P h i) = Some out)"
proof -
  obtain n where n: "pg_weight P g i = Some n"
    using assms by (auto simp: complete_def node_def split: option.splits)
  show ?thesis
  proof (cases "nd_status n = Completed")
    case True
    with assms n show ?thesis by (auto simp: complete_def node_def status_def)
  next
    case False
    define m where "m = n\<lparr> nd_status := Completed, nd_outputs := out, nd_claimed_by := None,
      nd_error_message := None \<rparr>"
    from False assms n have r: "nd_status n = Running" and h: "h = pg_set_weight P i m g"
      by (auto simp: complete_def node_def m_def split: if_splits)
    have "pg_weight P h i = Some m" using n h by (simp add: set_weight live_iff)
    with r n show ?thesis
      by (simp add: complete_def node_def status_def holder_def) (simp add: m_def)
  qed
qed

end

interpretation ref_dag: dag_contract "ref_petgraph :: (dag_node, dag_edge) ref_graph dag_api"
  by (intro dag_contract.intro ref_pg.petgraph_contract_axioms)

lemmas ref_dag_contract = ref_dag.dag_contract_axioms

subsection \<open>Properties\<close>

text \<open>A two-node plan on the reference implementation, for the witnesses.\<close>

abbreviation refP :: "(dag_node, dag_edge) ref_graph dag_api" where
  "refP \<equiv> ref_petgraph"

definition sample_nodes :: "(dag_node, dag_edge) ref_graph" where
  "sample_nodes =
     fst (add_node refP (fst (add_node refP (dag_new refP) (dag_node_new ''u0'' ''fetch'' JNull)))
       (dag_node_new ''u1'' ''build'' JNull))"

definition sample_dag :: "(dag_node, dag_edge) ref_graph" where
  "sample_dag = snd (add_edge refP sample_nodes 0 1)"

lemma ref_weight: "pg_weight refP g i = map_of (rg_nodes g) i"
  by (simp add: ref_petgraph_def)

lemma sample_nodes_reachable: "dag_reachable refP sample_nodes"
  unfolding sample_nodes_def by (rule reach_step [OF reach_step [OF reach_new step_add_node] step_add_node])

lemma sample_reachable: "dag_reachable refP sample_dag"
  unfolding sample_dag_def by (rule reach_step [OF sample_nodes_reachable step_add_edge])

lemma sample_nodes_wf: "dag_wf refP sample_nodes"
  using ref_dag.reachable_inv [OF sample_nodes_reachable] by (simp add: dag_inv_def)

lemma sample_wf: "dag_wf refP sample_dag"
  using ref_dag.reachable_inv [OF sample_reachable] by (simp add: dag_inv_def)



text \<open>C2: \<^verbatim>\<open>add_edge\<close> succeeds exactly when both end points are live and the target does not
  already reach the source (a self-loop counts as a cycle), and then adds that one edge; on any
  error the graph is as it was, the tentative edge included.\<close>

theorem add_edge_spec:
  assumes "dag_contract P" "dag_wf P g"
  shows "case add_edge P g a b of
      (Ok _, h) \<Rightarrow> a \<noteq> b \<and> a \<in> live P g \<and> b \<in> live P g \<and> (b, a) \<notin> (edge_rel P g)\<^sup>* \<and>
        pg_weight P h = pg_weight P g \<and> endpoints P h = add_mset (a, b) (endpoints P g) \<and> dag_wf P h
    | (Err e, h) \<Rightarrow> same_graph P h g \<and>
        (e = CycleDetected a b \<and> (b, a) \<in> (edge_rel P g)\<^sup>* \<or>
         e = NodeNotFound (if a \<notin> live P g then a else b) \<and> a \<noteq> b \<and> (a \<notin> live P g \<or> b \<notin> live P g))"
  using assms by (rule dag_contract.add_edge_spec_aux)

theorem add_edge_spec_witness:
  "fst (add_edge refP sample_nodes 0 1) = Ok () \<and> (1, 0) \<notin> (edge_rel refP sample_nodes)\<^sup>* \<and>
   fst (add_edge refP sample_dag 1 0) = Err (CycleDetected 1 0) \<and> (0, 1) \<in> (edge_rel refP sample_dag)\<^sup>*"
proof -
  have a: "fst (add_edge refP sample_nodes 0 1) = Ok ()" by code_simp
  have b: "fst (add_edge refP sample_dag 1 0) = Err (CycleDetected 1 0)" by code_simp
  from a add_edge_spec [OF ref_dag_contract sample_nodes_wf, of 0 1]
  have "(1, 0) \<notin> (edge_rel refP sample_nodes)\<^sup>*" by (auto split: prod.splits)
  moreover from b add_edge_spec [OF ref_dag_contract sample_wf, of 1 0]
  have "(0, 1) \<in> (edge_rel refP sample_dag)\<^sup>*" by (auto split: prod.splits)
  ultimately show ?thesis using a b by blast
qed

text \<open>C3: the claim on a node never passes directly from one process to another: whatever operation
  of the claim protocol runs next, the node is still held by the same PID or by none, and while it is held a
  claim by another PID is refused with the holder's PID and changes nothing.\<close>

theorem claim_exclusive:
  assumes "dag_contract P" "dag_wf P g" "holder P g i = Some p"
  shows "(\<forall>h. dag_step P g h \<longrightarrow> holder P h i = Some p \<or> holder P h i = None) \<and>
    (\<forall>q. claim P g i q = (if q = p then Ok () else Err (AlreadyClaimed i p), g))"
  using dag_contract.holder_step [OF assms(1) _ assms(2,3)] dag_contract.claim_held [OF assms(1,3)]
  by blast

theorem claim_exclusive_witness:
  "fst (claim refP (snd (claim refP sample_dag 0 7)) 0 8) = Err (AlreadyClaimed 0 7)"
proof -
  let ?h = "snd (claim refP sample_dag 0 7)"
  have "dag_wf refP ?h"
    using ref_dag.claim_inv [OF ref_dag.reachable_inv [OF sample_reachable]] by (simp add: dag_inv_def)
  moreover have "holder refP ?h 0 = Some 7" by code_simp
  ultimately show ?thesis using claim_exclusive [OF ref_dag_contract, of ?h 0 7] by simp
qed

text \<open>Completion is idempotent under replay: after a \<^verbatim>\<open>complete\<close> that succeeded, a second
  one with any other output succeeds and changes nothing; the first one either found the node
  Completed and changed nothing, or moved it from Running to Completed, stored its own output and
  cleared the claim.\<close>

theorem complete_replay:
  assumes "dag_contract P" "complete P g i out = (Ok (), h)"
  shows "complete P h i out' = (Ok (), h) \<and> status P h i = Some Completed \<and>
    (status P g i = Some Completed \<and> h = g \<or>
     status P g i = Some Running \<and> holder P h i = None \<and> map_option nd_outputs (node P h i) = Some out)"
  using assms by (rule dag_contract.complete_spec)

theorem complete_replay_witness:
  "fst (complete refP (snd (complete refP (snd (claim refP sample_dag 0 7)) 0 (JInt 1))) 0 (JInt 2)) = Ok ()"
proof -
  let ?g = "snd (claim refP sample_dag 0 7)"
  have "fst (complete refP ?g 0 (JInt 1)) = Ok ()" by code_simp
  then have "complete refP ?g 0 (JInt 1) = (Ok (), snd (complete refP ?g 0 (JInt 1)))"
    by (simp add: prod_eq_iff)
  from complete_replay [OF ref_dag_contract this, of "JInt 2"] show ?thesis by simp
qed

text \<open>\<^verbatim>\<open>next_ready\<close> returns the first ready node of the topological order (Pending, with
  every predecessor Completed) and returns nothing only when no node is ready; while some node is
  Pending and every other is Pending or Completed, it does return one.\<close>

theorem next_ready_spec:
  assumes "dag_contract P" "dag_wf P g"
  shows "case next_ready P g of
      Some i \<Rightarrow> ready P g i \<and> (\<exists>ys zs. toposort P g = Ok (ys @ i # zs) \<and> (\<forall>y \<in> set ys. \<not> ready P g y))
    | None \<Rightarrow> (\<forall>i. \<not> ready P g i) \<and>
        ((\<exists>k. status P g k = Some Pending) \<longrightarrow>
         (\<exists>i. status P g i \<in> {Some Running, Some Failed, Some Skipped}))"
proof (cases "next_ready P g")
  case None
  then have n: "\<forall>i. \<not> ready P g i" using dag_contract.next_ready_None [OF assms] by simp
  have "\<exists>i. status P g i \<in> {Some Running, Some Failed, Some Skipped}"
    if "status P g k = Some Pending" for k
  proof (rule ccontr)
    assume no: "\<nexists>i. status P g i \<in> {Some Running, Some Failed, Some Skipped}"
    have "s = Pending \<or> s = Completed" if "status P g i = Some s" for i s
      using no that by (cases s) auto
    with dag_contract.progress [OF assms that] n show False by blast
  qed
  with None n show ?thesis by auto
next
  case (Some i)
  with dag_contract.next_ready_Some [OF assms Some] show ?thesis by auto
qed

theorem next_ready_spec_witness: "next_ready refP sample_dag = Some 0 \<and> ready refP sample_dag 0"
proof -
  have "next_ready refP sample_dag = Some 0" by code_simp
  with next_ready_spec [OF ref_dag_contract sample_wf] show ?thesis by simp
qed

text \<open>C4: a driver that starts only what \<^verbatim>\<open>next_ready\<close> returns never runs a node early: from a
  graph whose nodes are all Pending, in every state it can reach (claims, completions, releases,
  failures of running nodes, skips of pending ones, in any order) a node that is Running,
  Completed or Failed has every predecessor Completed.\<close>

theorem schedule_respects_edges:
  assumes "dag_contract P" "dag_wf P g" "\<forall>i s. status P g i = Some s \<longrightarrow> s = Pending"
    and "(sched_step P)\<^sup>*\<^sup>* g h" "(a, b) \<in> edge_rel P h"
    and "status P h b \<in> {Some Running, Some Completed, Some Failed}"
  shows "status P h a = Some Completed"
proof -
  have "deps_done P g" using assms(3) unfolding deps_done_def by fastforce
  from dag_contract.sched_run [OF assms(1,4,2) this] assms(5,6) show ?thesis by (blast dest: deps_doneD)
qed

definition sample_run :: "(dag_node, dag_edge) ref_graph" where
  "sample_run = snd (claim refP (snd (complete refP (snd (claim refP sample_dag 0 7)) 0 (JInt 1))) 1 7)"

theorem schedule_respects_edges_witness: "status refP sample_run 0 = Some Completed"
proof -
  let ?g1 = "snd (claim refP sample_dag 0 7)"
  let ?g2 = "snd (complete refP ?g1 0 (JInt 1))"
  have "sched_step refP sample_dag ?g1" by (rule sched_start) code_simp
  moreover have "sched_step refP ?g1 ?g2" by (rule sched_complete)
  moreover have "sched_step refP ?g2 sample_run" unfolding sample_run_def by (rule sched_start) code_simp
  ultimately have run: "(sched_step refP)\<^sup>*\<^sup>* sample_dag sample_run" by auto
  have "rg_nodes sample_dag =
      [(0, dag_node_new ''u0'' ''fetch'' JNull), (1, dag_node_new ''u1'' ''build'' JNull)]" by code_simp
  then have init: "\<forall>i s. status refP sample_dag i = Some s \<longrightarrow> s = Pending"
    by (auto simp: status_Some ref_weight dag_node_new_def split: if_splits)
  have "pg_edges refP sample_run = [(0, 1, dag_edge_new)]" by code_simp
  then have "(0, 1) \<in> edge_rel refP sample_run" by (simp add: edge_rel_def endpoints_def)
  moreover have "status refP sample_run 1 = Some Running" by code_simp
  ultimately show ?thesis
    using schedule_respects_edges [OF ref_dag_contract sample_wf init run, of 0 1] by simp
qed

end
