(* ===== verification/Provider.thy ===== *)
theory Provider
  imports Json
begin

text \<open>
  The crate \<^verbatim>\<open>provider\<close>, without its wire adapters: the request and response types (types.rs),
  the error taxonomy (error.rs) and the sink that reassembles a streamed response (stream.rs).
  A back end is the trait \<^verbatim>\<open>LlmProvider\<close>; the components that call one take it as a function.
  A 32-bit float is its bit pattern. \<^verbatim>\<open>serde_json::from_str\<close> is a parameter of
  \<open>finalize_tool_calls\<close>.
\<close>

subsection \<open>Messages, requests and responses (types.rs)\<close>

datatype role = System | User | Assistant | Tool

datatype content_block =
    BText string
  | BToolUse string string json
  | BToolResult string json

datatype message_content = Text string | Blocks "content_block list"

record llm_message =
  msg_role :: role
  msg_content :: message_content

definition llm_message_text :: "role \<Rightarrow> string \<Rightarrow> llm_message" where
  "llm_message_text r t = \<lparr> msg_role = r, msg_content = Text t \<rparr>"

definition message_system :: "string \<Rightarrow> llm_message" where
  "message_system t = llm_message_text System t"

definition message_user :: "string \<Rightarrow> llm_message" where
  "message_user t = llm_message_text User t"

definition message_assistant :: "string \<Rightarrow> llm_message" where
  "message_assistant t = llm_message_text Assistant t"

fun block_text :: "content_block \<Rightarrow> string" where
  "block_text (BText t) = t"
| "block_text _ = []"

fun as_text :: "message_content \<Rightarrow> string" where
  "as_text (Text s) = s"
| "as_text (Blocks bs) = concat (map block_text bs)"

record tool_spec =
  ts_name :: string
  ts_description :: string
  ts_input_schema :: json

record llm_request =
  rq_model :: string
  rq_messages :: "llm_message list"
  rq_max_tokens :: "u32 option"
  rq_temperature :: "u32 option"
  rq_tools :: "tool_spec list"
  rq_system_prompt :: "string option"

definition single_user :: "string \<Rightarrow> string \<Rightarrow> llm_request" where
  "single_user m p =
    \<lparr> rq_model = m, rq_messages = [message_user p], rq_max_tokens = None, rq_temperature = None,
      rq_tools = [], rq_system_prompt = None \<rparr>"

definition has_tools :: "llm_request \<Rightarrow> bool" where
  "has_tools r \<longleftrightarrow> rq_tools r \<noteq> []"

datatype stop_reason = Stop | Length | StopToolUse | ContentFilter

record tool_call =
  tc_id :: string
  tc_name :: string
  tc_args :: json

record usage =
  input_tokens :: u32
  output_tokens :: u32

definition usage_default :: usage where
  "usage_default = \<lparr> input_tokens = 0, output_tokens = 0 \<rparr>"

definition usage_total :: "usage \<Rightarrow> u32" where
  "usage_total u = sat_add (input_tokens u) (output_tokens u)"

definition usage_add :: "usage \<Rightarrow> usage \<Rightarrow> usage" where
  "usage_add u v =
    \<lparr> input_tokens = sat_add (input_tokens u) (input_tokens v),
      output_tokens = sat_add (output_tokens u) (output_tokens v) \<rparr>"

record llm_response =
  rs_content :: message_content
  rs_stop_reason :: stop_reason
  rs_tool_calls :: "tool_call list"
  rs_usage :: usage
  rs_model :: string

definition llm_response_text :: "string \<Rightarrow> string \<Rightarrow> llm_response" where
  "llm_response_text m t =
    \<lparr> rs_content = Text t, rs_stop_reason = Stop, rs_tool_calls = [], rs_usage = usage_default,
      rs_model = m \<rparr>"

subsection \<open>Errors (error.rs)\<close>

datatype provider_error =
    PAuth u16 string
  | PRateLimit u16 string
  | PTransient u16 string
  | PFatal u16 string
  | PDecode string
  | PStreamParse string
  | PToolUnsupported string
  | PInvalidEndpoint string
  | PMissingConfig string

datatype error_kind = KAuth | KRateLimit | KTransient | KFatal

fun kind_of :: "provider_error \<Rightarrow> error_kind" where
  "kind_of (PAuth _ _) = KAuth"
| "kind_of (PRateLimit _ _) = KRateLimit"
| "kind_of (PTransient _ _) = KTransient"
| "kind_of (PFatal _ _) = KFatal"
| "kind_of (PDecode _) = KFatal"
| "kind_of (PStreamParse _) = KFatal"
| "kind_of (PToolUnsupported _) = KFatal"
| "kind_of (PInvalidEndpoint _) = KFatal"
| "kind_of (PMissingConfig _) = KFatal"

definition http_detail :: "u16 \<Rightarrow> string \<Rightarrow> string" where
  "http_detail status body =
    (let detail = trim (if utf8_valid body then body else ''<non-utf8 body>'')
     in if detail = [] then ''HTTP '' @ show_nat (unat status) else detail)"

definition from_http_status :: "u16 \<Rightarrow> string \<Rightarrow> provider_error" where
  "from_http_status status body =
    (let detail = http_detail status body in
     if status = 401 \<or> status = 403 then PAuth status detail
     else if status = 429 then PRateLimit status detail
     else if status = 500 \<or> status = 502 \<or> status = 503 \<or> status = 504 \<or> status = 529
     then PTransient status detail
     else PFatal status detail)"

text \<open>The \<^verbatim>\<open>Display\<close> text of an error.\<close>

fun show_provider_error :: "provider_error \<Rightarrow> string" where
  "show_provider_error (PAuth s d) = ''auth error ('' @ show_nat (unat s) @ ''): '' @ d"
| "show_provider_error (PRateLimit s d) = ''rate limited ('' @ show_nat (unat s) @ ''): '' @ d"
| "show_provider_error (PTransient s d) = ''transient error ('' @ show_nat (unat s) @ ''): '' @ d"
| "show_provider_error (PFatal s d) = ''fatal error ('' @ show_nat (unat s) @ ''): '' @ d"
| "show_provider_error (PDecode m) = ''decode error: '' @ m"
| "show_provider_error (PStreamParse m) = ''stream parse error: '' @ m"
| "show_provider_error (PToolUnsupported p) =
    ''tool use requested but provider '' @ p @ '' does not support tools''"
| "show_provider_error (PInvalidEndpoint m) = ''invalid endpoint URL: '' @ m"
| "show_provider_error (PMissingConfig m) = ''missing configuration: '' @ m"

subsection \<open>The capturing sink (stream.rs)\<close>

datatype stream_event =
    MessageStart llm_response
  | ContentDelta string
  | ToolCallDelta "string option" "string option" "string option"
  | MessageStop llm_response
  | StreamError provider_error

record capturing_sink =
  sk_text :: string
  sk_tool_calls :: "tool_call list"
  sk_arg_buffers :: "string list"
  sk_name_buffers :: "string list"
  sk_final_response :: "llm_response option"
  sk_last_error :: "provider_error option"
  sk_event_count :: nat

definition sink_new :: capturing_sink where
  "sink_new = \<lparr> sk_text = [], sk_tool_calls = [], sk_arg_buffers = [], sk_name_buffers = [],
     sk_final_response = None, sk_last_error = None, sk_event_count = 0 \<rparr>"

definition push_at :: "nat \<Rightarrow> string option \<Rightarrow> string list \<Rightarrow> string list" where
  "push_at i d bs = (case d of None \<Rightarrow> bs | Some s \<Rightarrow> bs[i := bs ! i @ s])"

text \<open>The index of the call a delta belongs to; an unseen id opens a new call.\<close>

definition delta_slot :: "string option \<Rightarrow> capturing_sink \<Rightarrow> nat \<times> capturing_sink" where
  "delta_slot cid s =
    (case cid of
       None \<Rightarrow> (length (sk_tool_calls s) - 1, s)
     | Some i \<Rightarrow>
       (case position (\<lambda>c. tc_id c = i) (sk_tool_calls s) of
          Some pos \<Rightarrow> (pos, s)
        | None \<Rightarrow>
            let s' = s\<lparr> sk_tool_calls := sk_tool_calls s @ [\<lparr> tc_id = i, tc_name = [], tc_args = JNull \<rparr>],
                        sk_arg_buffers := sk_arg_buffers s @ [[]],
                        sk_name_buffers := sk_name_buffers s @ [[]] \<rparr>
            in (length (sk_tool_calls s') - 1, s')))"

fun sink_send :: "stream_event \<Rightarrow> capturing_sink \<Rightarrow> capturing_sink" where
  "sink_send (MessageStart _) s = s\<lparr> sk_event_count := sk_event_count s + 1 \<rparr>"
| "sink_send (ContentDelta t) s =
    s\<lparr> sk_event_count := sk_event_count s + 1, sk_text := sk_text s @ t \<rparr>"
| "sink_send (MessageStop r) s =
    s\<lparr> sk_event_count := sk_event_count s + 1, sk_final_response := Some r \<rparr>"
| "sink_send (StreamError e) s =
    s\<lparr> sk_event_count := sk_event_count s + 1, sk_last_error := Some e \<rparr>"
| "sink_send (ToolCallDelta cid name args) s =
    (let (idx, s') = delta_slot cid (s\<lparr> sk_event_count := sk_event_count s + 1 \<rparr>) in
     if idx < length (sk_tool_calls s') then
       s'\<lparr> sk_name_buffers := push_at idx name (sk_name_buffers s'),
           sk_arg_buffers := push_at idx args (sk_arg_buffers s') \<rparr>
     else s')"

text \<open>One call with its two buffers; \<open>parse\<close> is \<^verbatim>\<open>serde_json::from_str\<close>.\<close>

definition finalize_call :: "(string \<Rightarrow> json option) \<Rightarrow> tool_call \<Rightarrow> string \<Rightarrow> string \<Rightarrow> tool_call" where
  "finalize_call parse c name args =
    (let c1 = (if tc_name c = [] then c\<lparr> tc_name := name \<rparr> else c) in
     if args = [] then c1
     else case parse args of
       Some v \<Rightarrow> c1\<lparr> tc_args := v \<rparr>
     | None \<Rightarrow> c1\<lparr> tc_args := JStr args \<rparr>)"

definition finalize_tool_calls ::
    "(string \<Rightarrow> json option) \<Rightarrow> capturing_sink \<Rightarrow> tool_call list \<times> capturing_sink" where
  "finalize_tool_calls parse s =
    (let buf = (\<lambda>bs i. if i < length bs then bs ! i else []);
         cs = map (\<lambda>i. finalize_call parse (sk_tool_calls s ! i)
                      (buf (sk_name_buffers s) i) (buf (sk_arg_buffers s) i))
                [0..<length (sk_tool_calls s)]
     in (cs, s\<lparr> sk_tool_calls := cs \<rparr>))"

subsection \<open>What the sink assembles\<close>

text \<open>The deltas of one call, in stream order: those that carry its id, and those without an id
  that follow a delta of the call. \<open>cur\<close> is the last call opened so far.\<close>

definition opt_text :: "string option \<Rightarrow> string" where
  "opt_text d = (case d of None \<Rightarrow> [] | Some s \<Rightarrow> s)"

fun stream_ids :: "stream_event list \<Rightarrow> string list" where
  "stream_ids [] = []"
| "stream_ids (ToolCallDelta (Some i) _ _ # es) = i # stream_ids es"
| "stream_ids (_ # es) = stream_ids es"

fun stream_args :: "string \<Rightarrow> stream_event list \<Rightarrow> string" where
  "stream_args i [] = []"
| "stream_args i (ToolCallDelta (Some j) _ a # es) =
    (if j = i then opt_text a else []) @ stream_args i es"
| "stream_args i (_ # es) = stream_args i es"

fun stream_name :: "string \<Rightarrow> stream_event list \<Rightarrow> string" where
  "stream_name i [] = []"
| "stream_name i (ToolCallDelta (Some j) n _ # es) =
    (if j = i then opt_text n else []) @ stream_name i es"
| "stream_name i (_ # es) = stream_name i es"

fun stream_text :: "stream_event list \<Rightarrow> string" where
  "stream_text [] = []"
| "stream_text (ContentDelta t # es) = t @ stream_text es"
| "stream_text (_ # es) = stream_text es"

text \<open>The ids in the order they first appear.\<close>

fun first_ids :: "string list \<Rightarrow> string list \<Rightarrow> string list" where
  "first_ids seen [] = seen"
| "first_ids seen (i # is) = first_ids (if i \<in> set seen then seen else seen @ [i]) is"

fun tagged :: "stream_event \<Rightarrow> bool" where
  "tagged (ToolCallDelta None _ _) = False"
| "tagged _ = True"

definition sink_run :: "stream_event list \<Rightarrow> capturing_sink \<Rightarrow> capturing_sink" where
  "sink_run es s = fold sink_send es s"

definition fresh_call :: "string \<Rightarrow> tool_call" where
  "fresh_call i = \<lparr> tc_id = i, tc_name = [], tc_args = JNull \<rparr>"

text \<open>The sink holds one call per id of \<open>ids\<close>, with the buffers \<open>N\<close> and \<open>A\<close>.\<close>

definition sink_holds ::
    "string list \<Rightarrow> (string \<Rightarrow> string) \<Rightarrow> (string \<Rightarrow> string) \<Rightarrow> string \<Rightarrow> capturing_sink \<Rightarrow> bool" where
  "sink_holds ids N A t s \<longleftrightarrow> distinct ids \<and> sk_tool_calls s = map fresh_call ids \<and>
     sk_name_buffers s = map N ids \<and> sk_arg_buffers s = map A ids \<and> sk_text s = t \<and>
     (\<forall>i. i \<notin> set ids \<longrightarrow> N i = [] \<and> A i = [])"

lemma sink_new_holds: "sink_holds [] (\<lambda>_. []) (\<lambda>_. []) [] sink_new"
  by (simp add: sink_holds_def sink_new_def)

lemma map_update_distinct:
  "distinct xs \<Longrightarrow> p < length xs \<Longrightarrow> (map f xs)[p := v] = map (f(xs ! p := v)) xs"
  by (auto simp: list_eq_iff_nth_eq nth_list_update nth_eq_iff_index_eq)

lemma push_at_map:
  "distinct xs \<Longrightarrow> p < length xs \<Longrightarrow>
    push_at p d (map f xs) = map (f(xs ! p := f (xs ! p) @ opt_text d)) xs"
  by (cases d) (simp_all add: push_at_def opt_text_def map_update_distinct)

lemma position_ids:
  "position (\<lambda>c. tc_id c = i) (map fresh_call ids) = position (\<lambda>j. j = i) ids"
  by (induction ids) (auto simp: fresh_call_def)

lemma sink_send_delta:
  assumes "sink_holds ids N A t s"
  shows "sink_holds (if i \<in> set ids then ids else ids @ [i]) (N(i := N i @ opt_text n))
    (A(i := A i @ opt_text a)) t (sink_send (ToolCallDelta (Some i) n a) s)"
proof (cases "position (\<lambda>j. j = i) ids")
  case None
  then have new: "i \<notin> set ids" by (auto simp: position_None)
  with assms have "N i = []" "A i = []" by (auto simp: sink_holds_def)
  with assms None new
    push_at_map [of "ids @ [i]" "length ids" n N] push_at_map [of "ids @ [i]" "length ids" a A]
  show ?thesis
    by (auto simp: sink_holds_def delta_slot_def position_ids fresh_call_def)
next
  case (Some p)
  from position_Some [OF Some] have p: "p < length ids" "ids ! p = i" "i \<in> set ids" by auto
  with assms Some push_at_map [OF _ p(1), of n N] push_at_map [OF _ p(1), of a A] show ?thesis
    by (auto simp: sink_holds_def delta_slot_def position_ids)
qed

lemma sink_run_holds:
  "sink_holds ids N A t s \<Longrightarrow> \<forall>e \<in> set es. tagged e \<Longrightarrow>
    sink_holds (first_ids ids (stream_ids es)) (\<lambda>i. N i @ stream_name i es)
      (\<lambda>i. A i @ stream_args i es) (t @ stream_text es) (sink_run es s)"
proof (induction es arbitrary: ids N A t s)
  case Nil
  then show ?case by (simp add: sink_run_def)
next
  case (Cons e es)
  show ?case
  proof (cases e)
    case (ToolCallDelta cid n a)
    with Cons.prems(2) obtain i where i: "cid = Some i" by (cases cid) auto
    have st: "sink_run (e # es) s = sink_run es (sink_send e s)" by (simp add: sink_run_def)
    have N: "(\<lambda>j. N j @ stream_name j (e # es)) = (\<lambda>j. (N(i := N i @ opt_text n)) j @ stream_name j es)"
      and A: "(\<lambda>j. A j @ stream_args j (e # es)) = (\<lambda>j. (A(i := A i @ opt_text a)) j @ stream_args j es)"
      by (auto simp: ToolCallDelta i)
    have ids: "first_ids ids (stream_ids (e # es)) =
        first_ids (if i \<in> set ids then ids else ids @ [i]) (stream_ids es)"
      and t: "stream_text (e # es) = stream_text es" by (simp_all add: ToolCallDelta i)
    show ?thesis unfolding st N A ids t
      using Cons.IH [OF sink_send_delta [OF Cons.prems(1), of i n a]] Cons.prems(2) ToolCallDelta i
      by (simp del: sink_send.simps)
  next
    case (ContentDelta u)
    have "sink_holds ids N A (t @ u) (sink_send e s)"
      using Cons.prems(1) ContentDelta by (simp add: sink_holds_def)
    from Cons.IH [OF this] Cons.prems(2) ContentDelta show ?thesis by (simp add: sink_run_def)
  qed (use Cons.prems Cons.IH [of ids N A t "sink_send e s"] in
        \<open>simp_all add: sink_holds_def sink_run_def\<close>)
qed

lemma sink_send_text: "sk_text (sink_send e s) = sk_text s @ stream_text [e]"
  by (cases e) (auto simp: delta_slot_def Let_def split: option.splits prod.splits)

text \<open>Whatever the deltas, the sink's text is the text of the stream.\<close>

lemma sink_run_text: "sk_text (sink_run es s) = sk_text s @ stream_text es"
proof (induction es arbitrary: s)
  case (Cons e es)
  have "stream_text (e # es) = stream_text [e] @ stream_text es" by (cases e) auto
  with Cons sink_send_text [of e s] show ?case by (simp add: sink_run_def)
qed (simp add: sink_run_def)

subsection \<open>Properties\<close>

text \<open>A streamed response is assembled call by call however the deltas of its calls interleave:
  when every tool-call delta carries its id, finalizing gives one call per id, in the order the ids
  first appear, whose name and argument text are the concatenations of the deltas with that id
  (the arguments parsed, or kept as a string when they are not JSON, or null when empty), and the
  text is the concatenation of the content deltas.\<close>

theorem stream_assembly:
  assumes "\<forall>e \<in> set es. tagged e"
  shows "fst (finalize_tool_calls parse (sink_run es sink_new)) =
      map (\<lambda>i. \<lparr> tc_id = i, tc_name = stream_name i es,
                 tc_args = (let a = stream_args i es in
                   if a = [] then JNull else case parse a of Some v \<Rightarrow> v | None \<Rightarrow> JStr a) \<rparr>)
        (first_ids [] (stream_ids es)) \<and>
    sk_text (sink_run es sink_new) = stream_text es"
proof -
  let ?ids = "first_ids [] (stream_ids es)"
  from sink_run_holds [OF sink_new_holds assms]
  have h: "sink_holds ?ids (\<lambda>i. stream_name i es) (\<lambda>i. stream_args i es) (stream_text es)
      (sink_run es sink_new)" by simp
  have one: "finalize_call parse (fresh_call i) n a =
      \<lparr> tc_id = i, tc_name = n,
        tc_args = (if a = [] then JNull else case parse a of Some v \<Rightarrow> v | None \<Rightarrow> JStr a) \<rparr>" for i n a
    by (simp add: finalize_call_def fresh_call_def split: option.splits)
  from h show ?thesis
    by (auto simp: sink_holds_def finalize_tool_calls_def one Let_def intro!: nth_equalityI)
qed

theorem stream_assembly_witness:
  "fst (finalize_tool_calls (\<lambda>_. None) (sink_run
     [ToolCallDelta (Some ''a'') (Some ''read'') (Some ''{''), ToolCallDelta (Some ''b'') (Some ''ls'') None,
      ToolCallDelta (Some ''a'') None (Some ''}'')] sink_new)) =
   [\<lparr> tc_id = ''a'', tc_name = ''read'', tc_args = JStr ''{}'' \<rparr>,
    \<lparr> tc_id = ''b'', tc_name = ''ls'', tc_args = JNull \<rparr>]"
  using stream_assembly [of "[ToolCallDelta (Some ''a'') (Some ''read'') (Some ''{''),
     ToolCallDelta (Some ''b'') (Some ''ls'') None, ToolCallDelta (Some ''a'') None (Some ''}'')]" "\<lambda>_. None"]
  by (simp add: opt_text_def Let_def)

text \<open>Token accounting never wraps: adding up any list of usages gives, in each field, the true
  sum or the largest 32-bit value, whichever is smaller, in whatever order they are added.\<close>

theorem usage_accumulates:
  "unat (input_tokens (foldl usage_add usage_default us)) =
     min (sum_list (map (unat \<circ> input_tokens) us)) (2 ^ 32 - 1) \<and>
   unat (output_tokens (foldl usage_add usage_default us)) =
     min (sum_list (map (unat \<circ> output_tokens) us)) (2 ^ 32 - 1)"
proof (induction us rule: rev_induct)
  case Nil
  then show ?case by (simp add: usage_default_def)
next
  case (snoc u us)
  then show ?case by (auto simp: usage_add_def unat_sat_add min_def)
qed

end
