(* ===== verification/Sse.thy ===== *)
theory Sse
  imports RustStr
begin

text \<open>
  The incremental Server-Sent Events parser of \<^verbatim>\<open>provider/src/sse.rs\<close>: the buffer of bytes that
  are not yet a complete line, the pending fields of the event under construction, and the loop
  of \<^verbatim>\<open>next_event\<close>. \<open>sse_drain\<close> is the caller's loop that pulls events until there is none.
\<close>

record sse_event =
  ev_name :: string
  ev_data :: string

record sse_parser =
  sse_buf :: string
  pending_name :: "string option"
  pending_data :: string

definition sse_new :: sse_parser where
  "sse_new = \<lparr> sse_buf = [], pending_name = None, pending_data = [] \<rparr>"

definition sse_feed :: "string \<Rightarrow> sse_parser \<Rightarrow> sse_parser" where
  "sse_feed bytes p = (if utf8_valid bytes then p\<lparr> sse_buf := sse_buf p @ bytes \<rparr> else p)"

text \<open>A field line at its first colon; one space after the colon is dropped.\<close>

definition field_value :: "string \<Rightarrow> string \<times> string" where
  "field_value line =
    (if CHR 0x3A \<in> set line then
       let f = takeWhile (\<lambda>c. c \<noteq> CHR 0x3A) line;
           v = tl (dropWhile (\<lambda>c. c \<noteq> CHR 0x3A) line)
       in (f, case strip_prefix '' '' v of Some w \<Rightarrow> w | None \<Rightarrow> v)
     else (line, []))"

text \<open>One line without its terminator: an event is emitted, or the pending fields change.\<close>

definition sse_line :: "string \<Rightarrow> sse_parser \<Rightarrow> sse_event option \<times> sse_parser" where
  "sse_line line p =
    (if line = [] then
       if pending_data p = [] \<and> pending_name p = None then (None, p)
       else
         (Some \<lparr> ev_name = (case pending_name p of Some n \<Rightarrow> n | None \<Rightarrow> ''message''),
                 ev_data = (case strip_suffix [nl] (pending_data p) of
                              Some d \<Rightarrow> d | None \<Rightarrow> pending_data p) \<rparr>,
          p\<lparr> pending_name := None, pending_data := [] \<rparr>)
     else if hd line = CHR 0x3A then (None, p)
     else
       let (field, value) = field_value line in
       (None,
        if field = ''event'' then p\<lparr> pending_name := Some value \<rparr>
        else if field = ''data'' then p\<lparr> pending_data := pending_data p @ value @ [nl] \<rparr>
        else p))"

lemma sse_line_buf [simp]: "sse_buf (snd (sse_line l p)) = sse_buf p"
  by (auto simp: sse_line_def split: prod.splits)

lemma sse_line_set_buf:
  "sse_line l (p\<lparr> sse_buf := b \<rparr>) = (fst (sse_line l p), snd (sse_line l p)\<lparr> sse_buf := b \<rparr>)"
  by (auto simp: sse_line_def split: prod.splits option.splits)

function next_event :: "sse_parser \<Rightarrow> sse_event option \<times> sse_parser" where
  "next_event p =
    (if nl \<in> set (sse_buf p) then
       let raw = takeWhile (\<lambda>c. c \<noteq> nl) (sse_buf p);
           r = sse_line (strip_cr raw) (p\<lparr> sse_buf := drop (Suc (length raw)) (sse_buf p) \<rparr>)
       in if fst r \<noteq> None then r else next_event (snd r)
     else (None, p))"
  by pat_completeness auto
termination
proof (relation "measure (\<lambda>p. length (sse_buf p))", simp)
  fix p raw r
  assume "nl \<in> set (sse_buf p)" and r: "r = sse_line (strip_cr raw)
      (p\<lparr> sse_buf := drop (Suc (length raw)) (sse_buf p) \<rparr>)"
  then have "sse_buf p \<noteq> []" by auto
  then show "(snd r, p) \<in> measure (\<lambda>p. length (sse_buf p))" by (simp add: r)
qed

declare next_event.simps [simp del]

lemma next_event_shrinks:
  "fst (next_event p) \<noteq> None \<Longrightarrow> length (sse_buf (snd (next_event p))) < length (sse_buf p)"
proof (induction p rule: next_event.induct)
  case (1 p)
  define raw where "raw = takeWhile (\<lambda>c. c \<noteq> nl) (sse_buf p)"
  define r where "r = sse_line (strip_cr raw) (p\<lparr> sse_buf := drop (Suc (length raw)) (sse_buf p) \<rparr>)"
  have n: "nl \<in> set (sse_buf p)" using "1.prems" by (subst (asm) next_event.simps) (auto split: if_splits)
  then have ne: "sse_buf p \<noteq> []" by auto
  have e: "next_event p = (if fst r \<noteq> None then r else next_event (snd r))"
    using n by (subst next_event.simps) (simp add: raw_def r_def Let_def)
  have l: "length (sse_buf (snd r)) < length (sse_buf p)" using ne by (simp add: r_def)
  show ?case
  proof (cases "fst r = None")
    case True
    with "1.IH" [OF n raw_def r_def] "1.prems" e l show ?thesis by auto
  next
    case False
    with e l show ?thesis by auto
  qed
qed

function sse_drain :: "sse_parser \<Rightarrow> sse_event list \<times> sse_parser" where
  "sse_drain p =
    (case fst (next_event p) of
       None \<Rightarrow> ([], snd (next_event p))
     | Some e \<Rightarrow> let r = sse_drain (snd (next_event p)) in (e # fst r, snd r))"
  by pat_completeness auto
termination
  by (relation "measure (\<lambda>p. length (sse_buf p))") (auto intro!: next_event_shrinks)

declare sse_drain.simps [simp del]

text \<open>One round of an adapter's read loop: a chunk arrives and the events it completes are pulled.\<close>

fun sse_chunks :: "string list \<Rightarrow> sse_parser \<Rightarrow> sse_event list \<times> sse_parser" where
  "sse_chunks [] p = ([], p)"
| "sse_chunks (c # cs) p =
    (let (es, p1) = sse_drain (sse_feed c p); (fs, p2) = sse_chunks cs p1 in (es @ fs, p2))"

subsection \<open>Specification by lines\<close>

fun sse_lines :: "string list \<Rightarrow> sse_parser \<Rightarrow> sse_event list \<times> sse_parser" where
  "sse_lines [] p = ([], p)"
| "sse_lines (l # ls) p =
    (let (e, p1) = sse_line l p; (es, p2) = sse_lines ls p1
     in ((case e of None \<Rightarrow> es | Some x \<Rightarrow> x # es), p2))"

lemma sse_lines_append:
  "sse_lines (ks @ ls) p =
    (fst (sse_lines ks p) @ fst (sse_lines ls (snd (sse_lines ks p))),
     snd (sse_lines ls (snd (sse_lines ks p))))"
  by (induction ks arbitrary: p) (auto simp: Let_def split: prod.splits option.splits)

lemma sse_lines_set_buf:
  "sse_lines ls (p\<lparr> sse_buf := b \<rparr>) = (fst (sse_lines ls p), snd (sse_lines ls p)\<lparr> sse_buf := b \<rparr>)"
  by (induction ls arbitrary: p) (auto simp: Let_def sse_line_set_buf split: prod.splits option.splits)

lemma sse_lines_buf [simp]: "sse_buf (snd (sse_lines ls p)) = sse_buf p"
  by (induction ls arbitrary: p)
     (auto simp: Let_def split: prod.splits option.splits, metis snd_conv sse_line_buf)

lemma split_byte_append_last:
  "split_byte d (s @ t) = butlast (split_byte d s) @ split_byte d (last (split_byte d s) @ t)"
proof (induction s)
  case Nil
  then show ?case by simp
next
  case (Cons c s)
  show ?case
  proof (cases "c = d")
    case True
    with Cons show ?thesis by simp
  next
    case False
    obtain w ws where w: "split_byte d s = w # ws" by (cases "split_byte d s") auto
    with Cons False show ?thesis
      by (cases "ws = []") (auto split: list.splits)
  qed
qed

lemma drain_stop: "nl \<notin> set (sse_buf p) \<Longrightarrow> sse_drain p = ([], p)"
  by (simp add: sse_drain.simps [of p] next_event.simps [of p])

lemma drain_step:
  assumes b: "sse_buf p = l @ nl # r" and l: "nl \<notin> set l"
  shows "sse_drain p =
    (let (e, p1) = sse_line (strip_cr l) (p\<lparr> sse_buf := r \<rparr>); (es, p2) = sse_drain p1
     in ((case e of None \<Rightarrow> es | Some x \<Rightarrow> x # es), p2))"
proof -
  have raw: "takeWhile (\<lambda>c. c \<noteq> nl) (sse_buf p) = l"
    using l b by (simp add: takeWhile_append takeWhile_eq_all_conv)
  let ?q = "sse_line (strip_cr l) (p\<lparr> sse_buf := r \<rparr>)"
  have ne: "next_event p = (if fst ?q \<noteq> None then ?q else next_event (snd ?q))"
    using b raw by (subst next_event.simps) (simp add: Let_def)
  show ?thesis
  proof (cases "fst ?q")
    case None
    then have "next_event p = next_event (snd ?q)" by (simp add: ne)
    then have "sse_drain p = sse_drain (snd ?q)"
      by (simp add: sse_drain.simps [of p] sse_drain.simps [of "snd ?q"] split: option.splits)
    with None show ?thesis by (simp add: split_beta Let_def)
  next
    case (Some e)
    then have "next_event p = ?q" by (simp add: ne)
    with Some show ?thesis by (simp add: sse_drain.simps [of p] split_beta Let_def)
  qed
qed

lemma split_at_nl: "nl \<in> set b \<Longrightarrow> \<exists>l r. b = l @ nl # r \<and> nl \<notin> set l"
  by (meson split_list_first)

lemma drain_lines:
  "sse_drain p = sse_lines (map strip_cr (butlast (split_byte nl (sse_buf p))))
     (p\<lparr> sse_buf := last (split_byte nl (sse_buf p)) \<rparr>)"
proof (induction "length (sse_buf p)" arbitrary: p rule: less_induct)
  case less
  show ?case
  proof (cases "nl \<in> set (sse_buf p)")
    case False
    then show ?thesis by (simp add: drain_stop split_byte_single)
  next
    case True
    from split_at_nl [OF this] obtain l r where b: "sse_buf p = l @ nl # r" "nl \<notin> set l" by blast
    let ?q = "sse_line (strip_cr l) p"
    have lt: "length r < length (sse_buf p)" by (simp add: b)
    have IH: "sse_drain (snd ?q\<lparr> sse_buf := r \<rparr>) =
        sse_lines (map strip_cr (butlast (split_byte nl r))) (snd ?q\<lparr> sse_buf := last (split_byte nl r) \<rparr>)"
      using less.hyps [of "snd ?q\<lparr> sse_buf := r \<rparr>"] lt by simp
    show ?thesis unfolding drain_step [OF b]
      by (simp add: b split_byte_append sse_line_set_buf IH split_beta Let_def split: option.splits)
  qed
qed

text \<open>Pulling the complete events early changes neither the events nor the parser's state.\<close>

lemma drain_incremental:
  "sse_drain (p\<lparr> sse_buf := sse_buf p @ t \<rparr>) =
    (let (es, p1) = sse_drain p; (fs, p2) = sse_drain (p1\<lparr> sse_buf := sse_buf p1 @ t \<rparr>)
     in (es @ fs, p2))"
proof -
  let ?s = "sse_buf p"
  let ?ks = "map strip_cr (butlast (split_byte nl ?s))"
  let ?x = "last (split_byte nl ?s)"
  let ?ls = "map strip_cr (butlast (split_byte nl (?x @ t)))"
  have sp: "split_byte nl (?s @ t) = butlast (split_byte nl ?s) @ split_byte nl (?x @ t)"
    by (rule split_byte_append_last)
  show ?thesis
    by (simp add: drain_lines sp butlast_append sse_lines_append sse_lines_set_buf split_beta Let_def)
qed

lemma drain_again: "sse_drain (snd (sse_drain p)) = ([], snd (sse_drain p))"
proof -
  have "nl \<notin> set (last (split_byte nl (sse_buf p)))"
    by (rule split_byte_no_sep) (rule last_in_set, simp)
  then have "nl \<notin> set (sse_buf (snd (sse_drain p)))" by (simp add: drain_lines)
  then show ?thesis by (rule drain_stop)
qed

lemma chunks_concat:
  "\<forall>c \<in> set cs. utf8_valid c \<Longrightarrow> nl \<notin> set (sse_buf p) \<Longrightarrow>
    sse_chunks cs p = sse_drain (p\<lparr> sse_buf := sse_buf p @ concat cs \<rparr>)"
proof (induction cs arbitrary: p)
  case Nil
  then show ?case by (simp add: drain_stop)
next
  case (Cons c cs)
  let ?p = "p\<lparr> sse_buf := sse_buf p @ c \<rparr>"
  have "nl \<notin> set (sse_buf (snd (sse_drain ?p)))"
    using drain_again [of ?p] split_byte_no_sep [OF last_in_set [OF split_byte_nonempty]]
    by (simp add: drain_lines)
  with Cons.IH [of "snd (sse_drain ?p)"] Cons.prems
    drain_incremental [of ?p "concat cs"]
  show ?case by (simp add: sse_feed_def split_beta Let_def)
qed

subsection \<open>Framing\<close>

definition sse_frame :: "sse_event \<Rightarrow> string" where
  "sse_frame e = ''event: '' @ ev_name e @ [nl] @
     concat (map (\<lambda>l. ''data: '' @ l @ [nl]) (split_byte nl (ev_data e))) @ [nl]"

definition frameable :: "sse_event \<Rightarrow> bool" where
  "frameable e \<longleftrightarrow> nl \<notin> set (ev_name e) \<and> cr \<notin> set (ev_name e) \<and> cr \<notin> set (ev_data e)"

lemma data_line:
  "sse_line (''data: '' @ l) p = (None, p\<lparr> pending_data := pending_data p @ l @ [nl] \<rparr>)"
  by (simp add: sse_line_def field_value_def)

lemma event_line: "sse_line (''event: '' @ n) p = (None, p\<lparr> pending_name := Some n \<rparr>)"
  by (simp add: sse_line_def field_value_def)

lemma blank_line:
  "pending_name p = Some n \<Longrightarrow> pending_data p = d @ [nl] \<Longrightarrow>
    sse_line [] p = (Some \<lparr> ev_name = n, ev_data = d \<rparr>, p\<lparr> pending_name := None, pending_data := [] \<rparr>)"
proof -
  assume a: "pending_name p = Some n" "pending_data p = d @ [nl]"
  have "strip_suffix [nl] (d @ [nl]) = Some d" by (simp add: strip_suffix_Some)
  with a show ?thesis by (simp add: sse_line_def)
qed

lemma drain_field:
  assumes "nl \<notin> set l" "cr \<notin> set l" "sse_line l p = (None, q)"
  shows "sse_drain (p\<lparr> sse_buf := l @ nl # t \<rparr>) = sse_drain (q\<lparr> sse_buf := t \<rparr>)"
  using drain_step [of "p\<lparr> sse_buf := l @ nl # t \<rparr>" l t] assms
  by (simp add: strip_cr_id sse_line_set_buf split_beta)

lemma drain_data:
  "\<forall>l \<in> set ls. nl \<notin> set l \<and> cr \<notin> set l \<Longrightarrow>
    sse_drain (p\<lparr> sse_buf := concat (map (\<lambda>l. ''data: '' @ l @ [nl]) ls) @ t \<rparr>) =
    sse_drain (p\<lparr> pending_data := pending_data p @ concat (map (\<lambda>l. l @ [nl]) ls), sse_buf := t \<rparr>)"
proof (induction ls arbitrary: p)
  case Nil
  then show ?case by simp
next
  case (Cons l ls)
  let ?t = "concat (map (\<lambda>l. ''data: '' @ l @ [nl]) ls) @ t"
  have "sse_drain (p\<lparr> sse_buf := (''data: '' @ l) @ nl # ?t \<rparr>) =
      sse_drain (p\<lparr> pending_data := pending_data p @ l @ [nl], sse_buf := ?t \<rparr>)"
    by (rule drain_field [OF _ _ data_line]) (use Cons.prems in auto)
  with Cons.IH [of "p\<lparr> pending_data := pending_data p @ l @ [nl] \<rparr>"] Cons.prems
  show ?case by simp
qed

lemma concat_lines: "ls \<noteq> [] \<Longrightarrow> concat (map (\<lambda>l. l @ [nl]) ls) = join [nl] ls @ [nl]"
proof (induction ls)
  case (Cons l ls)
  then show ?case by (cases "ls = []") (auto simp: join_Cons)
qed simp

lemma set_join: "set (join [d] ws) \<subseteq> insert d (\<Union>w \<in> set ws. set w)"
  by (induction "[d]" ws rule: join.induct) auto

lemma set_split_byte: "w \<in> set (split_byte d s) \<Longrightarrow> set w \<subseteq> set s"
  by (induction s arbitrary: w) (auto split: list.splits if_splits, blast+)

lemma drain_frame:
  assumes f: "frameable e" and p: "pending_name p = None" "pending_data p = []"
  shows "sse_drain (p\<lparr> sse_buf := sse_frame e @ t \<rparr>) =
    (e # fst (sse_drain (p\<lparr> sse_buf := t \<rparr>)), snd (sse_drain (p\<lparr> sse_buf := t \<rparr>)))"
proof -
  let ?ls = "split_byte nl (ev_data e)"
  let ?d = "concat (map (\<lambda>l. ''data: '' @ l @ [nl]) ?ls)"
  let ?q = "p\<lparr> pending_name := Some (ev_name e) \<rparr>"
  let ?r = "?q\<lparr> pending_data := ev_data e @ [nl] \<rparr>"
  have clean: "p\<lparr> pending_name := None, pending_data := [], sse_buf := t \<rparr> = p\<lparr> sse_buf := t \<rparr>"
    using p by (cases p) simp
  have "sse_drain (p\<lparr> sse_buf := sse_frame e @ t \<rparr>) =
      sse_drain (p\<lparr> sse_buf := (''event: '' @ ev_name e) @ nl # ?d @ [nl] @ t \<rparr>)"
    by (simp add: sse_frame_def)
  also have "\<dots> = sse_drain (?q\<lparr> sse_buf := ?d @ [nl] @ t \<rparr>)"
    by (rule drain_field [OF _ _ event_line]) (use f in \<open>auto simp: frameable_def\<close>)
  also have "\<dots> = sse_drain (?q\<lparr> pending_data := pending_data ?q @ concat (map (\<lambda>l. l @ [nl]) ?ls),
      sse_buf := [nl] @ t \<rparr>)"
    by (rule drain_data)
       (use f in \<open>auto simp: frameable_def dest: split_byte_no_sep set_split_byte\<close>)
  also have "concat (map (\<lambda>l. l @ [nl]) ?ls) = ev_data e @ [nl]"
    by (simp add: concat_lines join_split_byte)
  also have "sse_drain (?q\<lparr> pending_data := pending_data ?q @ ev_data e @ [nl], sse_buf := [nl] @ t \<rparr>) =
      sse_drain (?r\<lparr> sse_buf := [] @ nl # t \<rparr>)"
    using p by simp
  also have "\<dots> = (e # fst (sse_drain (p\<lparr> sse_buf := t \<rparr>)), snd (sse_drain (p\<lparr> sse_buf := t \<rparr>)))"
    using drain_step [of "?r\<lparr> sse_buf := [] @ nl # t \<rparr>" "[]" t] blank_line [of ?r "ev_name e" "ev_data e"] p clean
    by (simp add: strip_cr_def sse_line_set_buf split_beta Let_def)
  finally show ?thesis .
qed

lemma drain_frames:
  "\<forall>e \<in> set es. frameable e \<Longrightarrow>
    sse_drain (sse_new\<lparr> sse_buf := concat (map sse_frame es) \<rparr>) = (es, sse_new)"
proof (induction es)
  case Nil
  then show ?case using drain_stop [of sse_new] by (simp add: sse_new_def)
next
  case (Cons e es)
  then show ?case
    using drain_frame [of e sse_new "concat (map sse_frame es)"] by (simp add: sse_new_def)
qed

subsection \<open>Properties\<close>

text \<open>C12: the event stream does not depend on how the network cuts it: a sequence of events that is
  framed one after the other and delivered in any chunks that end on character boundaries comes out
  of the parser, pulled after each chunk, as exactly that sequence, and leaves the parser empty.\<close>

theorem sse_roundtrip:
  assumes "\<forall>e \<in> set es. frameable e" "concat cs = concat (map sse_frame es)"
    and "\<forall>c \<in> set cs. utf8_valid c"
  shows "sse_chunks cs sse_new = (es, sse_new)"
  using chunks_concat [of cs sse_new] drain_frames [OF assms(1)] assms(2,3)
  by (simp add: sse_new_def)

theorem sse_roundtrip_witness:
  "sse_chunks [''event: ping'', nl # ''data: a'' @ nl # ''data: b'' @ [nl, nl]] sse_new =
    ([\<lparr> ev_name = ''ping'', ev_data = ''a'' @ nl # ''b'' \<rparr>], sse_new)"
  by (rule sse_roundtrip)
     (simp_all add: frameable_def sse_frame_def utf8_valid_ascii ascii_def byte_def)

text \<open>A chunk that ends inside a character is lost: \<^verbatim>\<open>feed\<close> drops a chunk that is not UTF-8 on
  its own, so in every state there are two chunks that both disappear although the parser would
  have kept their concatenation.\<close>

theorem sse_feed_drops_split_characters:
  "\<exists>a b. sse_feed b (sse_feed a p) = p \<and> sse_buf (sse_feed (a @ b) p) = sse_buf p @ a @ b \<and> a @ b \<noteq> []"
proof -
  have v: "utf8_valid [CHR 0xC3, CHR 0xA9]" "\<not> utf8_valid [CHR 0xC3]" "\<not> utf8_valid [CHR 0xA9]"
    by code_simp+
  have "sse_feed [CHR 0xA9] (sse_feed [CHR 0xC3] p) = p"
    using v by (simp add: sse_feed_def)
  moreover have "sse_buf (sse_feed ([CHR 0xC3] @ [CHR 0xA9]) p) = sse_buf p @ [CHR 0xC3] @ [CHR 0xA9]"
    using v by (simp add: sse_feed_def)
  ultimately show ?thesis by blast
qed

end
