(* ===== verification/Exec.thy ===== *)
theory Exec
  imports DagGraph "HOL-Library.AList"
begin

text \<open>
  The crate \<^verbatim>\<open>exec\<close>: the registry that dispatches a node to the handler of its label
  (handler.rs), the execution context (context.rs) and the errors (error.rs). Handlers are the
  trait \<^verbatim>\<open>NodeHandler\<close>, so they are functions the model is given; all of them and the language
  model act on one world of type \<open>'w\<close>, which is threaded through every call.
\<close>

record agent_identity =
  ai_name :: string
  ai_pid :: u32

record node_context =
  cx_workspace :: string
  cx_identity :: agent_identity
  cx_retry_count :: u32

definition node_context_new :: "string \<Rightarrow> agent_identity \<Rightarrow> node_context" where
  "node_context_new ws ident = \<lparr> cx_workspace = ws, cx_identity = ident, cx_retry_count = 0 \<rparr>"

definition with_retry_incremented :: "node_context \<Rightarrow> node_context" where
  "with_retry_incremented c = c\<lparr> cx_retry_count := sat_add (cx_retry_count c) 1 \<rparr>"

datatype exec_error =
    HandlerNotFound string
  | HandlerFailed string
  | InvalidInput string
  | ContextError string

fun show_exec_error :: "exec_error \<Rightarrow> string" where
  "show_exec_error (HandlerNotFound l) = ''handler not found: '' @ l"
| "show_exec_error (HandlerFailed m) = ''handler failed: '' @ m"
| "show_exec_error (InvalidInput m) = ''invalid input: '' @ m"
| "show_exec_error (ContextError m) = ''invalid execution context: '' @ m"

record handler_spec =
  hs_name :: string
  hs_description :: string
  hs_input_schema :: json

definition handler_spec_new :: "string \<Rightarrow> string \<Rightarrow> handler_spec" where
  "handler_spec_new n d = \<lparr> hs_name = n, hs_description = d, hs_input_schema = JNull \<rparr>"

definition with_schema :: "handler_spec \<Rightarrow> json \<Rightarrow> handler_spec" where
  "with_schema s j = s\<lparr> hs_input_schema := j \<rparr>"

record 'w handler =
  hd_spec :: handler_spec
  hd_handle :: "json \<Rightarrow> node_context \<Rightarrow> 'w \<Rightarrow> (json, exec_error) result \<times> 'w"

text \<open>The registry, a hash map: at most one handler per name, in no particular order.\<close>

record 'w executor =
  ex_handlers :: "(string \<times> 'w handler) list"

definition executor_new :: "'w executor" where
  "executor_new = \<lparr> ex_handlers = [] \<rparr>"

definition register_boxed :: "string \<Rightarrow> 'w handler \<Rightarrow> 'w executor \<Rightarrow> 'w executor" where
  "register_boxed name h ex = ex\<lparr> ex_handlers := AList.update name h (ex_handlers ex) \<rparr>"

definition register :: "'w handler \<Rightarrow> 'w executor \<Rightarrow> 'w executor" where
  "register h ex = register_boxed (hs_name (hd_spec h)) h ex"

definition list_handlers :: "'w executor \<Rightarrow> handler_spec list" where
  "list_handlers ex = map (hd_spec \<circ> snd) (ex_handlers ex)"

definition executor_len :: "'w executor \<Rightarrow> nat" where
  "executor_len ex = length (ex_handlers ex)"

definition execute ::
    "'w executor \<Rightarrow> dag_node \<Rightarrow> node_context \<Rightarrow> 'w \<Rightarrow> (json, exec_error) result \<times> 'w" where
  "execute ex n ctx w =
    (case map_of (ex_handlers ex) (nd_label n) of
       None \<Rightarrow> (Err (HandlerNotFound (nd_label n)), w)
     | Some h \<Rightarrow> hd_handle h (nd_inputs n) ctx w)"

lemma execute_register:
  "execute (register_boxed l h ex) n ctx w =
    (if nd_label n = l then hd_handle h (nd_inputs n) ctx w else execute ex n ctx w)"
  by (simp add: execute_def register_boxed_def update_conv')

lemma register_distinct:
  "distinct (map fst (ex_handlers ex)) \<Longrightarrow> distinct (map fst (ex_handlers (register_boxed l h ex)))"
  by (simp add: register_boxed_def distinct_update)

end
