(* ===== verification/Agents.thy ===== *)
theory Agents
  imports Exec Provider
begin

text \<open>
  The crate \<^verbatim>\<open>agents\<close>: plans and critiques (plan.rs), the planner, the critic and the supervisor's
  loop of plan, execute and critique. The language model, serde\_json and the UUID generator
  are the fields of \<open>agent_env\<close>; the model and the handlers act on the world \<open>'w\<close>.
\<close>

subsection \<open>Plans and critiques (plan.rs, critic.rs, error.rs)\<close>

record plan_step =
  ps_label :: string
  ps_inputs :: json

definition plan_step_new :: "string \<Rightarrow> plan_step" where
  "plan_step_new l = \<lparr> ps_label = l, ps_inputs = JNull \<rparr>"

definition with_inputs :: "plan_step \<Rightarrow> json \<Rightarrow> plan_step" where
  "with_inputs s i = s\<lparr> ps_inputs := i \<rparr>"

record plan =
  pl_steps :: "plan_step list"
  pl_goal :: string
  pl_expected_output :: json

definition plan_new :: "string \<Rightarrow> plan" where
  "plan_new goal = \<lparr> pl_steps = [], pl_goal = goal, pl_expected_output = JNull \<rparr>"

definition with_step :: "plan \<Rightarrow> plan_step \<Rightarrow> plan" where
  "with_step p s = p\<lparr> pl_steps := pl_steps p @ [s] \<rparr>"

datatype critique_decision = Accept | Reflect string | Reject string

record critique =
  cq_decision :: critique_decision
  cq_reasoning :: string

text \<open>The wire shape the critic parses; its decision carries the same three cases.\<close>

datatype wire_decision = WAccept | WReflect string | WReject string

record critique_wire =
  cw_decision :: wire_decision
  cw_reasoning :: string

datatype agent_error =
    AProvider provider_error
  | ALlm string
  | APlanning string
  | AExecution string
  | AReflectionsExhausted
  | ADag dag_error

fun show_status :: "dag_status \<Rightarrow> string" where
  "show_status Pending = ''Pending''"
| "show_status Running = ''Running''"
| "show_status Completed = ''Completed''"
| "show_status Failed = ''Failed''"
| "show_status Skipped = ''Skipped''"

fun show_dag_error :: "dag_error \<Rightarrow> string" where
  "show_dag_error (CycleDetected a b) =
    ''cycle detected when adding edge '' @ show_nat a @ '' -> '' @ show_nat b"
| "show_dag_error (NodeNotFound i) = ''node not found: index '' @ show_nat i"
| "show_dag_error (InvalidState c e) =
    ''invalid state transition: expected '' @ show_status e @ '', got '' @ show_status c"
| "show_dag_error (AlreadyClaimed i p) =
    ''node '' @ show_nat i @ '' already claimed by pid '' @ show_nat (unat p)"
| "show_dag_error (Serialization m) = ''serialization error: '' @ m"

fun show_agent_error :: "agent_error \<Rightarrow> string" where
  "show_agent_error (AProvider e) = ''provider error: '' @ show_provider_error e"
| "show_agent_error (ALlm m) = ''llm error: '' @ m"
| "show_agent_error (APlanning m) = ''planning error: '' @ m"
| "show_agent_error (AExecution m) = ''execution error: '' @ m"
| "show_agent_error AReflectionsExhausted = ''reflections exhausted (max 3 iterations)''"
| "show_agent_error (ADag e) = ''dag error: '' @ show_dag_error e"

subsection \<open>Structured output (extract.rs)\<close>

definition extract_from_str ::
    "(string \<Rightarrow> (json, string) result) \<Rightarrow> (json \<Rightarrow> ('a, string) result) \<Rightarrow> string \<Rightarrow>
     ('a, agent_error) result" where
  "extract_from_str parse from_value s =
    try_res (map_err (\<lambda>e. ALlm (''response was not valid JSON: '' @ e)) (parse s))
      (\<lambda>v. map_err (\<lambda>e. ALlm (''failed to extract structured output: '' @ e)) (from_value v))"

record 'w agent_env =
  ae_complete :: "llm_request \<Rightarrow> 'w \<Rightarrow> (llm_response, provider_error) result \<times> 'w"
  ae_parse :: "string \<Rightarrow> (json, string) result"
  ae_plan_of :: "json \<Rightarrow> (plan, string) result"
  ae_critique_of :: "json \<Rightarrow> (critique_wire, string) result"
  ae_print_steps :: "plan_step list \<Rightarrow> string"
  ae_print_values :: "json list \<Rightarrow> string"
  ae_uuid :: "'w \<Rightarrow> string \<times> 'w"

subsection \<open>The planner (planner.rs)\<close>

definition max_steps :: nat where
  "max_steps = 16"

definition describe_dag :: "'g dag_api \<Rightarrow> 'g \<Rightarrow> string" where
  "describe_dag P g =
    (let out = concat (map (\<lambda>(i, n). ''- node '' @ show_nat i @ '': label='' @ nd_label n @
                 '', status='' @ show_status (nd_status n) @ [nl]) (nodes_iter P g))
     in if out = [] then ''(empty DAG)'' else out)"

definition planner_system :: string where
  "planner_system =
    ''You are a planning assistant. Reply with a JSON object '' @
    ''matching the schema: {\"steps\": [{\"label\": string, \"inputs\": any}], '' @
    ''\"goal\": string, \"expected_output\": any}. Do not include prose.''"

definition agent_request :: "string \<Rightarrow> string \<Rightarrow> string \<Rightarrow> u32 \<Rightarrow> llm_request" where
  "agent_request model system user max_tokens =
    \<lparr> rq_model = model, rq_messages = [message_system system, message_user user],
      rq_max_tokens = Some max_tokens, rq_temperature = Some 0, rq_tools = [], rq_system_prompt = None \<rparr>"

definition planner_request :: "'g dag_api \<Rightarrow> string \<Rightarrow> string \<Rightarrow> 'g \<Rightarrow> llm_request" where
  "planner_request P model goal g =
    agent_request model planner_system
      (''Goal: '' @ goal @ [nl, nl] @ ''Current DAG snapshot:'' @ [nl] @ describe_dag P g @ [nl, nl] @
       ''Return a JSON plan with at most '' @ show_nat max_steps @ '' steps.'') 1024"

definition check_plan :: "plan \<Rightarrow> (plan, agent_error) result" where
  "check_plan p =
    (if pl_steps p = [] then Err (APlanning ''planner returned an empty plan'')
     else if length (pl_steps p) > max_steps
     then Err (APlanning (''planner returned '' @ show_nat (length (pl_steps p)) @ '' steps (max '' @
                 show_nat max_steps @ '')''))
     else Ok p)"

definition planner_plan ::
    "'w agent_env \<Rightarrow> 'g dag_api \<Rightarrow> string \<Rightarrow> string \<Rightarrow> 'g \<Rightarrow> 'w \<Rightarrow> (plan, agent_error) result \<times> 'w" where
  "planner_plan env P model goal g w =
    (let (r, w1) = ae_complete env (planner_request P model goal g) w in
     (try_res (map_err AProvider r) (\<lambda>resp.
        try_res (extract_from_str (ae_parse env) (ae_plan_of env) (as_text (rs_content resp))) check_plan),
      w1))"

subsection \<open>The critic (critic.rs)\<close>

definition critic_system :: string where
  "critic_system =
    ''You are a critic. Reply with a JSON object: '' @
    ''{\"decision\": {\"kind\": \"accept\"} | '' @
    ''{\"kind\": \"reflect\", \"feedback\": string} | '' @
    ''{\"kind\": \"reject\", \"reason\": string}, '' @
    ''\"reasoning\": string}. '' @
    ''decision.kind MUST be exactly one of: accept, reflect, reject.''"

fun decision_of :: "wire_decision \<Rightarrow> critique_decision" where
  "decision_of WAccept = Accept"
| "decision_of (WReflect f) = Reflect f"
| "decision_of (WReject r) = Reject r"

definition into_critique :: "critique_wire \<Rightarrow> (critique, agent_error) result" where
  "into_critique c =
    (if trim (cw_reasoning c) = [] then Err (ALlm ''critic returned empty reasoning'')
     else Ok \<lparr> cq_decision = decision_of (cw_decision c), cq_reasoning = cw_reasoning c \<rparr>)"

definition critic_request :: "'w agent_env \<Rightarrow> string \<Rightarrow> plan \<Rightarrow> json list \<Rightarrow> llm_request" where
  "critic_request env model p results =
    agent_request model critic_system
      (''Goal: '' @ pl_goal p @ [nl] @ ''Steps: '' @ ae_print_steps env (pl_steps p) @ [nl] @
       ''Results: '' @ ae_print_values env results) 512"

definition critic_critique ::
    "'w agent_env \<Rightarrow> string \<Rightarrow> plan \<Rightarrow> json list \<Rightarrow> 'w \<Rightarrow> (critique, agent_error) result \<times> 'w" where
  "critic_critique env model p results w =
    (if length results \<noteq> length (pl_steps p) then
       (Err (AExecution (''results length '' @ show_nat (length results) @
               '' does not match plan steps '' @ show_nat (length (pl_steps p)))), w)
     else
       let (r, w1) = ae_complete env (critic_request env model p results) w in
       (try_res (map_err AProvider r) (\<lambda>resp.
          try_res (extract_from_str (ae_parse env) (ae_critique_of env) (as_text (rs_content resp)))
            into_critique),
        w1))"

subsection \<open>The supervisor (supervisor.rs)\<close>

definition MAX_REFLECTIONS :: u8 where
  "MAX_REFLECTIONS = 3"

datatype turn_outcome = Success json | TurnFailed string | ReflectionsExhausted

definition find_or_add_node ::
    "'w agent_env \<Rightarrow> 'g dag_api \<Rightarrow> string \<Rightarrow> json \<Rightarrow> 'g \<Rightarrow> 'w \<Rightarrow> nat \<times> 'g \<times> 'w" where
  "find_or_add_node env P label inputs g w =
    (case List.find (\<lambda>(i, n). nd_label n = label \<and> nd_status n = Pending) (nodes_iter P g) of
       Some (i, n) \<Rightarrow> (i, g, w)
     | None \<Rightarrow>
         let (uuid, w1) = ae_uuid env w; (g1, i) = add_node P g (dag_node_new uuid label inputs)
         in (i, g1, w1))"

text \<open>The node value handed to the executor.\<close>

definition running_node :: "string \<Rightarrow> plan_step \<Rightarrow> u32 \<Rightarrow> dag_node" where
  "running_node uuid s pid =
    \<lparr> nd_id = uuid, nd_label = ps_label s, nd_status = Running, nd_claimed_by = Some pid,
      nd_inputs = ps_inputs s, nd_outputs = JNull, nd_error_message = None \<rparr>"

definition execute_step ::
    "'w agent_env \<Rightarrow> 'g dag_api \<Rightarrow> 'w executor \<Rightarrow> node_context \<Rightarrow> plan_step \<Rightarrow> 'g \<Rightarrow> 'w \<Rightarrow>
     (json, agent_error) result \<times> 'g \<times> 'w" where
  "execute_step env P ex ctx s g w =
    (let (i, g1, w1) = find_or_add_node env P (ps_label s) (ps_inputs s) g w;
         pid = ai_pid (cx_identity ctx);
         (c, g2) = claim P g1 i pid
     in case c of
       Err e \<Rightarrow> (Err (ADag e), g2, w1)
     | Ok _ \<Rightarrow>
       (case node P g2 i of
          None \<Rightarrow>
            (Err (AExecution (''node NodeIndex('' @ show_nat i @ '') vanished under claim'')), g2, w1)
        | Some n \<Rightarrow>
          (case execute ex (running_node (nd_id n) s pid) ctx w1 of
             (Ok out, w2) \<Rightarrow>
               (case complete P g2 i out of
                  (Err e, g3) \<Rightarrow> (Err (ADag e), g3, w2)
                | (Ok _, g3) \<Rightarrow> (Ok out, g3, w2))
           | (Err e, w2) \<Rightarrow>
               (Err (AExecution (''step '' @ [CHR 0x27] @ ps_label s @ [CHR 0x27] @ '' failed: '' @
                       show_exec_error e)),
                fail P g2 i (show_exec_error e), w2))))"

fun execute_steps ::
    "'w agent_env \<Rightarrow> 'g dag_api \<Rightarrow> 'w executor \<Rightarrow> node_context \<Rightarrow> plan_step list \<Rightarrow> json list \<Rightarrow>
     'g \<Rightarrow> 'w \<Rightarrow> (json list, agent_error) result \<times> 'g \<times> 'w" where
  "execute_steps env P ex ctx [] results g w = (Ok results, g, w)"
| "execute_steps env P ex ctx (s # ss) results g w =
    (case execute_step env P ex ctx s g w of
       (Err e, g1, w1) \<Rightarrow> (Err e, g1, w1)
     | (Ok out, g1, w1) \<Rightarrow> execute_steps env P ex ctx ss (results @ [out]) g1 w1)"

definition execute_plan ::
    "'w agent_env \<Rightarrow> 'g dag_api \<Rightarrow> 'w executor \<Rightarrow> node_context \<Rightarrow> plan \<Rightarrow> 'g \<Rightarrow> 'w \<Rightarrow>
     (json list, agent_error) result \<times> 'g \<times> 'w" where
  "execute_plan env P ex ctx p g w = execute_steps env P ex ctx (pl_steps p) [] g w"

definition annotate_goal :: "string option \<Rightarrow> plan \<Rightarrow> plan" where
  "annotate_goal feedback p =
    (case feedback of
       None \<Rightarrow> p
     | Some fb \<Rightarrow> p\<lparr> pl_goal := pl_goal p @ [nl] @ ''[prior feedback: '' @ fb @ '']'' \<rparr>)"

text \<open>One pass of the loop body: either the turn is over, or the critic asks for another pass.\<close>

datatype pass_result = Done "(turn_outcome, agent_error) result" | Again string

definition supervisor_pass ::
    "'w agent_env \<Rightarrow> 'g dag_api \<Rightarrow> 'w executor \<Rightarrow> node_context \<Rightarrow> string \<Rightarrow> string \<Rightarrow> string option \<Rightarrow>
     'g \<Rightarrow> 'w \<Rightarrow> pass_result \<times> 'g \<times> 'w" where
  "supervisor_pass env P ex ctx model goal feedback g w =
    (case planner_plan env P model goal g w of
       (Err e, w1) \<Rightarrow> (Done (Err e), g, w1)
     | (Ok p0, w1) \<Rightarrow>
       (let p = annotate_goal feedback p0 in
        case execute_plan env P ex ctx p g w1 of
          (Err e, g2, w2) \<Rightarrow>
            (Done (Ok (TurnFailed (''execution error: '' @ show_agent_error e))), g2, w2)
        | (Ok results, g2, w2) \<Rightarrow>
          (case critic_critique env model p results w2 of
             (Err e, w3) \<Rightarrow> (Done (Err e), g2, w3)
           | (Ok c, w3) \<Rightarrow>
             (case cq_decision c of
                Accept \<Rightarrow> (Done (Ok (Success (if results = [] then JNull else last results))), g2, w3)
              | Reject reason \<Rightarrow> (Done (Ok (TurnFailed (''critic rejected: '' @ reason))), g2, w3)
              | Reflect fb \<Rightarrow> (Again fb, g2, w3)))))"

function run_loop ::
    "'w agent_env \<Rightarrow> 'g dag_api \<Rightarrow> 'w executor \<Rightarrow> node_context \<Rightarrow> string \<Rightarrow> string \<Rightarrow> u8 \<Rightarrow> string option \<Rightarrow>
     'g \<Rightarrow> 'w \<Rightarrow> (turn_outcome, agent_error) result \<times> 'g \<times> 'w" where
  "run_loop env P ex ctx model goal iteration feedback g w =
    (let it = sat_add iteration 1 in
     if it > MAX_REFLECTIONS then (Ok ReflectionsExhausted, g, w)
     else case supervisor_pass env P ex ctx model goal feedback g w of
       (Done r, g1, w1) \<Rightarrow> (r, g1, w1)
     | (Again fb, g1, w1) \<Rightarrow> run_loop env P ex ctx model goal it (Some fb) g1 w1)"
  by pat_completeness auto
termination
proof (relation "measure (\<lambda>(env, P, ex, ctx, model, goal, it, fb, g, w). 4 - unat it)", simp)
  fix iteration it :: u8
  assume "it = sat_add iteration 1" "\<not> it > MAX_REFLECTIONS"
  then have "unat it = unat iteration + 1" "unat it \<le> 3"
    by (auto simp: unat_sat_add MAX_REFLECTIONS_def word_le_nat_alt not_less min_def split: if_splits)
  then have lt: "4 - unat it < 4 - unat iteration" by linarith
  show "((env, P, ex, ctx, model, goal, it, Some fb, g1, w1),
         (env, P, ex, ctx, model, goal, iteration, feedback, g, w))
        \<in> measure (\<lambda>(env, P, ex, ctx, model, goal, it, fb, g, w). 4 - unat it)"
    for env P ex ctx model goal fb g1 w1 feedback g w
    using lt by simp
qed

declare run_loop.simps [simp del]

definition run_turn ::
    "'w agent_env \<Rightarrow> 'g dag_api \<Rightarrow> 'w executor \<Rightarrow> node_context \<Rightarrow> string \<Rightarrow> string \<Rightarrow> 'g \<Rightarrow> 'w \<Rightarrow>
     (turn_outcome, agent_error) result \<times> 'g \<times> 'w" where
  "run_turn env P ex ctx model goal g w = run_loop env P ex ctx model goal 0 None g w"

subsection \<open>What a step does to the graph\<close>

text \<open>The node a step works on and how it leaves the graph: every other node and all edges are as
  before, and the node was Pending or new.\<close>

definition touches_only :: "'g dag_api \<Rightarrow> nat \<Rightarrow> 'g \<Rightarrow> 'g \<Rightarrow> bool" where
  "touches_only P i g h \<longleftrightarrow> endpoints P h = endpoints P g \<and>
     (\<forall>j. j \<noteq> i \<longrightarrow> pg_weight P h j = pg_weight P g j) \<and>
     (pg_weight P g i = None \<or> status P g i = Some Pending)"

definition finished :: "'g dag_api \<Rightarrow> 'g \<Rightarrow> nat \<Rightarrow> string \<Rightarrow> json \<Rightarrow> bool" where
  "finished P g i l out \<longleftrightarrow> (\<exists>n. pg_weight P g i = Some n \<and> nd_status n = Completed \<and>
     nd_label n = l \<and> nd_outputs n = out)"

text \<open>A node that failed with a message, and the run of the handler that returned the error.\<close>

definition failed_with :: "'g dag_api \<Rightarrow> 'g \<Rightarrow> nat \<Rightarrow> string \<Rightarrow> string \<Rightarrow> bool" where
  "failed_with P g i l m \<longleftrightarrow> (\<exists>n. pg_weight P g i = Some n \<and> nd_status n = Failed \<and>
     nd_label n = l \<and> nd_error_message n = Some m)"

definition handler_failed ::
    "'w executor \<Rightarrow> node_context \<Rightarrow> plan_step \<Rightarrow> exec_error \<Rightarrow> 'w \<Rightarrow> bool" where
  "handler_failed ex ctx s e w' \<longleftrightarrow>
     (\<exists>u w. execute ex (running_node u s (ai_pid (cx_identity ctx))) ctx w = (Err e, w'))"

definition step_failure :: "string \<Rightarrow> exec_error \<Rightarrow> string" where
  "step_failure l e = ''step '' @ [CHR 0x27] @ l @ [CHR 0x27] @ '' failed: '' @ show_exec_error e"

text \<open>Nodes that are not Pending stay exactly as they are, and no edge changes.\<close>

definition settled_kept :: "'g dag_api \<Rightarrow> 'g \<Rightarrow> 'g \<Rightarrow> bool" where
  "settled_kept P g h \<longleftrightarrow> endpoints P h = endpoints P g \<and>
     (\<forall>j n. pg_weight P g j = Some n \<longrightarrow> nd_status n \<noteq> Pending \<longrightarrow> pg_weight P h j = Some n) \<and>
     (\<forall>j. status P h j = Some Running \<longrightarrow> status P g j = Some Running)"

lemma settled_kept_refl [simp]: "settled_kept P g g"
  by (simp add: settled_kept_def)

lemma settled_kept_trans: "settled_kept P g h \<Longrightarrow> settled_kept P h k \<Longrightarrow> settled_kept P g k"
  unfolding settled_kept_def by metis

lemma settled_kept_finished: "settled_kept P g h \<Longrightarrow> finished P g i l out \<Longrightarrow> finished P h i l out"
  by (auto simp: settled_kept_def finished_def)

lemma touches_settled:
  assumes "touches_only P i g h" "status P h i \<noteq> Some Running"
  shows "settled_kept P g h"
proof -
  have "pg_weight P h j = Some n" if "pg_weight P g j = Some n" "nd_status n \<noteq> Pending" for j n
    using that assms(1) by (cases "j = i") (auto simp: touches_only_def status_Some)
  moreover have "status P g j = Some Running" if "status P h j = Some Running" for j
    using that assms by (cases "j = i") (auto simp: touches_only_def status_Some)
  ultimately show ?thesis using assms(1) by (auto simp: settled_kept_def touches_only_def)
qed

context dag_contract
begin

lemma nodes_iter_weight: "(i, n) \<in> set (nodes_iter P g) \<Longrightarrow> pg_weight P g i = Some n"
  using indices [of g] by (auto simp: nodes_iter_def live_def)

lemma find_or_add_spec:
  assumes "dag_inv P g" "find_or_add_node env P l inp g w = (i, h, w')"
  shows "dag_inv P h \<and> touches_only P i g h \<and>
    (\<exists>n. pg_weight P h i = Some n \<and> nd_status n = Pending \<and> nd_label n = l \<and> node_ok n)"
proof (cases "List.find (\<lambda>(i, n). nd_label n = l \<and> nd_status n = Pending) (nodes_iter P g)")
  case (Some x)
  obtain j n where x: "x = (j, n)" by (cases x)
  from find_Some_in [OF Some] x have "pg_weight P g j = Some n" "nd_label n = l" "nd_status n = Pending"
    by (auto simp: nodes_iter_weight)
  with assms Some x show ?thesis
    by (auto simp: find_or_add_node_def touches_only_def status_Some dag_inv_def nodes_ok_def)
next
  case None
  obtain u v where u: "ae_uuid env w = (u, v)" by (cases "ae_uuid env w")
  let ?n = "dag_node_new u l inp"
  from assms(2) None u have a: "add_node P g ?n = (h, i)"
    by (auto simp: find_or_add_node_def split: prod.splits)
  then have p: "pg_add_node P ?n g = (h, i)" by (simp add: add_node_def)
  show ?thesis
    using add_node_inv [OF assms(1) dag_node_new_ok a] add_node_weight [OF p] add_node_edges [OF p]
      add_node_fresh [OF p] dag_node_new_ok [of u l inp]
    by (simp add: touches_only_def) (simp add: dag_node_new_def)
qed

text \<open>A step always gets its claim; it ends with its node Completed or Failed.\<close>

lemma execute_step_spec:
  assumes inv: "dag_inv P g" and ex: "execute_step env P ex ctx s g w = (r, h, w')"
  shows "\<exists>i. dag_inv P h \<and> touches_only P i g h \<and>
    (case r of
       Ok out \<Rightarrow> finished P h i (ps_label s) out
     | Err e \<Rightarrow> \<exists>x. e = AExecution (step_failure (ps_label s) x) \<and>
         failed_with P h i (ps_label s) (show_exec_error x) \<and> handler_failed ex ctx s x w')"
proof -
  let ?pid = "ai_pid (cx_identity ctx)"
  obtain i g1 w1 where f: "find_or_add_node env P (ps_label s) (ps_inputs s) g w = (i, g1, w1)"
    by (cases "find_or_add_node env P (ps_label s) (ps_inputs s) g w")
  from find_or_add_spec [OF inv f] obtain n
    where i1: "dag_inv P g1" and t1: "touches_only P i g g1" and n: "pg_weight P g1 i = Some n"
      "nd_status n = Pending" "nd_label n = ps_label s" "node_ok n" by auto
  define m where "m = n\<lparr> nd_claimed_by := Some ?pid, nd_status := Running \<rparr>"
  define g2 where "g2 = pg_set_weight P i m g1"
  from n have "nd_claimed_by n = None" by (simp add: node_ok_def)
  with n have c: "claim P g1 i ?pid = (Ok (), g2)" by (simp add: claim_def node_def g2_def m_def)
  have i2: "dag_inv P g2" using claim_inv [OF i1, of i ?pid] c by simp
  have l1: "i \<in> live P g1" using n(1) by (simp add: live_iff)
  have w2: "pg_weight P g2 = (pg_weight P g1)(i \<mapsto> m)" unfolding g2_def by (rule set_weight [OF l1])
  have e2: "endpoints P g2 = endpoints P g1" by (simp add: g2_def set_weight_edges)
  have l2: "i \<in> live P g2" by (simp add: live_iff w2)
  have touch: "touches_only P i g (pg_set_weight P i k g2)" for k
    using t1 e2 w2 by (auto simp: touches_only_def set_weight_edges set_weight [OF l2])
  obtain res w3 where x: "execute ex (running_node (nd_id m) s ?pid) ctx w1 = (res, w3)"
    by (cases "execute ex (running_node (nd_id m) s ?pid) ctx w1")
  show ?thesis
  proof (cases res)
    case (Ok out)
    define k where "k = m\<lparr> nd_status := Completed, nd_outputs := out, nd_claimed_by := None,
      nd_error_message := None \<rparr>"
    have co: "complete P g2 i out = (Ok (), pg_set_weight P i k g2)"
      using w2 by (simp add: complete_def node_def m_def k_def)
    with ex f c x Ok w2 have h: "h = pg_set_weight P i k g2" "r = result.Ok out"
      by (auto simp: execute_step_def node_def Let_def)
    moreover have "dag_inv P h" using complete_inv [OF i2, of i out] co h by simp
    moreover have "finished P h i (ps_label s) out"
      using n by (auto simp: finished_def h set_weight [OF l2] k_def m_def)
    ultimately show ?thesis using touch [of k] by auto
  next
    case (Err e)
    let ?msg = "show_exec_error e"
    define k where "k = m\<lparr> nd_status := Failed, nd_error_message := Some ?msg, nd_claimed_by := None \<rparr>"
    have fa: "fail P g2 i ?msg = pg_set_weight P i k g2" using w2 by (simp add: fail_def node_def k_def)
    with ex f c x Err w2 have h: "h = pg_set_weight P i k g2" "w' = w3"
        "r = result.Err (AExecution (step_failure (ps_label s) e))"
      by (auto simp: execute_step_def node_def Let_def step_failure_def)
    moreover have "dag_inv P h" using fail_inv [OF i2, of i ?msg] fa h by simp
    moreover have "failed_with P h i (ps_label s) ?msg"
      using n by (simp add: failed_with_def h set_weight [OF l2]) (simp add: k_def m_def)
    moreover have "handler_failed ex ctx s e w'"
      using x Err h(2) by (auto simp: handler_failed_def)
    ultimately show ?thesis using touch [of k] by (intro exI [of _ i]) auto
  qed
qed

end

subsection \<open>Plans and turns\<close>

text \<open>Every step of the plan has a node of its own, which is Completed with the step's label and
  the step's output.\<close>

definition plan_done :: "'g dag_api \<Rightarrow> 'g \<Rightarrow> plan_step list \<Rightarrow> (nat \<times> json) list \<Rightarrow> bool" where
  "plan_done P h ss xs \<longleftrightarrow> distinct (map fst xs) \<and>
     list_all2 (\<lambda>s (i, out). finished P h i (ps_label s) out) ss xs"

definition unsettled :: "'g dag_api \<Rightarrow> 'g \<Rightarrow> nat \<Rightarrow> bool" where
  "unsettled P g i \<longleftrightarrow> pg_weight P g i = None \<or> status P g i = Some Pending"

lemma unsettled_back: "settled_kept P g h \<Longrightarrow> unsettled P h i \<Longrightarrow> unsettled P g i"
  unfolding settled_kept_def unsettled_def status_Some by (metis option.exhaust option.sel option.discI)

lemma finished_not_unsettled: "finished P g i l out \<Longrightarrow> \<not> unsettled P g i"
  by (auto simp: finished_def unsettled_def status_Some)

lemma failed_not_running: "failed_with P g i l m \<Longrightarrow> status P g i \<noteq> Some Running"
  by (auto simp: failed_with_def status_Some)

text \<open>The execution of a step of the plan failed, on a node that was Pending or new before.\<close>

definition step_broke ::
    "'g dag_api \<Rightarrow> 'w executor \<Rightarrow> node_context \<Rightarrow> plan_step list \<Rightarrow> 'g \<Rightarrow> 'g \<Rightarrow> agent_error \<Rightarrow> 'w \<Rightarrow> bool" where
  "step_broke P ex ctx ss g h e w' \<longleftrightarrow> (\<exists>s \<in> set ss. \<exists>x i. e = AExecution (step_failure (ps_label s) x) \<and>
     unsettled P g i \<and> failed_with P h i (ps_label s) (show_exec_error x) \<and> handler_failed ex ctx s x w')"

lemma step_broke_mono:
  "step_broke P ex ctx ss g h e w' \<Longrightarrow> set ss \<subseteq> set ss' \<Longrightarrow> step_broke P ex ctx ss' g h e w'"
  unfolding step_broke_def by blast

lemma step_broke_back:
  "settled_kept P g k \<Longrightarrow> step_broke P ex ctx ss k h e w' \<Longrightarrow> step_broke P ex ctx ss g h e w'"
  unfolding step_broke_def using unsettled_back by metis

lemma finished_not_running: "finished P g i l out \<Longrightarrow> status P g i \<noteq> Some Running"
  by (auto simp: finished_def status_Some)

context dag_contract
begin

lemma step_settled:
  assumes "dag_inv P g" "execute_step env P ex ctx s g w = (r, h, w')"
  shows "dag_inv P h \<and> settled_kept P g h \<and>
    (case r of
       Ok out \<Rightarrow> \<exists>i. finished P h i (ps_label s) out \<and> unsettled P g i
     | Err e \<Rightarrow> step_broke P ex ctx [s] g h e w')"
proof -
  from execute_step_spec [OF assms] obtain i where i: "dag_inv P h" "touches_only P i g h"
    and r: "case r of Ok out \<Rightarrow> finished P h i (ps_label s) out
      | Err e \<Rightarrow> \<exists>x. e = AExecution (step_failure (ps_label s) x) \<and>
         failed_with P h i (ps_label s) (show_exec_error x) \<and> handler_failed ex ctx s x w'" by blast
  from r have "status P h i \<noteq> Some Running" by (cases r) (auto dest: finished_not_running failed_not_running)
  with touches_settled [OF i(2)] have "settled_kept P g h" by blast
  moreover from i(2) have "unsettled P g i" by (auto simp: touches_only_def unsettled_def)
  ultimately show ?thesis using i(1) r by (cases r) (auto simp: step_broke_def)
qed

lemma execute_steps_spec:
  "dag_inv P g \<Longrightarrow> execute_steps env P ex ctx ss acc g w = (r, h, w') \<Longrightarrow>
    dag_inv P h \<and> settled_kept P g h \<and>
    (case r of
       Ok rs \<Rightarrow> \<exists>xs. rs = acc @ map snd xs \<and> plan_done P h ss xs \<and> (\<forall>i \<in> fst ` set xs. unsettled P g i)
     | Err e \<Rightarrow> step_broke P ex ctx ss g h e w')"
proof (induction ss arbitrary: acc g w)
  case Nil
  then show ?case by (auto simp: plan_done_def)
next
  case (Cons s ss)
  obtain r1 g1 w1 where s: "execute_step env P ex ctx s g w = (r1, g1, w1)"
    by (cases "execute_step env P ex ctx s g w")
  note one = step_settled [OF Cons.prems(1) s]
  show ?case
  proof (cases r1)
    case (Err e)
    with s Cons.prems(2) have "h = g1" "w' = w1" "r = result.Err e" by auto
    with one Err step_broke_mono [of P ex ctx "[s]" g g1 e w1 "s # ss"] show ?thesis by simp
  next
    case (Ok out)
    with s Cons.prems(2) have rest: "execute_steps env P ex ctx ss (acc @ [out]) g1 w1 = (r, h, w')" by simp
    from one Ok obtain i where i: "finished P g1 i (ps_label s) out" "unsettled P g i"
      and g1: "dag_inv P g1" "settled_kept P g g1" by auto
    note IH = Cons.IH [OF g1(1) rest]
    from IH g1 have base: "dag_inv P h" "settled_kept P g h" by (auto intro: settled_kept_trans)
    show ?thesis
    proof (cases r)
      case (Err e)
      with IH have "step_broke P ex ctx ss g1 h e w'" by simp
      from step_broke_mono [OF step_broke_back [OF g1(2) this], of "s # ss"]
      have "step_broke P ex ctx (s # ss) g h e w'" by auto
      with Err base show ?thesis by simp
    next
      case (Ok rs)
      with IH obtain xs where xs: "rs = (acc @ [out]) @ map snd xs" "plan_done P h ss xs"
        "\<forall>i \<in> fst ` set xs. unsettled P g1 i" by auto
      from xs(3) i(1) have "i \<notin> fst ` set xs" by (auto dest: finished_not_unsettled)
      moreover have "finished P h i (ps_label s) out" using IH i(1) by (auto dest: settled_kept_finished)
      ultimately have "plan_done P h (s # ss) ((i, out) # xs)" using xs(2) by (auto simp: plan_done_def)
      moreover have "\<forall>j \<in> fst ` set ((i, out) # xs). unsettled P g j"
        using xs(3) i(2) unsettled_back [OF g1(2)] by auto
      ultimately show ?thesis using xs(1) base Ok by (auto intro!: exI [of _ "(i, out) # xs"])
    qed
  qed
qed

lemma execute_plan_spec:
  "dag_inv P g \<Longrightarrow> execute_plan env P ex ctx p g w = (r, h, w') \<Longrightarrow>
    dag_inv P h \<and> settled_kept P g h \<and>
    (case r of
       Ok rs \<Rightarrow> \<exists>xs. rs = map snd xs \<and> plan_done P h (pl_steps p) xs
     | Err e \<Rightarrow> step_broke P ex ctx (pl_steps p) g h e w')"
  using execute_steps_spec [of g env ex ctx "pl_steps p" "[]" w r h w']
  by (auto simp: execute_plan_def split: result.splits)

end

lemma planner_plan_ok:
  "planner_plan env P model goal g w = (Ok p, w') \<Longrightarrow>
    1 \<le> length (pl_steps p) \<and> length (pl_steps p) \<le> 16"
  by (auto simp: planner_plan_def check_plan_def max_steps_def Suc_le_eq split: prod.splits if_splits)

lemma annotate_goal_steps [simp]: "pl_steps (annotate_goal fb p) = pl_steps p"
  by (simp add: annotate_goal_def split: option.splits)

text \<open>The last pass of a turn: the plan of 1 to 16 steps was executed completely, \<open>v\<close> is the output of its last step,
  and the critic, shown all the outputs, gave the verdict \<open>d\<close>.\<close>

definition judged ::
    "'w agent_env \<Rightarrow> 'g dag_api \<Rightarrow> string \<Rightarrow> 'g \<Rightarrow> 'w \<Rightarrow> critique_decision \<Rightarrow> json \<Rightarrow> bool" where
  "judged env P model h w' d v \<longleftrightarrow> (\<exists>p xs w1 c. 1 \<le> length (pl_steps p) \<and> length (pl_steps p) \<le> 16 \<and>
     plan_done P h (pl_steps p) xs \<and> v = snd (last xs) \<and>
     critic_critique env model p (map snd xs) w1 = (Ok c, w') \<and> cq_decision c = d)"

text \<open>What is known of a turn from its outcome: an error is one of the planner's or the critic's model call, never one of
  the graph or of an execution.\<close>

fun model_error :: "agent_error \<Rightarrow> bool" where
  "model_error (AProvider e) = True"
| "model_error (ALlm m) = True"
| "model_error (APlanning m) = True"
| "model_error _ = False"

definition turn_ok ::
    "'w agent_env \<Rightarrow> 'g dag_api \<Rightarrow> 'w executor \<Rightarrow> node_context \<Rightarrow> string \<Rightarrow> string \<Rightarrow> 'g \<Rightarrow>
     (turn_outcome, agent_error) result \<Rightarrow> 'g \<Rightarrow> 'w \<Rightarrow> bool" where
  "turn_ok env P ex ctx model goal g r h w' \<longleftrightarrow>
     (case r of
        Ok (Success v) \<Rightarrow> judged env P model h w' Accept v
      | Ok (TurnFailed m) \<Rightarrow>
          (\<exists>reason v. judged env P model h w' (Reject reason) v \<and> m = ''critic rejected: '' @ reason) \<or>
          (\<exists>ss e. step_broke P ex ctx ss g h e w' \<and> m = ''execution error: '' @ show_agent_error e)
      | Ok ReflectionsExhausted \<Rightarrow> \<exists>f v. judged env P model h w' (Reflect f) v
      | Err e \<Rightarrow> model_error e \<and>
          ((\<exists>w1. planner_plan env P model goal h w1 = (Err e, w')) \<or>
           (\<exists>p rs w1. critic_critique env model p rs w1 = (Err e, w'))))"

lemma turn_ok_back:
  "settled_kept P g k \<Longrightarrow> turn_ok env P ex ctx model goal k r h w' \<Longrightarrow> turn_ok env P ex ctx model goal g r h w'"
  unfolding turn_ok_def using step_broke_back [of P g k ex ctx _ h _ w']
  by (cases r; cases "case r of Ok q \<Rightarrow> q | Err e \<Rightarrow> ReflectionsExhausted") (simp_all, blast)

lemma planner_model_error:
  "planner_plan env P model goal g w = (Err e, w') \<Longrightarrow> model_error e"
  by (auto simp: planner_plan_def check_plan_def extract_from_str_def try_res_Err_iff map_err_Err_iff
      split: prod.splits if_splits)

lemma critic_model_error:
  "critic_critique env model p rs w = (Err e, w') \<Longrightarrow> length rs = length (pl_steps p) \<Longrightarrow> model_error e"
  by (auto simp: critic_critique_def into_critique_def extract_from_str_def try_res_Err_iff map_err_Err_iff
      split: prod.splits if_splits)

context dag_contract
begin

lemma supervisor_pass_spec:
  assumes inv: "dag_inv P g"
    and sp: "supervisor_pass env P ex ctx model goal fb g w = (r, h, w')"
  shows "dag_inv P h \<and> settled_kept P g h \<and>
    (case r of Done q \<Rightarrow> turn_ok env P ex ctx model goal g q h w' | Again f \<Rightarrow> \<exists>v. judged env P model h w' (Reflect f) v)"
proof -
  obtain pr w1 where pl: "planner_plan env P model goal g w = (pr, w1)"
    by (cases "planner_plan env P model goal g w")
  show ?thesis
  proof (cases pr)
    case (Err e)
    with pl sp inv planner_model_error [of env P model goal g w e w1] show ?thesis
      by (auto simp: supervisor_pass_def turn_ok_def)
  next
    case (Ok p0)
    let ?p = "annotate_goal fb p0"
    obtain er g2 w2 where e: "execute_plan env P ex ctx ?p g w1 = (er, g2, w2)"
      by (cases "execute_plan env P ex ctx ?p g w1")
    note es = execute_plan_spec [OF inv e]
    from planner_plan_ok [of env P model goal g w p0 w1] pl Ok
    have len: "1 \<le> length (pl_steps p0)" "length (pl_steps p0) \<le> 16" by auto
    show ?thesis
    proof (cases er)
      case (Err x)
      with pl Ok e sp have h: "h = g2" "w' = w2" "r = Done (result.Ok (TurnFailed (''execution error: '' @ show_agent_error x)))"
        by (auto simp: supervisor_pass_def)
      from es Err have "step_broke P ex ctx (pl_steps ?p) g g2 x w2" by simp
      then have "turn_ok env P ex ctx model goal g (result.Ok (TurnFailed (''execution error: '' @ show_agent_error x))) g2 w2"
        unfolding turn_ok_def result.case turn_outcome.case by blast
      with h es show ?thesis by simp
    next
      case rs: (Ok rs)
      with es obtain xs where xs: "rs = map snd xs" "plan_done P g2 (pl_steps p0) xs" by auto
      from xs(2) len have ne: "xs \<noteq> []" and lx: "length xs = length (pl_steps p0)"
        by (auto simp: plan_done_def dest: list_all2_lengthD)
      obtain cr w3 where c: "critic_critique env model ?p rs w2 = (cr, w3)"
        by (cases "critic_critique env model ?p rs w2")
      show ?thesis
      proof (cases cr)
        case (Err x)
        with c critic_model_error [of env model ?p rs w2 x w3] xs(1) lx have "model_error x" by simp
        with pl Ok e rs c Err sp es show ?thesis
          by (auto simp: supervisor_pass_def turn_ok_def)
      next
        case cok: (Ok q)
        have j: "judged env P model g2 w3 (cq_decision q) (last rs)"
          unfolding judged_def using len xs ne c cok
          by (intro exI [of _ ?p] exI [of _ xs] exI [of _ w2] exI [of _ q]) (auto simp: last_map)
        from xs(1) ne have "rs \<noteq> []" by simp
        with pl Ok e rs c cok sp es j show ?thesis
          by (cases "cq_decision q") (auto simp: supervisor_pass_def turn_ok_def)
      qed
    qed
  qed
qed

lemma run_loop_spec:
  "dag_inv P g \<Longrightarrow> (unat it = 3 \<Longrightarrow> \<exists>f v. judged env P model g w (Reflect f) v) \<Longrightarrow> unat it \<le> 3 \<Longrightarrow>
    run_loop env P ex ctx model goal it fb g w = (r, h, w') \<Longrightarrow>
    dag_inv P h \<and> settled_kept P g h \<and> turn_ok env P ex ctx model goal g r h w'"
proof (induction "4 - unat it" arbitrary: it fb g w rule: less_induct)
  case less
  let ?it = "sat_add it 1"
  have it: "unat ?it = unat it + 1" using less.prems(3) by (simp add: unat_sat_add)
  obtain pr g1 w1 where p: "supervisor_pass env P ex ctx model goal fb g w = (pr, g1, w1)"
    by (cases "supervisor_pass env P ex ctx model goal fb g w")
  show ?case
  proof (cases "?it > MAX_REFLECTIONS")
    case True
    with it less.prems(3) have "unat it = 3" by (simp add: MAX_REFLECTIONS_def word_less_nat_alt)
    with less.prems(2) obtain f v where j: "judged env P model g w (Reflect f) v" by blast
    from less.prems(4) True have "r = Ok ReflectionsExhausted" "h = g" "w' = w"
      by (auto simp: run_loop.simps [of env P ex ctx model goal it] Let_def)
    with j less.prems(1) show ?thesis unfolding turn_ok_def by (simp, blast)
  next
    case False
    then have le: "unat ?it \<le> 3" by (simp add: MAX_REFLECTIONS_def word_less_nat_alt)
    with it have lt: "4 - unat ?it < 4 - unat it" by linarith
    note sp = supervisor_pass_spec [OF less.prems(1) p]
    show ?thesis
    proof (cases pr)
      case (Done q)
      with less.prems(4) False p sp show ?thesis
        by (auto simp: run_loop.simps [of env P ex ctx model goal it] Let_def)
    next
      case (Again f)
      with less.prems(4) False p have rest: "run_loop env P ex ctx model goal ?it (Some f) g1 w1 = (r, h, w')"
        by (simp add: run_loop.simps [of env P ex ctx model goal it] Let_def)
      have "dag_inv P g1" "settled_kept P g g1" "\<exists>v. judged env P model g1 w1 (Reflect f) v"
        using sp Again by auto
      with less.hyps [OF lt this(1) _ le rest] show ?thesis
        by (blast intro: settled_kept_trans turn_ok_back)
    qed
  qed
qed

lemma run_turn_spec:
  "dag_inv P g \<Longrightarrow> run_turn env P ex ctx model goal g w = (r, h, w') \<Longrightarrow>
    dag_inv P h \<and> settled_kept P g h \<and> turn_ok env P ex ctx model goal g r h w'"
  unfolding run_turn_def by (rule run_loop_spec) simp_all

end

lemma run_loop_stop: "run_loop env P ex ctx model goal 3 fb g w = (Ok ReflectionsExhausted, g, w)"
  by (simp add: run_loop.simps [of env P ex ctx model goal 3] sat_add_def MAX_REFLECTIONS_def)

lemma run_loop_next:
  "it < 3 \<Longrightarrow> run_loop env P ex ctx model goal it fb g w =
    (case supervisor_pass env P ex ctx model goal fb g w of
       (Done r, g1, w1) \<Rightarrow> (r, g1, w1)
     | (Again f, g1, w1) \<Rightarrow> run_loop env P ex ctx model goal (it + 1) (Some f) g1 w1)"
proof -
  assume "it < 3"
  then have lt: "unat it < 3" by (simp add: word_less_nat_alt)
  then have s: "sat_add it 1 = it + 1" by (simp add: sat_add_def)
  have "unat (it + 1) \<le> 3" using lt by (simp add: unat_word_ariths)
  then have "\<not> it + 1 > MAX_REFLECTIONS" by (simp add: MAX_REFLECTIONS_def word_le_nat_alt not_less)
  with s show ?thesis by (simp add: run_loop.simps [of env P ex ctx model goal it] Let_def)
qed

lemma run_turn_unfold:
  "run_turn env P ex ctx model goal g w =
    (case supervisor_pass env P ex ctx model goal None g w of
       (Done r, g1, w1) \<Rightarrow> (r, g1, w1)
     | (Again f1, g1, w1) \<Rightarrow>
       (case supervisor_pass env P ex ctx model goal (Some f1) g1 w1 of
          (Done r, g2, w2) \<Rightarrow> (r, g2, w2)
        | (Again f2, g2, w2) \<Rightarrow>
          (case supervisor_pass env P ex ctx model goal (Some f2) g2 w2 of
             (Done r, g3, w3) \<Rightarrow> (r, g3, w3)
           | (Again f3, g3, w3) \<Rightarrow> (Ok ReflectionsExhausted, g3, w3))))"
  unfolding run_turn_def
  by (simp add: run_loop_next run_loop_stop split: prod.splits pass_result.splits)

subsection \<open>The protocol of a turn\<close>

text \<open>How a pass can go, in terms of the planner, the execution and the critic: the critic gives a verdict on the whole
  execution, or the pass breaks off with an outcome.\<close>

definition pass_verdict ::
    "'w agent_env \<Rightarrow> 'g dag_api \<Rightarrow> 'w executor \<Rightarrow> node_context \<Rightarrow> string \<Rightarrow> string \<Rightarrow> string option \<Rightarrow>
     'g \<Rightarrow> 'w \<Rightarrow> critique_decision \<Rightarrow> json \<Rightarrow> 'g \<Rightarrow> 'w \<Rightarrow> bool" where
  "pass_verdict env P ex ctx model goal fb g w d v h w' \<longleftrightarrow> (\<exists>p w1 rs w2 c.
     planner_plan env P model goal g w = (Ok p, w1) \<and>
     execute_plan env P ex ctx (annotate_goal fb p) g w1 = (Ok rs, h, w2) \<and>
     critic_critique env model (annotate_goal fb p) rs w2 = (Ok c, w') \<and>
     cq_decision c = d \<and> rs \<noteq> [] \<and> v = last rs)"

definition pass_broken ::
    "'w agent_env \<Rightarrow> 'g dag_api \<Rightarrow> 'w executor \<Rightarrow> node_context \<Rightarrow> string \<Rightarrow> string \<Rightarrow> string option \<Rightarrow>
     'g \<Rightarrow> 'w \<Rightarrow> (turn_outcome, agent_error) result \<Rightarrow> 'g \<Rightarrow> 'w \<Rightarrow> bool" where
  "pass_broken env P ex ctx model goal fb g w r h w' \<longleftrightarrow>
     (\<exists>e. planner_plan env P model goal g w = (Err e, w') \<and> r = Err e \<and> h = g) \<or>
     (\<exists>p w1 e. planner_plan env P model goal g w = (Ok p, w1) \<and>
        execute_plan env P ex ctx (annotate_goal fb p) g w1 = (Err e, h, w') \<and>
        r = Ok (TurnFailed (''execution error: '' @ show_agent_error e))) \<or>
     (\<exists>p w1 rs w2 e. planner_plan env P model goal g w = (Ok p, w1) \<and>
        execute_plan env P ex ctx (annotate_goal fb p) g w1 = (Ok rs, h, w2) \<and>
        critic_critique env model (annotate_goal fb p) rs w2 = (Err e, w') \<and> r = Err e)"

text \<open>Passes that all ended with the verdict Reflect, with the feedback they gave; each pass gets that of the one before.\<close>

definition feedback :: "string list \<Rightarrow> string option" where
  "feedback fs = (if fs = [] then None else Some (last fs))"

inductive reflected ::
    "'w agent_env \<Rightarrow> 'g dag_api \<Rightarrow> 'w executor \<Rightarrow> node_context \<Rightarrow> string \<Rightarrow> string \<Rightarrow>
     'g \<Rightarrow> 'w \<Rightarrow> string list \<Rightarrow> 'g \<Rightarrow> 'w \<Rightarrow> bool"
    for env P ex ctx model goal where
  reflected_none: "reflected env P ex ctx model goal g w [] g w"
| reflected_again: "reflected env P ex ctx model goal g w fs g1 w1 \<Longrightarrow>
    pass_verdict env P ex ctx model goal (feedback fs) g1 w1 (Reflect f) v g2 w2 \<Longrightarrow>
    reflected env P ex ctx model goal g w (fs @ [f]) g2 w2"

text \<open>How a turn ends after such passes.\<close>

definition turn_ends ::
    "'w agent_env \<Rightarrow> 'g dag_api \<Rightarrow> 'w executor \<Rightarrow> node_context \<Rightarrow> string \<Rightarrow> string \<Rightarrow> string option \<Rightarrow>
     'g \<Rightarrow> 'w \<Rightarrow> (turn_outcome, agent_error) result \<Rightarrow> 'g \<Rightarrow> 'w \<Rightarrow> bool" where
  "turn_ends env P ex ctx model goal fb g w r h w' \<longleftrightarrow>
     (\<exists>v. pass_verdict env P ex ctx model goal fb g w Accept v h w' \<and> r = Ok (Success v)) \<or>
     (\<exists>m v. pass_verdict env P ex ctx model goal fb g w (Reject m) v h w' \<and>
        r = Ok (TurnFailed (''critic rejected: '' @ m))) \<or>
     pass_broken env P ex ctx model goal fb g w r h w'"

lemma execute_steps_length:
  "execute_steps env P ex ctx ss acc g w = (Ok rs, h, w') \<Longrightarrow> length rs = length acc + length ss"
  by (induction ss arbitrary: acc g w) (auto split: prod.splits result.splits)

lemma executed_nonempty:
  assumes "planner_plan env P model goal g w = (Ok p, w1)"
    and "execute_plan env P ex ctx (annotate_goal fb p) g w1 = (Ok rs, h, w2)"
  shows "rs \<noteq> []"
  using planner_plan_ok [OF assms(1)] execute_steps_length [OF assms(2) [unfolded execute_plan_def]] by auto

lemma supervisor_pass_again:
  "supervisor_pass env P ex ctx model goal fb g w = (Again f, h, w') \<longleftrightarrow>
    (\<exists>v. pass_verdict env P ex ctx model goal fb g w (Reflect f) v h w')"
  using executed_nonempty [of env P model goal g w _ _ ex ctx fb]
  by (auto simp: supervisor_pass_def pass_verdict_def Let_def
      split: prod.splits result.splits critique_decision.splits)

lemma supervisor_pass_done:
  "supervisor_pass env P ex ctx model goal fb g w = (Done r, h, w') \<longleftrightarrow>
    turn_ends env P ex ctx model goal fb g w r h w'"
  by (auto dest: executed_nonempty simp: supervisor_pass_def turn_ends_def pass_verdict_def pass_broken_def Let_def
      split: prod.splits result.splits critique_decision.splits)

lemma feedback_snoc [simp]: "feedback (fs @ [f]) = Some f"
  by (simp add: feedback_def)

lemma reflected_run_loop:
  "reflected env P ex ctx model goal g w fs g1 w1 \<Longrightarrow> length fs \<le> 3 \<Longrightarrow>
    run_turn env P ex ctx model goal g w = run_loop env P ex ctx model goal (of_nat (length fs)) (feedback fs) g1 w1"
proof (induction rule: reflected.induct)
  case (reflected_none g w)
  show ?case by (simp add: run_turn_def feedback_def)
next
  case (reflected_again g w fs g1 w1 f v g2 w2)
  have "supervisor_pass env P ex ctx model goal (feedback fs) g1 w1 = (Again f, g2, w2)"
    using reflected_again.hyps by (auto simp: supervisor_pass_again)
  moreover have "(of_nat (length fs) :: u8) < 3" using reflected_again.prems by (simp add: word_less_nat_alt unat_of_nat)
  ultimately show ?case using reflected_again by (simp add: run_loop_next add.commute)
qed

lemma run_loop_reflected:
  "run_loop env P ex ctx model goal (of_nat n) (feedback fs) g w = (r, h, w') \<Longrightarrow>
    reflected env P ex ctx model goal g0 w0 fs g w \<Longrightarrow> n = length fs \<Longrightarrow> n \<le> 3 \<Longrightarrow>
    \<exists>fs g1 w1. reflected env P ex ctx model goal g0 w0 fs g1 w1 \<and>
      (length fs = 3 \<and> r = Ok ReflectionsExhausted \<and> h = g1 \<and> w' = w1 \<or>
       length fs < 3 \<and> turn_ends env P ex ctx model goal (feedback fs) g1 w1 r h w')"
proof (induction "3 - n" arbitrary: n fs g w)
  case 0
  then have "length fs = 3" "n = 3" by auto
  with 0 show ?case by (intro exI [of _ fs] exI [of _ g] exI [of _ w]) (simp add: run_loop_stop)
next
  case (Suc k)
  then have lt: "(of_nat n :: u8) < 3" by (simp add: word_less_nat_alt unat_of_nat)
  obtain pr g1 w1 where p: "supervisor_pass env P ex ctx model goal (feedback fs) g w = (pr, g1, w1)"
    by (cases "supervisor_pass env P ex ctx model goal (feedback fs) g w")
  show ?case
  proof (cases pr)
    case (Done q)
    with Suc.prems(1) p lt have "r = q" "h = g1" "w' = w1" by (simp_all add: run_loop_next)
    with p Done have "turn_ends env P ex ctx model goal (feedback fs) g w r h w'" by (simp add: supervisor_pass_done)
    moreover from Suc.hyps(2) Suc.prems(3) have "length fs < 3" by linarith
    ultimately show ?thesis using Suc.prems(2) by blast
  next
    case (Again f)
    from p Again obtain v where v: "pass_verdict env P ex ctx model goal (feedback fs) g w (Reflect f) v g1 w1"
      by (auto simp: supervisor_pass_again)
    from Suc.prems(1) p Again lt
    have "run_loop env P ex ctx model goal (of_nat (Suc n)) (feedback (fs @ [f])) g1 w1 = (r, h, w')"
      by (simp add: run_loop_next add.commute)
    with Suc.hyps(1) [of "Suc n" "fs @ [f]" g1 w1] Suc.hyps(2) Suc.prems reflected_again [OF Suc.prems(2) v]
    show ?thesis by simp
  qed
qed

subsection \<open>Properties\<close>

text \<open>C6: the protocol of a turn: a turn always ends, with the result of exactly this kind of run: some passes,
  at most three, whose verdict was Reflect, each handing its feedback to the next; after three of them the turn
  reports exhausted reflections and calls nobody any more, and before that it ends with the first pass that is
  accepted (with the last output), rejected (with the reason) or breaks off: Reflect is the only verdict that
  continues.\<close>

theorem run_turn_three_passes:
  "run_turn env P ex ctx model goal g w = (r, h, w') \<longleftrightarrow>
    (\<exists>fs g1 w1. reflected env P ex ctx model goal g w fs g1 w1 \<and>
      (length fs = 3 \<and> r = Ok ReflectionsExhausted \<and> h = g1 \<and> w' = w1 \<or>
       length fs < 3 \<and> turn_ends env P ex ctx model goal (feedback fs) g1 w1 r h w'))"
proof
  assume "run_turn env P ex ctx model goal g w = (r, h, w')"
  then show "\<exists>fs g1 w1. reflected env P ex ctx model goal g w fs g1 w1 \<and>
      (length fs = 3 \<and> r = Ok ReflectionsExhausted \<and> h = g1 \<and> w' = w1 \<or>
       length fs < 3 \<and> turn_ends env P ex ctx model goal (feedback fs) g1 w1 r h w')"
    using run_loop_reflected [of env P ex ctx model goal 0 "[]" g w r h w' g w]
    by (simp add: run_turn_def feedback_def reflected_none)
next
  assume "\<exists>fs g1 w1. reflected env P ex ctx model goal g w fs g1 w1 \<and>
      (length fs = 3 \<and> r = Ok ReflectionsExhausted \<and> h = g1 \<and> w' = w1 \<or>
       length fs < 3 \<and> turn_ends env P ex ctx model goal (feedback fs) g1 w1 r h w')"
  then obtain fs g1 w1 where f: "reflected env P ex ctx model goal g w fs g1 w1"
    and e: "length fs = 3 \<and> r = Ok ReflectionsExhausted \<and> h = g1 \<and> w' = w1 \<or>
      length fs < 3 \<and> turn_ends env P ex ctx model goal (feedback fs) g1 w1 r h w'" by blast
  from e have l: "run_turn env P ex ctx model goal g w =
      run_loop env P ex ctx model goal (of_nat (length fs)) (feedback fs) g1 w1"
    by (intro reflected_run_loop [OF f]) auto
  from e show "run_turn env P ex ctx model goal g w = (r, h, w')"
  proof (elim disjE conjE)
    assume "length fs < 3" "turn_ends env P ex ctx model goal (feedback fs) g1 w1 r h w'"
    with l show ?thesis
      by (simp add: run_loop_next word_less_nat_alt unat_of_nat flip: supervisor_pass_done)
  qed (simp add: l run_loop_stop)
qed

text \<open>C5: whatever the language model and the handlers do, a turn leaves the graph sound: the graph invariant holds
  again, edges and every node that was not Pending are untouched, and no node is left Running that was not Running
  before, so no claim leaks. Its outcome tells what happened: on success the plan had 1 to 16 steps, each of which
  has a Completed node of its own with its output, and the value returned is the last output, accepted by the
  critic, who saw them all; a failed turn was rejected by the critic after such an execution, with its reason, or a
  handler returned an error, whose node, Pending or new before, is Failed with that message; exhausted reflections
  mean that the critic asked for one more; and an error is that of a call to the model or of a plan or critique
  that does not parse, never one of the graph's life cycle.\<close>

theorem run_turn_safe:
  assumes "dag_contract P" "dag_inv P g"
    and "run_turn env P ex ctx model goal g w = (r, h, w')"
  shows "dag_inv P h \<and> settled_kept P g h \<and>
    (case r of
       Ok (Success v) \<Rightarrow> judged env P model h w' Accept v
     | Ok (TurnFailed m) \<Rightarrow>
         (\<exists>reason v. judged env P model h w' (Reject reason) v \<and> m = ''critic rejected: '' @ reason) \<or>
         (\<exists>ss e. step_broke P ex ctx ss g h e w' \<and> m = ''execution error: '' @ show_agent_error e)
     | Ok ReflectionsExhausted \<Rightarrow> \<exists>f v. judged env P model h w' (Reflect f) v
     | Err e \<Rightarrow> model_error e \<and>
         ((\<exists>w1. planner_plan env P model goal h w1 = (Err e, w')) \<or>
          (\<exists>p rs w1. critic_critique env model p rs w1 = (Err e, w'))))"
  using dag_contract.run_turn_spec [OF assms] unfolding turn_ok_def .

text \<open>A world that counts the model calls: the first call plans, the second accepts.\<close>

definition demo_env :: "nat agent_env" where
  "demo_env =
    \<lparr> ae_complete = (\<lambda>rq n. (Ok (llm_response_text (rq_model rq) (if even n then ''P'' else ''C'')), n + 1)),
      ae_parse = (\<lambda>s. Ok (JStr s)),
      ae_plan_of = (\<lambda>_. Ok (with_step (plan_new ''g'') (plan_step_new ''fetch''))),
      ae_critique_of = (\<lambda>_. Ok \<lparr> cw_decision = WAccept, cw_reasoning = ''fine'' \<rparr>),
      ae_print_steps = (\<lambda>_. []), ae_print_values = (\<lambda>_. []), ae_uuid = (\<lambda>n. (''u'', n)) \<rparr>"

definition demo_executor :: "nat executor" where
  "demo_executor =
    register \<lparr> hd_spec = handler_spec_new ''fetch'' ''d'', hd_handle = (\<lambda>i c n. (Ok (JInt 5), n)) \<rparr>
      executor_new"

definition demo_turn where
  "demo_turn = run_turn demo_env refP demo_executor (node_context_new ''/w'' \<lparr> ai_name = ''a'', ai_pid = 7 \<rparr>)
     ''m'' ''goal'' sample_dag 0"

theorem run_turn_safe_witness:
  "fst demo_turn = Ok (Success (JInt 5)) \<and> dag_inv refP (fst (snd demo_turn)) \<and>
   judged demo_env refP ''m'' (fst (snd demo_turn)) (snd (snd demo_turn)) Accept (JInt 5)"
proof -
  have r: "fst demo_turn = Ok (Success (JInt 5))"
    unfolding demo_turn_def run_turn_unfold by code_simp
  have "run_turn demo_env refP demo_executor (node_context_new ''/w'' \<lparr> ai_name = ''a'', ai_pid = 7 \<rparr>)
     ''m'' ''goal'' sample_dag 0 = (fst demo_turn, fst (snd demo_turn), snd (snd demo_turn))"
    by (simp add: demo_turn_def)
  from run_turn_safe [OF ref_dag_contract ref_dag.reachable_inv [OF sample_reachable] this] r
  show ?thesis by simp
qed

end
