(* ===== verification/Protocol.thy ===== *)
theory Protocol
  imports Json
begin

text \<open>
  The crate \<^verbatim>\<open>protocol\<close>: the events of a session log and their JSON form. The serde
  attributes of the source (internal tags, lower-case or snake-case names, untagged content) are
  spelled out in \<open>event_json\<close> and \<open>known_of_json\<close>, with every form that the derived readers accept: a tagged value is
  an object with its tag or an array of the tag and the fields in order; \<open>event_of_json\<close> is the hand-written
  \<^verbatim>\<open>Deserialize\<close> that keeps events of unknown kinds. A UUID is a 128-bit word and a time stamp
  an integer; their text forms belong to the crates uuid and chrono and are the record
  \<open>text_codec\<close>.
\<close>

type_synonym uuid = "128 word"
type_synonym timestamp = int

record text_codec =
  show_uuid :: "uuid \<Rightarrow> string"
  parse_uuid :: "string \<Rightarrow> uuid option"
  show_time :: "timestamp \<Rightarrow> string"
  parse_time :: "string \<Rightarrow> timestamp option"

text \<open>Printing and parsing back an identifier or a time stamp gives the value again.\<close>

definition codec_ok :: "text_codec \<Rightarrow> bool" where
  "codec_ok C \<longleftrightarrow> (\<forall>u. parse_uuid C (show_uuid C u) = Some u) \<and>
     (\<forall>t. parse_time C (show_time C t) = Some t)"

subsection \<open>Messages (message.rs)\<close>

datatype session_role = RUser | RAssistant | RSystem | RTool

datatype session_block =
    SText string
  | SToolUse string string json
  | SToolResult string json

datatype session_content = CText string | CBlocks "session_block list"

record session_message =
  sm_id :: uuid
  sm_role :: session_role
  sm_content :: session_content
  sm_timestamp :: timestamp

definition session_message_new ::
    "uuid \<Rightarrow> session_role \<Rightarrow> session_content \<Rightarrow> timestamp \<Rightarrow> session_message" where
  "session_message_new i r c t = \<lparr> sm_id = i, sm_role = r, sm_content = c, sm_timestamp = t \<rparr>"

fun role_json :: "session_role \<Rightarrow> json" where
  "role_json RUser = JStr ''user''"
| "role_json RAssistant = JStr ''assistant''"
| "role_json RSystem = JStr ''system''"
| "role_json RTool = JStr ''tool''"

text \<open>A variant without fields: its name, or an object that maps the name to \<^verbatim>\<open>null\<close> (or to nothing at all).\<close>

definition unit_variant :: "json \<Rightarrow> string option" where
  "unit_variant j =
    (case j of
       JStr s \<Rightarrow> Some s
     | JObj [(s, v)] \<Rightarrow> if v = JNull \<or> v = JObj [] then Some s else None
     | _ \<Rightarrow> None)"

definition role_of_json :: "json \<Rightarrow> session_role option" where
  "role_of_json j = Option.bind (unit_variant j) (\<lambda>s.
     if s = ''user'' then Some RUser
     else if s = ''assistant'' then Some RAssistant
     else if s = ''system'' then Some RSystem
     else if s = ''tool'' then Some RTool
     else None)"

fun block_json :: "session_block \<Rightarrow> json" where
  "block_json (SText t) = JObj [(''type'', JStr ''text''), (''text'', JStr t)]"
| "block_json (SToolUse c n a) =
    JObj [(''type'', JStr ''tool_use''), (''call_id'', JStr c), (''name'', JStr n), (''arguments'', a)]"
| "block_json (SToolResult c r) =
    JObj [(''type'', JStr ''tool_result''), (''call_id'', JStr c), (''output'', r)]"

text \<open>A required field of a given type.\<close>

definition field :: "json \<Rightarrow> string \<Rightarrow> (json \<Rightarrow> 'a option) \<Rightarrow> 'a option" where
  "field j k f = Option.bind (jget j k) f"

text \<open>An internally tagged value, read by its tag: the tag and the object that holds the fields. The fields of an array
  must all be there.\<close>

definition tagged :: "(json \<Rightarrow> string option) \<Rightarrow> (string \<times> string list) list \<Rightarrow> json \<Rightarrow> (string \<times> json) option" where
  "tagged tag_of variants j =
    (case j of
       JObj fs \<Rightarrow> Option.bind (field j ''type'' tag_of) (\<lambda>t. map_option (\<lambda>_. (t, j)) (map_of variants t))
     | JArr (v # xs) \<Rightarrow> Option.bind (tag_of v) (\<lambda>t. Option.bind (map_of variants t) (\<lambda>ns.
         if length xs = length ns then Some (t, JObj (zip ns xs)) else None))
     | _ \<Rightarrow> None)"

text \<open>Inside content, which is buffered before it is read, the position of a variant is a tag too.\<close>

definition buffered_tag :: "(string \<times> string list) list \<Rightarrow> json \<Rightarrow> string option" where
  "buffered_tag variants j =
    (case j of
       JStr s \<Rightarrow> Some s
     | JInt i \<Rightarrow> if 0 \<le> i \<and> nat i < length variants then Some (fst (variants ! nat i)) else None
     | _ \<Rightarrow> None)"

definition block_variants :: "(string \<times> string list) list" where
  "block_variants =
    [(''text'', [''text'']), (''tool_use'', [''call_id'', ''name'', ''arguments'']),
     (''tool_result'', [''call_id'', ''output''])]"

definition block_of_json :: "json \<Rightarrow> session_block option" where
  "block_of_json v =
    Option.bind (tagged (buffered_tag block_variants) block_variants v) (\<lambda>(t, j).
      if t = ''text'' then map_option SText (field j ''text'' jstr)
      else if t = ''tool_use'' then
        Option.bind (field j ''call_id'' jstr) (\<lambda>c. Option.bind (field j ''name'' jstr) (\<lambda>n.
          map_option (SToolUse c n) (field j ''arguments'' Some)))
      else if t = ''tool_result'' then
        Option.bind (field j ''call_id'' jstr) (\<lambda>c. map_option (SToolResult c) (field j ''output'' Some))
      else None)"

fun content_json :: "session_content \<Rightarrow> json" where
  "content_json (CText t) = JStr t"
| "content_json (CBlocks bs) = JArr (map block_json bs)"

fun opt_all :: "('a \<Rightarrow> 'b option) \<Rightarrow> 'a list \<Rightarrow> 'b list option" where
  "opt_all f [] = Some []"
| "opt_all f (x # xs) = Option.bind (f x) (\<lambda>y. map_option (Cons y) (opt_all f xs))"

fun content_of_json :: "json \<Rightarrow> session_content option" where
  "content_of_json (JStr t) = Some (CText t)"
| "content_of_json (JArr xs) = map_option CBlocks (opt_all block_of_json xs)"
| "content_of_json _ = None"

subsection \<open>Events (event.rs)\<close>

datatype end_reason = Stopped | Limit | EndFailed | Cancelled

record checkpoint =
  cp_id :: uuid
  cp_label :: string
  cp_timestamp :: timestamp

datatype session_event =
    SessionStarted uuid string "string option" timestamp
  | MessageAdded uuid session_role session_content timestamp
  | ToolCallRequested uuid string json timestamp
  | ToolCallCompleted uuid json timestamp
  | CheckpointCreated uuid string timestamp
  | SessionPaused timestamp
  | SessionResumed string timestamp
  | SessionEnded end_reason timestamp
  | UnknownEvent json

fun event_timestamp :: "session_event \<Rightarrow> timestamp option" where
  "event_timestamp (SessionStarted _ _ _ t) = Some t"
| "event_timestamp (MessageAdded _ _ _ t) = Some t"
| "event_timestamp (ToolCallRequested _ _ _ t) = Some t"
| "event_timestamp (ToolCallCompleted _ _ t) = Some t"
| "event_timestamp (CheckpointCreated _ _ t) = Some t"
| "event_timestamp (SessionPaused t) = Some t"
| "event_timestamp (SessionResumed _ t) = Some t"
| "event_timestamp (SessionEnded _ t) = Some t"
| "event_timestamp (UnknownEvent _) = None"

fun is_unknown :: "session_event \<Rightarrow> bool" where
  "is_unknown (UnknownEvent _) = True"
| "is_unknown _ = False"

fun reason_json :: "end_reason \<Rightarrow> json" where
  "reason_json Stopped = JStr ''stopped''"
| "reason_json Limit = JStr ''limit''"
| "reason_json EndFailed = JStr ''failed''"
| "reason_json Cancelled = JStr ''cancelled''"

definition reason_of_json :: "json \<Rightarrow> end_reason option" where
  "reason_of_json j = Option.bind (unit_variant j) (\<lambda>s.
     if s = ''stopped'' then Some Stopped
     else if s = ''limit'' then Some Limit
     else if s = ''failed'' then Some EndFailed
     else if s = ''cancelled'' then Some Cancelled
     else None)"

fun event_json :: "text_codec \<Rightarrow> session_event \<Rightarrow> json" where
  "event_json C (SessionStarted i cwd root t) =
    JObj [(''type'', JStr ''session_started''), (''id'', JStr (show_uuid C i)), (''cwd'', JStr cwd),
          (''project_root'', jopt JStr root), (''timestamp'', JStr (show_time C t))]"
| "event_json C (MessageAdded i r c t) =
    JObj [(''type'', JStr ''message_added''), (''message_id'', JStr (show_uuid C i)),
          (''role'', role_json r), (''content'', content_json c), (''timestamp'', JStr (show_time C t))]"
| "event_json C (ToolCallRequested i tool args t) =
    JObj [(''type'', JStr ''tool_call_requested''), (''call_id'', JStr (show_uuid C i)),
          (''tool'', JStr tool), (''args'', args), (''timestamp'', JStr (show_time C t))]"
| "event_json C (ToolCallCompleted i out t) =
    JObj [(''type'', JStr ''tool_call_completed''), (''call_id'', JStr (show_uuid C i)),
          (''output'', out), (''timestamp'', JStr (show_time C t))]"
| "event_json C (CheckpointCreated i l t) =
    JObj [(''type'', JStr ''checkpoint_created''), (''checkpoint_id'', JStr (show_uuid C i)),
          (''label'', JStr l), (''timestamp'', JStr (show_time C t))]"
| "event_json C (SessionPaused t) =
    JObj [(''type'', JStr ''session_paused''), (''timestamp'', JStr (show_time C t))]"
| "event_json C (SessionResumed cwd t) =
    JObj [(''type'', JStr ''session_resumed''), (''cwd'', JStr cwd), (''timestamp'', JStr (show_time C t))]"
| "event_json C (SessionEnded r t) =
    JObj [(''type'', JStr ''session_ended''), (''reason'', reason_json r),
          (''timestamp'', JStr (show_time C t))]"
| "event_json C (UnknownEvent payload) = payload"

text \<open>The derived parser of the known kinds. An absent \<^verbatim>\<open>Option\<close> field is \<^verbatim>\<open>None\<close>.\<close>

definition opt_string :: "json \<Rightarrow> string \<Rightarrow> string option option" where
  "opt_string j k =
    (case jget j k of
       None \<Rightarrow> Some None
     | Some JNull \<Rightarrow> Some None
     | Some v \<Rightarrow> map_option Some (jstr v))"

definition uuid_field :: "text_codec \<Rightarrow> json \<Rightarrow> string \<Rightarrow> uuid option" where
  "uuid_field C j k = field j k (\<lambda>v. Option.bind (jstr v) (parse_uuid C))"

definition time_field :: "text_codec \<Rightarrow> json \<Rightarrow> timestamp option" where
  "time_field C j = field j ''timestamp'' (\<lambda>v. Option.bind (jstr v) (parse_time C))"

definition known_by_tag :: "text_codec \<Rightarrow> json \<Rightarrow> string \<Rightarrow> timestamp \<Rightarrow> session_event option" where
  "known_by_tag C j tag t =
    (if tag = ''session_started'' then
       Option.bind (uuid_field C j ''id'') (\<lambda>i. Option.bind (field j ''cwd'' jstr) (\<lambda>cwd.
         map_option (\<lambda>root. SessionStarted i cwd root t) (opt_string j ''project_root'')))
     else if tag = ''message_added'' then
       Option.bind (uuid_field C j ''message_id'') (\<lambda>i. Option.bind (field j ''role'' role_of_json) (\<lambda>r.
         map_option (\<lambda>c. MessageAdded i r c t) (field j ''content'' content_of_json)))
     else if tag = ''tool_call_requested'' then
       Option.bind (uuid_field C j ''call_id'') (\<lambda>i. Option.bind (field j ''tool'' jstr) (\<lambda>tool.
         map_option (\<lambda>a. ToolCallRequested i tool a t) (field j ''args'' Some)))
     else if tag = ''tool_call_completed'' then
       Option.bind (uuid_field C j ''call_id'') (\<lambda>i.
         map_option (\<lambda>out. ToolCallCompleted i out t) (field j ''output'' Some))
     else if tag = ''checkpoint_created'' then
       Option.bind (uuid_field C j ''checkpoint_id'') (\<lambda>i.
         map_option (\<lambda>l. CheckpointCreated i l t) (field j ''label'' jstr))
     else if tag = ''session_paused'' then Some (SessionPaused t)
     else if tag = ''session_resumed'' then map_option (\<lambda>cwd. SessionResumed cwd t) (field j ''cwd'' jstr)
     else if tag = ''session_ended'' then
       map_option (\<lambda>r. SessionEnded r t) (field j ''reason'' reason_of_json)
     else None)"

definition event_variants :: "(string \<times> string list) list" where
  "event_variants =
    [(''session_started'', [''id'', ''cwd'', ''project_root'', ''timestamp'']),
     (''message_added'', [''message_id'', ''role'', ''content'', ''timestamp'']),
     (''tool_call_requested'', [''call_id'', ''tool'', ''args'', ''timestamp'']),
     (''tool_call_completed'', [''call_id'', ''output'', ''timestamp'']),
     (''checkpoint_created'', [''checkpoint_id'', ''label'', ''timestamp'']),
     (''session_paused'', [''timestamp'']),
     (''session_resumed'', [''cwd'', ''timestamp'']),
     (''session_ended'', [''reason'', ''timestamp''])]"

definition known_of_json :: "text_codec \<Rightarrow> json \<Rightarrow> session_event option" where
  "known_of_json C v =
    Option.bind (tagged jstr event_variants v) (\<lambda>(tag, j). Option.bind (time_field C j) (known_by_tag C j tag))"

definition known_tags :: "string list" where
  "known_tags =
    [''session_started'', ''message_added'', ''tool_call_requested'', ''tool_call_completed'',
     ''checkpoint_created'', ''session_paused'', ''session_resumed'', ''session_ended'']"

text \<open>\<^verbatim>\<open>Deserialize for SessionEvent\<close>: a malformed event of a known kind is an error, any other
  value is kept as an unknown event.\<close>

definition event_of_json :: "text_codec \<Rightarrow> json \<Rightarrow> (session_event, string) result" where
  "event_of_json C j =
    (case known_of_json C j of
       Some e \<Rightarrow> Ok e
     | None \<Rightarrow>
         let tag = (case field j ''type'' jstr of Some t \<Rightarrow> t | None \<Rightarrow> ''unknown'')
         in if tag \<in> set known_tags
            then Err (''malformed `'' @ tag @ ''` event payload'')
            else Ok (UnknownEvent j))"

subsection \<open>Round trip\<close>

lemma role_round [simp]: "role_of_json (role_json r) = Some r"
  by (cases r) (auto simp: role_of_json_def unit_variant_def)

lemma reason_round [simp]: "reason_of_json (reason_json r) = Some r"
  by (cases r) (auto simp: reason_of_json_def unit_variant_def)

lemma block_round [simp]: "block_of_json (block_json b) = Some b"
  by (cases b) (auto simp: block_of_json_def field_def tagged_def buffered_tag_def block_variants_def)

lemma content_round [simp]: "content_of_json (content_json c) = Some c"
proof (cases c)
  case (CBlocks bs)
  have "opt_all block_of_json (map block_json bs) = Some bs" by (induction bs) auto
  with CBlocks show ?thesis by simp
qed simp

lemma opt_string_round: "jget j k = Some (jopt JStr v) \<Longrightarrow> opt_string j k = Some v"
  by (cases v) (auto simp: opt_string_def)

text \<open>A payload that the reader keeps as unknown: an object whose kind is none of the known ones, or a value that is no
  object and does not begin, as an array, with the name of a known kind.\<close>

definition unknown_payload :: "json \<Rightarrow> bool" where
  "unknown_payload j \<longleftrightarrow>
     (case j of
        JObj fs \<Rightarrow> (\<forall>t \<in> set known_tags. map_of fs ''type'' \<noteq> Some (JStr t))
      | JArr (JStr t # xs) \<Rightarrow> t \<notin> set known_tags
      | _ \<Rightarrow> True)"

definition storable :: "session_event \<Rightarrow> bool" where
  "storable e \<longleftrightarrow> (\<forall>p. e = UnknownEvent p \<longrightarrow> unknown_payload p)"

lemma known_round:
  assumes "codec_ok C" "\<not> is_unknown e"
  shows "known_of_json C (event_json C e) = Some e"
  using assms
  by (cases e)
     (auto simp: known_of_json_def tagged_def event_variants_def known_by_tag_def field_def uuid_field_def
        time_field_def codec_ok_def opt_string_round)

lemma known_variants: "map_of event_variants t \<noteq> None \<longleftrightarrow> t \<in> set known_tags"
  by (auto simp: event_variants_def known_tags_def)

lemma jstr_Some: "jstr v = Some t \<longleftrightarrow> v = JStr t"
  by (cases v) auto

lemma tagged_known: "tagged jstr event_variants j = Some (t, b) \<Longrightarrow> t \<in> set known_tags \<and> \<not> unknown_payload j"
  using known_variants [of t]
  by (cases j) (auto simp: tagged_def field_def jstr_Some bind_eq_Some_conv unknown_payload_def
      split: list.splits if_splits)

lemma unknown_not_known: "unknown_payload j \<Longrightarrow> known_of_json C j = None"
  using tagged_known [of j] by (cases "tagged jstr event_variants j") (auto simp: known_of_json_def)

lemma unknown_round: "unknown_payload j \<Longrightarrow> event_of_json C j = Ok (UnknownEvent j)"
proof -
  assume u: "unknown_payload j"
  have "field j ''type'' jstr = Some t \<Longrightarrow> t \<notin> set known_tags" for t
    using u by (cases j) (auto simp: field_def unknown_payload_def jstr_Some bind_eq_Some_conv)
  then show ?thesis
    using unknown_not_known [OF u, of C]
    by (cases "field j ''type'' jstr") (auto simp: event_of_json_def known_tags_def)
qed

lemma event_of_json_unknown: "event_of_json C j = Ok (UnknownEvent p) \<Longrightarrow> known_of_json C j = None \<Longrightarrow> p = j"
  by (auto simp: event_of_json_def Let_def split: if_splits)

lemma known_is_known: "known_of_json C j = Some e \<Longrightarrow> \<not> is_unknown e"
  by (auto simp: known_of_json_def known_by_tag_def bind_eq_Some_conv split: if_splits)

text \<open>The payload of an unknown event is documented as an object; one that is an array with the name of a known kind
  reads back as an event of that kind.\<close>

lemma array_payload_decoded:
  "parse_time C t = Some u \<Longrightarrow>
    event_of_json C (event_json C (UnknownEvent (JArr [JStr ''session_paused'', JStr t]))) = Ok (SessionPaused u)"
  by (simp add: event_of_json_def known_of_json_def tagged_def event_variants_def time_field_def field_def known_by_tag_def)

lemma event_round:
  assumes "codec_ok C" "storable e"
  shows "event_of_json C (event_json C e) = Ok e"
proof (cases e)
  case (UnknownEvent p)
  with assms(2) show ?thesis by (simp add: storable_def unknown_round)
qed (use known_round [OF assms(1), of e] in \<open>simp_all add: event_of_json_def\<close>)

subsection \<open>Properties\<close>

definition demo_codec :: text_codec where
  "demo_codec =
    \<lparr> show_uuid = (\<lambda>u. replicate (unat u) CHR ''u''), parse_uuid = (\<lambda>s. Some (of_nat (length s))),
      show_time = (\<lambda>t. if 0 \<le> t then replicate (nat t) CHR ''+'' else replicate (nat (- t)) CHR ''-''),
      parse_time = (\<lambda>s. Some (if CHR ''-'' \<in> set s then - int (length s) else int (length s))) \<rparr>"

lemma demo_codec_ok: "codec_ok demo_codec"
  by (auto simp: codec_ok_def demo_codec_def)

text \<open>C9: the log format loses nothing: every event of a known kind that is written reads back as itself, and so does an
  event of a kind this version does not know, payload included, when it is an object with another kind, as documented
  (or any value but an array that begins with the name of a known kind). Conversely, whatever reads as an unknown
  event is kept as it was, and an object of a known kind whose fields do not parse is an error and never an unknown
  event.\<close>

theorem event_json_roundtrip:
  assumes "codec_ok C"
  shows "(storable e \<longrightarrow> event_of_json C (event_json C e) = Ok e) \<and>
    (\<forall>p. event_of_json C j = Ok (UnknownEvent p) \<longrightarrow> p = j) \<and>
    (\<forall>t \<in> set known_tags. jget j ''type'' = Some (JStr t) \<longrightarrow>
      (case known_of_json C j of
         Some k \<Rightarrow> event_of_json C j = Ok k \<and> \<not> is_unknown k
       | None \<Rightarrow> \<exists>m. event_of_json C j = Err m))"
proof -
  have "p = j" if "event_of_json C j = Ok (UnknownEvent p)" for p
    using that event_of_json_unknown known_is_known by (cases "known_of_json C j") (fastforce simp: event_of_json_def)+
  moreover have "case known_of_json C j of
         Some k \<Rightarrow> event_of_json C j = Ok k \<and> \<not> is_unknown k
       | None \<Rightarrow> \<exists>m. event_of_json C j = Err m" if "t \<in> set known_tags" "jget j ''type'' = Some (JStr t)" for t
    using that known_is_known [of C j] by (auto simp: event_of_json_def field_def split: option.split)
  ultimately show ?thesis using event_round [OF assms] by blast
qed

theorem event_json_roundtrip_witness:
  "event_of_json demo_codec (event_json demo_codec (SessionPaused 3)) = Ok (SessionPaused 3) \<and>
   (\<exists>m. event_of_json demo_codec (JObj [(''type'', JStr ''session_paused'')]) = Err m)"
proof -
  let ?j = "JObj [(''type'', JStr ''session_paused'')]"
  have "storable (SessionPaused 3)" by (simp add: storable_def)
  moreover have "known_of_json demo_codec ?j = None"
    by (simp add: known_of_json_def tagged_def event_variants_def time_field_def field_def)
  moreover have "jget ?j ''type'' = Some (JStr ''session_paused'')" "''session_paused'' \<in> set known_tags"
    by (simp_all add: known_tags_def)
  ultimately show ?thesis
    using event_json_roundtrip [OF demo_codec_ok, of "SessionPaused 3" ?j] by fastforce
qed

end
