(* ===== verification/SessionState.thy ===== *)
theory SessionState
  imports Protocol
begin

text \<open>
  The session reducer of \<^verbatim>\<open>core/src/state.rs\<close>: a state machine over the events of a session, with
  the transcript it accumulates. \<open>apply_event\<close> returns the state unchanged with an error for
  the one sequence it refuses. The locale \<open>reducer\<close> is the trait \<^verbatim>\<open>StateReducer\<close>
  (rollout/src/reducer.rs) with the contract replay relies on.
\<close>

datatype session_status = SNew | SActive | SPaused | SEnded

record session_state =
  ss_id :: "uuid option"
  ss_status :: session_status
  ss_cwd :: "string option"
  ss_project_root :: "string option"
  ss_messages :: "session_message list"
  ss_last_checkpoint :: "checkpoint option"
  ss_end_reason :: "end_reason option"
  ss_event_count :: nat
  ss_started_at :: "timestamp option"
  ss_ended_at :: "timestamp option"

definition session_new :: session_state where
  "session_new =
    \<lparr> ss_id = None, ss_status = SNew, ss_cwd = None, ss_project_root = None, ss_messages = [],
      ss_last_checkpoint = None, ss_end_reason = None, ss_event_count = 0, ss_started_at = None,
      ss_ended_at = None \<rparr>"

datatype core_error = SessionAlreadyStarted string | SessionNotStarted

fun show_core_error :: "core_error \<Rightarrow> string" where
  "show_core_error (SessionAlreadyStarted m) = ''session already started: '' @ m"
| "show_core_error SessionNotStarted = ''session not started''"

text \<open>The state change of an event that is accepted, without the event counter.\<close>

fun apply_body :: "session_event \<Rightarrow> session_state \<Rightarrow> session_state" where
  "apply_body (SessionStarted i cwd root t) s =
    s\<lparr> ss_id := Some i, ss_status := SActive, ss_cwd := Some cwd, ss_project_root := root,
       ss_started_at := Some t \<rparr>"
| "apply_body (MessageAdded i r c t) s =
    s\<lparr> ss_messages := ss_messages s @ [session_message_new i r c t] \<rparr>"
| "apply_body (ToolCallRequested _ _ _ _) s = s"
| "apply_body (ToolCallCompleted _ _ _) s = s"
| "apply_body (CheckpointCreated i l t) s =
    s\<lparr> ss_last_checkpoint := Some \<lparr> cp_id = i, cp_label = l, cp_timestamp = t \<rparr> \<rparr>"
| "apply_body (SessionPaused _) s = s\<lparr> ss_status := SPaused \<rparr>"
| "apply_body (SessionResumed cwd _) s = s\<lparr> ss_status := SActive, ss_cwd := Some cwd \<rparr>"
| "apply_body (SessionEnded r t) s =
    s\<lparr> ss_status := SEnded, ss_end_reason := Some r, ss_ended_at := Some t \<rparr>"
| "apply_body (UnknownEvent _) s = s"

definition session_apply ::
    "text_codec \<Rightarrow> session_event \<Rightarrow> session_state \<Rightarrow> (unit, core_error) result \<times> session_state" where
  "session_apply C e s =
    (case e of
       SessionStarted i _ _ _ \<Rightarrow>
         if ss_status s = SActive
         then (Err (SessionAlreadyStarted (''session '' @ show_uuid C i @ '' already active'')), s)
         else (Ok (), (apply_body e s)\<lparr> ss_event_count := ss_event_count s + 1 \<rparr>)
     | _ \<Rightarrow> (Ok (), (apply_body e s)\<lparr> ss_event_count := ss_event_count s + 1 \<rparr>))"

text \<open>\<^verbatim>\<open>snapshot\<close> copies every field; the frozen view and the state have the same fields.\<close>

definition snapshot :: "session_state \<Rightarrow> session_state" where
  "snapshot s =
    \<lparr> ss_id = ss_id s, ss_status = ss_status s, ss_cwd = ss_cwd s, ss_project_root = ss_project_root s,
      ss_messages = ss_messages s, ss_last_checkpoint = ss_last_checkpoint s,
      ss_end_reason = ss_end_reason s, ss_event_count = ss_event_count s,
      ss_started_at = ss_started_at s, ss_ended_at = ss_ended_at s \<rparr>"

definition user_message :: "uuid \<Rightarrow> string \<Rightarrow> timestamp \<Rightarrow> session_event" where
  "user_message i text t = MessageAdded i RUser (CText text) t"

definition apply_event ::
    "text_codec \<Rightarrow> session_event \<Rightarrow> session_state \<Rightarrow> (unit, string) result \<times> session_state" where
  "apply_event C e s = (case session_apply C e s of (r, s') \<Rightarrow> (map_err show_core_error r, s'))"

subsection \<open>The reducer contract\<close>

text \<open>A reducer that refuses an event leaves its state alone.\<close>

locale reducer =
  fixes step :: "session_event \<Rightarrow> 's \<Rightarrow> (unit, string) result \<times> 's"
  assumes refused: "step e s = (Err m, s') \<Longrightarrow> s' = s"

text \<open>Folding events into a reducer until one is refused.\<close>

fun fold_events ::
    "(session_event \<Rightarrow> 's \<Rightarrow> (unit, string) result \<times> 's) \<Rightarrow> session_event list \<Rightarrow> 's \<Rightarrow>
     (unit, string) result \<times> 's" where
  "fold_events step [] s = (Ok (), s)"
| "fold_events step (e # es) s =
    (case step e s of
       (Ok _, s1) \<Rightarrow> fold_events step es s1
     | (Err m, s1) \<Rightarrow> (Err m, s1))"

lemma fold_events_append:
  "fold_events step (es @ fs) s =
    (case fold_events step es s of
       (Ok _, s1) \<Rightarrow> fold_events step fs s1
     | (Err m, s1) \<Rightarrow> (Err m, s1))"
  by (induction es arbitrary: s) (auto split: prod.splits result.splits)

context reducer
begin

text \<open>A fold that is refused has applied a prefix and stopped before the event that was refused.\<close>

lemma fold_refused:
  "fold_events step es s = (Err m, s') \<Longrightarrow>
    \<exists>es1 e es2. es = es1 @ e # es2 \<and> fold_events step es1 s = (Ok (), s') \<and> step e s' = (Err m, s')"
proof (induction es arbitrary: s)
  case Nil
  then show ?case by simp
next
  case (Cons e es)
  obtain r s1 where r: "step e s = (r, s1)" by (cases "step e s")
  show ?case
  proof (cases r)
    case (Ok u)
    with Cons.prems r have "fold_events step es s1 = (result.Err m, s')" by simp
    from Cons.IH [OF this] obtain es1 x es2
      where "es = es1 @ x # es2" "fold_events step es1 s1 = (result.Ok (), s')" "step x s' = (result.Err m, s')" by blast
    with r Ok show ?thesis by (intro exI [of _ "e # es1"]) auto
  next
    case (Err m')
    with Cons.prems r have "m' = m" "s1 = s'" by auto
    moreover from r Err refused have "s1 = s" by blast
    ultimately show ?thesis using r Err by (intro exI [of _ "[]"]) auto
  qed
qed

lemma fold_stays_refused:
  "fold_events step es s = (Err m, s') \<Longrightarrow> fold_events step (es @ fs) s = (Err m, s')"
  by (simp add: fold_events_append)

end

interpretation session: reducer "apply_event C" for C
  by unfold_locales
     (auto simp: apply_event_def session_apply_def split: prod.splits session_event.splits if_splits)

subsection \<open>What a session is after a list of events\<close>

fun messages_of :: "session_event list \<Rightarrow> session_message list" where
  "messages_of [] = []"
| "messages_of (MessageAdded i r c t # es) = session_message_new i r c t # messages_of es"
| "messages_of (_ # es) = messages_of es"

fun status_after :: "session_status \<Rightarrow> session_event \<Rightarrow> session_status" where
  "status_after s (SessionStarted _ _ _ _) = SActive"
| "status_after s (SessionPaused _) = SPaused"
| "status_after s (SessionResumed _ _) = SActive"
| "status_after s (SessionEnded _ _) = SEnded"
| "status_after s _ = s"

text \<open>The one sequence that is refused: a start while the session is active.\<close>

fun legal :: "session_status \<Rightarrow> session_event list \<Rightarrow> bool" where
  "legal s [] = True"
| "legal s (e # es) \<longleftrightarrow>
    \<not> (s = SActive \<and> (\<exists>i c r t. e = SessionStarted i c r t)) \<and> legal (status_after s e) es"

lemma messages_of_append: "messages_of (es @ fs) = messages_of es @ messages_of fs"
  by (induction es rule: messages_of.induct) auto

lemma apply_event_ok:
  "legal (ss_status s) [e] \<Longrightarrow>
    apply_event C e s = (Ok (), (apply_body e s)\<lparr> ss_event_count := ss_event_count s + 1 \<rparr>)"
  by (cases e) (auto simp: apply_event_def session_apply_def)

lemma apply_event_refused:
  "\<not> legal (ss_status s) [e] \<Longrightarrow> \<exists>m. apply_event C e s = (Err m, s)"
  by (cases e) (auto simp: apply_event_def session_apply_def)

lemma apply_body_status [simp]: "ss_status (apply_body e s) = status_after (ss_status s) e"
  by (cases e) auto

lemma apply_body_messages [simp]: "ss_messages (apply_body e s) = ss_messages s @ messages_of [e]"
  by (cases e) auto

lemma apply_body_count [simp]: "ss_event_count (apply_body e s) = ss_event_count s"
  by (cases e) auto

lemma messages_of_Cons: "messages_of (e # es) = messages_of [e] @ messages_of es"
  using messages_of_append [of "[e]" es] by simp

lemma session_fold:
  "fst (fold_events (apply_event C) es s) = Ok () \<longleftrightarrow> legal (ss_status s) es"
  "legal (ss_status s) es \<Longrightarrow>
    (let s' = snd (fold_events (apply_event C) es s) in
     ss_messages s' = ss_messages s @ messages_of es \<and>
     ss_event_count s' = ss_event_count s + length es \<and>
     ss_status s' = foldl status_after (ss_status s) es)"
proof (induction es arbitrary: s)
  case Nil
  {
    case 1
    then show ?case by simp
  next
    case 2
    then show ?case by simp
  }
next
  case (Cons e es)
  {
    case 1
    let ?s1 = "(apply_body e s)\<lparr> ss_event_count := ss_event_count s + 1 \<rparr>"
    show ?case
    proof (cases "legal (ss_status s) [e]")
      case True
      have "fst (fold_events (apply_event C) (e # es) s) = fst (fold_events (apply_event C) es ?s1)"
        by (simp add: apply_event_ok [OF True])
      moreover have "legal (ss_status s) (e # es) \<longleftrightarrow> legal (ss_status ?s1) es" using True by simp
      ultimately show ?thesis using Cons.IH(1) [of ?s1] by (simp only:)
    next
      case False
      with apply_event_refused [OF False, of C] show ?thesis by auto
    qed
  next
    case 2
    let ?s1 = "(apply_body e s)\<lparr> ss_event_count := ss_event_count s + 1 \<rparr>"
    from 2 have "legal (ss_status s) [e]" and "legal (ss_status ?s1) es" by auto
    with Cons.IH(2) [of ?s1] show ?case
      by (simp add: apply_event_ok Let_def messages_of_Cons [of e es])
  }
qed

subsection \<open>Properties\<close>

text \<open>Replaying the events of a session into an empty reducer succeeds exactly when no start event
  arrives while the session is active, and then the transcript is the messages in the order they
  were added, the counter is the number of events, and the status is that of the last life-cycle
  event; when an event is refused, the state is that of the events before it.\<close>

theorem session_replay_spec:
  "(if legal SNew es then
      (let s = snd (fold_events (apply_event C) es session_new) in
       fst (fold_events (apply_event C) es session_new) = Ok () \<and>
       ss_messages (snapshot s) = messages_of es \<and> ss_event_count (snapshot s) = length es \<and>
       ss_status (snapshot s) = foldl status_after SNew es)
    else \<exists>es1 e es2 m s. es = es1 @ e # es2 \<and> fold_events (apply_event C) es1 session_new = (Ok (), s) \<and>
       apply_event C e s = (Err m, s) \<and> fold_events (apply_event C) es session_new = (Err m, s))"
proof (cases "legal SNew es")
  case True
  with session_fold(1) [of C es session_new] session_fold(2) [of session_new es C] show ?thesis
    by (simp add: session_new_def snapshot_def Let_def)
next
  case False
  then have "fst (fold_events (apply_event C) es session_new) \<noteq> Ok ()"
    using session_fold(1) [of C es session_new] by (simp add: session_new_def)
  then obtain m s where f: "fold_events (apply_event C) es session_new = (Err m, s)"
    by (metis (full_types) old.unit.exhaust prod.collapse result.exhaust)
  from session.fold_refused [OF f] obtain es1 e es2 where
    "es = es1 @ e # es2" "fold_events (apply_event C) es1 session_new = (Ok (), s)" "apply_event C e s = (Err m, s)"
    by blast
  with f show ?thesis unfolding if_not_P [OF False] by (intro exI conjI)
qed

end
