(* ===== verification/Rollout.thy ===== *)
theory Rollout
  imports SessionState
begin

text \<open>
  The append-only session log (crate \<^verbatim>\<open>rollout\<close>) and the orchestrator that binds it to the
  reducer (\<^verbatim>\<open>core/src/orchestrator.rs\<close>). A log file is its bytes, \<open>None\<close> when it does not exist;
  operating-system errors are not modelled, a crash is a file cut at any byte. The text form of
  JSON is the record \<open>json_text\<close>; \<open>text_ok\<close> collects what the log relies on: the compact text of
  an event is an object on one line that parses back, and no proper prefix of it parses.
\<close>

datatype rollout_error = RIo string | RParse nat | RReducer string

subsection \<open>Writer (writer.rs)\<close>

definition event_text :: "json_text \<Rightarrow> text_codec \<Rightarrow> session_event \<Rightarrow> string" where
  "event_text J C e = jt_print J (event_json C e)"

definition writer_create :: "string option \<Rightarrow> string" where
  "writer_create f = (case f of None \<Rightarrow> [] | Some b \<Rightarrow> b)"

definition writer_append :: "json_text \<Rightarrow> text_codec \<Rightarrow> session_event \<Rightarrow> string \<Rightarrow> string" where
  "writer_append J C e b = b @ event_text J C e @ [nl]"

subsection \<open>Reader (reader.rs)\<close>

definition rposition :: "('a \<Rightarrow> bool) \<Rightarrow> 'a list \<Rightarrow> nat option" where
  "rposition Q xs = map_option (\<lambda>k. length xs - 1 - k) (position Q (rev xs))"

definition repair :: "json_text \<Rightarrow> string \<Rightarrow> string" where
  "repair J b =
    (if b = [] then b
     else if last b = nl then b
     else
       let tail_start = (case rposition (\<lambda>c. c = nl) b of Some i \<Rightarrow> i + 1 | None \<Rightarrow> 0);
           tail = drop tail_start b
       in if \<not> utf8_valid tail then take tail_start b
          else if trim tail = [] then b
          else if jt_parse J (trim tail) \<noteq> None then b
          else take tail_start b)"

definition parse_event :: "json_text \<Rightarrow> text_codec \<Rightarrow> string \<Rightarrow> session_event option" where
  "parse_event J C t =
    (case jt_parse J t of
       None \<Rightarrow> None
     | Some j \<Rightarrow> (case event_of_json C j of Ok e \<Rightarrow> Some e | Err m \<Rightarrow> None))"

text \<open>The iterator over the lines; \<open>idx\<close> is the number of lines read so far.\<close>

fun read_lines ::
    "json_text \<Rightarrow> text_codec \<Rightarrow> nat \<Rightarrow> string list \<Rightarrow> (session_event, rollout_error) result list" where
  "read_lines J C idx [] = []"
| "read_lines J C idx (raw # ls) =
    (if \<not> utf8_valid raw
     then Err (RIo ''stream did not contain valid UTF-8'') # read_lines J C idx ls
     else if trim raw = [] then read_lines J C (idx + 1) ls
     else (case parse_event J C (trim raw) of
             Some e \<Rightarrow> Ok e
           | None \<Rightarrow> Err (RParse (idx + 1))) # read_lines J C (idx + 1) ls)"

definition read_events ::
    "json_text \<Rightarrow> text_codec \<Rightarrow> string option \<Rightarrow> (session_event, rollout_error) result list" where
  "read_events J C f = (case f of None \<Rightarrow> [] | Some b \<Rightarrow> read_lines J C 0 (str_lines b))"

fun replay_items ::
    "(session_event \<Rightarrow> 's \<Rightarrow> (unit, string) result \<times> 's) \<Rightarrow>
     (session_event, rollout_error) result list \<Rightarrow> 's \<Rightarrow> (unit, rollout_error) result \<times> 's" where
  "replay_items step [] s = (Ok (), s)"
| "replay_items step (Err e # is) s = (Err e, s)"
| "replay_items step (Ok e # is) s =
    (case step e s of
       (Ok _, s1) \<Rightarrow> replay_items step is s1
     | (Err m, s1) \<Rightarrow> (Err (RReducer m), s1))"

definition replay ::
    "json_text \<Rightarrow> text_codec \<Rightarrow> (session_event \<Rightarrow> 's \<Rightarrow> (unit, string) result \<times> 's) \<Rightarrow> string option \<Rightarrow>
     's \<Rightarrow> (unit, rollout_error) result \<times> 's" where
  "replay J C step f s = replay_items step (read_events J C f) s"

subsection \<open>Orchestrator (core/src/orchestrator.rs)\<close>

datatype orch_error = CRollout rollout_error | CCore core_error

text \<open>Opening resumes: repair, replay, then open for appending. The second component is the file.\<close>

definition orch_open ::
    "json_text \<Rightarrow> text_codec \<Rightarrow> string option \<Rightarrow> (session_state, orch_error) result \<times> string option" where
  "orch_open J C f =
    (case f of
       None \<Rightarrow> (Ok session_new, Some (writer_create f))
     | Some b \<Rightarrow>
         let f1 = Some (repair J b) in
         (case replay J C (apply_event C) f1 session_new of
            (Err e, s) \<Rightarrow> (Err (CRollout e), f1)
          | (Ok _, s) \<Rightarrow> (Ok s, Some (writer_create f1))))"

definition orch_emit ::
    "json_text \<Rightarrow> text_codec \<Rightarrow> session_event \<Rightarrow> session_state \<Rightarrow> string \<Rightarrow>
     (unit, orch_error) result \<times> session_state \<times> string" where
  "orch_emit J C e s b =
    (let b1 = writer_append J C e b; (r, s1) = session_apply C e s
     in (map_err CCore r, s1, b1))"

fun emit_all ::
    "json_text \<Rightarrow> text_codec \<Rightarrow> session_event list \<Rightarrow> session_state \<Rightarrow> string \<Rightarrow>
     (unit, orch_error) result \<times> session_state \<times> string" where
  "emit_all J C [] s b = (Ok (), s, b)"
| "emit_all J C (e # es) s b =
    (case orch_emit J C e s b of
       (Ok _, s1, b1) \<Rightarrow> emit_all J C es s1 b1
     | (Err x, s1, b1) \<Rightarrow> (Err x, s1, b1))"

definition session_log_path :: "text_codec \<Rightarrow> string \<Rightarrow> uuid \<Rightarrow> string" where
  "session_log_path C data_dir i =
     path_join (path_join data_dir ''sessions'') (show_uuid C i @ ''.jsonl'')"

subsection \<open>The text of the log\<close>

definition log_of :: "json_text \<Rightarrow> text_codec \<Rightarrow> session_event list \<Rightarrow> string" where
  "log_of J C es = concat (map (\<lambda>e. event_text J C e @ [nl]) es)"

definition event_text_ok :: "json_text \<Rightarrow> text_codec \<Rightarrow> session_event \<Rightarrow> bool" where
  "event_text_ok J C e \<longleftrightarrow>
     (let t = event_text J C e in
      storable e \<and> jt_parse J t = Some (event_json C e) \<and>
      t \<noteq> [] \<and> hd t = CHR 0x7B \<and> trim t = t \<and> nl \<notin> set t \<and> cr \<notin> set t \<and> utf8_valid t \<and>
      (\<forall>q. strict_prefix q t \<longrightarrow> jt_parse J (trim q) = None))"

definition text_ok :: "json_text \<Rightarrow> text_codec \<Rightarrow> session_event list \<Rightarrow> bool" where
  "text_ok J C es \<longleftrightarrow> codec_ok C \<and> (\<forall>e \<in> set es. event_text_ok J C e)"

lemma text_okD:
  assumes "text_ok J C es" "e \<in> set es"
  shows "parse_event J C (event_text J C e) = Some e" "event_text J C e \<noteq> []"
    "trim (event_text J C e) = event_text J C e" "nl \<notin> set (event_text J C e)"
    "cr \<notin> set (event_text J C e)" "utf8_valid (event_text J C e)"
    "strict_prefix q (event_text J C e) \<Longrightarrow> jt_parse J (trim q) = None"
    "hd (event_text J C e) = CHR 0x7B" "jt_parse J (event_text J C e) = Some (event_json C e)"
  using assms by (auto simp: text_ok_def event_text_ok_def Let_def parse_event_def event_round)

lemma log_of_Cons: "log_of J C (e # es) = event_text J C e @ nl # log_of J C es"
  by (simp add: log_of_def)

lemma log_of_append: "log_of J C (es @ fs) = log_of J C es @ log_of J C fs"
  by (simp add: log_of_def)

lemma read_log:
  "text_ok J C es \<Longrightarrow> read_lines J C k (str_lines (log_of J C es)) = map Ok es"
proof (induction es arbitrary: k)
  case Nil
  then show ?case by (simp add: log_of_def)
next
  case (Cons e es)
  have "text_ok J C es" using Cons.prems by (simp add: text_ok_def)
  with Cons.IH [of "k + 1"] text_okD [OF Cons.prems, of e] show ?case
    by (simp add: log_of_Cons str_lines_Cons strip_cr_id)
qed

text \<open>A last event without its newline is read like the others.\<close>

lemma read_log_open:
  "text_ok J C (es @ [e]) \<Longrightarrow>
    read_lines J C k (str_lines (log_of J C es @ event_text J C e)) = map Ok (es @ [e])"
proof (induction es arbitrary: k)
  case Nil
  with text_okD [OF Nil, of e] show ?case by (simp add: log_of_def str_lines_single)
next
  case (Cons x es)
  have "text_ok J C (es @ [e])" using Cons.prems by (simp add: text_ok_def)
  with Cons.IH [of "k + 1"] text_okD [OF Cons.prems, of x] show ?case
    by (simp add: log_of_Cons str_lines_Cons strip_cr_id)
qed

subsection \<open>Repair\<close>

lemma rposition_None: "nl \<notin> set b \<Longrightarrow> rposition (\<lambda>c. c = nl) b = None"
  by (auto simp: rposition_def position_None)

lemma position_rev_tail:
  "nl \<notin> set t \<Longrightarrow> position (\<lambda>c. c = nl) (rev t @ nl # p) = Some (length t)"
proof (induction t rule: rev_induct)
  case Nil
  then show ?case by simp
next
  case (snoc x t)
  then show ?case by auto
qed

lemma rposition_last: "nl \<notin> set t \<Longrightarrow> rposition (\<lambda>c. c = nl) (p @ nl # t) = Some (length p)"
  using position_rev_tail [of t "rev p"] by (simp add: rposition_def)

lemma last_not_nl: "nl \<notin> set t \<Longrightarrow> t \<noteq> [] \<Longrightarrow> last t \<noteq> nl"
  using last_in_set by metis

text \<open>Repair looks at the last line only.\<close>

lemma repair_last_line:
  assumes "nl \<notin> set t"
  shows "repair J (p @ nl # t) = p @ nl # repair J t"
proof (cases "t = []")
  case True
  then show ?thesis by (simp add: repair_def)
next
  case False
  with assms have l: "last (p @ nl # t) \<noteq> nl" "last t \<noteq> nl" using last_not_nl by auto
  have d: "drop (Suc (length p)) (p @ nl # t) = t" "take (Suc (length p)) (p @ nl # t) = p @ [nl]"
    by simp_all
  show ?thesis
    using l d False rposition_last [OF assms, of p] rposition_None [OF assms]
    by (auto simp: repair_def Let_def)
qed

lemma repair_line: "nl \<notin> set l \<Longrightarrow> repair J (l @ nl # r) = l @ nl # repair J r"
proof (cases "nl \<in> set r")
  case False
  then show ?thesis by (rule repair_last_line)
next
  case True
  then obtain p t where "r = p @ nl # t" "nl \<notin> set t" by (meson split_list_last)
  with repair_last_line [of t J p] repair_last_line [of t J "l @ nl # p"] show ?thesis by simp
qed

lemma brace_not_blank:
  assumes "hd t = CHR 0x7B" "t \<noteq> []"
  shows "trim t \<noteq> []"
proof -
  obtain bs where t: "t = CHR 0x7B # bs" using assms by (cases t) auto
  have "\<not> is_ws (CHR 0x7B # xs)" for xs by (simp add: is_ws_def white_space_def)
  then show ?thesis by (simp add: trim_eq_Nil all_ws_def t)
qed

lemma repair_torn:
  assumes "text_ok J C [e]" "strict_prefix q (event_text J C e)"
  shows "repair J q = []"
proof (cases "q = []")
  case True
  then show ?thesis by (simp add: repair_def)
next
  case False
  let ?t = "event_text J C e"
  obtain r where t: "?t = q @ r" using assms(2) by (auto simp: strict_prefix_def prefix_def)
  have n: "nl \<notin> set q" using text_okD(4) [OF assms(1), of e] t by auto
  with False have l: "last q \<noteq> nl" using last_not_nl by blast
  have "hd q = CHR 0x7B" using text_okD(8) [OF assms(1), of e] t False by simp
  with brace_not_blank False have "trim q \<noteq> []" by blast
  moreover have "jt_parse J (trim q) = None" using text_okD(7) [OF assms(1), of e q] assms(2) by simp
  ultimately show ?thesis
    using False l rposition_None [OF n] by (simp add: repair_def)
qed

lemma repair_open:
  assumes "text_ok J C [e]"
  shows "repair J (event_text J C e) = event_text J C e"
proof -
  let ?t = "event_text J C e"
  have "last ?t \<noteq> nl" using text_okD(2,4) [OF assms, of e] last_not_nl by auto
  then show ?thesis
    using text_okD [OF assms, of e] rposition_None [of ?t] by (simp add: repair_def)
qed

lemma prefix_of_line:
  assumes "prefix p (t @ nl # r)"
  shows "strict_prefix p t \<or> p = t \<or> (\<exists>p'. p = t @ nl # p' \<and> prefix p' r)"
proof -
  from assms obtain s where s: "t @ nl # r = p @ s" by (auto simp: prefix_def)
  then consider u where "p = t @ u" "nl # r = u @ s" | u where "t = p @ u" "u @ nl # r = s"
    by (auto simp: append_eq_append_conv2)
  then show ?thesis
  proof cases
    case 1
    then show ?thesis by (cases u) (auto simp: prefix_def)
  next
    case 2
    then show ?thesis by (cases u) (auto simp: strict_prefix_def prefix_def)
  qed
qed

text \<open>The events whose text, up to the closing brace, is in the file.\<close>

fun whole_events :: "json_text \<Rightarrow> text_codec \<Rightarrow> session_event list \<Rightarrow> string \<Rightarrow> nat" where
  "whole_events J C [] p = 0"
| "whole_events J C (e # es) p =
    (case strip_prefix (event_text J C e) p of
       None \<Rightarrow> 0
     | Some r \<Rightarrow> (case strip_prefix [nl] r of None \<Rightarrow> 1 | Some r' \<Rightarrow> Suc (whole_events J C es r')))"

lemma repair_prefix:
  "text_ok J C es \<Longrightarrow> prefix p (log_of J C es) \<Longrightarrow>
    (let k = whole_events J C es p in k \<le> length es \<and>
       (repair J p = log_of J C (take k es) \<or>
        (\<exists>j. k = Suc j \<and> p = repair J p \<and> repair J p = log_of J C (take j es) @ event_text J C (es ! j))))"
proof (induction es arbitrary: p)
  case Nil
  then show ?case by (simp add: log_of_def repair_def)
next
  case (Cons e es)
  let ?t = "event_text J C e"
  have ok1: "text_ok J C [e]" and oks: "text_ok J C es" using Cons.prems(1) by (auto simp: text_ok_def)
  have n: "nl \<notin> set ?t" using text_okD(4) [OF ok1, of e] by simp
  from Cons.prems(2) have "prefix p (?t @ nl # log_of J C es)" by (simp add: log_of_Cons)
  then consider "strict_prefix p ?t" | "p = ?t" | p' where "p = ?t @ nl # p'" "prefix p' (log_of J C es)"
    using prefix_of_line by blast
  then show ?case
  proof cases
    case 1
    then have "strip_prefix ?t p = None"
      by (cases "strip_prefix ?t p") (auto simp: strip_prefix_Some strict_prefix_def prefix_def)
    with repair_torn [OF ok1 1] show ?thesis by (simp add: log_of_def)
  next
    case 2
    have "strip_prefix ?t ?t = Some []" by (simp add: strip_prefix_Some)
    with repair_open [OF ok1] 2 show ?thesis by (simp add: log_of_def)
  next
    case 3
    have k: "whole_events J C (e # es) p = Suc (whole_events J C es p')" by (simp add: 3)
    have r: "repair J p = ?t @ nl # repair J p'" by (simp add: 3 repair_line [OF n])
    let ?k = "whole_events J C es p'"
    have ih: "?k \<le> length es" "repair J p' = log_of J C (take ?k es) \<or>
      (\<exists>j. ?k = Suc j \<and> p' = repair J p' \<and> repair J p' = log_of J C (take j es) @ event_text J C (es ! j))"
      using Cons.IH [OF oks 3(2)] by (auto simp: Let_def)
    from ih(2) show ?thesis
    proof
      assume "repair J p' = log_of J C (take ?k es)"
      with ih(1) k r show ?thesis by (simp add: log_of_Cons)
    next
      assume "\<exists>j. ?k = Suc j \<and> p' = repair J p' \<and>
        repair J p' = log_of J C (take j es) @ event_text J C (es ! j)"
      then obtain j where "?k = Suc j" "p' = repair J p'"
        "repair J p' = log_of J C (take j es) @ event_text J C (es ! j)" by blast
      with ih(1) k r 3(1) show ?thesis
        unfolding Let_def by (intro conjI disjI2 exI [of _ "Suc j"]) (auto simp: log_of_Cons)
    qed
  qed
qed

lemma read_repaired:
  assumes "text_ok J C es" "prefix p (log_of J C es)"
  shows "read_events J C (Some (repair J p)) = map Ok (take (whole_events J C es p) es)"
proof -
  let ?k = "whole_events J C es p"
  have sub: "text_ok J C (take k es)" for k using assms(1) by (auto simp: text_ok_def dest: in_set_takeD)
  have k: "?k \<le> length es" and c: "repair J p = log_of J C (take ?k es) \<or>
    (\<exists>j. ?k = Suc j \<and> repair J p = log_of J C (take j es) @ event_text J C (es ! j))"
    using repair_prefix [OF assms] by (auto simp: Let_def)
  from c show ?thesis
  proof
    assume "repair J p = log_of J C (take ?k es)"
    then show ?thesis using read_log [OF sub] by (simp add: read_events_def)
  next
    assume "\<exists>j. ?k = Suc j \<and> repair J p = log_of J C (take j es) @ event_text J C (es ! j)"
    then obtain j where j: "?k = Suc j" "repair J p = log_of J C (take j es) @ event_text J C (es ! j)" by blast
    with k have "take ?k es = take j es @ [es ! j]" by (simp add: take_Suc_conv_app_nth)
    with read_log_open [of J C "take j es" "es ! j"] sub [of ?k] j(2) show ?thesis
      by (simp add: read_events_def)
  qed
qed

subsection \<open>Opening and emitting\<close>

lemma replay_ok_items:
  "replay_items step (map Ok es) s =
    (case fold_events step es s of (r, s') \<Rightarrow> (map_err RReducer r, s'))"
  by (induction es arbitrary: s) (auto split: prod.splits result.splits)

lemma repair_log: "text_ok J C es \<Longrightarrow> repair J (log_of J C es) = log_of J C es"
proof (induction es)
  case Nil
  then show ?case by (simp add: log_of_def repair_def)
next
  case (Cons e es)
  then have "text_ok J C es" by (simp add: text_ok_def)
  with Cons text_okD(4) [OF Cons.prems, of e] show ?case by (simp add: log_of_Cons repair_line)
qed

lemma open_log:
  assumes "text_ok J C es"
  shows "orch_open J C (Some (log_of J C es)) =
    (case fold_events (apply_event C) es session_new of
       (Ok _, s) \<Rightarrow> (Ok s, Some (log_of J C es))
     | (Err m, s) \<Rightarrow> (Err (CRollout (RReducer m)), Some (log_of J C es)))"
  using read_log [OF assms, of 0]
  by (auto simp: orch_open_def replay_def read_events_def repair_log [OF assms] replay_ok_items
       writer_create_def split: prod.splits result.splits)

lemma emit_all_spec:
  "fold_events (apply_event C) es s = (Ok (), s') \<Longrightarrow>
    emit_all J C es s b = (Ok (), s', b @ log_of J C es)"
proof (induction es arbitrary: s b)
  case Nil
  then show ?case by (simp add: log_of_def)
next
  case (Cons e es)
  obtain r s1 where a: "session_apply C e s = (r, s1)" by (cases "session_apply C e s")
  then have a': "apply_event C e s = (map_err show_core_error r, s1)" by (simp add: apply_event_def)
  with Cons.prems obtain u where r: "r = Ok u" by (cases r) auto
  with a' Cons.prems have "fold_events (apply_event C) es s1 = (Ok (), s')" by simp
  from Cons.IH [OF this, of "writer_append J C e b"] a r show ?case
    by (simp add: orch_emit_def writer_append_def log_of_Cons)
qed

lemma fold_ok_legal:
  "legal SNew es \<Longrightarrow> \<exists>s. fold_events (apply_event C) es session_new = (Ok (), s) \<and>
     ss_status s = foldl status_after SNew es"
  using session_fold(1) [of C es session_new] session_fold(2) [of session_new es C]
  by (cases "fold_events (apply_event C) es session_new") (auto simp: session_new_def Let_def)

lemma legal_append:
  "legal s (es @ fs) \<longleftrightarrow> legal s es \<and> legal (foldl status_after s es) fs"
  by (induction es arbitrary: s) auto

subsection \<open>Properties\<close>

text \<open>Two events and a text form for them, for the witnesses.\<close>

definition demo_start :: session_event where
  "demo_start = SessionStarted 0 ''/w'' None 0"

definition demo_pause :: session_event where
  "demo_pause = SessionPaused 0"

definition demo_text :: json_text where
  "demo_text =
    \<lparr> jt_print = (\<lambda>j. if j = event_json demo_codec demo_start then ''{a}'' else ''{b}''),
      jt_parse = (\<lambda>t. if t = ''{a}'' then Some (event_json demo_codec demo_start)
                     else if t = ''{b}'' then Some (event_json demo_codec demo_pause) else None) \<rparr>"

lemma demo_event_text:
  "event_text demo_text demo_codec demo_start = ''{a}''"
  "event_text demo_text demo_codec demo_pause = ''{b}''"
  by (simp_all add: event_text_def demo_text_def demo_start_def demo_pause_def)

lemma demo_trims:
  "trim ''{a}'' = ''{a}''" "trim ''{b}'' = ''{b}''" "trim ''{'' = ''{''" "trim ''{a'' = ''{a''"
  "trim ''{b'' = ''{b''" "trim ''{a}{b}'' = ''{a}{b}''" "utf8_valid ''{a}''" "utf8_valid ''{b}''"
  by code_simp+

lemma strict_prefix_three: "strict_prefix q [x, y, z] \<Longrightarrow> q = [] \<or> q = [x] \<or> q = [x, y]"
  by (auto simp: strict_prefix_def prefix_Cons)

lemma demo_prefix:
  "strict_prefix q ''{a}'' \<Longrightarrow> jt_parse demo_text (trim q) = None"
  "strict_prefix q ''{b}'' \<Longrightarrow> jt_parse demo_text (trim q) = None"
  by (auto dest!: strict_prefix_three simp: demo_trims) (simp_all add: demo_text_def)

lemma demo_event_text_ok:
  "event_text_ok demo_text demo_codec demo_start"
  "event_text_ok demo_text demo_codec demo_pause"
  by (simp_all add: event_text_ok_def demo_event_text demo_trims demo_prefix Let_def)
     (simp_all add: storable_def demo_text_def demo_start_def demo_pause_def)

lemma demo_text_ok: "set es \<subseteq> {demo_start, demo_pause} \<Longrightarrow> text_ok demo_text demo_codec es"
  using demo_event_text_ok demo_codec_ok by (auto simp: text_ok_def)

text \<open>C7: crash recovery: cut the log of any list of events at any byte; after the repair that opening
  performs, reading gives exactly the events whose text was completely written, in order, with no
  error, and the repaired file is the log of those events, except that a last event that lost only
  its newline stays without it.\<close>

theorem crash_recovery:
  assumes "text_ok J C es" "prefix p (log_of J C es)"
  shows "(let k = whole_events J C es p in k \<le> length es \<and>
      read_events J C (Some (repair J p)) = map Ok (take k es) \<and>
      (repair J p = log_of J C (take k es) \<or>
       (\<exists>j. k = Suc j \<and> repair J p = p \<and> p = log_of J C (take j es) @ event_text J C (es ! j))))"
  using repair_prefix [OF assms] read_repaired [OF assms] by (auto simp: Let_def)

theorem crash_recovery_witness:
  "read_events demo_text demo_codec (Some (repair demo_text (''{a}'' @ nl # ''{b''))) = [Ok demo_start]"
proof -
  let ?p = "''{a}'' @ nl # ''{b''"
  have l: "log_of demo_text demo_codec [demo_start, demo_pause] = ?p @ ''}'' @ [nl]"
    by (simp add: log_of_Cons demo_event_text) (simp add: log_of_def)
  have k: "whole_events demo_text demo_codec [demo_start, demo_pause] ?p = 1"
    by (simp add: demo_event_text)
  have "prefix ?p (log_of demo_text demo_codec [demo_start, demo_pause])" unfolding l by (rule prefixI) simp
  from crash_recovery [OF demo_text_ok this] k show ?thesis by (simp add: Let_def)
qed

text \<open>C8: durability of a session: events emitted one after the other to a new session are all accepted
  exactly when no start arrives while active; the file is then their log, and opening it again gives
  the very state the running session had in memory and leaves the file alone.\<close>

theorem emit_then_open:
  assumes "text_ok J C es" "legal SNew es"
  shows "\<exists>s. orch_open J C None = (Ok session_new, Some []) \<and>
    emit_all J C es session_new [] = (Ok (), s, log_of J C es) \<and>
    orch_open J C (Some (log_of J C es)) = (Ok s, Some (log_of J C es)) \<and>
    ss_messages s = messages_of es \<and> ss_event_count s = length es"
proof -
  from fold_ok_legal [OF assms(2), of C] obtain s
    where s: "fold_events (apply_event C) es session_new = (Ok (), s)" by blast
  with session_replay_spec [of es C] assms(2)
  have "ss_messages s = messages_of es" "ss_event_count s = length es"
    by (simp_all add: Let_def snapshot_def)
  with s emit_all_spec [of C es session_new s J "[]"] open_log [OF assms(1)] show ?thesis
    by (simp add: orch_open_def writer_create_def)
qed

theorem emit_then_open_witness:
  "\<exists>s. orch_open demo_text demo_codec (Some (''{a}'' @ nl # ''{b}'' @ [nl])) =
     (Ok s, Some (''{a}'' @ nl # ''{b}'' @ [nl])) \<and> ss_event_count s = 2"
proof -
  have l: "log_of demo_text demo_codec [demo_start, demo_pause] = ''{a}'' @ nl # ''{b}'' @ [nl]"
    by (simp add: log_of_Cons demo_event_text) (simp add: log_of_def)
  have "legal SNew [demo_start, demo_pause]" by (simp add: demo_start_def demo_pause_def)
  from emit_then_open [OF demo_text_ok this] show ?thesis by (auto simp: l)
qed

text \<open>An event that the reducer refuses is on disk all the same: emitting a start event on an active
  session reports the error and leaves the state alone, but the file has the event, and from then on
  every attempt to open the session fails with the reducer's error, whatever else was appended.\<close>

theorem failed_emit_poisons_log:
  assumes "text_ok J C (es @ SessionStarted i cwd root t # fs)" "legal SNew es"
    and "foldl status_after SNew es = SActive"
  shows "\<exists>s m x. emit_all J C es session_new [] = (Ok (), s, log_of J C es) \<and>
    orch_emit J C (SessionStarted i cwd root t) s (log_of J C es) =
      (Err x, s, log_of J C (es @ [SessionStarted i cwd root t])) \<and>
    fst (orch_open J C (Some (log_of J C (es @ SessionStarted i cwd root t # fs)))) =
      Err (CRollout (RReducer m))"
proof -
  let ?e = "SessionStarted i cwd root t"
  from fold_ok_legal [OF assms(2), of C] assms(3) obtain s
    where s: "fold_events (apply_event C) es session_new = (Ok (), s)" "ss_status s = SActive" by auto
  have "emit_all J C es session_new [] = (Ok (), s, log_of J C es)"
    using emit_all_spec [of C es session_new s J "[]"] s by simp
  moreover have "\<exists>x. orch_emit J C ?e s (log_of J C es) = (Err x, s, log_of J C (es @ [?e]))"
    using s(2) by (simp add: orch_emit_def session_apply_def writer_append_def log_of_append log_of_Cons)
       (simp add: log_of_def)
  moreover have "\<exists>m. fst (orch_open J C (Some (log_of J C (es @ ?e # fs)))) = Err (CRollout (RReducer m))"
    using open_log [OF assms(1)] s
    by (simp add: fold_events_append apply_event_def session_apply_def)
  ultimately show ?thesis by blast
qed

theorem failed_emit_poisons_log_witness:
  "\<exists>m. fst (orch_open demo_text demo_codec (Some (''{a}'' @ nl # ''{a}'' @ [nl]))) =
     Err (CRollout (RReducer m))"
proof -
  have l: "log_of demo_text demo_codec [demo_start, demo_start] = ''{a}'' @ nl # ''{a}'' @ [nl]"
    by (simp add: log_of_Cons demo_event_text) (simp add: log_of_def)
  have "text_ok demo_text demo_codec ([demo_start] @ SessionStarted 0 ''/w'' None 0 # [])"
    by (rule demo_text_ok) (simp add: demo_start_def)
  from failed_emit_poisons_log [OF this] l show ?thesis by (auto simp: demo_start_def)
qed

text \<open>A crash between an event and its newline damages the log on the next write: the complete last
  event is kept without its newline, so the next event goes on the same line, both become one line
  that does not parse, and the session cannot be opened any more.\<close>

theorem torn_newline_merges_events:
  assumes "text_ok J C [e, f]" "legal SNew [e, f]"
    and "jt_parse J (trim (event_text J C e @ event_text J C f)) = None"
    and "trim (event_text J C e @ event_text J C f) \<noteq> []"
  shows "\<exists>s s' b. orch_open J C (Some (event_text J C e)) = (Ok s, Some (event_text J C e)) \<and>
    orch_emit J C f s (event_text J C e) = (Ok (), s', b) \<and>
    fst (orch_open J C (Some b)) = Err (CRollout (RParse 1))"
proof -
  let ?t = "event_text J C e" and ?u = "event_text J C f"
  have ok: "text_ok J C [e]" "text_ok J C [f]" using assms(1) by (auto simp: text_ok_def)
  note t = text_okD [OF ok(1), of e, simplified] and u = text_okD [OF ok(2), of f, simplified]
  let ?s = "snd (apply_event C e session_new)"
  have le: "legal (ss_status session_new) [e]" using assms(2) by (simp add: session_new_def)
  then have se: "fold_events (apply_event C) [e] session_new = (Ok (), ?s)"
    by (simp add: apply_event_ok)
  have o1: "orch_open J C (Some ?t) = (Ok ?s, Some ?t)"
    using read_log_open [of J C "[]" e 0] ok(1) repair_open [OF ok(1)] replay_ok_items [of "apply_event C" "[e]"] se
    by (simp add: orch_open_def replay_def read_events_def log_of_def writer_create_def)
  have "legal (ss_status ?s) [f]"
    using assms(2) by (simp add: apply_event_ok [OF le]) (simp add: session_new_def)
  from apply_event_ok [OF this, of C] obtain s' where "session_apply C f ?s = (Ok (), s')"
    by (cases "session_apply C f ?s") (auto simp: apply_event_def)
  then have em: "orch_emit J C f ?s ?t = (Ok (), s', (?t @ ?u) @ [nl])"
    by (simp add: orch_emit_def writer_append_def)
  have n: "nl \<notin> set (?t @ ?u)" "cr \<notin> set (?t @ ?u)" using t u by auto
  have "repair J ((?t @ ?u) @ nl # []) = (?t @ ?u) @ nl # repair J []" by (rule repair_line [OF n(1)])
  then have r: "repair J ((?t @ ?u) @ [nl]) = (?t @ ?u) @ [nl]" by (simp add: repair_def)
  have "str_lines ((?t @ ?u) @ nl # []) = [?t @ ?u]"
    using str_lines_Cons [OF n(1), of "[]"] strip_cr_id [OF n(2)] by simp
  then have "read_events J C (Some ((?t @ ?u) @ [nl])) = [Err (RParse 1)]"
    using assms(3,4) t u by (simp add: read_events_def utf8_valid_append parse_event_def)
  with r have "fst (orch_open J C (Some ((?t @ ?u) @ [nl]))) = Err (CRollout (RParse 1))"
    by (simp add: orch_open_def replay_def)
  with o1 em show ?thesis by blast
qed

theorem torn_newline_merges_events_witness:
  "\<exists>b. fst (orch_open demo_text demo_codec (Some b)) = Err (CRollout (RParse 1))"
proof -
  have "text_ok demo_text demo_codec [demo_start, demo_pause]" by (rule demo_text_ok) simp
  moreover have "legal SNew [demo_start, demo_pause]" by (simp add: demo_start_def demo_pause_def)
  moreover have "jt_parse demo_text (trim (event_text demo_text demo_codec demo_start @
      event_text demo_text demo_codec demo_pause)) = None"
    by (simp add: demo_event_text demo_trims) (simp add: demo_text_def)
  moreover have "trim (event_text demo_text demo_codec demo_start @
      event_text demo_text demo_codec demo_pause) \<noteq> []"
    by (simp add: demo_event_text demo_trims)
  ultimately show ?thesis using torn_newline_merges_events by blast
qed

end
