(* ===== verification/Sandbox.thy ===== *)
theory Sandbox
  imports RustStr
begin

text \<open>
  The crate \<^verbatim>\<open>sandbox\<close>: which paths a tool may read or write and which commands it may run
  (policy.rs, matcher.rs, error.rs), on a Unix target. Paths are strings; \<open>components\<close> is
  \<^verbatim>\<open>Path::components\<close>. A compiled glob is its source text, and the matching of the crate glob
  is the parameter \<open>glob\<close> of the checks; \<open>glob_ok\<close> is whether a pattern compiles. The
  system temporary directory is read from the environment, so it is a parameter too.
\<close>

datatype sandbox_error =
    DotDotEscape string
  | OutsideWorkspace string
  | Denied string
  | ExtensionDenied string
  | FileTooLarge u64 u64
  | ExecDenied string
  | InvalidCommand string

subsection \<open>Path components\<close>

abbreviation slash :: char where "slash \<equiv> CHR 0x2F"
abbreviation dot :: char where "dot \<equiv> CHR 0x2E"

datatype path_comp = RootDir | CurDir | ParentDir | Normal string

definition comp_of :: "string \<Rightarrow> path_comp" where
  "comp_of w = (if w = [dot, dot] then ParentDir else Normal w)"

definition components :: "string \<Rightarrow> path_comp list" where
  "components p =
    (let ps = split_byte slash p;
         body = map comp_of (filter (\<lambda>w. w \<noteq> [] \<and> w \<noteq> [dot]) ps)
     in if p \<noteq> [] \<and> hd p = slash then RootDir # body
        else if hd ps = [dot] then CurDir # body
        else body)"

definition file_name :: "string \<Rightarrow> string option" where
  "file_name p =
    (case rev (components p) of Normal w # _ \<Rightarrow> Some w | _ \<Rightarrow> None)"

text \<open>The part of the file name after its last dot; a leading dot does not count.\<close>

definition extension :: "string \<Rightarrow> string option" where
  "extension p =
    Option.bind (file_name p) (\<lambda>n.
      if dot \<in> set n then
        let after = rev (takeWhile (\<lambda>c. c \<noteq> dot) (rev n));
            before = take (length n - length after - 1) n
        in if before = [] then None else Some after
      else None)"

subsection \<open>Configuration (policy.rs)\<close>

definition DEFAULT_MAX_FILE_SIZE :: u64 where
  "DEFAULT_MAX_FILE_SIZE = 10 * 1024 * 1024"

definition DEFAULT_MAX_RUNTIME :: nat where
  "DEFAULT_MAX_RUNTIME = 30"

definition DEFAULT_EXEC_ALLOWLIST :: "string list" where
  "DEFAULT_EXEC_ALLOWLIST =
    [''git'', ''cargo'', ''rustc'', ''rustup'', ''npm'', ''npx'', ''pnpm'', ''yarn'', ''node'',
     ''python'', ''python3'', ''pip'', ''go'', ''make'', ''cmake'', ''ls'', ''dir'', ''cat'', ''type'',
     ''echo'', ''grep'', ''findstr'', ''rg'', ''head'', ''tail'', ''wc'', ''sort'', ''uniq'', ''bash'',
     ''sh'', ''cmd'', ''powershell'', ''pwsh'']"

definition DEFAULT_DENY_PATTERNS :: "string list" where
  "DEFAULT_DENY_PATTERNS =
    [''**/.env'', ''**/.env.*'', ''**/*.pem'', ''**/*.key'', ''**/id_rsa'', ''**/id_ed25519'',
     ''**/.aws/credentials'', ''**/.ssh/*'']"

definition to_ascii_lowercase :: "string \<Rightarrow> string" where
  "to_ascii_lowercase s = map ascii_lower s"

definition allowlist_from_names :: "string list \<Rightarrow> string list" where
  "allowlist_from_names names =
     remdups (filter (\<lambda>s. s \<noteq> []) (map (\<lambda>s. to_ascii_lowercase (trim s)) names))"

definition allows :: "string list \<Rightarrow> string \<Rightarrow> bool" where
  "allows al stem \<longleftrightarrow> to_ascii_lowercase stem \<in> set al"

record sandbox_config =
  sc_workspace_root :: string
  sc_max_file_size :: u64
  sc_max_runtime :: nat
  sc_allowed_extensions :: "string list"
  sc_denied_paths :: "string list"
  sc_exec_allowlist :: "string list"
  sc_allow_system_temp :: bool

definition sandbox_config_new :: "(string \<Rightarrow> bool) \<Rightarrow> string \<Rightarrow> sandbox_config" where
  "sandbox_config_new glob_ok root =
    \<lparr> sc_workspace_root = root, sc_max_file_size = DEFAULT_MAX_FILE_SIZE,
      sc_max_runtime = DEFAULT_MAX_RUNTIME, sc_allowed_extensions = [],
      sc_denied_paths = filter glob_ok DEFAULT_DENY_PATTERNS,
      sc_exec_allowlist = allowlist_from_names DEFAULT_EXEC_ALLOWLIST, sc_allow_system_temp = True \<rparr>"

definition with_allowed_extensions :: "string list \<Rightarrow> sandbox_config \<Rightarrow> sandbox_config" where
  "with_allowed_extensions exts c =
     c\<lparr> sc_allowed_extensions :=
          remdups (map (\<lambda>s. to_ascii_lowercase (dropWhile (\<lambda>x. x = dot) s)) exts) \<rparr>"

definition with_deny_pattern ::
    "(string \<Rightarrow> bool) \<Rightarrow> (string \<Rightarrow> string) \<Rightarrow> string \<Rightarrow> sandbox_config \<Rightarrow>
     (sandbox_config, sandbox_error) result" where
  "with_deny_pattern glob_ok glob_err pat c =
    (if glob_ok pat then Ok (c\<lparr> sc_denied_paths := sc_denied_paths c @ [pat] \<rparr>)
     else Err (Denied (''invalid deny pattern: invalid glob pattern `'' @ pat @ ''`: '' @ glob_err pat)))"

subsection \<open>Normalisation\<close>

fun normalize_comps :: "path_comp list \<Rightarrow> string \<Rightarrow> bool \<Rightarrow> string" where
  "normalize_comps [] buf first = buf"
| "normalize_comps (RootDir # cs) buf first = normalize_comps cs (buf @ [slash]) False"
| "normalize_comps (CurDir # cs) buf first = normalize_comps cs buf first"
| "normalize_comps (ParentDir # cs) buf first = normalize_comps cs (buf @ ''../'') first"
| "normalize_comps (Normal w # cs) buf first =
    normalize_comps cs
      ((if \<not> first \<and> \<not> (buf \<noteq> [] \<and> last buf = slash) then buf @ [slash] else buf) @ w) False"

definition normalize_path :: "string \<Rightarrow> string" where
  "normalize_path p = normalize_comps (components p) [] True"

definition check_no_dotdot :: "string \<Rightarrow> (unit, sandbox_error) result" where
  "check_no_dotdot p = (if ParentDir \<in> set (components p) then Err (DotDotEscape p) else Ok ())"

subsection \<open>The sandbox\<close>

record sandbox =
  sb_config :: sandbox_config
  sb_workspace_root_normalized :: string
  sb_system_temp :: "string option"

definition sandbox_with_config :: "string \<Rightarrow> sandbox_config \<Rightarrow> sandbox" where
  "sandbox_with_config temp_dir c =
    \<lparr> sb_config = c, sb_workspace_root_normalized = normalize_path (sc_workspace_root c),
      sb_system_temp = (if sc_allow_system_temp c then Some temp_dir else None) \<rparr>"

definition sandbox_new :: "(string \<Rightarrow> bool) \<Rightarrow> string \<Rightarrow> string \<Rightarrow> sandbox" where
  "sandbox_new glob_ok temp_dir root = sandbox_with_config temp_dir (sandbox_config_new glob_ok root)"

definition is_within_workspace :: "sandbox \<Rightarrow> string \<Rightarrow> bool" where
  "is_within_workspace sb n \<longleftrightarrow>
    n = sb_workspace_root_normalized sb \<or>
    (case strip_prefix (sb_workspace_root_normalized sb) n of
       Some rest \<Rightarrow> rest \<noteq> [] \<and> hd rest = slash
     | None \<Rightarrow> False)"

definition check_deny :: "(string \<Rightarrow> string \<Rightarrow> bool) \<Rightarrow> sandbox \<Rightarrow> string \<Rightarrow> (unit, sandbox_error) result" where
  "check_deny glob sb n =
    (if \<exists>pat \<in> set (sc_denied_paths (sb_config sb)). glob pat n then Err (Denied n) else Ok ())"

definition check_extension :: "sandbox \<Rightarrow> string \<Rightarrow> (unit, sandbox_error) result" where
  "check_extension sb n =
    (if sc_allowed_extensions (sb_config sb) = [] then Ok ()
     else case extension n of
       None \<Rightarrow> Err (ExtensionDenied n)
     | Some ext \<Rightarrow>
         if to_ascii_lowercase ext \<in> set (sc_allowed_extensions (sb_config sb)) then Ok ()
         else Err (ExtensionDenied n))"

definition validate_read ::
    "(string \<Rightarrow> string \<Rightarrow> bool) \<Rightarrow> sandbox \<Rightarrow> string \<Rightarrow> (unit, sandbox_error) result" where
  "validate_read glob sb p =
    try_res (check_no_dotdot p) (\<lambda>_.
      let n = normalize_path p in
      try_res (check_deny glob sb n) (\<lambda>_.
      try_res (check_extension sb n) (\<lambda>_.
        if is_within_workspace sb n then Ok ()
        else (case sb_system_temp sb of
                Some temp \<Rightarrow>
                  if starts_with (normalize_path temp) n then Ok () else Err (OutsideWorkspace n)
              | None \<Rightarrow> Err (OutsideWorkspace n)))))"

definition validate_write ::
    "(string \<Rightarrow> string \<Rightarrow> bool) \<Rightarrow> sandbox \<Rightarrow> string \<Rightarrow> (unit, sandbox_error) result" where
  "validate_write glob sb p =
    try_res (check_no_dotdot p) (\<lambda>_.
      let n = normalize_path p in
      try_res (check_deny glob sb n) (\<lambda>_.
      try_res (check_extension sb n) (\<lambda>_.
        if is_within_workspace sb n then Ok () else Err (OutsideWorkspace n))))"

subsection \<open>Commands\<close>

text \<open>Leading \<^verbatim>\<open>FOO=bar\<close> words are skipped; the command is a list of code points.\<close>

definition is_assignment :: "string \<Rightarrow> bool" where
  "is_assignment h \<longleftrightarrow> CHR 0x3D \<in> set h \<and> slash \<notin> set h \<and> CHR 0x5C \<notin> set h"

function strip_env :: "string list \<Rightarrow> string list" where
  "strip_env cs =
    (let h = takeWhile (\<lambda>c. \<not> is_ws c) cs; r = dropWhile (\<lambda>c. \<not> is_ws c) cs in
     if r \<noteq> [] \<and> is_assignment (trim (concat h)) then strip_env (dropWhile is_ws r) else cs)"
  by pat_completeness auto
termination
proof (relation "measure length", simp)
  fix cs h r
  assume r: "r = dropWhile (\<lambda>c. \<not> is_ws c) cs" and ne: "r \<noteq> [] \<and> is_assignment (trim (concat h))"
  then obtain x xs where x: "r = x # xs" "is_ws x"
    by (metis hd_dropWhile list.exhaust list.sel(1))
  then have "length (dropWhile is_ws r) \<le> length xs" by (simp add: length_dropWhile_le)
  also have "\<dots> < length r" using x by simp
  also have "\<dots> \<le> length cs" unfolding r by (rule length_dropWhile_le)
  finally show "(dropWhile is_ws r, cs) \<in> measure length" by simp
qed

declare strip_env.simps [simp del]

definition command_stem :: "string \<Rightarrow> string option" where
  "command_stem cmd =
    (let t = concat (dropWhile is_ws (strip_env (chars cmd))) in
     case t of
       [] \<Rightarrow> None
     | c # rest \<Rightarrow>
         if c = CHR 0x22 \<or> c = CHR 0x27 then
           (if c \<in> set rest then Some (takeWhile (\<lambda>x. x \<noteq> c) rest) else None)
         else (case split_whitespace t of [] \<Rightarrow> None | w # _ \<Rightarrow> Some w))"

definition validate_exec :: "sandbox \<Rightarrow> string \<Rightarrow> (unit, sandbox_error) result" where
  "validate_exec sb cmd =
    (let t = trim cmd in
     if t = [] then Err (InvalidCommand cmd)
     else case command_stem t of
       None \<Rightarrow> Err (InvalidCommand cmd)
     | Some stem \<Rightarrow>
         let low = to_ascii_lowercase stem;
             name = (case file_name low of Some n \<Rightarrow> n | None \<Rightarrow> low)
         in if allows (sc_exec_allowlist (sb_config sb)) name then Ok () else Err (ExecDenied stem))"

subsection \<open>Paths as lists of names\<close>

definition is_abs :: "string \<Rightarrow> bool" where
  "is_abs p \<longleftrightarrow> p \<noteq> [] \<and> hd p = slash"

definition names :: "string \<Rightarrow> string list" where
  "names p = filter (\<lambda>w. w \<noteq> [] \<and> w \<noteq> [dot]) (split_byte slash p)"

definition no_dotdot :: "string \<Rightarrow> bool" where
  "no_dotdot p \<longleftrightarrow> [dot, dot] \<notin> set (names p)"

lemma names_proper: "w \<in> set (names p) \<Longrightarrow> w \<noteq> [] \<and> slash \<notin> set w"
  by (auto simp: names_def dest: split_byte_no_sep)

lemma components_names:
  "components p =
    (if is_abs p then [RootDir] else if hd (split_byte slash p) = [dot] then [CurDir] else []) @
    map comp_of (names p)"
  by (simp add: components_def Let_def is_abs_def names_def)

lemma check_no_dotdot_iff: "check_no_dotdot p = Ok () \<longleftrightarrow> no_dotdot p"
  by (auto simp: check_no_dotdot_def components_names no_dotdot_def comp_of_def)

lemma last_not_in: "w \<noteq> [] \<Longrightarrow> x \<notin> set w \<Longrightarrow> last w \<noteq> x"
  by (metis last_in_set)

lemma join_slashes: "join [d] (w # ws) = w @ concat (map (\<lambda>v. d # v) ws)"
  by (induction ws arbitrary: w) auto

lemma normalize_more:
  "\<forall>w \<in> set ws. w \<noteq> [] \<and> slash \<notin> set w \<Longrightarrow> buf \<noteq> [] \<Longrightarrow> last buf \<noteq> slash \<Longrightarrow>
    normalize_comps (map Normal ws) buf False = buf @ concat (map (\<lambda>v. slash # v) ws)"
proof (induction ws arbitrary: buf)
  case Nil
  then show ?case by simp
next
  case (Cons w ws)
  have "last (buf @ [slash] @ w) \<noteq> slash" using Cons.prems last_not_in [of w slash] by auto
  with Cons show ?case by simp
qed

lemma normalize_first:
  assumes "\<forall>w \<in> set ws. w \<noteq> [] \<and> slash \<notin> set w"
    and "first \<and> buf = [] \<or> \<not> first \<and> buf \<noteq> [] \<and> last buf = slash"
  shows "normalize_comps (map Normal ws) buf first = buf @ join [slash] ws"
proof (cases ws)
  case Nil
  then show ?thesis by simp
next
  case (Cons w vs)
  with assms(1) have "last (buf @ w) \<noteq> slash" "buf @ w \<noteq> []" using last_not_in [of w slash] by auto
  with normalize_more [of vs "buf @ w"] assms Cons show ?thesis
    by (auto simp: join_slashes)
qed

lemma normalize_names:
  assumes "no_dotdot p"
  shows "normalize_path p = (if is_abs p then [slash] else []) @ join [slash] (names p)"
proof -
  have c: "map comp_of (names p) = map Normal (names p)"
    using assms by (auto simp: no_dotdot_def comp_of_def)
  have w: "\<forall>w \<in> set (names p). w \<noteq> [] \<and> slash \<notin> set w" using names_proper by blast
  show ?thesis
    unfolding normalize_path_def components_names c
    using normalize_first [OF w, of True "[]"] normalize_first [OF w, of False "[slash]"] by simp
qed

lemma split_byte_two: "split_byte d (s @ d # t) = split_byte d s @ split_byte d t"
proof (induction s)
  case Nil
  then show ?case by simp
next
  case (Cons c s)
  then show ?case by (cases "split_byte d s") (auto split: list.splits)
qed

lemma split_join_slash:
  "ws \<noteq> [] \<Longrightarrow> \<forall>w \<in> set ws. w \<noteq> [] \<and> slash \<notin> set w \<Longrightarrow> split_byte slash (join [slash] ws) = ws"
  by (rule split_byte_join) auto

text \<open>The string test of the source is a test on names.\<close>

lemma join_prefix:
  assumes r: "rs \<noteq> []" "\<forall>w \<in> set rs. w \<noteq> [] \<and> slash \<notin> set w"
    and w: "\<forall>w \<in> set ws. w \<noteq> [] \<and> slash \<notin> set w"
  shows "join [slash] ws = join [slash] rs \<or> (\<exists>x. join [slash] ws = join [slash] rs @ slash # x) \<longleftrightarrow>
    prefix rs ws"
proof (cases "ws = []")
  case True
  from r obtain a as where "rs = a # as" "a \<noteq> []" by (cases rs) auto
  with True show ?thesis by (auto simp: join_slashes)
next
  case False
  have sr: "split_byte slash (join [slash] rs) = rs" and sw: "split_byte slash (join [slash] ws) = ws"
    using split_join_slash r w False by auto
  show ?thesis
  proof
    assume "join [slash] ws = join [slash] rs \<or> (\<exists>x. join [slash] ws = join [slash] rs @ slash # x)"
    then show "prefix rs ws"
    proof
      assume "join [slash] ws = join [slash] rs"
      with sr sw show ?thesis by simp
    next
      assume "\<exists>x. join [slash] ws = join [slash] rs @ slash # x"
      then obtain x where "join [slash] ws = join [slash] rs @ slash # x" by blast
      then have "ws = rs @ split_byte slash x" using sr sw split_byte_two by metis
      then show ?thesis by simp
    qed
  next
    assume "prefix rs ws"
    then obtain ks where k: "ws = rs @ ks" by (auto simp: prefix_def)
    show "join [slash] ws = join [slash] rs \<or> (\<exists>x. join [slash] ws = join [slash] rs @ slash # x)"
      using r(1) by (cases "ks = []") (auto simp: k join_append)
  qed
qed

lemma hd_join: "ws \<noteq> [] \<Longrightarrow> \<forall>w \<in> set ws. w \<noteq> [] \<and> slash \<notin> set w \<Longrightarrow> join [slash] ws \<noteq> [] \<and> hd (join [slash] ws) \<noteq> slash"
  by (cases ws; cases "hd ws") (auto simp: join_slashes)

definition inside :: "string \<Rightarrow> string \<Rightarrow> bool" where
  "inside root p \<longleftrightarrow> is_abs p = is_abs root \<and> prefix (names root) (names p)"

lemma within_iff:
  assumes root: "no_dotdot (sc_workspace_root c)" "names (sc_workspace_root c) \<noteq> []"
    and p: "no_dotdot p"
  shows "is_within_workspace (sandbox_with_config tmp c) (normalize_path p) \<longleftrightarrow>
    inside (sc_workspace_root c) p"
proof -
  let ?r = "sc_workspace_root c"
  have rp: "\<forall>w \<in> set (names ?r). w \<noteq> [] \<and> slash \<notin> set w" and pp: "\<forall>w \<in> set (names p). w \<noteq> [] \<and> slash \<notin> set w"
    using names_proper by blast+
  have w: "is_within_workspace (sandbox_with_config tmp c) n \<longleftrightarrow>
      n = normalize_path ?r \<or> (\<exists>x. n = normalize_path ?r @ slash # x)" for n
    by (auto simp: is_within_workspace_def sandbox_with_config_def strip_prefix_Some
        split: option.splits) (metis append_eq_append_conv2 hd_Cons_tl strip_prefix_append option.distinct(1))
  note hr = hd_join [OF root(2) rp]
  show ?thesis
  proof (cases "is_abs p = is_abs ?r")
    case True
    then show ?thesis
      using join_prefix [OF root(2) rp pp] unfolding w normalize_names [OF root(1)] normalize_names [OF p]
      by (auto simp: inside_def)
  next
    case False
    have "join [slash] (names p) = [] \<or> hd (join [slash] (names p)) \<noteq> slash"
      using hd_join [of "names p"] pp by (cases "names p = []") auto
    moreover obtain a as where "join [slash] (names ?r) = a # as" "a \<noteq> slash"
      using hr by (cases "join [slash] (names ?r)") auto
    ultimately show ?thesis
      using False unfolding w normalize_names [OF root(1)] normalize_names [OF p]
      by (auto simp: inside_def Cons_eq_append_conv)
  qed
qed

subsection \<open>Properties\<close>

text \<open>C10: confinement: for a workspace root that names at least one directory and has no \<^verbatim>\<open>..\<close>, a write
  is allowed exactly when the path has no \<^verbatim>\<open>..\<close> component, matches no deny pattern, has an allowed
  extension, and lies inside the root component by component (so \<^verbatim>\<open>/ws-evil\<close> is not inside
  \<^verbatim>\<open>/ws\<close>); every allowed write is also an allowed read.\<close>

theorem validate_write_confined:
  assumes "no_dotdot (sc_workspace_root c)" "names (sc_workspace_root c) \<noteq> []"
  shows "let sb = sandbox_with_config tmp c in
    (validate_write glob sb p = Ok () \<longleftrightarrow>
      no_dotdot p \<and> inside (sc_workspace_root c) p \<and>
      (\<forall>pat \<in> set (sc_denied_paths c). \<not> glob pat (normalize_path p)) \<and>
      (sc_allowed_extensions c = [] \<or>
       (\<exists>e. extension (normalize_path p) = Some e \<and> to_ascii_lowercase e \<in> set (sc_allowed_extensions c)))) \<and>
    (validate_write glob sb p = Ok () \<longrightarrow> validate_read glob sb p = Ok ())"
proof -
  let ?sb = "sandbox_with_config tmp c"
  have d: "check_deny glob ?sb n = Ok () \<longleftrightarrow> (\<forall>pat \<in> set (sc_denied_paths c). \<not> glob pat n)" for n
    by (auto simp: check_deny_def sandbox_with_config_def)
  have e: "check_extension ?sb n = Ok () \<longleftrightarrow> sc_allowed_extensions c = [] \<or>
      (\<exists>e. extension n = Some e \<and> to_ascii_lowercase e \<in> set (sc_allowed_extensions c))" for n
    by (auto simp: check_extension_def sandbox_with_config_def split: option.splits)
  have "validate_write glob ?sb p = Ok () \<longleftrightarrow> no_dotdot p \<and> is_within_workspace ?sb (normalize_path p) \<and>
      check_deny glob ?sb (normalize_path p) = Ok () \<and> check_extension ?sb (normalize_path p) = Ok ()"
    by (auto simp: validate_write_def check_no_dotdot_iff Let_def split: if_splits)
  moreover have "validate_write glob ?sb p = Ok () \<Longrightarrow> validate_read glob ?sb p = Ok ()"
    by (auto simp: validate_write_def validate_read_def Let_def split: if_splits)
  ultimately show ?thesis
    using within_iff [OF assms, of p tmp] unfolding Let_def d e by blast
qed

definition demo_config :: sandbox_config where
  "demo_config = sandbox_config_new (\<lambda>_. True) ''/ws''"

theorem validate_write_confined_witness:
  "validate_write (\<lambda>_ _. False) (sandbox_with_config ''/tmp'' demo_config) ''/ws/a.rs'' = Ok () \<and>
   validate_write (\<lambda>_ _. False) (sandbox_with_config ''/tmp'' demo_config) ''/ws-evil/a.rs'' \<noteq> Ok ()"
proof -
  have r: "sc_workspace_root demo_config = ''/ws''" "sc_allowed_extensions demo_config = []"
    by (simp_all add: demo_config_def sandbox_config_new_def)
  have n: "names ''/ws'' = [''ws'']" "names ''/ws/a.rs'' = [''ws'', ''a.rs'']"
    "names ''/ws-evil/a.rs'' = [''ws-evil'', ''a.rs'']"
    by code_simp+
  show ?thesis
    using validate_write_confined [of demo_config "''/tmp''" "\<lambda>_ _. False" "''/ws/a.rs''"]
      validate_write_confined [of demo_config "''/tmp''" "\<lambda>_ _. False" "''/ws-evil/a.rs''"]
    by (simp add: r n no_dotdot_def inside_def is_abs_def Let_def)
qed

text \<open>Two ways past the read policy, whatever the glob matcher says of other paths: with a workspace
  root that normalises to the empty string (\<^verbatim>\<open>.\<close> or an empty path) every absolute path without
  \<^verbatim>\<open>..\<close> counts as inside the workspace, even for writing, and a path that only starts with the text
  of the temporary directory, such as a sibling directory, may be read.\<close>

theorem sandbox_degenerate_roots:
  assumes "no_dotdot p" "is_abs p" "sc_denied_paths c = []" "sc_allowed_extensions c = []"
  shows "(sc_workspace_root c \<in> {[], [dot]} \<longrightarrow> validate_write glob (sandbox_with_config tmp c) p = Ok ()) \<and>
    (sc_allow_system_temp c \<and> starts_with (normalize_path tmp) (normalize_path p) \<longrightarrow>
      validate_read glob (sandbox_with_config tmp c) p = Ok ())"
proof -
  have "normalize_path p = slash # join [slash] (names p)"
    using normalize_names [OF assms(1)] assms(2) by simp
  moreover have "normalize_path [] = []" "normalize_path [dot] = []" by code_simp+
  ultimately have "sc_workspace_root c \<in> {[], [dot]} \<Longrightarrow>
      is_within_workspace (sandbox_with_config tmp c) (normalize_path p)"
    by (auto simp: is_within_workspace_def sandbox_with_config_def)
  then show ?thesis
    using assms
    by (auto simp: validate_write_def validate_read_def check_no_dotdot_iff check_deny_def
        check_extension_def Let_def) (auto simp: sandbox_with_config_def)
qed

theorem sandbox_degenerate_roots_witness:
  "validate_write (\<lambda>_ _. False) (sandbox_with_config ''/tmp''
     (demo_config\<lparr> sc_workspace_root := ''.'', sc_denied_paths := [] \<rparr>)) ''/etc/passwd'' = Ok () \<and>
   validate_read (\<lambda>_ _. False) (sandbox_with_config ''/tmp''
     (demo_config\<lparr> sc_denied_paths := [] \<rparr>)) ''/tmpfoo/secret'' = Ok ()"
proof -
  have n: "no_dotdot ''/etc/passwd''" "no_dotdot ''/tmpfoo/secret''"
    "starts_with (normalize_path ''/tmp'') (normalize_path ''/tmpfoo/secret'')"
    unfolding no_dotdot_def by code_simp+
  show ?thesis
    using sandbox_degenerate_roots [of "''/etc/passwd''"
        "demo_config\<lparr> sc_workspace_root := ''.'', sc_denied_paths := [] \<rparr>" "\<lambda>_ _. False" "''/tmp''"]
      sandbox_degenerate_roots [of "''/tmpfoo/secret''" "demo_config\<lparr> sc_denied_paths := [] \<rparr>" "\<lambda>_ _. False" "''/tmp''"] n
    by (simp add: is_abs_def demo_config_def sandbox_config_new_def)
qed

end
