(* ===== verification/EditFormats.thy ===== *)
theory EditFormats
  imports RustStr Complex_Main
begin

text \<open>
  The crate \<^verbatim>\<open>edit-formats\<close>: the parsers that turn model output into an edit (parsers.rs), the
  matcher that locates a search block in a file (fuzzy.rs) and the application of an edit
  (apply.rs). \<^verbatim>\<open>strsim::normalized_levenshtein\<close> is the parameter \<open>sim\<close>; a 64-bit float is the
  rational it denotes, which loses nothing here: scores that pass the threshold lie in
  [0.7, 1], where the subtraction of two floats is exact. \<^verbatim>\<open>serde_json::from_str\<close> into a tool
  call is the parameter \<open>parse_call\<close>.
\<close>

subsection \<open>Types (types.rs, error.rs)\<close>

record search_replace_edit =
  sr_search :: string
  sr_replace :: string
  sr_anchor :: "string option"

record tool_use_edit_call =
  tu_name :: string
  tu_path :: string
  tu_edits :: "search_replace_edit list"

datatype edit_operation =
    SearchReplace string string "string option"
  | WholeFile string
  | ToolUseEdit "search_replace_edit list"

datatype edit_error =
    EParse string string
  | SearchNotFound
  | AmbiguousMatch nat
  | InvalidToolUse string

subsection \<open>Parsers (parsers.rs)\<close>

definition SEARCH_MARKER :: string where "SEARCH_MARKER = ''<<<SEARCH''"
definition REPLACE_MARKER :: string where "REPLACE_MARKER = ''<<<REPLACE''"
definition END_MARKER :: string where "END_MARKER = ''<<<END''"

definition trim_newlines :: "string \<Rightarrow> string" where
  "trim_newlines s = rev (dropWhile (\<lambda>c. c = nl) (rev (dropWhile (\<lambda>c. c = nl) s)))"

text \<open>The text between a start marker at the front and the next end marker, or up to the end.\<close>

definition consume_block :: "string \<Rightarrow> nat \<Rightarrow> string \<Rightarrow> string \<Rightarrow> nat \<times> string" where
  "consume_block cursor start_at start_marker end_marker =
    (let body_start = start_at + length start_marker;
         body_end = (case find_sub end_marker (drop body_start cursor) of
                       Some i \<Rightarrow> body_start + i | None \<Rightarrow> length cursor)
     in (body_end + length end_marker, drop body_start (take body_end cursor)))"

definition keep_body :: "string \<Rightarrow> string option \<Rightarrow> string option \<Rightarrow> string option \<times> string option" where
  "keep_body body search replace =
    (case (search, replace) of
       (None, None) \<Rightarrow> (Some body, None)
     | (Some s, None) \<Rightarrow> (Some s, Some body)
     | _ \<Rightarrow> (search, replace))"

lemma find_sub_nonempty: "find_sub p s = Some i \<Longrightarrow> p \<noteq> [] \<Longrightarrow> s \<noteq> []"
  by (cases s) auto

function sr_loop :: "string \<Rightarrow> string option \<Rightarrow> string option \<Rightarrow> string option \<times> string option" where
  "sr_loop cursor search replace =
    (case find_sub ''<<<'' cursor of
       None \<Rightarrow> (search, replace)
     | Some pos \<Rightarrow>
       let am = drop pos cursor in
       if starts_with SEARCH_MARKER am \<or> starts_with REPLACE_MARKER am then
         let blk = (if starts_with SEARCH_MARKER am
                    then consume_block cursor pos SEARCH_MARKER REPLACE_MARKER
                    else consume_block cursor pos REPLACE_MARKER END_MARKER);
             kept = keep_body (trim_newlines (snd blk)) search replace
         in (case find_sub [nl] am of
               None \<Rightarrow> kept
             | Some idx \<Rightarrow> sr_loop (drop (pos + (idx + 1)) cursor) (fst kept) (snd kept))
       else if starts_with END_MARKER am then sr_loop (drop (pos + length END_MARKER) cursor) search replace
       else sr_loop (drop (pos + 3) cursor) search replace)"
  by pat_completeness auto
termination
  by (relation "measure (\<lambda>(c, s, r). length c)")
     (auto simp: END_MARKER_def dest!: find_sub_nonempty intro!: diff_less)

declare sr_loop.simps [simp del]

definition search_replace_parse :: "string \<Rightarrow> (edit_operation, edit_error) result" where
  "search_replace_parse out =
    (case sr_loop out None None of
       (None, _) \<Rightarrow> Err (EParse ''search-replace'' ''no SEARCH block found'')
     | (Some s, None) \<Rightarrow> Err (EParse ''search-replace'' ''no REPLACE block found'')
     | (Some s, Some r) \<Rightarrow> Ok (SearchReplace s r None))"

definition whole_file_parse :: "string \<Rightarrow> (edit_operation, edit_error) result" where
  "whole_file_parse out = Ok (WholeFile out)"

definition tool_use_parse ::
    "(string \<Rightarrow> (tool_use_edit_call, string) result) \<Rightarrow> string \<Rightarrow> (edit_operation, edit_error) result" where
  "tool_use_parse parse_call out =
    try_res (map_err (\<lambda>e. InvalidToolUse (''json parse error: '' @ e)) (parse_call (trim out))) (\<lambda>call.
      if tu_edits call = [] then Err (InvalidToolUse ''tool-use edit batch is empty'')
      else (case position (\<lambda>e. sr_search e = []) (tu_edits call) of
              Some i \<Rightarrow> Err (InvalidToolUse (''edit '' @ show_nat i @ '' has empty search field''))
            | None \<Rightarrow> Ok (ToolUseEdit (tu_edits call))))"

subsection \<open>The matcher (fuzzy.rs)\<close>

text \<open>The floats nearest to 0.7 and 0.02.\<close>

definition DEFAULT_THRESHOLD :: rat where
  "DEFAULT_THRESHOLD = 3152519739159347 / 2 ^ 52"

definition AMBIGUITY_MARGIN :: rat where
  "AMBIGUITY_MARGIN = 5764607523034235 / 2 ^ 58"

definition line_starts :: "string \<Rightarrow> nat list" where
  "line_starts src = 0 # map Suc (filter (\<lambda>i. src ! i = nl) [0..<length src])"

definition line_range_to_byte_range :: "string \<Rightarrow> nat \<Rightarrow> nat \<Rightarrow> nat \<times> nat" where
  "line_range_to_byte_range src a b =
    (let ls = line_starts src;
         start = (if a < length ls then ls ! a else length src);
         end0 = (if b < length ls then ls ! b else length src);
         end1 = (if start < end0 \<and> 0 < end0 \<and> end0 - 1 < length src \<and> src ! (end0 - 1) = nl
                 then end0 - 1 else end0)
     in (start, end1))"

text \<open>The scan over the windows, each with its rg and its score.\<close>

fun fuzzy_scan ::
    "rat \<Rightarrow> ((nat \<times> nat) \<times> rat) list \<Rightarrow> ((nat \<times> nat) \<times> rat) option \<Rightarrow> (nat \<times> nat) list \<Rightarrow>
     ((nat \<times> nat) \<times> rat) option \<times> (nat \<times> nat) list" where
  "fuzzy_scan thr [] best tied = (best, tied)"
| "fuzzy_scan thr ((rg, score) # ws) best tied =
    (if score < thr then fuzzy_scan thr ws best tied
     else case best of
       None \<Rightarrow> fuzzy_scan thr ws (Some (rg, score)) []
     | Some (r0, prev) \<Rightarrow>
         if \<bar>score - prev\<bar> \<le> AMBIGUITY_MARGIN then fuzzy_scan thr ws best (tied @ [rg])
         else if score > prev then fuzzy_scan thr ws (Some (rg, score)) []
         else fuzzy_scan thr ws best tied)"

definition windows ::
    "(string \<Rightarrow> string \<Rightarrow> rat) \<Rightarrow> string \<Rightarrow> string \<Rightarrow> ((nat \<times> nat) \<times> rat) list" where
  "windows sim hay needle =
    (let hl = str_lines hay; ns = str_lines needle; k = length ns in
     map (\<lambda>s. (line_range_to_byte_range hay s (s + k),
               sim (join [nl] ns) (join [nl] (take k (drop s hl)))))
       [0..<length hl - k + 1])"

definition find_block ::
    "(string \<Rightarrow> string \<Rightarrow> rat) \<Rightarrow> string \<Rightarrow> string \<Rightarrow> rat \<Rightarrow> (nat \<times> nat, nat) result option" where
  "find_block sim hay needle thr =
    (if needle = [] \<or> hay = [] then None
     else case find_sub needle hay of
       Some i \<Rightarrow> Some (Ok (i, i + length needle))
     | None \<Rightarrow>
         if length (str_lines hay) < length (str_lines needle) then None
         else (case fuzzy_scan thr (windows sim hay needle) None [] of
                 (None, _) \<Rightarrow> None
               | (Some (rg, _), tied) \<Rightarrow>
                   if tied = [] then Some (Ok rg) else Some (Err (length tied + 1))))"

subsection \<open>Applying an edit (apply.rs)\<close>

definition apply_single ::
    "(string \<Rightarrow> string \<Rightarrow> rat) \<Rightarrow> string \<Rightarrow> string \<Rightarrow> string \<Rightarrow> (string, edit_error) result" where
  "apply_single sim content search replace =
    (case find_block sim content search DEFAULT_THRESHOLD of
       None \<Rightarrow> Err SearchNotFound
     | Some (Err count) \<Rightarrow> Err (AmbiguousMatch count)
     | Some (Ok (i, j)) \<Rightarrow> Ok (take i content @ replace @ drop j content))"

fun apply_edits ::
    "(string \<Rightarrow> string \<Rightarrow> rat) \<Rightarrow> string \<Rightarrow> search_replace_edit list \<Rightarrow> (string, edit_error) result" where
  "apply_edits sim acc [] = Ok acc"
| "apply_edits sim acc (e # es) =
    try_res (apply_single sim acc (sr_search e) (sr_replace e)) (\<lambda>acc'. apply_edits sim acc' es)"

fun apply_edit_operation ::
    "(string \<Rightarrow> string \<Rightarrow> rat) \<Rightarrow> string \<Rightarrow> edit_operation \<Rightarrow> (string, edit_error) result" where
  "apply_edit_operation sim content (WholeFile new) = Ok new"
| "apply_edit_operation sim content (SearchReplace s r a) = apply_single sim content s r"
| "apply_edit_operation sim content (ToolUseEdit es) = apply_edits sim content es"

subsection \<open>Parsing a rendered edit\<close>

definition render_edit :: "string \<Rightarrow> string \<Rightarrow> string" where
  "render_edit s r = SEARCH_MARKER @ nl # s @ nl # REPLACE_MARKER @ nl # r @ nl # END_MARKER"

text \<open>No marker starts inside the text, not even one that continues past its end at a newline.\<close>

definition no_marker :: "string \<Rightarrow> bool" where
  "no_marker s \<longleftrightarrow> \<not> contains_sub ''<<<'' s"

lemma starts_with_append_len:
  "length p \<le> length s \<Longrightarrow> starts_with p (s @ t) = starts_with p s"
  by (induction p s rule: strip_prefix.induct) (auto simp: starts_with_def)

lemma starts_with_nl: "nl \<notin> set p \<Longrightarrow> starts_with p (s @ nl # t) = starts_with p s"
  by (induction p s rule: strip_prefix.induct) (auto simp: starts_with_def)

lemma find_sub_skip:
  "nl \<notin> set p \<Longrightarrow> p \<noteq> [] \<Longrightarrow> find_sub p s = None \<Longrightarrow>
    find_sub p (s @ nl # t) = map_option (\<lambda>i. length s + 1 + i) (find_sub p t)"
proof (induction s)
  case Nil
  then have "\<not> starts_with p (nl # t)" by (cases p) (auto simp: starts_with_def)
  then show ?case by simp
next
  case (Cons c s)
  then have n: "\<not> starts_with p (c # s)" "find_sub p s = None" by (auto split: if_splits)
  from n(1) have "\<not> starts_with p ((c # s) @ nl # t)" using starts_with_nl [OF Cons.prems(1), of "c # s" t] by simp
  with Cons n(2) show ?case by (cases "find_sub p t") auto
qed

lemma find_sub_here: "find_sub p (p @ t) = Some 0"
proof (cases "p @ t")
  case (Cons c cs)
  then have "starts_with p (c # cs)" by (metis starts_with_iff)
  with Cons show ?thesis by simp
qed auto

lemma no_marker_find:
  assumes "no_marker s" "p = ''<<<'' @ q"
  shows "find_sub p s = None"
proof -
  have "\<nexists>l r. s = l @ p @ r"
    using assms by (auto simp: no_marker_def contains_sub_iff)
  then show ?thesis by (simp add: find_sub_None)
qed

lemma keep_full [simp]: "keep_body b (Some s) (Some r) = (Some s, Some r)"
  by (simp add: keep_body_def)

lemma sr_loop_full: "sr_loop c (Some s) (Some r) = (Some s, Some r)"
proof (induction "length c" arbitrary: c rule: less_induct)
  case less
  show ?case
  proof (cases "find_sub ''<<<'' c")
    case None
    then show ?thesis by (simp add: sr_loop.simps [of c])
  next
    case (Some pos)
    then have ne: "c \<noteq> []" by auto
    have "sr_loop (drop j c) (Some s) (Some r) = (Some s, Some r)" if "pos < j" for j
      using that ne by (intro less.hyps) simp
    then show ?thesis
      by (simp add: sr_loop.simps [of c] Some Let_def END_MARKER_def split: option.splits)
  qed
qed

text \<open>One block: a marker, a body without markers, and the marker that ends it.\<close>

lemma consume_body:
  assumes "no_marker s" "e = ''<<<'' @ q" "nl \<notin> set e" "length m = k"
  shows "snd (consume_block (m @ nl # s @ nl # e @ t) 0 m e) = nl # s @ [nl]"
proof -
  have "find_sub e (nl # s @ nl # e @ t) = Some (length s + 2)"
  proof -
    have "find_sub e (s @ nl # e @ t) = Some (length s + 1)"
      using find_sub_skip [of e s "e @ t"] no_marker_find [OF assms(1,2)] find_sub_here [of e t] assms(2,3) by simp
    moreover have "\<not> starts_with e (nl # s @ nl # e @ t)" using assms(2) by (auto simp: starts_with_def)
    ultimately show ?thesis by simp
  qed
  then show ?thesis by (simp add: consume_block_def)
qed

lemma trim_newlines_wrap: "trim_newlines (nl # s @ [nl]) = trim_newlines s"
proof -
  have "dropWhile (\<lambda>c. c = nl) (rev (dropWhile (\<lambda>c. c = nl) (s @ [nl]))) =
      dropWhile (\<lambda>c. c = nl) (rev (dropWhile (\<lambda>c. c = nl) s))"
  proof (cases "\<forall>c \<in> set s. c = nl")
    case True
    then have "dropWhile (\<lambda>c. c = nl) (s @ [nl]) = []" "dropWhile (\<lambda>c. c = nl) s = []" by auto
    then show ?thesis by (simp del: dropWhile_eq_Nil_conv)
  next
    case False
    then obtain x where "x \<in> set s" "x \<noteq> nl" by blast
    then show ?thesis by (simp add: dropWhile_append1 [of x])
  qed
  then show ?thesis by (simp add: trim_newlines_def)
qed

lemma consume_block_drop:
  "pos \<le> length c \<Longrightarrow> snd (consume_block c pos m e) = snd (consume_block (drop pos c) 0 m e)"
  by (auto simp: consume_block_def Let_def add.commute drop_take split: option.splits)

lemma find_nl: "nl \<notin> set l \<Longrightarrow> find_sub [nl] (l @ nl # t) = Some (length l)"
  by (induction l) (auto simp: starts_with_def)

lemma marker_nl: "nl \<notin> set SEARCH_MARKER" "nl \<notin> set REPLACE_MARKER" "nl \<notin> set END_MARKER"
  by (simp_all add: SEARCH_MARKER_def REPLACE_MARKER_def END_MARKER_def)

lemma marker_split:
  "SEARCH_MARKER = ''<<<'' @ ''SEARCH''" "REPLACE_MARKER = ''<<<'' @ ''REPLACE''" "END_MARKER = ''<<<'' @ ''END''"
  by (simp_all add: SEARCH_MARKER_def REPLACE_MARKER_def END_MARKER_def)

lemma starts_markers:
  "starts_with SEARCH_MARKER (SEARCH_MARKER @ t)" "starts_with REPLACE_MARKER (REPLACE_MARKER @ t)"
  "\<not> starts_with SEARCH_MARKER (REPLACE_MARKER @ t)"
  by (auto simp: starts_with_def SEARCH_MARKER_def REPLACE_MARKER_def)

text \<open>The next marker is behind text without markers that ends with a newline, or at the front.\<close>

definition lead_in :: "string \<Rightarrow> bool" where
  "lead_in l \<longleftrightarrow> l = [] \<or> (\<exists>p. l = p @ [nl] \<and> no_marker p)"

lemma find_marker: "lead_in l \<Longrightarrow> find_sub ''<<<'' (l @ (''<<<'' @ q) @ t) = Some (length l)"
proof -
  assume "lead_in l"
  then consider "l = []" | p where "l = p @ [nl]" "no_marker p" by (auto simp: lead_in_def)
  then show ?thesis
  proof cases
    case 1
    then show ?thesis using find_sub_here [of "''<<<''" "q @ t"] by simp
  next
    case 2
    then show ?thesis
      using find_sub_skip [of "''<<<''" p "''<<<'' @ q @ t"] no_marker_find [of p "''<<<''" "[]"]
        find_sub_here [of "''<<<''" "q @ t"] by simp
  qed
qed

lemma sr_step_search:
  assumes "lead_in l" "no_marker s"
  shows "sr_loop (l @ SEARCH_MARKER @ nl # s @ nl # REPLACE_MARKER @ t) None None =
    sr_loop (s @ nl # REPLACE_MARKER @ t) (Some (trim_newlines s)) None"
proof -
  let ?am = "SEARCH_MARKER @ nl # s @ nl # REPLACE_MARKER @ t"
  have f: "find_sub ''<<<'' (l @ ?am) = Some (length l)"
    using find_marker [OF assms(1), of "''SEARCH''"] by (simp only: marker_split append_assoc)
  have b: "snd (consume_block (l @ ?am) (length l) SEARCH_MARKER REPLACE_MARKER) = nl # s @ [nl]"
    using consume_body [OF assms(2) marker_split(2) marker_nl(2) refl, of SEARCH_MARKER t]
    using consume_block_drop [of "length l" "l @ ?am" SEARCH_MARKER REPLACE_MARKER] by simp
  show ?thesis
    unfolding sr_loop.simps [of "l @ ?am"] f
    using b find_nl [OF marker_nl(1), of "s @ nl # REPLACE_MARKER @ t"] starts_markers(1)
    by (simp add: Let_def keep_body_def trim_newlines_wrap)
qed

lemma sr_step_replace:
  assumes "no_marker s" "no_marker r"
  shows "sr_loop (s @ nl # REPLACE_MARKER @ nl # r @ nl # END_MARKER @ t) (Some a) None =
    (Some a, Some (trim_newlines r))"
proof -
  let ?am = "REPLACE_MARKER @ nl # r @ nl # END_MARKER @ t"
  let ?l = "s @ [nl]"
  have l: "lead_in ?l" using assms(1) by (auto simp: lead_in_def)
  have f: "find_sub ''<<<'' (?l @ ?am) = Some (length ?l)"
    using find_marker [OF l, of "''REPLACE''"] by (simp only: marker_split append_assoc)
  have b: "snd (consume_block (?l @ ?am) (length ?l) REPLACE_MARKER END_MARKER) = nl # r @ [nl]"
    using consume_body [OF assms(2) marker_split(3) marker_nl(3) refl, of REPLACE_MARKER t]
    consume_block_drop [of "length ?l" "?l @ ?am" REPLACE_MARKER END_MARKER] by simp
  have "sr_loop (?l @ ?am) (Some a) None = (Some a, Some (trim_newlines r))"
    unfolding sr_loop.simps [of "?l @ ?am"] f
    using b find_nl [OF marker_nl(2), of "r @ nl # END_MARKER @ t"] starts_markers(2,3)
    by (simp add: Let_def keep_body_def trim_newlines_wrap sr_loop_full)
  then show ?thesis by simp
qed

subsection \<open>The range of a match\<close>

lemma line_starts_bound: "x \<in> set (line_starts src) \<Longrightarrow> x \<le> length src"
  by (auto simp: line_starts_def)

lemma line_starts_sorted: "sorted (line_starts src)"
  by (auto simp: line_starts_def sorted_map intro!: sorted_wrt_filter)

lemma line_range_bounds:
  assumes "a \<le> b"
  shows "fst (line_range_to_byte_range src a b) \<le> snd (line_range_to_byte_range src a b) \<and>
    snd (line_range_to_byte_range src a b) \<le> length src"
proof -
  let ?ls = "line_starts src"
  have m: "a < length ?ls \<Longrightarrow> b < length ?ls \<Longrightarrow> ?ls ! a \<le> ?ls ! b"
    using line_starts_sorted assms by (auto intro: sorted_nth_mono)
  have n: "x < length ?ls \<Longrightarrow> ?ls ! x \<le> length src" for x
    by (rule line_starts_bound) simp
  show ?thesis
    using m n [of a] n [of b] assms by (auto simp: line_range_to_byte_range_def Let_def)
qed

lemma windows_bounds:
  assumes "((i, j), sc) \<in> set (windows sim hay needle)"
  shows "i \<le> j \<and> j \<le> length hay"
proof -
  let ?k = "length (str_lines needle)"
  from assms obtain s where s: "line_range_to_byte_range hay s (s + ?k) = (i, j)"
    unfolding windows_def Let_def by force
  with line_range_bounds [of s "s + ?k" hay] show ?thesis by simp
qed

text \<open>The scan keeps a best window whose score beats every earlier window that is not tied with it.\<close>

definition scan_ok ::
    "rat \<Rightarrow> ((nat \<times> nat) \<times> rat) list \<Rightarrow> ((nat \<times> nat) \<times> rat) option \<Rightarrow> (nat \<times> nat) list \<Rightarrow> bool" where
  "scan_ok thr ws best tied \<longleftrightarrow>
     (case best of
        None \<Rightarrow> tied = [] \<and> (\<forall>w \<in> set ws. snd w < thr)
      | Some b \<Rightarrow> thr \<le> snd b \<and>
          (\<exists>us vs. ws = us @ b # vs \<and> (\<forall>w \<in> set us. snd w < snd b) \<and>
             (\<forall>w \<in> set vs. snd w \<le> snd b + AMBIGUITY_MARGIN) \<and>
             (tied = [] \<longrightarrow> (\<forall>w \<in> set vs. snd w < snd b))))"

lemma margin_pos: "0 < AMBIGUITY_MARGIN"
  by (simp add: AMBIGUITY_MARGIN_def)

lemma scan_step_new:
  assumes "scan_ok thr ws best tied" "thr \<le> sc"
    and "\<forall>b. best = Some b \<longrightarrow> sc > snd b + AMBIGUITY_MARGIN"
  shows "scan_ok thr (ws @ [(rg, sc)]) (Some (rg, sc)) []"
proof -
  have "\<forall>w \<in> set ws. snd w < sc"
  proof (cases best)
    case None
    with assms show ?thesis by (auto simp: scan_ok_def)
  next
    case (Some b)
    with assms margin_pos show ?thesis by (fastforce simp: scan_ok_def)
  qed
  with assms(2) show ?thesis unfolding scan_ok_def option.simps
    by (intro conjI exI [of _ ws] exI [of _ "[]"]) auto
qed

lemma scan_step_keep:
  assumes "scan_ok thr ws (Some b) tied" "snd w \<le> snd b + AMBIGUITY_MARGIN"
    and "tied' = [] \<Longrightarrow> tied = [] \<and> snd w < snd b"
  shows "scan_ok thr (ws @ [w]) (Some b) tied'"
proof -
  from assms(1) obtain us vs where u: "ws = us @ b # vs" "thr \<le> snd b" "\<forall>w \<in> set us. snd w < snd b"
    "\<forall>w \<in> set vs. snd w \<le> snd b + AMBIGUITY_MARGIN" "tied = [] \<longrightarrow> (\<forall>w \<in> set vs. snd w < snd b)"
    by (auto simp: scan_ok_def)
  then show ?thesis
    using assms(2,3) unfolding scan_ok_def option.simps
    by (intro conjI exI [of _ us] exI [of _ "vs @ [w]"]) auto
qed

lemma fuzzy_scan_ok:
  "scan_ok thr us best tied \<Longrightarrow>
    (case fuzzy_scan thr ws best tied of (b, t) \<Rightarrow> scan_ok thr (us @ ws) b t)"
proof (induction ws arbitrary: us best tied)
  case Nil
  then show ?case by simp
next
  case (Cons w ws)
  obtain rg sc where w: "w = (rg, sc)" by (cases w)
  have IH: "scan_ok thr (us @ [w]) b t \<Longrightarrow>
      (case fuzzy_scan thr ws b t of (b', t') \<Rightarrow> scan_ok thr (us @ w # ws) b' t')" for b t
    using Cons.IH [of "us @ [w]" b t] by simp
  show ?case
  proof (cases best)
    case None
    show ?thesis
    proof (cases "sc < thr")
      case True
      with Cons.prems None w have "scan_ok thr (us @ [w]) None tied" by (auto simp: scan_ok_def)
      from IH [OF this] True None w show ?thesis by simp
    next
      case False
      then have "scan_ok thr (us @ [w]) (Some w) []"
        using scan_step_new [OF Cons.prems, of sc rg] None w by simp
      from IH [OF this] False None w show ?thesis by simp
    qed
  next
    case (Some b)
    obtain r0 prev where b: "b = (r0, prev)" by (cases b)
    from Cons.prems Some b have thr: "thr \<le> prev" by (simp add: scan_ok_def)
    note keep = scan_step_keep [OF Cons.prems [unfolded Some], of w]
    consider "sc < thr" | "thr \<le> sc" "\<bar>sc - prev\<bar> \<le> AMBIGUITY_MARGIN"
      | "thr \<le> sc" "sc > prev + AMBIGUITY_MARGIN" | "thr \<le> sc" "sc < prev - AMBIGUITY_MARGIN"
      by linarith
    then show ?thesis
    proof cases
      case 1
      have "scan_ok thr (us @ [w]) best tied"
        using keep [of tied] 1 thr margin_pos w b Some by simp
      from IH [OF this] 1 w show ?thesis by simp
    next
      case 2
      have "scan_ok thr (us @ [w]) best (tied @ [rg])"
        using keep [of "tied @ [rg]"] 2 w b Some by simp
      from IH [OF this] 2 w b Some show ?thesis by simp
    next
      case 3
      then have "scan_ok thr (us @ [w]) (Some w) []"
        using scan_step_new [OF Cons.prems, of sc rg] w b Some by simp
      from IH [OF this] 3 w b Some margin_pos show ?thesis by simp
    next
      case 4
      have "scan_ok thr (us @ [w]) best tied"
        using keep [of tied] 4 margin_pos w b Some by simp
      from IH [OF this] 4 w b Some margin_pos show ?thesis by simp
    qed
  qed
qed

lemma find_block_bounds:
  assumes "find_block sim hay needle thr = Some (Ok (i, j))"
  shows "i \<le> j \<and> j \<le> length hay"
proof (cases "find_sub needle hay")
  case (Some k)
  with assms have "i = k" "j = k + length needle" by (auto simp: find_block_def split: if_splits)
  with find_sub_Some [OF Some] show ?thesis by (metis append_take_drop_id le_add1 length_append length_take min.absorb2 nat_add_left_cancel_le trans_le_add1)
next
  case None
  then obtain sc tied where f: "fuzzy_scan thr (windows sim hay needle) None [] = (Some ((i, j), sc), tied)"
    using assms by (auto simp: find_block_def split: if_splits option.splits prod.splits)
  have "scan_ok thr [] None []" by (simp add: scan_ok_def)
  from fuzzy_scan_ok [OF this, of "windows sim hay needle"] f
  have "((i, j), sc) \<in> set (windows sim hay needle)" by (auto simp: scan_ok_def)
  then show ?thesis by (rule windows_bounds)
qed

lemma find_block_best:
  assumes "find_block sim hay needle thr = Some (Ok rg)" "find_sub needle hay = None"
  shows "\<exists>us sc vs. windows sim hay needle = us @ (rg, sc) # vs \<and> thr \<le> sc \<and>
    (\<forall>w \<in> set (us @ vs). snd w < sc)"
proof -
  from assms obtain sc where f: "fuzzy_scan thr (windows sim hay needle) None [] = (Some (rg, sc), [])"
    by (auto simp: find_block_def split: if_splits option.splits prod.splits)
  have "scan_ok thr [] None []" by (simp add: scan_ok_def)
  from fuzzy_scan_ok [OF this, of "windows sim hay needle"] f
  obtain us vs where "windows sim hay needle = us @ (rg, sc) # vs" "thr \<le> sc"
    "\<forall>w \<in> set us. snd w < sc" "\<forall>w \<in> set vs. snd w < sc"
    by (auto simp: scan_ok_def)
  then show ?thesis by (intro exI [of _ us] exI [of _ sc] exI [of _ vs]) auto
qed

subsection \<open>Properties\<close>

text \<open>What a model writes in the search/replace format is what is parsed: for a search text and a
  replacement without markers, any text before that ends with a newline and has no marker, and any
  text after, the parser returns exactly that search and that replacement, less the blank lines at
  their ends.\<close>

theorem search_replace_roundtrip:
  assumes "lead_in pre" "no_marker s" "no_marker r"
  shows "search_replace_parse (pre @ render_edit s r @ post) =
    Ok (SearchReplace (trim_newlines s) (trim_newlines r) None)"
proof -
  have "pre @ render_edit s r @ post =
      pre @ SEARCH_MARKER @ nl # s @ nl # REPLACE_MARKER @ nl # r @ nl # END_MARKER @ post"
    by (simp add: render_edit_def)
  then show ?thesis
    using sr_step_search [OF assms(1,2), of "nl # r @ nl # END_MARKER @ post"]
      sr_step_replace [OF assms(2,3), of post "trim_newlines s"]
    by (simp add: search_replace_parse_def)
qed

theorem search_replace_roundtrip_witness:
  "search_replace_parse (render_edit ''old'' ''new'') = Ok (SearchReplace ''old'' ''new'' None)"
proof -
  have "no_marker ''old''" "no_marker ''new''" unfolding no_marker_def by code_simp+
  moreover have "trim_newlines ''old'' = ''old''" "trim_newlines ''new'' = ''new''" by code_simp+
  ultimately show ?thesis
    using search_replace_roundtrip [of "[]" "''old''" "''new''" "[]"] by (simp add: lead_in_def)
qed

subsection \<open>The edit of a window, line by line\<close>

lemma no_line_break: "nl \<notin> set l \<Longrightarrow> i < length l \<Longrightarrow> l ! i \<noteq> nl"
  by (metis nth_mem)

lemma line_starts_piece: "nl \<notin> set l \<Longrightarrow> line_starts l = [0]"
  by (auto simp: line_starts_def filter_empty_conv no_line_break)

lemma upt_split_at: "[0..<Suc (n + m)] = [0..<n] @ n # map (\<lambda>i. Suc (n + i)) [0..<m]"
  by (rule nth_equalityI) (auto simp: nth_append nth_Cons' simp del: upt_Suc)

lemma line_starts_Cons:
  assumes "nl \<notin> set l"
  shows "line_starts (l @ nl # t) = 0 # map ((+) (Suc (length l))) (line_starts t)"
proof -
  have "filter (\<lambda>i. (l @ nl # t) ! i = nl) [0..<length l] = []"
    using assms by (auto simp: filter_empty_conv nth_append no_line_break)
  moreover have "filter (\<lambda>i. (l @ nl # t) ! i = nl) (map (\<lambda>i. Suc (length l + i)) [0..<length t]) =
      map (\<lambda>i. Suc (length l + i)) (filter (\<lambda>i. t ! i = nl) [0..<length t])"
    by (simp add: filter_map comp_def nth_append)
  ultimately show ?thesis
    by (simp add: line_starts_def upt_split_at comp_def del: upt_Suc)
qed

text \<open>The line starts cut the file at its line breaks.\<close>

definition whole_lines :: "string list \<Rightarrow> string" where
  "whole_lines ps = concat (map (\<lambda>p. p @ [nl]) ps)"

lemma join_whole_lines: "ys \<noteq> [] \<Longrightarrow> join [nl] (xs @ ys) = whole_lines xs @ join [nl] ys"
  by (induction xs) (auto simp: whole_lines_def join_Cons)

lemma line_starts_cut:
  assumes "ps \<noteq> []" "\<forall>p \<in> set ps. nl \<notin> set p"
  shows "length (line_starts (join [nl] ps)) = length ps \<and>
    (\<forall>a < length ps. line_starts (join [nl] ps) ! a = length (whole_lines (take a ps)))"
  using assms
proof (induction ps)
  case (Cons p ps)
  show ?case
  proof (cases "ps = []")
    case True
    with Cons.prems show ?thesis by (simp add: line_starts_piece whole_lines_def)
  next
    case False
    with Cons have IH: "length (line_starts (join [nl] ps)) = length ps"
      "\<forall>a < length ps. line_starts (join [nl] ps) ! a = length (whole_lines (take a ps))" by auto
    have "line_starts (join [nl] (p # ps)) = 0 # map ((+) (Suc (length p))) (line_starts (join [nl] ps))"
      using Cons.prems(2) False by (simp add: join_Cons line_starts_Cons)
    with IH show ?thesis
      by (auto simp: whole_lines_def nth_Cons' take_Cons' split: if_splits)
  qed
qed simp

text \<open>Replacing the byte range of some lines replaces these lines and keeps the line breaks around them.\<close>

lemma line_range_edit:
  assumes "line_range_to_byte_range src a b = (i, j)" "a < b" "b \<le> length (str_lines src)"
  shows "take i src @ out @ drop j src = join [nl] (take a (split_byte nl src) @ out # drop b (split_byte nl src))"
proof -
  let ?ps = "split_byte nl src" let ?w = "\<lambda>n. whole_lines (take n ?ps)"
  have src: "join [nl] ?ps = src" by (rule join_split_byte)
  have starts: "length (line_starts src) = length ?ps" "\<And>n. n < length ?ps \<Longrightarrow> line_starts src ! n = length (?w n)"
    using line_starts_cut [of ?ps] split_byte_no_sep by (auto simp: src)
  have b: "b \<le> length ?ps" "b = length ?ps \<Longrightarrow> last ?ps \<noteq> []"
    using assms(3) by (auto simp: str_lines_def Let_def split: if_splits)
      (cases "length ?ps", simp_all)
  have cut: "src = ?w n @ join [nl] (drop n ?ps)" if "n < length ?ps" for n
    using join_whole_lines [of "drop n ?ps" "take n ?ps"] that by (simp add: src)
  have i: "i = length (?w a)"
    using assms(1,2) b(1) starts by (simp add: line_range_to_byte_range_def Let_def)
  then have pre: "take i src = ?w a" using cut [of a] assms(2) b(1) by simp (metis append_eq_conv_conj)
  show ?thesis
  proof (cases "b < length ?ps")
    case True
    have w: "?w b = ?w a @ whole_lines (drop a (take b ?ps))" "whole_lines (drop a (take b ?ps)) \<noteq> []"
      "last (whole_lines (drop a (take b ?ps))) = nl"
    proof -
      have "take b ?ps = take a ?ps @ drop a (take b ?ps)" using assms(2) by (metis append_take_drop_id min.absorb1 less_imp_le take_take)
      then show "?w b = ?w a @ whole_lines (drop a (take b ?ps))" by (metis concat_append map_append whole_lines_def)
      have "drop a (take b ?ps) \<noteq> []" using assms(2) True by simp
      then obtain qs q where "drop a (take b ?ps) = qs @ [q]" by (metis rev_exhaust)
      then show "whole_lines (drop a (take b ?ps)) \<noteq> []" "last (whole_lines (drop a (take b ?ps))) = nl"
        by (simp_all add: whole_lines_def)
    qed
    then obtain m where m: "?w b = ?w a @ m @ [nl]" by (metis append_butlast_last_id)
    have "src = (?w a @ m) @ nl # join [nl] (drop b ?ps)" using cut [OF True] m by simp
    moreover from this have "src ! (length (?w a) + length m) = nl" "length (?w a) + length m < length src"
      by (metis length_append nth_append_length, metis length_append length_Cons less_add_Suc1 add_Suc_right)
    ultimately have "j = length (?w a @ m)"
      using assms(1,2) True starts i m by (simp add: line_range_to_byte_range_def Let_def split: if_splits)
    then have "drop j src = nl # join [nl] (drop b ?ps)"
      using \<open>src = (?w a @ m) @ nl # join [nl] (drop b ?ps)\<close> by (metis append_eq_conv_conj)
    with pre True show ?thesis by (simp add: join_whole_lines join_Cons)
  next
    case False
    with b have last: "b = length ?ps" "last ?ps \<noteq> []" by auto
    then have "last (join [nl] ?ps) = last (last ?ps)" "join [nl] ?ps \<noteq> []"
      using join_whole_lines [of "[last ?ps]" "butlast ?ps"] by simp_all
    moreover have "last (last ?ps) \<noteq> nl"
      using last(2) split_byte_no_sep [of "last ?ps" nl src] by (metis last_in_set split_byte_nonempty)
    ultimately have "src \<noteq> []" "last src \<noteq> nl" by (simp_all add: src)
    then have "src ! (length src - 1) \<noteq> nl" by (simp add: last_conv_nth)
    with assms(1,2) last(1) starts have "j = length src"
      by (auto simp: line_range_to_byte_range_def Let_def split: if_splits)
    with pre last(1) show ?thesis by (simp add: join_whole_lines)
  qed
qed

lemma str_lines_Nil_iff: "str_lines s = [] \<longleftrightarrow> s = []"
proof -
  have "s = join [nl] (split_byte nl s)" by (simp add: join_split_byte)
  then show ?thesis
    by (cases "split_byte nl s" rule: rev_cases) (auto simp: str_lines_def Let_def split: if_splits)
qed

text \<open>The similarity of the search text to the window of lines at an index.\<close>

definition window_score :: "(string \<Rightarrow> string \<Rightarrow> rat) \<Rightarrow> string \<Rightarrow> string \<Rightarrow> nat \<Rightarrow> rat" where
  "window_score sim content search i =
    sim (join [nl] (str_lines search)) (join [nl] (take (length (str_lines search)) (drop i (str_lines content))))"

lemma find_block_window:
  assumes "find_block sim content search thr = Some (Ok rg)" "find_sub search content = None"
  obtains s where "s + length (str_lines search) \<le> length (str_lines content)" "search \<noteq> []"
    "rg = line_range_to_byte_range content s (s + length (str_lines search))"
    "thr \<le> window_score sim content search s"
    "\<And>i. i + length (str_lines search) \<le> length (str_lines content) \<Longrightarrow> i \<noteq> s \<Longrightarrow>
      window_score sim content search i < window_score sim content search s"
proof -
  let ?k = "length (str_lines search)" let ?n = "length (str_lines content)"
  from assms have ne: "search \<noteq> []" "?k \<le> ?n" by (auto simp: find_block_def split: if_splits)
  from find_block_best [OF assms] obtain us sc vs where w: "windows sim content search = us @ (rg, sc) # vs"
    "thr \<le> sc" "\<forall>w \<in> set (us @ vs). snd w < sc" by blast
  have len: "length (windows sim content search) = ?n - ?k + 1"
    and nth: "\<And>i. i < ?n - ?k + 1 \<Longrightarrow> windows sim content search ! i =
      (line_range_to_byte_range content i (i + ?k), window_score sim content search i)"
    by (simp_all add: windows_def Let_def window_score_def del: upt_Suc)
  let ?s = "length us"
  have s: "?s < ?n - ?k + 1" using len w(1) by simp
  from nth [OF s] w(1) have at: "rg = line_range_to_byte_range content ?s (?s + ?k)"
    "sc = window_score sim content search ?s" by simp_all
  have "window_score sim content search i < sc" if "i + ?k \<le> ?n" "i \<noteq> ?s" for i
  proof -
    have i: "i < ?n - ?k + 1" using that ne(2) by simp
    have "windows sim content search ! i \<in> set (us @ vs)"
    proof (cases "i < ?s")
      case False
      then have "windows sim content search ! i = vs ! (i - Suc ?s)" "i - Suc ?s < length vs"
        using that(2) i len w(1) by (simp_all add: nth_append)
      then show ?thesis by simp
    qed (simp add: w(1) nth_append)
    with w(3) nth [OF i] show ?thesis by fastforce
  qed
  with s ne at w(2) show thesis by (intro that [of ?s]) auto
qed

text \<open>C11: an edit that is applied changes one place only. If the search text occurs in the file, its first
  occurrence is replaced. Otherwise as many whole lines as the search text has are replaced, and the line breaks around
  them are kept; their similarity to the search text reaches the threshold and is strictly greater than that of every
  other such run of lines.\<close>

theorem apply_single_spec:
  assumes "apply_single sim content search replace = Ok out"
  shows "if contains_sub search content
    then \<exists>l r. content = l @ search @ r \<and> out = l @ replace @ r \<and>
      (\<forall>l' r'. content = l' @ search @ r' \<longrightarrow> length l \<le> length l')
    else let ps = split_byte nl content; lines = str_lines content; wanted = str_lines search; k = length wanted;
        score = (\<lambda>i. sim (join [nl] wanted) (join [nl] (take k (drop i lines))))
      in content = join [nl] ps \<and>
        (\<exists>s. s + k \<le> length lines \<and> out = join [nl] (take s ps @ replace # drop (s + k) ps) \<and>
          DEFAULT_THRESHOLD \<le> score s \<and> (\<forall>i. i + k \<le> length lines \<and> i \<noteq> s \<longrightarrow> score i < score s))"
proof -
  from assms obtain i j where f: "find_block sim content search DEFAULT_THRESHOLD = Some (Ok (i, j))"
    and out: "out = take i content @ replace @ drop j content"
    by (auto simp: apply_single_def split: option.splits result.splits)
  show ?thesis
  proof (cases "find_sub search content")
    case (Some k)
    with f have k: "i = k" "j = k + length search" by (auto simp: find_block_def split: if_splits)
    from find_sub_Some [OF Some] obtain r where r: "content = take k content @ search @ r" "k \<le> length content" by blast
    have "take k content @ drop k content = take k content @ search @ r" using r(1) by simp
    then have "drop k content = search @ r" by (simp only: same_append_eq)
    then have "drop (length search) (drop k content) = r" by simp
    then have "drop j content = r" unfolding k by (simp add: add.commute)
    moreover have "k \<le> length l'" if "content = l' @ search @ r'" for l' r'
    proof (rule ccontr)
      assume "\<not> k \<le> length l'"
      with find_sub_first [OF Some, of "length l'"] that show False by (auto simp: starts_with_iff)
    qed
    ultimately have "content = take k content @ search @ r \<and> out = take k content @ replace @ r \<and>
        (\<forall>l' r'. content = l' @ search @ r' \<longrightarrow> length (take k content) \<le> length l')"
      using r out k by auto
    then have "\<exists>l r. content = l @ search @ r \<and> out = l @ replace @ r \<and>
        (\<forall>l' r'. content = l' @ search @ r' \<longrightarrow> length l \<le> length l')" by blast
    moreover have "contains_sub search content" using Some by (simp add: contains_sub_def)
    ultimately show ?thesis by (simp only: if_True)
  next
    case None
    then have "\<not> contains_sub search content" by (simp add: contains_sub_def)
    moreover obtain s where s: "s + length (str_lines search) \<le> length (str_lines content)" "search \<noteq> []"
      "(i, j) = line_range_to_byte_range content s (s + length (str_lines search))"
      "DEFAULT_THRESHOLD \<le> window_score sim content search s"
      "\<And>i. i + length (str_lines search) \<le> length (str_lines content) \<Longrightarrow> i \<noteq> s \<Longrightarrow>
        window_score sim content search i < window_score sim content search s"
      using find_block_window [OF f None] by blast
    moreover have "out = join [nl] (take s (split_byte nl content) @ replace #
        drop (s + length (str_lines search)) (split_byte nl content))"
      unfolding out by (rule line_range_edit [OF s(3) [symmetric] _ s(1)]) (use s(2) in \<open>simp add: str_lines_Nil_iff\<close>)
    ultimately show ?thesis
      by (auto simp: Let_def join_split_byte window_score_def)
  qed
qed

text \<open>An exact edit; and one of the second of three lines, which is not in the file.\<close>

definition demo_sim :: "string \<Rightarrow> string \<Rightarrow> rat" where
  "demo_sim n w = (if n = ''cx'' \<and> w = ''cd'' then 9 / 10 else 0)"

theorem apply_single_spec_witness:
  "(\<exists>l r. ''abcbc'' = l @ ''bc'' @ r \<and> ''aXbc'' = l @ ''X'' @ r \<and>
     (\<forall>l' r'. ''abcbc'' = l' @ ''bc'' @ r' \<longrightarrow> length l \<le> length l')) \<and>
   (\<exists>s. ''ab'' @ nl # ''X'' @ nl # ''ef'' = join [nl] (take s [''ab'', ''cd'', ''ef''] @ ''X'' # drop (s + 1) [''ab'', ''cd'', ''ef'']) \<and>
     DEFAULT_THRESHOLD \<le> demo_sim ''cx'' (join [nl] (take 1 (drop s [''ab'', ''cd'', ''ef'']))))"
proof
  have e: "apply_single (\<lambda>_ _. 0) ''abcbc'' ''bc'' ''X'' = Ok ''aXbc''" "contains_sub ''bc'' ''abcbc''"
    by code_simp+
  from apply_single_spec [OF e(1)] e(2)
  show "\<exists>l r. ''abcbc'' = l @ ''bc'' @ r \<and> ''aXbc'' = l @ ''X'' @ r \<and>
     (\<forall>l' r'. ''abcbc'' = l' @ ''bc'' @ r' \<longrightarrow> length l \<le> length l')" by (simp only: if_True)
next
  let ?c = "''ab'' @ nl # ''cd'' @ nl # ''ef''"
  have e: "apply_single demo_sim ?c ''cx'' ''X'' = Ok (''ab'' @ nl # ''X'' @ nl # ''ef'')"
    "contains_sub ''cx'' ?c = False" by code_simp+
  have l: "split_byte nl ?c = [''ab'', ''cd'', ''ef'']" "str_lines ?c = [''ab'', ''cd'', ''ef'']" "str_lines ''cx'' = [''cx'']"
    "join [nl] [''cx''] = ''cx''" by code_simp+
  show "\<exists>s. ''ab'' @ nl # ''X'' @ nl # ''ef'' = join [nl] (take s [''ab'', ''cd'', ''ef''] @ ''X'' # drop (s + 1) [''ab'', ''cd'', ''ef'']) \<and>
     DEFAULT_THRESHOLD \<le> demo_sim ''cx'' (join [nl] (take 1 (drop s [''ab'', ''cd'', ''ef''])))"
    using apply_single_spec [OF e(1), unfolded e(2) if_False Let_def l] by auto
qed

subsection \<open>Where the code departs from its comments\<close>

text \<open>Two replacement blocks and no search block are taken as a search and a replacement.\<close>

lemma two_replace_blocks_parse:
  "search_replace_parse (''<<<REPLACE'' @ nl # ''a'' @ nl # ''<<<END'' @ nl # ''<<<REPLACE'' @ nl # ''b'' @ nl # ''<<<END'') =
    Ok (SearchReplace ''a'' ''b'' None)"
  by code_simp

text \<open>A window within the margin of the returned one is forgotten when the best score moves past an
  older best, so an ambiguous match is applied.\<close>

definition drift_sim :: "string \<Rightarrow> string \<Rightarrow> rat" where
  "drift_sim n w = (if w = ''a'' then 90 / 100 else if w = ''b'' then 915 / 1000 else 93 / 100)"

lemma ambiguity_missed:
  "find_block drift_sim (''a'' @ nl # ''b'' @ nl # ''c'') ''x'' DEFAULT_THRESHOLD = Some (Ok (4, 5)) \<and>
   (\<exists>w \<in> set (windows drift_sim (''a'' @ nl # ''b'' @ nl # ''c'') ''x'').
      fst w \<noteq> (4, 5) \<and> \<bar>snd w - 93 / 100\<bar> \<le> AMBIGUITY_MARGIN)"
  by code_simp

end
