(* ===== verification/Catalog.thy ===== *)
theory Catalog
  imports RustStr
begin

text \<open>
  The static provider catalog (\<^verbatim>\<open>credentials/src/catalog.rs\<close>) and the validators of the
  credential model (\<^verbatim>\<open>credentials/src/model.rs\<close>). The catalog is written out entry by entry, in
  the order of the source, in five pieces.
\<close>

subsection \<open>Entries (catalog.rs)\<close>

datatype auth_method = ApiKey | OAuth | BothAuth | LocalAuth

fun supports_api_key :: "auth_method \<Rightarrow> bool" where
  "supports_api_key ApiKey = True"
| "supports_api_key OAuth = False"
| "supports_api_key BothAuth = True"
| "supports_api_key LocalAuth = True"

fun auth_str :: "auth_method \<Rightarrow> string" where
  "auth_str ApiKey = ''api_key''"
| "auth_str OAuth = ''oauth''"
| "auth_str BothAuth = ''both''"
| "auth_str LocalAuth = ''local''"

record catalog_entry =
  ce_id :: string
  ce_display_name :: string
  ce_endpoint :: "string option"
  ce_auth :: auth_method

definition entry :: "string \<Rightarrow> string \<Rightarrow> string option \<Rightarrow> auth_method \<Rightarrow> catalog_entry" where
  "entry i n e a = \<lparr> ce_id = i, ce_display_name = n, ce_endpoint = e, ce_auth = a \<rparr>"

definition catalog_1 :: "catalog_entry list" where
  "catalog_1 =
    [entry ''opencode'' ''OpenCode Zen'' (Some ''https://opencode.ai/zen/v1/chat/completions'') BothAuth,
     entry ''openai'' ''OpenAI'' (Some ''https://api.openai.com/v1/chat/completions'') BothAuth,
     entry ''anthropic'' ''Anthropic'' (Some ''https://api.anthropic.com/v1/messages'') BothAuth,
     entry ''google'' ''Google Gemini'' (Some ''https://generativelanguage.googleapis.com/v1beta/chat/completions'') BothAuth,
     entry ''github-copilot'' ''GitHub Copilot'' (Some ''https://api.githubcopilot.com/chat/completions'') BothAuth,
     entry ''github-models'' ''GitHub Models'' (Some ''https://models.github.ai/inference/chat/completions'') BothAuth,
     entry ''azure'' ''Azure OpenAI'' None BothAuth,
     entry ''amazon-bedrock'' ''Amazon Bedrock'' None BothAuth,
     entry ''vercel'' ''Vercel AI Gateway'' (Some ''https://ai-gateway.vercel.sh/v1/chat/completions'') BothAuth,
     entry ''openrouter'' ''OpenRouter'' (Some ''https://openrouter.ai/api/v1/chat/completions'') ApiKey,
     entry ''mistral'' ''Mistral'' (Some ''https://api.mistral.ai/v1/chat/completions'') ApiKey,
     entry ''groq'' ''Groq'' (Some ''https://api.groq.com/openai/v1/chat/completions'') ApiKey,
     entry ''deepseek'' ''DeepSeek'' (Some ''https://api.deepseek.com/chat/completions'') ApiKey,
     entry ''xai'' ''xAI (Grok)'' (Some ''https://api.x.ai/v1/chat/completions'') ApiKey,
     entry ''cohere'' ''Cohere'' None ApiKey,
     entry ''togetherai'' ''Together AI'' (Some ''https://api.together.xyz/v1/chat/completions'') ApiKey,
     entry ''fireworks-ai'' ''Fireworks AI'' (Some ''https://api.fireworks.ai/inference/v1/chat/completions'') ApiKey,
     entry ''perplexity'' ''Perplexity'' (Some ''https://api.perplexity.ai/chat/completions'') ApiKey,
     entry ''huggingface'' ''Hugging Face'' (Some ''https://router.huggingface.co/v1/chat/completions'') ApiKey,
     entry ''nvidia'' ''Nvidia NIM'' (Some ''https://integrate.api.nvidia.com/v1/chat/completions'') ApiKey,
     entry ''cerebras'' ''Cerebras'' (Some ''https://api.cerebras.ai/v1/chat/completions'') ApiKey,
     entry ''perplexity-agent'' ''Perplexity (Sonar API)'' (Some ''https://api.perplexity.ai/v1/chat/completions'') ApiKey]"

definition catalog_2 :: "catalog_entry list" where
  "catalog_2 =
    [entry ''302ai'' ''302.AI'' (Some ''https://api.302.ai/v1/chat/completions'') ApiKey,
     entry ''ai-router'' ''AI-ROUTER'' (Some ''https://api.ai-router.dev/v1/chat/completions'') ApiKey,
     entry ''aihubmix'' ''AIHubMix'' (Some ''https://api.aihubmix.com/v1/chat/completions'') ApiKey,
     entry ''abacus'' ''Abacus'' (Some ''https://routellm.abacus.ai/v1/chat/completions'') ApiKey,
     entry ''requesty'' ''Requesty'' (Some ''https://router.requesty.ai/v1/chat/completions'') ApiKey,
     entry ''helicone'' ''Helicone'' (Some ''https://ai-gateway.helicone.ai/v1/chat/completions'') ApiKey,
     entry ''novita-ai'' ''NovitaAI'' (Some ''https://api.novita.ai/openai/chat/completions'') ApiKey,
     entry ''anyapi'' ''AnyAPI'' (Some ''https://api.anyapi.ai/v1/chat/completions'') ApiKey,
     entry ''alibaba'' ''Alibaba (intl)'' (Some ''https://dashscope-intl.aliyuncs.com/compatible-mode/v1/chat/completions'') ApiKey,
     entry ''alibaba-cn'' ''Alibaba (China)'' (Some ''https://dashscope.aliyuncs.com/compatible-mode/v1/chat/completions'') ApiKey,
     entry ''alibaba-coding-plan'' ''Alibaba Coding Plan (intl)'' (Some ''https://dashscope-intl.aliyuncs.com/compatible-mode/v1/chat/completions'') ApiKey,
     entry ''alibaba-coding-plan-cn'' ''Alibaba Coding Plan (China)'' (Some ''https://dashscope.aliyuncs.com/compatible-mode/v1/chat/completions'') ApiKey,
     entry ''alibaba-token-plan'' ''Alibaba Token Plan (intl)'' (Some ''https://dashscope-intl.aliyuncs.com/compatible-mode/v1/chat/completions'') ApiKey,
     entry ''alibaba-token-plan-cn'' ''Alibaba Token Plan (China)'' (Some ''https://dashscope.aliyuncs.com/compatible-mode/v1/chat/completions'') ApiKey,
     entry ''moonshotai'' ''Moonshot AI'' (Some ''https://api.moonshot.ai/v1/chat/completions'') ApiKey,
     entry ''moonshotai-cn'' ''Moonshot AI (China)'' (Some ''https://api.moonshot.cn/v1/chat/completions'') ApiKey,
     entry ''zhipuai'' ''Zhipu AI'' (Some ''https://open.bigmodel.cn/api/paas/v4/chat/completions'') ApiKey,
     entry ''minimax'' ''MiniMax'' (Some ''https://api.minimax.io/v1/chat/completions'') ApiKey,
     entry ''stepfun'' ''StepFun (China)'' (Some ''https://api.stepfun.com/v1/chat/completions'') ApiKey,
     entry ''stepfun-ai'' ''StepFun (Global)'' (Some ''https://api.stepfun.ai/v1/chat/completions'') ApiKey,
     entry ''siliconflow'' ''SiliconFlow'' (Some ''https://api.siliconflow.com/v1/chat/completions'') ApiKey,
     entry ''siliconflow-cn'' ''SiliconFlow (China)'' (Some ''https://api.siliconflow.cn/v1/chat/completions'') ApiKey]"

definition catalog_3 :: "catalog_entry list" where
  "catalog_3 =
    [entry ''modelscope'' ''ModelScope'' (Some ''https://api-inference.modelscope.cn/v1/chat/completions'') ApiKey,
     entry ''bailing'' ''Bailing'' (Some ''https://api.tbox.cn/api/llm/v1/chat/completions'') ApiKey,
     entry ''kimi-for-coding'' ''Kimi For Coding'' (Some ''https://api.kimi.com/coding/v1/chat/completions'') ApiKey,
     entry ''ollama'' ''Ollama (local)'' (Some ''http://localhost:11434/api/chat'') LocalAuth,
     entry ''lmstudio'' ''LMStudio (local)'' (Some ''http://localhost:1234/v1/chat/completions'') LocalAuth,
     entry ''atomic-chat'' ''Atomic Chat (local)'' (Some ''http://127.0.0.1:1337/v1/chat/completions'') LocalAuth,
     entry ''ambient'' ''Ambient'' (Some ''https://api.ambient.xyz/v1/chat/completions'') ApiKey,
     entry ''auriko'' ''Auriko'' (Some ''https://api.auriko.ai/v1/chat/completions'') ApiKey,
     entry ''azure-cognitive-services'' ''Azure Cognitive Services'' None ApiKey,
     entry ''tinfoil'' ''Tinfoil'' (Some ''https://inference.tinfoil.sh/v1/chat/completions'') ApiKey,
     entry ''databricks'' ''Databricks AI Gateway'' None ApiKey,
     entry ''cloudflare-ai-gateway'' ''Cloudflare AI Gateway'' None ApiKey,
     entry ''cloudflare-workers-ai'' ''Cloudflare Workers AI'' None ApiKey,
     entry ''digitalocean'' ''DigitalOcean Functions AI'' (Some ''https://inference.do-ai.run/v1/chat/completions'') ApiKey,
     entry ''scaleway'' ''Scaleway AI Endpoints'' (Some ''https://api.scaleway.ai/v1/chat/completions'') ApiKey,
     entry ''vultr'' ''Vultr Managed AI'' (Some ''https://api.vultrinference.com/v1/chat/completions'') ApiKey,
     entry ''ovhcloud'' ''OVHcloud AI Endpoints'' (Some ''https://oai.endpoints.kepler.ai.cloud.ovh.net/v1/chat/completions'') ApiKey,
     entry ''gitlab'' ''GitLab Duo'' None ApiKey,
     entry ''poe'' ''Poe'' (Some ''https://api.poe.com/v1/chat/completions'') ApiKey,
     entry ''snowflake-cortex'' ''Snowflake Cortex'' None ApiKey,
     entry ''meta'' ''Meta AI'' (Some ''https://api.meta.ai/v1/chat/completions'') ApiKey,
     entry ''google-vertex'' ''Google Vertex AI'' None BothAuth]"

definition catalog_4 :: "catalog_entry list" where
  "catalog_4 =
    [entry ''google-vertex-anthropic'' ''Vertex AI (Anthropic models)'' None BothAuth,
     entry ''opencode-go'' ''OpenCode Go'' (Some ''https://opencode.ai/zen/go/v1/chat/completions'') BothAuth,
     entry ''zai'' ''Z.AI'' (Some ''https://api.z.ai/api/paas/v4/chat/completions'') ApiKey,
     entry ''zai-coding-plan'' ''Z.AI Coding Plan'' (Some ''https://api.z.ai/api/coding/paas/v4/chat/completions'') ApiKey,
     entry ''chutes'' ''Chutes AI'' (Some ''https://llm.chutes.ai/v1/chat/completions'') ApiKey,
     entry ''deepinfra'' ''Deep Infra'' (Some ''https://api.deepinfra.com/v1/openai/chat/completions'') ApiKey,
     entry ''nebius'' ''Nebius Token Factory'' (Some ''https://api.tokenfactory.nebius.com/v1/chat/completions'') ApiKey,
     entry ''baseten'' ''Baseten'' (Some ''https://inference.baseten.co/v1/chat/completions'') ApiKey,
     entry ''sakana'' ''Sakana AI'' (Some ''https://api.sakana.ai/v1/chat/completions'') ApiKey,
     entry ''upstage'' ''Upstage Solar'' (Some ''https://api.upstage.ai/v1/solar/chat/completions'') ApiKey,
     entry ''venice'' ''Venice AI'' None ApiKey,
     entry ''longcat'' ''LongCat'' (Some ''https://api.longcat.chat/openai/chat/completions'') ApiKey,
     entry ''morph'' ''Morph LLM'' (Some ''https://api.morphllm.com/v1/chat/completions'') ApiKey,
     entry ''zhipuai-coding-plan'' ''Zhipu AI Coding Plan'' (Some ''https://open.bigmodel.cn/api/coding/paas/v4/chat/completions'') ApiKey,
     entry ''minimax-cn'' ''MiniMax (minimaxi.com)'' (Some ''https://api.minimaxi.com/anthropic/v1/chat/completions'') ApiKey,
     entry ''minimax-cn-coding-plan'' ''MiniMax Coding Plan (China)'' (Some ''https://api.minimaxi.com/anthropic/v1/chat/completions'') ApiKey,
     entry ''minimax-coding-plan'' ''MiniMax Coding Plan (Global)'' (Some ''https://api.minimax.io/anthropic/v1/chat/completions'') ApiKey,
     entry ''tencent-coding-plan'' ''Tencent Coding Plan'' (Some ''https://api.lkeap.cloud.tencent.com/coding/v3/chat/completions'') ApiKey,
     entry ''tencent-token-plan'' ''Tencent Token Plan'' (Some ''https://api.lkeap.cloud.tencent.com/plan/v3/chat/completions'') ApiKey,
     entry ''tencent-tokenhub'' ''Tencent TokenHub'' (Some ''https://tokenhub.tencentmaas.com/v1/chat/completions'') ApiKey,
     entry ''stepfun-step-plan'' ''StepFun Step Plan (China)'' (Some ''https://api.stepfun.com/step_plan/v1/chat/completions'') ApiKey,
     entry ''stepfun-ai-step-plan'' ''StepFun Step Plan (Global)'' (Some ''https://api.stepfun.ai/step_plan/v1/chat/completions'') ApiKey]"

definition catalog_5 :: "catalog_entry list" where
  "catalog_5 =
    [entry ''xiaomi'' ''Xiaomi MiMo'' (Some ''https://api.xiaomimimo.com/v1/chat/completions'') ApiKey,
     entry ''xiaomi-token-plan-ams'' ''Xiaomi Token Plan (Europe)'' (Some ''https://token-plan-ams.xiaomimimo.com/v1/chat/completions'') ApiKey,
     entry ''xiaomi-token-plan-cn'' ''Xiaomi Token Plan (China)'' (Some ''https://token-plan-cn.xiaomimimo.com/v1/chat/completions'') ApiKey,
     entry ''xiaomi-token-plan-sgp'' ''Xiaomi Token Plan (Singapore)'' (Some ''https://token-plan-sgp.xiaomimimo.com/v1/chat/completions'') ApiKey,
     entry ''kuae-cloud-coding-plan'' ''KUAE Cloud Coding Plan'' (Some ''https://coding-plan-endpoint.kuaecloud.net/v1/chat/completions'') ApiKey]"

definition PROVIDER_CATALOG :: "catalog_entry list" where
  "PROVIDER_CATALOG = catalog_1 @ catalog_2 @ catalog_3 @ catalog_4 @ catalog_5"

definition lookup :: "string \<Rightarrow> catalog_entry option" where
  "lookup i = List.find (\<lambda>e. ce_id e = i) PROVIDER_CATALOG"

definition default_endpoint :: "string \<Rightarrow> string option" where
  "default_endpoint i = Option.bind (lookup i) ce_endpoint"

definition display_name :: "string \<Rightarrow> string" where
  "display_name i = (case lookup i of Some e \<Rightarrow> ce_display_name e | None \<Rightarrow> i)"

definition is_known :: "string \<Rightarrow> bool" where
  "is_known i \<longleftrightarrow> lookup i \<noteq> None"

definition is_recommended :: "string \<Rightarrow> bool" where
  "is_recommended i \<longleftrightarrow> i \<in> set [''opencode'', ''openai'', ''anthropic'', ''openrouter'']"

subsection \<open>Validators (model.rs)\<close>

definition is_lower_char :: "char \<Rightarrow> bool" where
  "is_lower_char c \<longleftrightarrow> 0x61 \<le> byte c \<and> byte c \<le> 0x7A"

definition is_upper_char :: "char \<Rightarrow> bool" where
  "is_upper_char c \<longleftrightarrow> 0x41 \<le> byte c \<and> byte c \<le> 0x5A"

definition quoted :: "string \<Rightarrow> string" where
  "quoted s = [CHR 0x27] @ s @ [CHR 0x27]"

definition validate_provider :: "string \<Rightarrow> (unit, string) result" where
  "validate_provider p =
    (if p = [] then Err ''provider must not be empty''
     else if 64 < length p then Err ''provider must be <= 64 chars''
     else if \<forall>c \<in> set p. is_lower_char c \<or> is_digit_char c \<or> c \<in> set ''-_:'' then Ok ()
     else Err (''provider must be lowercase ascii with optional '' @
       quoted ''-'' @ '' '' @ quoted ''_'' @ '' '' @ quoted '':''))"

definition validate_label :: "string \<Rightarrow> (unit, string) result" where
  "validate_label l =
    (if l = [] then Err ''label must not be empty''
     else if 64 < length l then Err ''label must be <= 64 chars''
     else if \<forall>c \<in> set l. is_lower_char c \<or> is_upper_char c \<or> is_digit_char c \<or> c \<in> set ''-_.'' then Ok ()
     else Err (''label must be ascii alphanumeric, '' @
       quoted ''-'' @ '', '' @ quoted ''_'' @ '', or '' @ quoted ''.''))"

definition validate_endpoint :: "string \<Rightarrow> (unit, string) result" where
  "validate_endpoint e =
    (if e = [] then Err ''endpoint must not be empty''
     else if starts_with ''https://'' e then Ok ()
     else if starts_with ''http://localhost'' e \<or> starts_with ''http://127.0.0.1'' e then Ok ()
     else Err ''endpoint must be https://, or http://localhost for local providers'')"

subsection \<open>The catalog is well formed\<close>

definition entry_ok :: "catalog_entry \<Rightarrow> bool" where
  "entry_ok e \<longleftrightarrow> validate_provider (ce_id e) = Ok () \<and> ce_display_name e \<noteq> [] \<and>
     (case ce_endpoint e of None \<Rightarrow> True | Some u \<Rightarrow> validate_endpoint u = Ok ()) \<and>
     (ce_auth e = LocalAuth \<longrightarrow> ce_endpoint e \<noteq> None)"

lemma catalog_parts_ok:
  "list_all entry_ok catalog_1" "list_all entry_ok catalog_2" "list_all entry_ok catalog_3"
  "list_all entry_ok catalog_4" "list_all entry_ok catalog_5"
  subgoal by code_simp
  subgoal by code_simp
  subgoal by code_simp
  subgoal by code_simp
  subgoal by code_simp
  done

lemma catalog_entries_ok: "list_all entry_ok PROVIDER_CATALOG"
  by (simp only: PROVIDER_CATALOG_def list_all_append catalog_parts_ok simp_thms)

lemma catalog_ids_distinct: "distinct (map ce_id PROVIDER_CATALOG)"
  by code_simp

lemma recommended_known: "list_all is_known [''opencode'', ''openai'', ''anthropic'', ''openrouter'']"
  by code_simp

lemma find_distinct_key:
  "distinct (map f xs) \<Longrightarrow> x \<in> set xs \<Longrightarrow> List.find (\<lambda>e. f e = f x) xs = Some x"
proof (induction xs)
  case Nil
  then show ?case by simp
next
  case (Cons y ys)
  then show ?case by (cases "f y = f x") (auto simp: rev_image_eqI)
qed

lemma default_endpoint_valid: "default_endpoint i = Some u \<Longrightarrow> validate_endpoint u = Ok ()"
proof -
  assume "default_endpoint i = Some u"
  then obtain e where e: "lookup i = Some e" "ce_endpoint e = Some u"
    by (auto simp: default_endpoint_def bind_eq_Some_conv)
  from e(1) have "e \<in> set PROVIDER_CATALOG" unfolding lookup_def by (blast dest: find_Some_in)
  then have "entry_ok e" using catalog_entries_ok unfolding list_all_iff by blast
  with e(2) show ?thesis by (simp add: entry_ok_def)
qed

text \<open>The bundled catalog is consistent with the code that uses it: every entry is found under its
  own identifier, its identifier and its default endpoint pass the validators that adding an account
  applies, an entry without a default endpoint is never a local one, and an identifier is known
  exactly when some entry has it, as all recommended ones do.\<close>

theorem catalog_wellformed:
  "list_all (\<lambda>e. entry_ok e \<and> lookup (ce_id e) = Some e) PROVIDER_CATALOG \<and>
   (is_known i \<longleftrightarrow> i \<in> set (map ce_id PROVIDER_CATALOG)) \<and> {j. is_recommended j} \<subseteq> {j. is_known j}"
proof (intro conjI)
  show "list_all (\<lambda>e. entry_ok e \<and> lookup (ce_id e) = Some e) PROVIDER_CATALOG"
    using catalog_entries_ok find_distinct_key [OF catalog_ids_distinct]
    unfolding list_all_iff lookup_def by blast
  show "is_known i \<longleftrightarrow> i \<in> set (map ce_id PROVIDER_CATALOG)"
    by (auto simp: is_known_def lookup_def find_None_iff)
  show "{j. is_recommended j} \<subseteq> {j. is_known j}"
    using recommended_known by (auto simp: is_recommended_def)
qed

end
