(* ===== verification/Keyring.thy ===== *)
theory Keyring
  imports RustStr "HOL-Library.AList"
begin

text \<open>
  Keyring backends (\<^verbatim>\<open>credentials/src/keyring_backend.rs\<close>, \<^verbatim>\<open>credentials/src/error.rs\<close>). The trait
  \<^verbatim>\<open>KeyringBackend\<close> is the record \<open>keyring_api\<close> of its operations over a state, with the locale
  \<open>keyring_backend\<close> for its laws; the in-memory and the plaintext-file backend are modelled and
  satisfy the laws. A \<^verbatim>\<open>HashMap\<close> is an association list. The OS keyring is a service and is any
  other instance of the record.
\<close>

subsection \<open>Errors (error.rs)\<close>

datatype cred_error =
    CSqlite string
  | CState string
  | CKeyring string
  | CKeyringUnavailable
  | CKeyringPoisoned
  | CNotFound string string
  | CDuplicate string string
  | CInvalidInput string
  | CNoEligible string
  | COrphanedKey string string string
  | CSerde string

subsection \<open>The interface\<close>

record 'k keyring_api =
  kr_store :: "string \<Rightarrow> string \<Rightarrow> 'k \<Rightarrow> (unit, cred_error) result \<times> 'k"
  kr_load :: "string \<Rightarrow> 'k \<Rightarrow> (string option, cred_error) result"
  kr_delete :: "string \<Rightarrow> 'k \<Rightarrow> (unit, cred_error) result \<times> 'k"

text \<open>What a client may rely on: after a successful store the key loads and all other keys are as
  before; a delete, successful or not, leaves the other keys alone, and after a successful one the
  key is gone; loading a key that was there before a successful operation does not fail.\<close>

locale keyring_backend =
  fixes B :: "'k keyring_api"
  assumes load_store: "kr_store B i v k = (Ok (), k') \<Longrightarrow> kr_load B i k' = Ok (Some v)"
    and load_store_other: "kr_store B i v k = (r, k') \<Longrightarrow> j \<noteq> i \<Longrightarrow> kr_load B j k' = kr_load B j k"
    and load_delete: "kr_delete B i k = (Ok (), k') \<Longrightarrow> kr_load B i k' = Ok None"
    and load_delete_other: "kr_delete B i k = (r, k') \<Longrightarrow> j \<noteq> i \<Longrightarrow> kr_load B j k' = kr_load B j k"
begin

lemma store_delete_other:
  assumes "kr_store B i v k = (r, k1)" "kr_delete B i k1 = (r', k2)" "j \<noteq> i"
  shows "kr_load B j k2 = kr_load B j k"
  using load_store_other [OF assms(1,3)] load_delete_other [OF assms(2,3)] by simp

end

subsection \<open>In-memory backend\<close>

definition mem_keyring :: "(string \<times> string) list keyring_api" where
  "mem_keyring =
    \<lparr> kr_store = (\<lambda>i v k. (Ok (), AList.update i v k)),
      kr_load = (\<lambda>i k. Ok (map_of k i)),
      kr_delete = (\<lambda>i k. (Ok (), AList.delete i k)) \<rparr>"

interpretation mem_kr: keyring_backend mem_keyring
  by unfold_locales (auto simp: mem_keyring_def update_conv' delete_conv')

subsection \<open>Plaintext-file backend\<close>

text \<open>The map in memory and the file on disk, \<open>None\<close> when it does not exist. \<open>fk_faults\<close> says what
  goes wrong in the coming flushes: \<open>Some op\<close> for the operation that fails, \<open>None\<close> for a flush that
  succeeds, which is also what happens when the list is used up. The text of the map is the
  serializer of serde\_json, \<open>enc\<close>, and its parser \<open>dec\<close>. Only the final rename touches the file.\<close>

record file_keyring =
  fk_map :: "(string \<times> string) list"
  fk_file :: "string option"
  fk_faults :: "string option list"

definition fk_open ::
    "(string \<Rightarrow> (string \<times> string) list option) \<Rightarrow> string option \<Rightarrow> string option list \<Rightarrow>
     (file_keyring, cred_error) result" where
  "fk_open dec file faults =
    (case file of
       None \<Rightarrow> Ok \<lparr> fk_map = [], fk_file = None, fk_faults = faults \<rparr>
     | Some b \<Rightarrow>
         if b = [] then Ok \<lparr> fk_map = [], fk_file = file, fk_faults = faults \<rparr>
         else (case dec b of
                 None \<Rightarrow> Err (CKeyring ''file-parse'')
               | Some m \<Rightarrow> Ok \<lparr> fk_map = m, fk_file = file, fk_faults = faults \<rparr>))"

definition fk_flush ::
    "((string \<times> string) list \<Rightarrow> string) \<Rightarrow> file_keyring \<Rightarrow> (unit, cred_error) result \<times> file_keyring" where
  "fk_flush enc k =
    (case fk_faults k of
       Some op # fs \<Rightarrow> (Err (CKeyring op), k\<lparr> fk_faults := fs \<rparr>)
     | _ \<Rightarrow> (Ok (), k\<lparr> fk_file := Some (enc (fk_map k)), fk_faults := tl (fk_faults k) \<rparr>))"

definition file_backend :: "((string \<times> string) list \<Rightarrow> string) \<Rightarrow> file_keyring keyring_api" where
  "file_backend enc =
    \<lparr> kr_store = (\<lambda>i v k. fk_flush enc (k\<lparr> fk_map := AList.update i v (fk_map k) \<rparr>)),
      kr_load = (\<lambda>i k. Ok (map_of (fk_map k) i)),
      kr_delete = (\<lambda>i k. fk_flush enc (k\<lparr> fk_map := AList.delete i (fk_map k) \<rparr>)) \<rparr>"

lemma fk_flush_map [simp]: "fk_map (snd (fk_flush enc k)) = fk_map k"
  by (auto simp: fk_flush_def split: list.splits option.splits)

lemma fk_flush_mapD: "fk_flush enc k = (r, k') \<Longrightarrow> fk_map k' = fk_map k"
  by (metis fk_flush_map snd_conv)

interpretation file_kr: keyring_backend "file_backend enc" for enc
  by unfold_locales (auto simp: file_backend_def update_conv' delete_conv' dest!: fk_flush_mapD)

text \<open>What the parser of a map must do with the text of a map.\<close>

definition map_text_ok ::
    "((string \<times> string) list \<Rightarrow> string) \<Rightarrow> (string \<Rightarrow> (string \<times> string) list option) \<Rightarrow> bool" where
  "map_text_ok enc dec \<longleftrightarrow> (\<forall>m. enc m \<noteq> [] \<and> (\<exists>m'. dec (enc m) = Some m' \<and> map_of m' = map_of m))"

text \<open>A use of the backend: stores and deletes, one after the other.\<close>

datatype kr_op = KStore string string | KDelete string

fun kr_run :: "'k keyring_api \<Rightarrow> kr_op \<Rightarrow> 'k \<Rightarrow> (unit, cred_error) result \<times> 'k" where
  "kr_run B (KStore i v) k = kr_store B i v k"
| "kr_run B (KDelete i) k = kr_delete B i k"

fun kr_effect :: "kr_op \<Rightarrow> (string \<rightharpoonup> string) \<Rightarrow> (string \<rightharpoonup> string)" where
  "kr_effect (KStore i v) m = m(i \<mapsto> v)"
| "kr_effect (KDelete i) m = m(i := None)"

lemma kr_run_file:
  "kr_run (file_backend enc) op k = (r, k') \<Longrightarrow> map_of (fk_map k') = kr_effect op (map_of (fk_map k))"
  by (cases op) (auto simp: file_backend_def update_conv' delete_conv' dest!: fk_flush_mapD)

lemma kr_run_file_ok:
  "kr_run (file_backend enc) op k = (Ok (), k') \<Longrightarrow> fk_file k' = Some (enc (fk_map k'))"
  by (cases op)
    (auto simp: file_backend_def fk_flush_def split: list.splits option.splits)

lemma kr_run_file_err:
  "kr_run (file_backend enc) op k = (Err e, k') \<Longrightarrow> fk_file k' = fk_file k"
  by (cases op)
    (auto simp: file_backend_def fk_flush_def split: list.splits option.splits)

text \<open>What the file backend promises and what it does not: an operation that succeeds is on disk,
  so that a backend opened on the file afterwards loads every key as the running one does; one that
  fails leaves the file as it was, but its effect on the map in memory stays, so the running
  backend goes on as if it had succeeded.\<close>

theorem file_keyring_durability:
  assumes "map_text_ok enc dec" "kr_run (file_backend enc) op k = (r, k')"
  shows "(r = Ok () \<longrightarrow> (\<exists>k2. fk_open dec (fk_file k') fs = Ok k2 \<and>
            (\<forall>i. kr_load (file_backend enc) i k2 = kr_load (file_backend enc) i k'))) \<and>
         (r \<noteq> Ok () \<longrightarrow> fk_file k' = fk_file k) \<and>
         (\<forall>i. kr_load (file_backend enc) i k' = Ok (kr_effect op (map_of (fk_map k)) i))"
proof (intro conjI impI)
  assume "r = Ok ()"
  with assms(2) have f: "fk_file k' = Some (enc (fk_map k'))" by (simp add: kr_run_file_ok)
  from assms(1) obtain m where m: "dec (enc (fk_map k')) = Some m" "map_of m = map_of (fk_map k')"
      "enc (fk_map k') \<noteq> []"
    unfolding map_text_ok_def by blast
  then show "\<exists>k2. fk_open dec (fk_file k') fs = Ok k2 \<and>
      (\<forall>i. kr_load (file_backend enc) i k2 = kr_load (file_backend enc) i k')"
    by (simp add: fk_open_def f file_backend_def)
next
  assume "r \<noteq> Ok ()"
  then obtain e where "r = Err e" by (cases r) auto
  with assms(2) show "fk_file k' = fk_file k" by (simp add: kr_run_file_err)
next
  show "\<forall>i. kr_load (file_backend enc) i k' = Ok (kr_effect op (map_of (fk_map k)) i)"
    using kr_run_file [OF assms(2)] by (simp add: file_backend_def)
qed

text \<open>A text form of maps for the witness: each byte is preceded by \<^verbatim>\<open>1\<close> and a string ends with
  \<^verbatim>\<open>0\<close>.\<close>

definition demo_enc_string :: "string \<Rightarrow> string" where
  "demo_enc_string s = concat (map (\<lambda>c. [CHR ''1'', c]) s) @ ''0''"

fun demo_dec_string :: "string \<Rightarrow> string \<times> string" where
  "demo_dec_string [] = ([], [])"
| "demo_dec_string [_] = ([], [])"
| "demo_dec_string (t # c # r) =
    (if t = CHR ''1'' then (c # fst (demo_dec_string r), snd (demo_dec_string r)) else ([], c # r))"

lemma demo_string_round: "demo_dec_string (demo_enc_string s @ r) = (s, r)"
proof (induction s)
  case Nil
  then show ?case by (cases r) (auto simp: demo_enc_string_def)
next
  case (Cons c s)
  then show ?case by (simp add: demo_enc_string_def)
qed

definition demo_enc :: "(string \<times> string) list \<Rightarrow> string" where
  "demo_enc m = CHR ''['' # concat (map (\<lambda>(a, b). demo_enc_string a @ demo_enc_string b) m)"

fun demo_dec_pairs :: "nat \<Rightarrow> string \<Rightarrow> (string \<times> string) list" where
  "demo_dec_pairs 0 t = []"
| "demo_dec_pairs (Suc n) t =
    (if t = [] then []
     else let (a, t1) = demo_dec_string t; (b, t2) = demo_dec_string t1 in (a, b) # demo_dec_pairs n t2)"

definition demo_dec :: "string \<Rightarrow> (string \<times> string) list option" where
  "demo_dec t = Some (demo_dec_pairs (length (tl t)) (tl t))"

lemma demo_pairs_round:
  "length m \<le> n \<Longrightarrow>
   demo_dec_pairs n (concat (map (\<lambda>(a, b). demo_enc_string a @ demo_enc_string b) m)) = m"
proof (induction m arbitrary: n)
  case Nil
  then show ?case by (cases n) auto
next
  case (Cons p m)
  obtain a b where "p = (a, b)" by (cases p)
  moreover obtain k where "n = Suc k" "length m \<le> k" using Cons.prems by (cases n) auto
  moreover have "demo_enc_string a \<noteq> []" by (simp add: demo_enc_string_def)
  ultimately show ?case using Cons.IH [of k] by (simp add: demo_string_round)
qed

lemma demo_length: "length m \<le> length (concat (map (\<lambda>(a, b). demo_enc_string a @ demo_enc_string b) m))"
  by (induction m) (auto simp: demo_enc_string_def)

lemma demo_map_text_ok: "map_text_ok demo_enc demo_dec"
  unfolding map_text_ok_def
proof
  fix m
  have "demo_dec (demo_enc m) = Some m"
    unfolding demo_dec_def demo_enc_def list.sel(3) using demo_pairs_round [OF demo_length, of m] by (rule arg_cong)
  then show "demo_enc m \<noteq> [] \<and> (\<exists>m'. demo_dec (demo_enc m) = Some m' \<and> map_of m' = map_of m)"
    by (auto simp: demo_enc_def)
qed

theorem file_keyring_durability_witness:
  "let k = \<lparr> fk_map = [], fk_file = None, fk_faults = [Some ''file-rename''] \<rparr>;
       (r, k') = kr_run (file_backend demo_enc) (KStore ''id'' ''secret'') k
   in r = Err (CKeyring ''file-rename'') \<and> fk_file k' = None \<and>
      kr_load (file_backend demo_enc) ''id'' k' = Ok (Some ''secret'')"
  using file_keyring_durability [OF demo_map_text_ok, of "KStore ''id'' ''secret''"
      "\<lparr> fk_map = [], fk_file = None, fk_faults = [Some ''file-rename''] \<rparr>"
      "Err (CKeyring ''file-rename'')" _ "[]"]
  by (auto simp: file_backend_def fk_flush_def)

end
