(* ===== verification/Credentials.thy ===== *)
theory Credentials
  imports Catalog Keyring Json "HOL-Library.List_Lexorder" "HOL-Library.Char_ord"
    "HOL-Library.Product_Lexorder" "HOL-Library.Option_ord"
begin

text \<open>
  Accounts and the credential store (\<^verbatim>\<open>credentials/src/model.rs\<close>, \<^verbatim>\<open>credentials/src/store.rs\<close>).
  The rows are the \<^verbatim>\<open>HashMap\<close> of \<^verbatim>\<open>InMemoryCredentialStore\<close>, an association list, and the
  backend is any instance of \<open>keyring_api\<close>. Fresh identifiers (\<^verbatim>\<open>Uuid::new_v4\<close>) and the clock
  (\<^verbatim>\<open>Utc::now\<close>) are arguments. The mutex serialises the operations, so an execution is a sequence
  of them: \<open>cred_reach\<close> is the set of states such a sequence reaches.
\<close>

subsection \<open>Accounts (model.rs)\<close>

datatype account_status = AcActive | AcCooldown | AcDead

fun status_eligible_at :: "account_status \<Rightarrow> int \<Rightarrow> int option \<Rightarrow> bool" where
  "status_eligible_at AcActive now cd = True"
| "status_eligible_at AcCooldown now cd = (case cd of Some t \<Rightarrow> t \<le> now | None \<Rightarrow> True)"
| "status_eligible_at AcDead now cd = False"

fun status_str :: "account_status \<Rightarrow> string" where
  "status_str AcActive = ''active''"
| "status_str AcCooldown = ''cooldown''"
| "status_str AcDead = ''dead''"

definition status_from_str_lossy :: "string \<Rightarrow> account_status" where
  "status_from_str_lossy s =
    (if s = ''cooldown'' then AcCooldown else if s = ''dead'' then AcDead else AcActive)"

record new_account =
  na_provider :: string
  na_label :: string
  na_endpoint :: "string option"
  na_api_key :: string
  na_set_default :: bool

definition new_account_new :: "string \<Rightarrow> string \<Rightarrow> string \<Rightarrow> new_account" where
  "new_account_new p l k =
    \<lparr> na_provider = p, na_label = l, na_endpoint = None, na_api_key = k, na_set_default = False \<rparr>"

definition with_endpoint :: "string \<Rightarrow> new_account \<Rightarrow> new_account" where
  "with_endpoint e a = a\<lparr> na_endpoint := Some e \<rparr>"

definition with_default :: "bool \<Rightarrow> new_account \<Rightarrow> new_account" where
  "with_default d a = a\<lparr> na_set_default := d \<rparr>"

record account =
  ac_id :: string
  ac_provider :: string
  ac_label :: string
  ac_endpoint :: string
  ac_key_id :: string
  ac_is_default :: bool
  ac_status :: account_status
  ac_cooldown_until :: "int option"
  ac_last_used_at :: "int option"
  ac_metadata :: json
  ac_created_at :: int

definition is_eligible_at :: "int \<Rightarrow> account \<Rightarrow> bool" where
  "is_eligible_at now a = status_eligible_at (ac_status a) now (ac_cooldown_until a)"

subsection \<open>The store (store.rs)\<close>

type_synonym account_rows = "((string \<times> string) \<times> account) list"

record 'k cred_store =
  cs_rows :: account_rows
  cs_backend :: 'k

definition with_backend :: "'k \<Rightarrow> 'k cred_store" where
  "with_backend k = \<lparr> cs_rows = [], cs_backend = k \<rparr>"

definition get_locked :: "'k cred_store \<Rightarrow> string \<Rightarrow> string \<Rightarrow> (account, cred_error) result" where
  "get_locked s p l = opt_ok_or (map_of (cs_rows s) (p, l)) (CNotFound p l)"

definition validate_new :: "new_account \<Rightarrow> (unit, cred_error) result" where
  "validate_new a =
    try_res (map_err CInvalidInput (validate_provider (na_provider a))) (\<lambda>_.
    try_res (map_err CInvalidInput (validate_label (na_label a))) (\<lambda>_.
      if na_api_key a = [] then Err (CInvalidInput ''api_key must not be empty'') else Ok ()))"

definition resolve_endpoint :: "new_account \<Rightarrow> (string, cred_error) result" where
  "resolve_endpoint a =
    (case na_endpoint a of
       Some ep \<Rightarrow> try_res (map_err CInvalidInput (validate_endpoint ep)) (\<lambda>_. Ok ep)
     | None \<Rightarrow>
        (case default_endpoint (na_provider a) of
           Some d \<Rightarrow> Ok d
         | None \<Rightarrow> Err (CInvalidInput (''no default endpoint for provider `'' @ na_provider a @
             ''`; supply one explicitly''))))"

text \<open>The rows of one provider, and the two loops of \<^verbatim>\<open>add\<close> over the rows.\<close>

definition of_provider :: "string \<Rightarrow> account_rows \<Rightarrow> account list" where
  "of_provider p rows = filter (\<lambda>r. ac_provider r = p) (map snd rows)"

definition map_rows :: "(account \<Rightarrow> account) \<Rightarrow> account_rows \<Rightarrow> account_rows" where
  "map_rows f = map (\<lambda>(k, r). (k, f r))"

definition drop_default :: "string \<Rightarrow> account \<Rightarrow> account" where
  "drop_default p r =
    (if ac_provider r = p \<and> ac_is_default r then r\<lparr> ac_is_default := False \<rparr> else r)"

definition new_row :: "new_account \<Rightarrow> string \<Rightarrow> string \<Rightarrow> string \<Rightarrow> int \<Rightarrow> account" where
  "new_row a endpoint key_id row_id now =
    \<lparr> ac_id = row_id, ac_provider = na_provider a, ac_label = na_label a, ac_endpoint = endpoint,
      ac_key_id = key_id, ac_is_default = na_set_default a, ac_status = AcActive,
      ac_cooldown_until = None, ac_last_used_at = None, ac_metadata = JObj [], ac_created_at = now \<rparr>"

definition insert_row :: "account \<Rightarrow> account_rows \<Rightarrow> account \<times> account_rows" where
  "insert_row row rows =
    (let rows1 = (if ac_is_default row then map_rows (drop_default (ac_provider row)) rows else rows);
         row1 = (if of_provider (ac_provider row) rows1 = [] then row\<lparr> ac_is_default := True \<rparr> else row)
     in (row1, AList.update (ac_provider row, ac_label row) row1 rows1))"

definition add ::
    "'k keyring_api \<Rightarrow> new_account \<Rightarrow> string \<Rightarrow> string \<Rightarrow> int \<Rightarrow> 'k cred_store \<Rightarrow>
     (account, cred_error) result \<times> 'k cred_store" where
  "add B a key_id row_id now s =
    (case validate_new a of
       Err e \<Rightarrow> (Err e, s)
     | Ok _ \<Rightarrow>
       (case resolve_endpoint a of
          Err e \<Rightarrow> (Err e, s)
        | Ok ep \<Rightarrow>
          (case kr_store B key_id (na_api_key a) (cs_backend s) of
             (Err e, k1) \<Rightarrow> (Err e, s\<lparr> cs_backend := k1 \<rparr>)
           | (Ok _, k1) \<Rightarrow>
              if map_of (cs_rows s) (na_provider a, na_label a) \<noteq> None then
                (Err (CDuplicate (na_provider a) (na_label a)),
                 s\<lparr> cs_backend := snd (kr_delete B key_id k1) \<rparr>)
              else
                let (row, rows) = insert_row (new_row a ep key_id row_id now) (cs_rows s)
                in (Ok row, \<lparr> cs_rows = rows, cs_backend = k1 \<rparr>))))"

definition list_accounts :: "'k cred_store \<Rightarrow> account list" where
  "list_accounts s = sort_key (\<lambda>a. (ac_provider a, ac_label a)) (map snd (cs_rows s))"

definition list_for_provider :: "string \<Rightarrow> 'k cred_store \<Rightarrow> account list" where
  "list_for_provider p s = sort_key ac_label (of_provider p (cs_rows s))"

definition remove_account ::
    "'k keyring_api \<Rightarrow> string \<Rightarrow> string \<Rightarrow> 'k cred_store \<Rightarrow> (unit, cred_error) result \<times> 'k cred_store" where
  "remove_account B p l s =
    (case map_of (cs_rows s) (p, l) of
       None \<Rightarrow> (Err (CNotFound p l), s)
     | Some r \<Rightarrow>
         (Ok (), \<lparr> cs_rows = AList.delete (p, l) (cs_rows s),
                   cs_backend = snd (kr_delete B (ac_key_id r) (cs_backend s)) \<rparr>))"

definition set_default ::
    "string \<Rightarrow> string \<Rightarrow> 'k cred_store \<Rightarrow> (unit, cred_error) result \<times> 'k cred_store" where
  "set_default p l s =
    (if map_of (cs_rows s) (p, l) = None then (Err (CNotFound p l), s)
     else (Ok (), s\<lparr> cs_rows := map_rows
            (\<lambda>r. if ac_provider r = p then r\<lparr> ac_is_default := (ac_label r = l) \<rparr> else r) (cs_rows s) \<rparr>))"

definition get_default :: "string \<Rightarrow> 'k cred_store \<Rightarrow> account option" where
  "get_default p s = List.find (\<lambda>r. ac_provider r = p \<and> ac_is_default r) (map snd (cs_rows s))"

definition load_key ::
    "'k keyring_api \<Rightarrow> string \<Rightarrow> string \<Rightarrow> 'k cred_store \<Rightarrow> (string, cred_error) result" where
  "load_key B p l s =
    try_res (get_locked s p l) (\<lambda>a.
    try_res (kr_load B (ac_key_id a) (cs_backend s)) (\<lambda>v.
      opt_ok_or v (COrphanedKey p l (ac_key_id a))))"

text \<open>\<^verbatim>\<open>Iterator::min_by_key\<close>: the first of the least elements.\<close>

definition min_by_key :: "('a \<Rightarrow> 'b::linorder) \<Rightarrow> 'a list \<Rightarrow> 'a option" where
  "min_by_key f xs = (if xs = [] then None else Some (arg_min_list f xs))"

definition resolve ::
    "'k keyring_api \<Rightarrow> int \<Rightarrow> string \<Rightarrow> 'k cred_store \<Rightarrow> (account \<times> string, cred_error) result" where
  "resolve B now p s =
    (let candidates = list_for_provider p s in
     if candidates = [] then Err (CNoEligible p)
     else case min_by_key ac_last_used_at (filter (is_eligible_at now) candidates) of
       None \<Rightarrow> Err (CNoEligible p)
     | Some a \<Rightarrow> map_ok (\<lambda>k. (a, k)) (load_key B (ac_provider a) (ac_label a) s))"

definition set_status ::
    "account_status \<Rightarrow> int option \<Rightarrow> string \<Rightarrow> string \<Rightarrow> 'k cred_store \<Rightarrow>
     (unit, cred_error) result \<times> 'k cred_store" where
  "set_status st cd p l s =
    (case map_of (cs_rows s) (p, l) of
       None \<Rightarrow> (Err (CNotFound p l), s)
     | Some r \<Rightarrow>
         (Ok (), s\<lparr> cs_rows :=
            AList.update (p, l) (r\<lparr> ac_status := st, ac_cooldown_until := cd \<rparr>) (cs_rows s) \<rparr>))"

definition mark_cooldown ::
    "string \<Rightarrow> string \<Rightarrow> int \<Rightarrow> 'k cred_store \<Rightarrow> (unit, cred_error) result \<times> 'k cred_store" where
  "mark_cooldown p l until s = set_status AcCooldown (Some until) p l s"

definition mark_dead ::
    "string \<Rightarrow> string \<Rightarrow> 'k cred_store \<Rightarrow> (unit, cred_error) result \<times> 'k cred_store" where
  "mark_dead p l s = set_status AcDead None p l s"

definition clear_status ::
    "string \<Rightarrow> string \<Rightarrow> 'k cred_store \<Rightarrow> (unit, cred_error) result \<times> 'k cred_store" where
  "clear_status p l s = set_status AcActive None p l s"

subsection \<open>Association lists of rows\<close>

lemma update_new: "k \<notin> set (map fst xs) \<Longrightarrow> AList.update k v xs = xs @ [(k, v)]"
  by (induction xs) auto

lemma update_present:
  "distinct (map fst xs) \<Longrightarrow> map_of xs k = Some r \<Longrightarrow>
   AList.update k (f r) xs = map (\<lambda>(k', r'). (k', if k' = k then f r' else r')) xs"
proof (induction xs)
  case Nil
  then show ?case by simp
next
  case (Cons x xs)
  obtain k' r' where x: "x = (k', r')" by (cases x)
  show ?case
  proof (cases "k' = k")
    case True
    with Cons.prems x have "k \<notin> fst ` set xs" "r' = r" by auto
    then have "map (\<lambda>(k', r'). (k', if k' = k then f r' else r')) xs = xs"
      by (intro map_idI) (auto simp: image_iff)
    with True x \<open>r' = r\<close> show ?thesis by simp
  next
    case False
    with Cons x show ?thesis by simp
  qed
qed

lemma map_fst_map_rows [simp]: "map fst (map_rows f rows) = map fst rows"
  by (induction rows) (auto simp: map_rows_def)

lemma map_snd_map_rows [simp]: "map snd (map_rows f rows) = map f (map snd rows)"
  by (induction rows) (auto simp: map_rows_def)

lemma map_of_map_rows: "map_of (map_rows f rows) k = map_option f (map_of rows k)"
  by (induction rows) (auto simp: map_rows_def)

lemma set_map_rows: "(k, r) \<in> set (map_rows f rows) \<longleftrightarrow> (\<exists>r0. (k, r0) \<in> set rows \<and> r = f r0)"
  by (auto simp: map_rows_def)

lemma one_key: "distinct (map fst xs) \<Longrightarrow> length (filter (\<lambda>x. fst x = k) xs) \<le> 1"
proof (induction xs)
  case Nil
  then show ?case by simp
next
  case (Cons x xs)
  show ?case
  proof (cases "fst x = k")
    case True
    with Cons.prems have "\<forall>y \<in> set xs. fst y \<noteq> k" by auto (metis fst_conv image_eqI)
    then have "filter (\<lambda>x. fst x = k) xs = []" by (simp add: filter_empty_conv)
    with True show ?thesis by simp
  next
    case False
    with Cons show ?thesis by simp
  qed
qed

lemma length_filter_le_filter:
  "(\<And>x. x \<in> set xs \<Longrightarrow> P x \<Longrightarrow> Q x) \<Longrightarrow> length (filter P xs) \<le> length (filter Q xs)"
  by (induction xs) auto

subsection \<open>The invariant of the rows\<close>

text \<open>A row is stored under its provider and label and holds validated data; its time of last use
  is never set.\<close>

definition row_ok :: "(string \<times> string) \<times> account \<Rightarrow> bool" where
  "row_ok x \<longleftrightarrow> fst x = (ac_provider (snd x), ac_label (snd x)) \<and>
     validate_provider (ac_provider (snd x)) = Ok () \<and> validate_label (ac_label (snd x)) = Ok () \<and>
     validate_endpoint (ac_endpoint (snd x)) = Ok () \<and> ac_last_used_at (snd x) = None"

definition defaults :: "string \<Rightarrow> account_rows \<Rightarrow> nat" where
  "defaults p rows = length (filter (\<lambda>x. ac_provider (snd x) = p \<and> ac_is_default (snd x)) rows)"

definition rows_inv :: "account_rows \<Rightarrow> bool" where
  "rows_inv rows \<longleftrightarrow> distinct (map fst rows) \<and> (\<forall>x \<in> set rows. row_ok x) \<and>
     (\<forall>p. defaults p rows \<le> 1) \<and> distinct (map (ac_key_id \<circ> snd) rows)"

definition key_ids :: "account_rows \<Rightarrow> string set" where
  "key_ids rows = (ac_key_id \<circ> snd) ` set rows"

text \<open>The states the operations reach, from an empty store over any backend; a new key identifier is
  one that no account has.\<close>

inductive cred_reach :: "'k keyring_api \<Rightarrow> 'k cred_store \<Rightarrow> bool" for B where
  reach_new: "cred_reach B (with_backend k)"
| reach_add: "cred_reach B s \<Longrightarrow> key_id \<notin> key_ids (cs_rows s) \<Longrightarrow>
    cred_reach B (snd (add B a key_id row_id now s))"
| reach_remove: "cred_reach B s \<Longrightarrow> cred_reach B (snd (remove_account B p l s))"
| reach_default: "cred_reach B s \<Longrightarrow> cred_reach B (snd (set_default p l s))"
| reach_cooldown: "cred_reach B s \<Longrightarrow> cred_reach B (snd (mark_cooldown p l t s))"
| reach_dead: "cred_reach B s \<Longrightarrow> cred_reach B (snd (mark_dead p l s))"
| reach_clear: "cred_reach B s \<Longrightarrow> cred_reach B (snd (clear_status p l s))"

lemma defaults_map:
  assumes "\<And>x. x \<in> set rows \<Longrightarrow> (\<lambda>r. (ac_provider r, ac_is_default r)) (snd (g x)) =
      (\<lambda>r. (ac_provider r, ac_is_default r)) (snd x)"
  shows "defaults p (map g rows) = defaults p rows"
  using assms unfolding defaults_def by (induction rows) auto

lemma rows_inv_delete: "rows_inv rows \<Longrightarrow> rows_inv (AList.delete k rows)"
proof -
  assume r: "rows_inv rows"
  have e: "AList.delete k rows = filter (\<lambda>x. fst x \<noteq> k) rows"
    by (auto simp: AList.delete_eq intro!: filter_cong)
  have "defaults p (filter (\<lambda>x. fst x \<noteq> k) rows) \<le> defaults p rows" for p
    unfolding defaults_def by (induction rows) auto
  with r show ?thesis unfolding rows_inv_def e
    by (auto simp: distinct_map_filter intro: order_trans)
qed

lemma rows_inv_status:
  assumes "rows_inv rows" "map_of rows (p, l) = Some r"
  shows "rows_inv (AList.update (p, l) (r\<lparr> ac_status := st, ac_cooldown_until := cd \<rparr>) rows)"
proof -
  let ?f = "\<lambda>r :: account. r\<lparr> ac_status := st, ac_cooldown_until := cd \<rparr>"
  let ?g = "\<lambda>x. (fst x, if fst x = (p, l) then ?f (snd x) else snd x)"
  have e: "AList.update (p, l) (?f r) rows = map ?g rows"
    using update_present [of rows "(p, l)" r ?f] assms
    by (simp add: rows_inv_def case_prod_beta)
  have d: "defaults q (map ?g rows) = defaults q rows" for q by (rule defaults_map) auto
  have k: "map (ac_key_id \<circ> snd) (map ?g rows) = map (ac_key_id \<circ> snd) rows"
    "map fst (map ?g rows) = map fst rows" by auto
  show ?thesis
    using assms(1) unfolding rows_inv_def e d k by (auto simp: row_ok_def)
qed

lemma rows_inv_default:
  assumes "rows_inv rows"
  shows "rows_inv (map_rows (\<lambda>r. if ac_provider r = p then r\<lparr> ac_is_default := (ac_label r = l) \<rparr> else r) rows)"
    (is "rows_inv (map_rows ?f rows)")
proof -
  have d: "defaults q (map_rows ?f rows) \<le> 1" for q
  proof (cases "q = p")
    case True
    have "defaults q (map_rows ?f rows) \<le> length (filter (\<lambda>x. fst x = (p, l)) rows)"
      using assms True unfolding rows_inv_def row_ok_def defaults_def map_rows_def
      by (auto simp: filter_map case_prod_beta split: if_splits intro!: length_filter_le_filter)
    with one_key [of rows "(p, l)"] assms show ?thesis by (simp add: rows_inv_def)
  next
    case False
    have "defaults q (map_rows ?f rows) = length (filter (\<lambda>x. ac_provider (snd x) = q \<and> ac_is_default (snd x)) rows)"
      using False unfolding defaults_def map_rows_def
      by (auto simp: filter_map case_prod_beta o_def intro!: arg_cong [where f = length] filter_cong)
    with assms show ?thesis by (simp add: rows_inv_def defaults_def)
  qed
  have k: "map (ac_key_id \<circ> snd) (map_rows ?f rows) = map (ac_key_id \<circ> snd) rows"
    by (auto simp: map_rows_def)
  have o: "\<forall>x \<in> set (map_rows ?f rows). row_ok x"
    using assms by (auto simp: rows_inv_def row_ok_def map_rows_def)
  show ?thesis
    using assms d o unfolding rows_inv_def k map_fst_map_rows by blast
qed

lemma of_provider_Nil_defaults: "of_provider p rows = [] \<Longrightarrow> defaults p rows = 0"
  by (induction rows) (auto simp: of_provider_def defaults_def split: if_splits)

lemma rows_inv_drop:
  assumes "rows_inv rows"
  shows "rows_inv (map_rows (drop_default p) rows) \<and> defaults p (map_rows (drop_default p) rows) = 0"
proof -
  let ?rs = "map_rows (drop_default p) rows"
  have z: "defaults p ?rs = 0"
    by (auto simp: defaults_def map_rows_def filter_empty_conv drop_default_def split: if_splits)
  have d: "defaults q ?rs \<le> defaults q rows" for q
    unfolding defaults_def map_rows_def by (induction rows) (auto simp: drop_default_def)
  have d1: "defaults q ?rs \<le> 1" for q
    using d [of q] assms by (auto simp: rows_inv_def intro: order_trans)
  have k: "map (ac_key_id \<circ> snd) ?rs = map (ac_key_id \<circ> snd) rows"
    by (auto simp: map_rows_def drop_default_def)
  have o: "\<forall>x \<in> set ?rs. row_ok x"
    using assms by (auto simp: rows_inv_def row_ok_def map_rows_def drop_default_def)
  show ?thesis using assms z d1 o unfolding rows_inv_def k map_fst_map_rows by blast
qed

lemma key_ids_map_rows: "key_ids (map_rows (drop_default p) rows) = key_ids rows"
  by (force simp: key_ids_def map_rows_def drop_default_def image_iff)

lemma rows_inv_snoc:
  assumes "rows_inv rows" "row_ok x" "fst x \<notin> set (map fst rows)" "ac_key_id (snd x) \<notin> key_ids rows"
    "ac_is_default (snd x) \<longrightarrow> defaults (ac_provider (snd x)) rows = 0"
  shows "rows_inv (rows @ [x])"
proof -
  have "defaults q (rows @ [x]) \<le> 1" for q
    using assms(1,5) by (auto simp: rows_inv_def defaults_def)
  then show ?thesis
    using assms by (auto simp: rows_inv_def key_ids_def)
qed

lemma insert_row_eq:
  assumes "map_of rows (ac_provider row, ac_label row) = None"
  shows "\<exists>rows1 d. insert_row row rows = (row\<lparr> ac_is_default := d \<rparr>,
      rows1 @ [((ac_provider row, ac_label row), row\<lparr> ac_is_default := d \<rparr>)]) \<and>
    rows1 = (if ac_is_default row then map_rows (drop_default (ac_provider row)) rows else rows) \<and>
    (d \<longleftrightarrow> ac_is_default row \<or> of_provider (ac_provider row) rows1 = [])"
proof -
  let ?rows1 = "if ac_is_default row then map_rows (drop_default (ac_provider row)) rows else rows"
  have n: "(ac_provider row, ac_label row) \<notin> set (map fst ?rows1)"
    using assms by (simp only: map_fst_map_rows if_distrib if_cancel map_of_eq_None_iff set_map) simp
  show ?thesis
    using n unfolding insert_row_def Let_def
    by (auto simp: update_new intro!: exI [of _ ?rows1])
qed

lemma validate_newD:
  "validate_new a = Ok () \<Longrightarrow> validate_provider (na_provider a) = Ok () \<and>
     validate_label (na_label a) = Ok () \<and> na_api_key a \<noteq> []"
  by (auto simp: validate_new_def split: if_splits)

lemma resolve_endpointD: "resolve_endpoint a = Ok ep \<Longrightarrow> validate_endpoint ep = Ok ()"
  by (auto simp: resolve_endpoint_def default_endpoint_valid split: option.splits)

text \<open>The three ways an addition can end.\<close>

lemma add_cases:
  obtains (refused) e k where "add B a key_id row_id now s = (Err e, s\<lparr> cs_backend := k \<rparr>)"
      "k = cs_backend s \<or> kr_store B key_id (na_api_key a) (cs_backend s) = (Err e, k)"
  | (duplicate) k1 where "add B a key_id row_id now s =
        (Err (CDuplicate (na_provider a) (na_label a)), s\<lparr> cs_backend := snd (kr_delete B key_id k1) \<rparr>)"
      "map_of (cs_rows s) (na_provider a, na_label a) \<noteq> None"
      "kr_store B key_id (na_api_key a) (cs_backend s) = (Ok (), k1)"
  | (added) ep k1 row rows where "add B a key_id row_id now s = (Ok row, \<lparr> cs_rows = rows, cs_backend = k1 \<rparr>)"
      "map_of (cs_rows s) (na_provider a, na_label a) = None" "validate_new a = Ok ()"
      "resolve_endpoint a = Ok ep" "kr_store B key_id (na_api_key a) (cs_backend s) = (Ok (), k1)"
      "insert_row (new_row a ep key_id row_id now) (cs_rows s) = (row, rows)"
proof (cases "validate_new a")
  case (Err e)
  then show thesis using refused [of e "cs_backend s"] by (simp add: add_def)
next
  case v: (Ok u)
  show thesis
  proof (cases "resolve_endpoint a")
    case (Err e)
    with v show thesis using refused [of e "cs_backend s"] by (simp add: add_def)
  next
    case ep: (Ok ep)
    obtain r k1 where st: "kr_store B key_id (na_api_key a) (cs_backend s) = (r, k1)" by force
    show thesis
    proof (cases r)
      case (Err e)
      with v ep st show thesis using refused [of e k1] by (simp add: add_def)
    next
      case (Ok u2)
      obtain row rows where i: "insert_row (new_row a ep key_id row_id now) (cs_rows s) = (row, rows)" by force
      show thesis
      proof (cases "map_of (cs_rows s) (na_provider a, na_label a)")
        case None
        with v ep st i Ok show thesis using added [of row rows k1 ep] by (simp add: add_def)
      next
        case (Some x)
        with v ep st Ok show thesis using duplicate [of k1] by (simp add: add_def)
      qed
    qed
  qed
qed

lemma rows_inv_add:
  assumes "rows_inv (cs_rows s)" "key_id \<notin> key_ids (cs_rows s)"
  shows "rows_inv (cs_rows (snd (add B a key_id row_id now s)))"
proof (cases rule: add_cases [of B a key_id row_id now s])
  case refused
  then show ?thesis using assms by simp
next
  case duplicate
  then show ?thesis using assms by simp
next
  case (added ep k1 row rows)
  let ?r = "new_row a ep key_id row_id now"
  have p: "ac_provider ?r = na_provider a" "ac_label ?r = na_label a" by (simp_all add: new_row_def)
  obtain rows1 d where i: "rows = rows1 @ [((na_provider a, na_label a), ?r\<lparr> ac_is_default := d \<rparr>)]"
    and r1: "rows1 = (if ac_is_default ?r then map_rows (drop_default (na_provider a)) (cs_rows s) else cs_rows s)"
    and d: "d \<longleftrightarrow> ac_is_default ?r \<or> of_provider (na_provider a) rows1 = []"
    using insert_row_eq [of "cs_rows s" ?r] added(2,6) by (auto simp: p)
  have "rows_inv rows1" "key_ids rows1 = key_ids (cs_rows s)" "map fst rows1 = map fst (cs_rows s)"
    using assms(1) rows_inv_drop [OF assms(1), of "na_provider a"] by (simp_all add: r1 key_ids_map_rows)
  moreover have "d \<longrightarrow> defaults (na_provider a) rows1 = 0"
    using rows_inv_drop [OF assms(1), of "na_provider a"] of_provider_Nil_defaults
    by (auto simp: d r1)
  moreover have "row_ok ((na_provider a, na_label a), ?r\<lparr> ac_is_default := d \<rparr>)"
    using validate_newD [OF added(3)] resolve_endpointD [OF added(4)] by (simp add: row_ok_def new_row_def)
  ultimately have "rows_inv rows" unfolding i using assms(2) added(2)
    by (intro rows_inv_snoc) (auto simp: new_row_def map_of_eq_None_iff)
  then show ?thesis using added(1) by simp
qed

lemma reach_rows_inv: "cred_reach B s \<Longrightarrow> rows_inv (cs_rows s)"
proof (induction rule: cred_reach.induct)
  case (reach_new k)
  then show ?case by (simp add: with_backend_def rows_inv_def defaults_def)
next
  case (reach_add s key_id a row_id now)
  then show ?case by (simp add: rows_inv_add)
next
  case (reach_remove s p l)
  then show ?case by (auto simp: remove_account_def rows_inv_delete split: option.split)
next
  case (reach_default s p l)
  then show ?case by (auto simp: set_default_def rows_inv_default)
next
  case (reach_cooldown s p l t)
  then show ?case by (auto simp: mark_cooldown_def set_status_def rows_inv_status split: option.split)
next
  case (reach_dead s p l)
  then show ?case by (auto simp: mark_dead_def set_status_def rows_inv_status split: option.split)
next
  case (reach_clear s p l)
  then show ?case by (auto simp: clear_status_def set_status_def rows_inv_status split: option.split)
qed

subsection \<open>Keys of accounts\<close>

lemma load_key_cong:
  assumes "map_option ac_key_id (map_of (cs_rows t) (p, l)) = map_option ac_key_id (map_of (cs_rows s) (p, l))"
    and "\<And>r. map_of (cs_rows s) (p, l) = Some r \<Longrightarrow>
      kr_load B (ac_key_id r) (cs_backend t) = kr_load B (ac_key_id r) (cs_backend s)"
  shows "load_key B p l t = load_key B p l s"
  using assms by (cases "map_of (cs_rows s) (p, l)")
    (auto simp: load_key_def get_locked_def map_option_case split: option.splits)

lemma key_ids_map_of: "map_of rows k = Some r \<Longrightarrow> ac_key_id r \<in> key_ids rows"
  by (force simp: key_ids_def dest: map_of_SomeD)

lemma distinct_key_ids:
  assumes "rows_inv rows" "map_of rows k = Some r" "map_of rows k' = Some r'" "k \<noteq> k'"
  shows "ac_key_id r \<noteq> ac_key_id r'"
proof
  assume "ac_key_id r = ac_key_id r'"
  moreover have "inj_on (ac_key_id \<circ> snd) (set rows)" "(k, r) \<in> set rows" "(k', r') \<in> set rows"
    using assms by (auto simp: rows_inv_def distinct_map dest: map_of_SomeD)
  ultimately have "(k, r) = (k', r')" by (metis comp_apply inj_onD snd_conv)
  with assms(4) show False by simp
qed

text \<open>What an addition changes: the account itself, or nothing.\<close>

definition add_effect ::
    "'k keyring_api \<Rightarrow> new_account \<Rightarrow> 'k cred_store \<Rightarrow> (account, cred_error) result \<times> 'k cred_store \<Rightarrow> bool" where
  "add_effect B a s res \<longleftrightarrow>
    (case res of
       (Ok row, t) \<Rightarrow>
         map_of (cs_rows s) (na_provider a, na_label a) = None \<and>
         map_of (cs_rows t) (na_provider a, na_label a) = Some row \<and>
         load_key B (na_provider a) (na_label a) t = Ok (na_api_key a) \<and>
         (\<forall>p l. (p, l) \<noteq> (na_provider a, na_label a) \<longrightarrow> load_key B p l t = load_key B p l s)
     | (Err e, t) \<Rightarrow> cs_rows t = cs_rows s \<and> (\<forall>p l. load_key B p l t = load_key B p l s))"

definition remove_effect ::
    "'k keyring_api \<Rightarrow> string \<Rightarrow> string \<Rightarrow> 'k cred_store \<Rightarrow> (unit, cred_error) result \<times> 'k cred_store \<Rightarrow> bool" where
  "remove_effect B p l s res \<longleftrightarrow>
    (fst res = Ok () \<longleftrightarrow> map_of (cs_rows s) (p, l) \<noteq> None) \<and>
    load_key B p l (snd res) = Err (CNotFound p l) \<and>
    (\<forall>q m. (q, m) \<noteq> (p, l) \<longrightarrow> load_key B q m (snd res) = load_key B q m s)"

context keyring_backend begin

lemma add_effect_holds:
  assumes fresh: "key_id \<notin> key_ids (cs_rows s)"
  shows "add_effect B a s (add B a key_id row_id now s)"
proof (cases rule: add_cases [of B a key_id row_id now s])
  case (refused e k)
  have "load_key B p l (s\<lparr> cs_backend := k \<rparr>) = load_key B p l s" for p l
  proof (rule load_key_cong)
    show "kr_load B (ac_key_id r) (cs_backend (s\<lparr> cs_backend := k \<rparr>)) = kr_load B (ac_key_id r) (cs_backend s)"
      if "map_of (cs_rows s) (p, l) = Some r" for r
      using refused(2) load_store_other [of key_id _ _ "Err e" k "ac_key_id r"] key_ids_map_of [OF that] fresh
      by auto
  qed simp
  then show ?thesis by (simp add: refused(1) add_effect_def)
next
  case (duplicate k1)
  have "load_key B p l (s\<lparr> cs_backend := snd (kr_delete B key_id k1) \<rparr>) = load_key B p l s" for p l
    using duplicate(3) fresh
    by (intro load_key_cong) (auto dest!: key_ids_map_of intro!: store_delete_other [OF _ prod.collapse [symmetric]])
  then show ?thesis by (simp add: duplicate(1) add_effect_def)
next
  case (added ep k1 row rows)
  let ?r = "new_row a ep key_id row_id now"
  have p: "ac_provider ?r = na_provider a" "ac_label ?r = na_label a" "ac_key_id ?r = key_id"
    by (simp_all add: new_row_def)
  obtain rows1 d where row: "row = ?r\<lparr> ac_is_default := d \<rparr>"
    and i: "rows = rows1 @ [((na_provider a, na_label a), row)]"
    and r1: "rows1 = (if ac_is_default ?r then map_rows (drop_default (na_provider a)) (cs_rows s) else cs_rows s)"
    using insert_row_eq [of "cs_rows s" ?r] added(2,6) by (auto simp: p)
  have k: "map_option ac_key_id (map_of rows1 k) = map_option ac_key_id (map_of (cs_rows s) k)" for k
    by (auto simp: r1 map_of_map_rows drop_default_def map_option_case split: option.splits)
  have n: "map_of rows1 (na_provider a, na_label a) = None"
    using k [of "(na_provider a, na_label a)"] added(2) by simp
  have o: "load_key B q m \<lparr> cs_rows = rows, cs_backend = k1 \<rparr> = load_key B q m s"
    if ne: "(q, m) \<noteq> (na_provider a, na_label a)" for q m
  proof (rule load_key_cong)
    have "map_of rows (q, m) = map_of rows1 (q, m)"
      using ne by (auto simp: i map_add_def split: option.splits)
    then show "map_option ac_key_id (map_of (cs_rows \<lparr> cs_rows = rows, cs_backend = k1 \<rparr>) (q, m)) =
        map_option ac_key_id (map_of (cs_rows s) (q, m))" using k by simp
    show "kr_load B (ac_key_id r) (cs_backend \<lparr> cs_rows = rows, cs_backend = k1 \<rparr>) =
        kr_load B (ac_key_id r) (cs_backend s)" if "map_of (cs_rows s) (q, m) = Some r" for r
      using load_store_other [OF added(5), of "ac_key_id r"] key_ids_map_of [OF that] fresh
      by (cases "ac_key_id r = key_id") auto
  qed
  have m: "map_of rows (na_provider a, na_label a) = Some row"
    using n by (simp add: i map_add_def)
  then have "load_key B (na_provider a) (na_label a) \<lparr> cs_rows = rows, cs_backend = k1 \<rparr> = Ok (na_api_key a)"
    using load_store [OF added(5)] by (simp add: load_key_def get_locked_def row p)
  with m o added(1,2) show ?thesis by (simp add: add_effect_def)
qed

lemma remove_effect_holds:
  assumes inv: "rows_inv (cs_rows s)"
  shows "remove_effect B p l s (remove_account B p l s)"
proof (cases "map_of (cs_rows s) (p, l)")
  case None
  then show ?thesis by (simp add: remove_effect_def remove_account_def load_key_def get_locked_def)
next
  case (Some r)
  let ?t = "\<lparr> cs_rows = AList.delete (p, l) (cs_rows s),
      cs_backend = snd (kr_delete B (ac_key_id r) (cs_backend s)) \<rparr>"
  have e: "remove_account B p l s = (Ok (), ?t)" using Some by (simp add: remove_account_def)
  have "load_key B q m ?t = load_key B q m s" if ne: "(q, m) \<noteq> (p, l)" for q m
  proof (rule load_key_cong)
    show "map_option ac_key_id (map_of (cs_rows ?t) (q, m)) = map_option ac_key_id (map_of (cs_rows s) (q, m))"
      using ne by (auto simp: delete_conv')
    show "kr_load B (ac_key_id r') (cs_backend ?t) = kr_load B (ac_key_id r') (cs_backend s)"
      if "map_of (cs_rows s) (q, m) = Some r'" for r'
      using distinct_key_ids [OF inv that Some ne]
      by (auto intro: load_delete_other [OF prod.collapse [symmetric]])
  qed
  moreover have "load_key B p l ?t = Err (CNotFound p l)"
    by (simp add: load_key_def get_locked_def delete_conv')
  ultimately show ?thesis using Some by (simp add: remove_effect_def e)
qed

end


text \<open>The life of a key, over the plaintext-file backend with any failures of its writes: an
  addition that succeeds makes exactly the new account's key loadable, and one that is refused, fails
  to write or finds a duplicate changes no row and no key that loads, the half-written key being
  rolled back; removing an account makes exactly its key unloadable.\<close>

theorem account_key_lifecycle:
  assumes "cred_reach (file_backend enc) s" "key_id \<notin> key_ids (cs_rows s)"
  shows "add_effect (file_backend enc) a s (add (file_backend enc) a key_id row_id now s) \<and>
    remove_effect (file_backend enc) p l s (remove_account (file_backend enc) p l s)"
  using file_kr.add_effect_holds [OF assms(2)] file_kr.remove_effect_holds [OF reach_rows_inv [OF assms(1)]]
  by blast

definition demo_store :: "file_keyring cred_store" where
  "demo_store = with_backend \<lparr> fk_map = [], fk_file = None, fk_faults = [] \<rparr>"

definition demo_account :: new_account where
  "demo_account = new_account_new ''openai'' ''work'' ''sk-1''"

definition demo_store1 :: "file_keyring cred_store" where
  "demo_store1 = snd (add (file_backend demo_enc) demo_account ''k1'' ''r1'' 0 demo_store)"

lemma demo_store1_reach: "cred_reach (file_backend demo_enc) demo_store1"
  unfolding demo_store1_def demo_store_def
  by (rule reach_add [OF reach_new]) (simp add: with_backend_def key_ids_def)

lemma demo_key_ids: "key_ids (cs_rows demo_store1) = {''k1''}"
  unfolding key_ids_def set_map [symmetric] by code_simp

theorem account_key_lifecycle_witness:
  "load_key (file_backend demo_enc) ''openai'' ''work'' demo_store1 = Ok ''sk-1'' \<and>
   add_effect (file_backend demo_enc) demo_account demo_store1
     (add (file_backend demo_enc) demo_account ''k2'' ''r2'' 5 demo_store1) \<and>
   fst (add (file_backend demo_enc) demo_account ''k2'' ''r2'' 5 demo_store1) =
     Err (CDuplicate ''openai'' ''work'')"
proof (intro conjI)
  show "load_key (file_backend demo_enc) ''openai'' ''work'' demo_store1 = Ok ''sk-1''" by code_simp
  show "add_effect (file_backend demo_enc) demo_account demo_store1
     (add (file_backend demo_enc) demo_account ''k2'' ''r2'' 5 demo_store1)"
    using account_key_lifecycle [OF demo_store1_reach, of "''k2''" demo_account] by (simp add: demo_key_ids)
  show "fst (add (file_backend demo_enc) demo_account ''k2'' ''r2'' 5 demo_store1) =
     Err (CDuplicate ''openai'' ''work'')" by code_simp
qed


subsection \<open>The invariant and the choice of an account\<close>

lemma find_unique:
  assumes "length (filter P xs) \<le> 1"
  shows "List.find P xs = Some x \<longleftrightarrow> x \<in> set xs \<and> P x"
  using assms
proof (induction xs)
  case Nil
  then show ?case by simp
next
  case (Cons y xs)
  show ?case
  proof (cases "P y")
    case True
    with Cons.prems have "filter P xs = []" by simp
    then have "\<forall>z \<in> set xs. \<not> P z" by (simp add: filter_empty_conv)
    with True show ?thesis by auto
  next
    case False
    with Cons show ?thesis by auto
  qed
qed

lemma row_in_map_of: "rows_inv rows \<Longrightarrow> a \<in> set (map snd rows) \<longleftrightarrow>
    map_of rows (ac_provider a, ac_label a) = Some a"
proof -
  assume r: "rows_inv rows"
  then have d: "distinct (map fst rows)" and o: "\<forall>x \<in> set rows. fst x = (ac_provider (snd x), ac_label (snd x))"
    by (auto simp: rows_inv_def row_ok_def)
  have "a \<in> set (map snd rows) \<longleftrightarrow> ((ac_provider a, ac_label a), a) \<in> set rows"
    using o by force
  with d show ?thesis by simp
qed

text \<open>What the rows of a store promise its clients: accounts are identified by provider and label and
  hold validated data, each provider has at most one default, which is the one reported, and the
  listing is sorted.\<close>

definition store_ok :: "'k cred_store \<Rightarrow> bool" where
  "store_ok s \<longleftrightarrow>
    sorted (map (\<lambda>a. (ac_provider a, ac_label a)) (list_accounts s)) \<and>
    distinct (map (\<lambda>a. (ac_provider a, ac_label a)) (list_accounts s)) \<and>
    distinct (map ac_key_id (list_accounts s)) \<and>
    (\<forall>a \<in> set (list_accounts s). validate_provider (ac_provider a) = Ok () \<and>
       validate_label (ac_label a) = Ok () \<and> validate_endpoint (ac_endpoint a) = Ok () \<and>
       get_locked s (ac_provider a) (ac_label a) = Ok a) \<and>
    (\<forall>p a. get_default p s = Some a \<longleftrightarrow> a \<in> set (list_accounts s) \<and> ac_provider a = p \<and> ac_is_default a)"

lemma list_accounts_set [simp]: "set (list_accounts s) = snd ` set (cs_rows s)"
  by (simp add: list_accounts_def)

lemma distinct_map_sort_key: "distinct (map g (sort_key f xs)) \<longleftrightarrow> distinct (map g xs)"
  by (simp add: distinct_map)

text \<open>C13: every store that the operations can reach is sound, over any keyring, however it fails:
  accounts are unique by provider and label, sorted when listed, hold only validated names and
  endpoints, have distinct keys, and each provider has at most one default account, the one that
  \<^verbatim>\<open>get_default\<close> returns.\<close>

theorem cred_store_sound:
  assumes "cred_reach B s"
  shows "store_ok s"
proof -
  have r: "rows_inv (cs_rows s)" by (rule reach_rows_inv [OF assms])
  let ?k = "\<lambda>a. (ac_provider a, ac_label a)"
  have fst_eq: "map fst (cs_rows s) = map ?k (map snd (cs_rows s))"
    using r by (auto simp: rows_inv_def row_ok_def)
  have "distinct (map ?k (list_accounts s))"
    using r unfolding list_accounts_def distinct_map_sort_key fst_eq [symmetric] by (simp add: rows_inv_def)
  moreover have "distinct (map ac_key_id (list_accounts s))"
    using r unfolding list_accounts_def distinct_map_sort_key by (simp add: rows_inv_def)
  moreover have "get_locked s (ac_provider a) (ac_label a) = Ok a" if "a \<in> set (list_accounts s)" for a
    using that row_in_map_of [OF r, of a] by (simp add: get_locked_def)
  moreover have "get_default p s = Some a \<longleftrightarrow> a \<in> set (list_accounts s) \<and> ac_provider a = p \<and> ac_is_default a" for p a
  proof -
    have "length (filter (\<lambda>r. ac_provider r = p \<and> ac_is_default r) (map snd (cs_rows s))) = defaults p (cs_rows s)"
      by (simp add: defaults_def filter_map o_def)
    then have "length (filter (\<lambda>r. ac_provider r = p \<and> ac_is_default r) (map snd (cs_rows s))) \<le> 1"
      using r by (simp add: rows_inv_def)
    from find_unique [OF this, of a] show ?thesis by (simp add: get_default_def)
  qed
  moreover have "sorted (map ?k (list_accounts s))" by (simp add: list_accounts_def)
  ultimately show ?thesis using r unfolding store_ok_def by (auto simp: rows_inv_def row_ok_def)
qed

theorem cred_store_sound_witness:
  "store_ok demo_store1 \<and> get_default ''openai'' demo_store1 \<noteq> None"
proof
  show "store_ok demo_store1" by (rule cred_store_sound [OF demo_store1_reach])
  show "get_default ''openai'' demo_store1 \<noteq> None" by code_simp
qed


lemma arg_min_list_first:
  "xs \<noteq> [] \<Longrightarrow> \<exists>ys zs. xs = ys @ arg_min_list f xs # zs \<and>
     (\<forall>y \<in> set ys. (f :: 'a \<Rightarrow> 'b::linorder) (arg_min_list f xs) < f y) \<and>
     (\<forall>z \<in> set zs. f (arg_min_list f xs) \<le> f z)"
proof (induction f xs rule: arg_min_list.induct)
  case (1 f x)
  then show ?case by (intro exI [of _ "[]"]) simp
next
  case (2 f x y zs)
  let ?m = "arg_min_list f (y # zs)"
  from 2 obtain us vs where m: "y # zs = us @ ?m # vs" "\<forall>u \<in> set us. f ?m < f u" "\<forall>v \<in> set vs. f ?m \<le> f v"
    by blast
  show ?case
  proof (cases "f x \<le> f ?m")
    case True
    then have "arg_min_list f (x # y # zs) = x" by (simp add: Let_def)
    moreover have "f x \<le> f z" if "z \<in> set (y # zs)" for z
    proof -
      from that have "z \<in> set (us @ ?m # vs)" by (simp only: m(1) [symmetric])
      then have "f ?m \<le> f z" using m(2,3) by auto
      with True show ?thesis by (rule order_trans)
    qed
    ultimately show ?thesis by (intro exI [of _ "[]"] exI [of _ "y # zs"]) simp
  next
    case False
    then have "arg_min_list f (x # y # zs) = ?m" by (simp add: Let_def)
    with False m show ?thesis by (intro exI [of _ "x # us"] exI [of _ vs]) auto
  qed
next
  case (3 f)
  then show ?case by simp
qed

lemma min_by_key_Some:
  assumes "min_by_key f xs = Some m"
  obtains ys zs where "xs = ys @ m # zs" "\<forall>y \<in> set ys. (f m :: 'b::linorder) < f y" "\<forall>z \<in> set zs. f m \<le> f z"
  using assms arg_min_list_first [of xs f] unfolding min_by_key_def by (auto split: if_splits)

text \<open>The accounts \<open>resolve\<close> chooses from.\<close>

definition eligible :: "int \<Rightarrow> string \<Rightarrow> 'k cred_store \<Rightarrow> account list" where
  "eligible now p s = filter (is_eligible_at now) (list_for_provider p s)"

lemma eligible_set:
  "a \<in> set (eligible now p s) \<longleftrightarrow> a \<in> snd ` set (cs_rows s) \<and> ac_provider a = p \<and> is_eligible_at now a"
  by (auto simp: eligible_def list_for_provider_def of_provider_def)

lemma resolve_cases:
  "resolve B now p s =
    (case min_by_key ac_last_used_at (eligible now p s) of
       None \<Rightarrow> Err (CNoEligible p)
     | Some a \<Rightarrow> map_ok (\<lambda>k. (a, k)) (load_key B (ac_provider a) (ac_label a) s))"
  by (cases "list_for_provider p s = []") (simp_all add: resolve_def eligible_def Let_def min_by_key_def)

lemma eligible_sorted: "sorted (map ac_label (eligible now p s))"
  unfolding eligible_def list_for_provider_def by (rule sorted_filter) simp

text \<open>The choice of an account: it is refused as not eligible exactly when the provider has no
  account that is active or whose cooldown is over, and otherwise, provided its key loads, the
  account chosen is an eligible one of the provider, with its own key, and no eligible account was
  used longer ago, or as long ago and has a smaller label; a dead account is never chosen.\<close>

theorem resolve_spec:
  assumes "cred_reach B s"
  shows "case resolve B now p s of
      Ok (a, key) \<Rightarrow>
        a \<in> set (list_accounts s) \<and> ac_provider a = p \<and> is_eligible_at now a \<and> ac_status a \<noteq> AcDead \<and>
        load_key B p (ac_label a) s = Ok key \<and>
        (\<forall>b \<in> set (list_accounts s). ac_provider b = p \<and> is_eligible_at now b \<longrightarrow>
           (ac_last_used_at a, ac_label a) \<le> (ac_last_used_at b, ac_label b))
    | Err e \<Rightarrow>
        (e = CNoEligible p \<and> (\<forall>b \<in> set (list_accounts s). ac_provider b = p \<longrightarrow> \<not> is_eligible_at now b)) \<or>
        (\<exists>a \<in> set (list_accounts s). ac_provider a = p \<and> is_eligible_at now a \<and>
           load_key B p (ac_label a) s = Err e)"
proof (cases "min_by_key ac_last_used_at (eligible now p s)")
  case None
  then have "eligible now p s = []" by (simp add: min_by_key_def split: if_splits)
  then have "\<forall>b \<in> set (list_accounts s). ac_provider b = p \<longrightarrow> \<not> is_eligible_at now b"
    using eligible_set [of _ now p s] by auto
  with None show ?thesis by (simp add: resolve_cases)
next
  case (Some a)
  then obtain ys zs where x: "eligible now p s = ys @ a # zs"
      "\<forall>y \<in> set ys. ac_last_used_at a < ac_last_used_at y" "\<forall>z \<in> set zs. ac_last_used_at a \<le> ac_last_used_at z"
    by (rule min_by_key_Some)
  then have a: "a \<in> snd ` set (cs_rows s)" "ac_provider a = p" "is_eligible_at now a"
    using eligible_set [of a now p s] by simp_all
  have "ac_status a \<noteq> AcDead" using a(3) by (auto simp: is_eligible_at_def)
  moreover have "(ac_last_used_at a, ac_label a) \<le> (ac_last_used_at b, ac_label b)"
    if "b \<in> snd ` set (cs_rows s)" "ac_provider b = p" "is_eligible_at now b" for b
  proof -
    from that have "b \<in> set (ys @ a # zs)" using eligible_set [of b now p s] x(1) by simp
    moreover have "\<forall>z \<in> set zs. ac_label a \<le> ac_label z"
      using eligible_sorted [of now p s] by (simp add: x(1) sorted_append)
    ultimately show ?thesis using x(2,3) by (auto simp: less_eq_prod_def order.order_iff_strict)
  qed
  ultimately show ?thesis
    using a Some by (cases "load_key B p (ac_label a) s") (auto simp: resolve_cases)
qed


definition demo_store2 :: "file_keyring cred_store" where
  "demo_store2 = snd (add (file_backend demo_enc) (new_account_new ''openai'' ''alt'' ''sk-2'')
     ''k2'' ''r2'' 1 demo_store1)"

lemma demo_store2_reach: "cred_reach (file_backend demo_enc) demo_store2"
  unfolding demo_store2_def by (rule reach_add [OF demo_store1_reach]) (simp add: demo_key_ids)

theorem resolve_spec_witness:
  "map ac_label (list_accounts demo_store2) = [''alt'', ''work''] \<and>
   map_ok snd (resolve (file_backend demo_enc) 9 ''openai'' demo_store2) = Ok ''sk-2'' \<and>
   (\<exists>a. resolve (file_backend demo_enc) 9 ''openai'' demo_store2 = Ok (a, ''sk-2'') \<and>
      ac_status a \<noteq> AcDead)"
proof (intro conjI)
  show "map ac_label (list_accounts demo_store2) = [''alt'', ''work'']" by code_simp
  show r: "map_ok snd (resolve (file_backend demo_enc) 9 ''openai'' demo_store2) = Ok ''sk-2''" by code_simp
  then obtain a where a: "resolve (file_backend demo_enc) 9 ''openai'' demo_store2 = Ok (a, ''sk-2'')" by auto
  with resolve_spec [OF demo_store2_reach, where now = 9 and p = "''openai''"]
  show "\<exists>a. resolve (file_backend demo_enc) 9 ''openai'' demo_store2 = Ok (a, ''sk-2'') \<and> ac_status a \<noteq> AcDead"
    by auto
qed

text \<open>The choice never rotates: no operation of the store records when an account was used, so in
  every reachable store the account chosen is the eligible one with the smallest label, however
  often it was chosen before, and a second account is used only while the first is not eligible.\<close>

theorem resolve_never_rotates:
  assumes "cred_reach B s" "resolve B now p s = Ok (a, key)"
    and "b \<in> set (list_accounts s)" "ac_provider b = p" "is_eligible_at now b"
  shows "ac_last_used_at a = None \<and> ac_label a \<le> ac_label b"
proof -
  have r: "rows_inv (cs_rows s)" by (rule reach_rows_inv [OF assms(1)])
  obtain m where m: "min_by_key ac_last_used_at (eligible now p s) = Some m" "m = a"
    using assms(2) by (auto simp: resolve_cases split: option.splits)
  from m(1) obtain ys zs where x: "eligible now p s = ys @ m # zs"
      "\<forall>y \<in> set ys. ac_last_used_at m < ac_last_used_at y"
    by (rule min_by_key_Some)
  have none: "ac_last_used_at c = None" if "c \<in> set (eligible now p s)" for c
    using that r by (auto simp: eligible_set rows_inv_def row_ok_def)
  have "ys = []" using x none by (cases ys) auto
  moreover have "b \<in> set (eligible now p s)" using assms(3-5) by (simp add: eligible_set)
  ultimately show ?thesis
    using none [of a] eligible_sorted [of now p s] x(1) m(2) by auto
qed

theorem resolve_never_rotates_witness:
  "\<exists>a b. resolve (file_backend demo_enc) 9 ''openai'' demo_store2 = Ok (a, ''sk-2'') \<and>
     b \<in> set (list_accounts demo_store2) \<and> ac_label b = ''work'' \<and> ac_label a \<le> ac_label b"
proof -
  have "map_ok snd (resolve (file_backend demo_enc) 9 ''openai'' demo_store2) = Ok ''sk-2''" by code_simp
  then obtain a where a: "resolve (file_backend demo_enc) 9 ''openai'' demo_store2 = Ok (a, ''sk-2'')" by auto
  have "list_ex (\<lambda>b. ac_provider b = ''openai'' \<and> is_eligible_at 9 b \<and> ac_label b = ''work'')
      (list_accounts demo_store2)" by code_simp
  then obtain b where b: "b \<in> set (list_accounts demo_store2)" "ac_provider b = ''openai''"
      "is_eligible_at 9 b" "ac_label b = ''work''" unfolding list_ex_iff by blast
  from resolve_never_rotates [OF demo_store2_reach a b(1-3)] a b show ?thesis by blast
qed

text \<open>A dead account does not stay out of rotation: after \<^verbatim>\<open>mark_dead\<close> it is not eligible at any
  time, but a later \<^verbatim>\<open>mark_cooldown\<close>, the answer to a transient failure, makes it eligible again
  as soon as the cooldown is over.\<close>

theorem cooldown_revives_dead:
  assumes "get_locked s p l = Ok r"
  shows "\<exists>r1 r2. get_locked (snd (mark_dead p l s)) p l = Ok r1 \<and> \<not> is_eligible_at now r1 \<and>
    get_locked (snd (mark_cooldown p l t (snd (mark_dead p l s)))) p l = Ok r2 \<and>
    (is_eligible_at now r2 \<longleftrightarrow> t \<le> now)"
  using assms
  by (auto simp: get_locked_def mark_dead_def mark_cooldown_def set_status_def update_conv' is_eligible_at_def)

theorem cooldown_revives_dead_witness:
  "\<exists>r2. get_locked (snd (mark_cooldown ''openai'' ''work'' 5 (snd (mark_dead ''openai'' ''work'' demo_store1))))
      ''openai'' ''work'' = Ok r2 \<and> is_eligible_at 9 r2"
proof -
  have "is_ok (get_locked demo_store1 ''openai'' ''work'')" by code_simp
  then obtain r where "get_locked demo_store1 ''openai'' ''work'' = Ok r" by (auto simp: is_ok_iff)
  from cooldown_revives_dead [OF this, where now = 9 and t = 5] show ?thesis by auto
qed

end
