(* ===== verification/Slash.thy ===== *)
theory Slash
  imports RustStr
begin

text \<open>
  The slash-command parser of the terminal interface (\<^verbatim>\<open>tui/src/slash.rs\<close>): the commands, the
  errors, and one parser per command that takes arguments. \<open>show_command\<close> writes a command the way a
  user types it; the theorem at the end says that the parser is its inverse.
\<close>

subsection \<open>Commands\<close>

definition ALL_SLASH_COMMANDS :: "string list" where
  "ALL_SLASH_COMMANDS =
    [''help'', ''sessions'', ''resume'', ''new'', ''compact'', ''model'', ''models'', ''config'',
     ''plugin'', ''memory'', ''export'', ''clear'', ''quit'']"

datatype memory_layer = LSession | LProject | LUser | LGlobal

datatype parsed_command =
    CHelp
  | CSessions bool
  | CResume string
  | CNew
  | CCompact
  | CModel string
  | CModels
  | CConfig string "string option"
  | CPlugin
  | CMemory memory_layer
  | CExport "string option"
  | CClear
  | CQuit

datatype slash_error =
    UnknownCommand string
  | MissingArgument string
  | InvalidArgument string string

subsection \<open>Parsers\<close>

definition expect_no_args :: "string list \<Rightarrow> string \<Rightarrow> (unit, slash_error) result" where
  "expect_no_args args cmd =
    (if args \<noteq> [] then
       Err (InvalidArgument ''extra_args''
         (''/'' @ cmd @ '' takes no arguments; got '' @ show_nat (length args)))
     else Ok ())"

fun sessions_flags :: "string list \<Rightarrow> bool \<Rightarrow> (bool, slash_error) result" where
  "sessions_flags [] acc = Ok acc"
| "sessions_flags (a # args) acc =
    (if a = ''--all'' then sessions_flags args True
     else Err (InvalidArgument ''sessions'' (''unknown flag: '' @ a)))"

definition parse_sessions :: "string list \<Rightarrow> (parsed_command option, slash_error) result" where
  "parse_sessions args = map_ok (\<lambda>b. Some (CSessions b)) (sessions_flags args False)"

definition parse_resume :: "string list \<Rightarrow> (parsed_command option, slash_error) result" where
  "parse_resume args =
    (case args of
       [] \<Rightarrow> Err (MissingArgument ''id'')
     | s # _ \<Rightarrow>
         if s = [] then Err (MissingArgument ''id'')
         else if 1 < length args then
           Err (InvalidArgument ''extra_args'' (''/resume takes a single id; got '' @ show_nat (length args)))
         else Ok (Some (CResume s)))"

definition parse_model :: "string list \<Rightarrow> (parsed_command option, slash_error) result" where
  "parse_model args =
    (case args of
       [] \<Rightarrow> Err (MissingArgument ''name'')
     | s # _ \<Rightarrow>
         if s = [] then Err (MissingArgument ''name'')
         else if 1 < length args then
           Err (InvalidArgument ''extra_args'' (''/model takes a single name; got '' @ show_nat (length args)))
         else Ok (Some (CModel s)))"

definition parse_config :: "string list \<Rightarrow> (parsed_command option, slash_error) result" where
  "parse_config args =
    (case args of
       [] \<Rightarrow> Err (MissingArgument ''key'')
     | s # rest \<Rightarrow>
         if s = [] then Err (MissingArgument ''key'')
         else Ok (Some (CConfig s (if rest = [] then None else Some (join '' '' rest)))))"

definition parse_layer :: "string list \<Rightarrow> (memory_layer, slash_error) result" where
  "parse_layer args =
    (case args of
       [] \<Rightarrow> Ok LSession
     | s # _ \<Rightarrow>
         if s = [] then Ok LSession
         else if s = ''session'' then Ok LSession
         else if s = ''project'' then Ok LProject
         else if s = ''user'' then Ok LUser
         else if s = ''global'' then Ok LGlobal
         else Err (InvalidArgument ''layer''
           (''expected one of session|project|user|global; got `'' @ s @ ''`'')))"

definition parse_memory :: "string list \<Rightarrow> (parsed_command option, slash_error) result" where
  "parse_memory args =
    try_res (parse_layer args) (\<lambda>layer.
      if 1 < length args then
        Err (InvalidArgument ''extra_args'' (''/memory takes at most one layer; got '' @ show_nat (length args)))
      else Ok (Some (CMemory layer)))"

definition parse_export :: "string list \<Rightarrow> (parsed_command option, slash_error) result" where
  "parse_export args =
    (case args of
       [] \<Rightarrow> Ok (Some (CExport None))
     | s # _ \<Rightarrow>
         if 1 < length args then
           Err (InvalidArgument ''extra_args'' (''/export takes at most one path; got '' @ show_nat (length args)))
         else Ok (Some (CExport (Some s))))"

definition no_arg_command ::
    "string list \<Rightarrow> string \<Rightarrow> parsed_command \<Rightarrow> (parsed_command option, slash_error) result" where
  "no_arg_command args n c = map_ok (\<lambda>_. Some c) (expect_no_args args n)"

definition dispatch :: "string \<Rightarrow> string list \<Rightarrow> (parsed_command option, slash_error) result" where
  "dispatch name args =
    (if name = ''help'' then no_arg_command args ''help'' CHelp
     else if name = ''sessions'' then parse_sessions args
     else if name = ''resume'' then parse_resume args
     else if name = ''new'' then no_arg_command args ''new'' CNew
     else if name = ''compact'' then no_arg_command args ''compact'' CCompact
     else if name = ''model'' then parse_model args
     else if name = ''models'' then no_arg_command args ''models'' CModels
     else if name = ''config'' then parse_config args
     else if name = ''plugin'' then no_arg_command args ''plugin'' CPlugin
     else if name = ''memory'' then parse_memory args
     else if name = ''export'' then parse_export args
     else if name = ''clear'' then no_arg_command args ''clear'' CClear
     else if name = ''quit'' then no_arg_command args ''quit'' CQuit
     else Err (UnknownCommand name))"

definition parse_slash_command :: "string \<Rightarrow> (parsed_command option, slash_error) result" where
  "parse_slash_command input =
    (let t = trim_start input in
     if \<not> starts_with ''/'' t then Ok None
     else case split_whitespace (tl t) of
       [] \<Rightarrow> Err (UnknownCommand [])
     | name # args \<Rightarrow> dispatch name args)"

subsection \<open>Typing a command\<close>

fun layer_name :: "memory_layer \<Rightarrow> string" where
  "layer_name LSession = ''session''"
| "layer_name LProject = ''project''"
| "layer_name LUser = ''user''"
| "layer_name LGlobal = ''global''"

fun command_words :: "parsed_command \<Rightarrow> string list" where
  "command_words CHelp = [''help'']"
| "command_words (CSessions b) = ''sessions'' # (if b then [''--all''] else [])"
| "command_words (CResume i) = [''resume'', i]"
| "command_words CNew = [''new'']"
| "command_words CCompact = [''compact'']"
| "command_words (CModel n) = [''model'', n]"
| "command_words CModels = [''models'']"
| "command_words (CConfig k None) = [''config'', k]"
| "command_words (CConfig k (Some v)) = [''config'', k, v]"
| "command_words CPlugin = [''plugin'']"
| "command_words (CMemory l) = [''memory'', layer_name l]"
| "command_words (CExport None) = [''export'']"
| "command_words (CExport (Some p)) = [''export'', p]"
| "command_words CClear = [''clear'']"
| "command_words CQuit = [''quit'']"

definition show_command :: "parsed_command \<Rightarrow> string" where
  "show_command c = ''/'' @ join '' '' (command_words c)"

text \<open>The values a command can carry: one word each, except for the value of a setting, which is one
  or more words with single spaces between them.\<close>

fun wf_command :: "parsed_command \<Rightarrow> bool" where
  "wf_command (CResume i) \<longleftrightarrow> token i"
| "wf_command (CModel n) \<longleftrightarrow> token n"
| "wf_command (CConfig k None) \<longleftrightarrow> token k"
| "wf_command (CConfig k (Some v)) \<longleftrightarrow> token k \<and> (\<exists>ws. ws \<noteq> [] \<and> (\<forall>w \<in> set ws. token w) \<and> v = join '' '' ws)"
| "wf_command (CExport (Some p)) \<longleftrightarrow> token p"
| "wf_command _ \<longleftrightarrow> True"

text \<open>A word of printable ASCII is a token.\<close>

lemma token_ascii: "w \<noteq> [] \<Longrightarrow> \<forall>c \<in> set w. 32 < byte c \<and> byte c < 127 \<Longrightarrow> token w"
proof -
  assume w: "w \<noteq> []" "\<forall>c \<in> set w. 32 < byte c \<and> byte c < 127"
  have "chars w = map (\<lambda>c. [c]) w" using w(2) by (intro chars_ascii) (force simp: ascii_def)
  moreover have "\<not> is_ws [c]" if "c \<in> set w" for c
    using w(2) that by (auto simp: is_ws_def white_space_def byte_def)
  ultimately show ?thesis using w by (cases w) (force simp: token_def is_cont_def)+
qed

subsection \<open>The parser inverts typing\<close>

lemma trim_start_slash:
  assumes "all_ws pre" shows "trim_start (pre @ CHR ''/'' # r) = CHR ''/'' # r"
proof -
  have n: "\<not> is_cont CHR ''/''" by (simp add: is_cont_def byte_def)
  have "chars (pre @ CHR ''/'' # r) = chars pre @ chars (CHR ''/'' # r)"
    using n by (intro chars_append) simp
  moreover have "\<not> is_ws (CHR ''/'' # takeWhile is_cont r)" by (auto simp: is_ws_def white_space_def)
  ultimately have "dropWhile is_ws (chars (pre @ CHR ''/'' # r)) = chars (CHR ''/'' # r)"
    using assms by (simp add: all_ws_def dropWhile_append)
  then show ?thesis by (simp only: trim_start_def concat_chars)
qed

lemma join_nested: "ws \<noteq> [] \<Longrightarrow> join sep [x, y, join sep ws] = join sep (x # y # ws)"
  by (simp add: join_Cons)

text \<open>The words of a typed command, with a setting's value taken apart.\<close>

lemma typed_words:
  assumes "wf_command c"
  obtains ws where "show_command c = CHR ''/'' # join '' '' ws" "\<forall>w \<in> set ws. token w" "ws \<noteq> []"
    "dispatch (hd ws) (tl ws) = Ok (Some c)"
proof -
  note d = dispatch_def no_arg_command_def expect_no_args_def parse_sessions_def parse_resume_def
    parse_model_def parse_config_def parse_memory_def parse_layer_def parse_export_def show_command_def
  have t: "token ''help''" "token ''sessions''" "token ''--all''" "token ''resume''" "token ''new''"
    "token ''compact''" "token ''model''" "token ''models''" "token ''config''" "token ''plugin''"
    "token ''memory''" "token ''export''" "token ''clear''" "token ''quit''"
    "token ''session''" "token ''project''" "token ''user''" "token ''global''"
    by (rule token_ascii; simp add: byte_def)+
  have ne: "token w \<Longrightarrow> w \<noteq> []" for w by (simp add: token_def)
  show thesis
  proof (cases c)
    case (CMemory l)
    then show thesis using that [of "command_words c"] t by (cases l) (auto simp: d)
  next
    case (CConfig k v)
    show thesis
    proof (cases v)
      case None
      then show thesis using that [of "command_words c"] t assms CConfig by (auto simp: d dest: ne)
    next
      case (Some u)
      with assms CConfig obtain ws where w: "ws \<noteq> []" "\<forall>w \<in> set ws. token w" "u = join '' '' ws" "token k"
        by auto
      then have "show_command c = CHR ''/'' # join '' '' (''config'' # k # ws)"
        using CConfig Some by (simp add: show_command_def join_Cons)
      then show thesis using that [of "''config'' # k # ws"] t w CConfig Some by (auto simp: d dest: ne)
    qed
  next
    case (CExport q)
    then show thesis using that [of "command_words c"] t assms by (cases q) (auto simp: d)
  qed (use that [of "command_words c"] t assms in \<open>auto simp: d dest: ne split: if_splits\<close>)
qed

lemma sessions_flags_bool: "sessions_flags args b = Ok c \<Longrightarrow> wf_command (CSessions c)"
  by simp

lemma dispatch_wf:
  assumes "dispatch n args = Ok (Some c)" "\<forall>w \<in> set args. token w"
  shows "wf_command c"
  using assms(1)[unfolded dispatch_def] assms(2)
  by (auto simp: no_arg_command_def parse_sessions_def parse_resume_def parse_model_def parse_config_def
      parse_memory_def parse_export_def split: if_split_asm list.split_asm)

lemma dispatch_not_None: "dispatch n args \<noteq> Ok None"
  by (auto simp: dispatch_def no_arg_command_def parse_sessions_def parse_resume_def parse_model_def
      parse_config_def parse_memory_def parse_export_def split: list.split)

lemma parse_typed:
  assumes "wf_command c" "all_ws pre" shows "parse_slash_command (pre @ show_command c) = Ok (Some c)"
proof -
  obtain ws where "show_command c = CHR ''/'' # join '' '' ws" "\<forall>w \<in> set ws. token w" "ws \<noteq> []"
    "dispatch (hd ws) (tl ws) = Ok (Some c)"
    using assms(1) by (rule typed_words)
  then show ?thesis
    using split_join [of ws] trim_start_slash [OF assms(2)]
    by (cases ws) (simp_all add: parse_slash_command_def starts_with_def)
qed

lemma parse_free_text: "parse_slash_command s = Ok None \<longleftrightarrow> \<not> starts_with ''/'' (trim_start s)"
  by (auto simp: parse_slash_command_def Let_def dispatch_not_None split: list.split)

text \<open>The parser is the inverse of typing: every well-formed command, typed after any white space,
  parses to itself; whatever the input, a command that comes out is well formed (its arguments are
  single words, its setting value is words with single spaces); and a line is free text exactly
  when its first character that is not white space is no slash.\<close>

theorem slash_inverse:
  "(wf_command c \<and> all_ws pre \<longrightarrow> parse_slash_command (pre @ show_command c) = Ok (Some c)) \<and>
   (parse_slash_command s = Ok (Some c) \<longrightarrow> wf_command c) \<and>
   (parse_slash_command s = Ok None \<longleftrightarrow> \<not> starts_with ''/'' (trim_start s))"
proof (intro conjI impI)
  assume "wf_command c \<and> all_ws pre"
  then show "parse_slash_command (pre @ show_command c) = Ok (Some c)" by (simp add: parse_typed)
next
  assume a: "parse_slash_command s = Ok (Some c)"
  then obtain n args where sp: "split_whitespace (tl (trim_start s)) = n # args"
    and d: "dispatch n args = Ok (Some c)"
    by (auto simp: parse_slash_command_def Let_def split: if_splits list.splits)
  have "\<forall>w \<in> set args. token w"
    using split_whitespace_tl_tokens [of _ "tl (trim_start s)"] sp by simp
  with d show "wf_command c" by (rule dispatch_wf)
next
  show "parse_slash_command s = Ok None \<longleftrightarrow> \<not> starts_with ''/'' (trim_start s)" by (rule parse_free_text)
qed

theorem slash_inverse_witness:
  "parse_slash_command (''  '' @ show_command (CConfig ''model.name'' (Some ''gpt 4''))) =
     Ok (Some (CConfig ''model.name'' (Some ''gpt 4'')))"
proof -
  have "token ''model.name''" "token ''gpt''" "token ''4''"
    by (rule token_ascii; simp add: byte_def)+
  then have "wf_command (CConfig ''model.name'' (Some ''gpt 4''))"
    by (auto intro!: exI [of _ "[''gpt'', ''4'']"])
  moreover have "all_ws ''  ''" by code_simp
  ultimately show ?thesis using slash_inverse by blast
qed

end
