(* ===== verification/TextInput.thy ===== *)
theory TextInput
  imports RustStr
begin

text \<open>
  Terminal keys and the one-line text field (\<^verbatim>\<open>TextInput\<close> of \<^verbatim>\<open>tui/src/login_prompt.rs\<close>). A
  \<^verbatim>\<open>char\<close> is the string of its UTF-8 bytes. The field keeps its text as bytes and its cursor as a
  byte offset; slicing or inserting off a character boundary panics, which is \<open>None\<close>. The abstract
  field is a pair of lists of characters, before and after the cursor, and the operations are
  proved to refine it.
\<close>

subsection \<open>Keys\<close>

text \<open>The part of \<^verbatim>\<open>crossterm::event::KeyEvent\<close> that the handlers look at.\<close>

datatype key_code =
    KEsc | KEnter | KTab | KBackspace | KUp | KDown | KLeft | KRight | KChar string | KOther

record key_event =
  ke_code :: key_code
  ke_ctrl :: bool

definition key :: "key_code \<Rightarrow> key_event" where
  "key c = \<lparr> ke_code = c, ke_ctrl = False \<rparr>"

definition is_ctrl_c :: "key_event \<Rightarrow> bool" where
  "is_ctrl_c k \<longleftrightarrow> ke_ctrl k \<and> ke_code k = KChar ''c''"

definition is_ctrl_u :: "key_event \<Rightarrow> bool" where
  "is_ctrl_u k \<longleftrightarrow> ke_ctrl k \<and> ke_code k = KChar ''u''"

text \<open>A character key carries one character.\<close>

definition key_ok :: "key_event \<Rightarrow> bool" where
  "key_ok k \<longleftrightarrow> (\<forall>c. ke_code k = KChar c \<longrightarrow> code_point c)"

text \<open>\<^verbatim>\<open>String::pop\<close>: the string without its last character, \<open>None\<close> when it is empty.\<close>

definition str_pop :: "string \<Rightarrow> string option" where
  "str_pop s = (if s = [] then None else Some (concat (butlast (chars s))))"

subsection \<open>The field\<close>

record text_input =
  ti_value :: string
  ti_cursor :: nat
  ti_masked :: bool

definition text_input_new :: "bool \<Rightarrow> text_input" where
  "text_input_new m = \<lparr> ti_value = [], ti_cursor = 0, ti_masked = m \<rparr>"

text \<open>\<^verbatim>\<open>str::is_char_boundary\<close>, and the slices that panic off a boundary.\<close>

definition is_boundary :: "string \<Rightarrow> nat \<Rightarrow> bool" where
  "is_boundary s i \<longleftrightarrow> i = 0 \<or> i = length s \<or> (i < length s \<and> \<not> is_cont (s ! i))"

definition slice_to :: "string \<Rightarrow> nat \<Rightarrow> string option" where
  "slice_to s i = (if is_boundary s i then Some (take i s) else None)"

definition slice_from :: "string \<Rightarrow> nat \<Rightarrow> string option" where
  "slice_from s i = (if is_boundary s i then Some (drop i s) else None)"

text \<open>\<^verbatim>\<open>char_indices().last()\<close>: the offset of the last character.\<close>

definition last_index :: "string \<Rightarrow> nat option" where
  "last_index s = (if s = [] then None else Some (length s - length (last (chars s))))"

definition ti_insert :: "string \<Rightarrow> text_input \<Rightarrow> text_input option" where
  "ti_insert c t =
    (if is_boundary (ti_value t) (ti_cursor t) then
       Some (t\<lparr> ti_value := take (ti_cursor t) (ti_value t) @ c @ drop (ti_cursor t) (ti_value t),
                ti_cursor := ti_cursor t + length c \<rparr>)
     else None)"

definition ti_backspace :: "text_input \<Rightarrow> text_input option" where
  "ti_backspace t =
    (if ti_cursor t = 0 then Some t
     else case slice_to (ti_value t) (ti_cursor t) of
       None \<Rightarrow> None
     | Some pre \<Rightarrow>
         (case last_index pre of
            None \<Rightarrow> Some t
          | Some i \<Rightarrow> Some (t\<lparr> ti_value := take i (ti_value t) @ drop (ti_cursor t) (ti_value t),
                             ti_cursor := i \<rparr>)))"

definition ti_clear :: "text_input \<Rightarrow> text_input" where
  "ti_clear t = t\<lparr> ti_value := [], ti_cursor := 0 \<rparr>"

definition ti_move_left :: "text_input \<Rightarrow> text_input option" where
  "ti_move_left t =
    (if ti_cursor t = 0 then Some t
     else case slice_to (ti_value t) (ti_cursor t) of
       None \<Rightarrow> None
     | Some pre \<Rightarrow>
         (case last_index pre of None \<Rightarrow> Some t | Some i \<Rightarrow> Some (t\<lparr> ti_cursor := i \<rparr>)))"

definition ti_move_right :: "text_input \<Rightarrow> text_input option" where
  "ti_move_right t =
    (case slice_from (ti_value t) (ti_cursor t) of
       None \<Rightarrow> None
     | Some r \<Rightarrow>
         (case chars r of
            c # _ # _ \<Rightarrow> Some (t\<lparr> ti_cursor := ti_cursor t + length c \<rparr>)
          | _ \<Rightarrow> if ti_value t \<noteq> [] then Some (t\<lparr> ti_cursor := length (ti_value t) \<rparr>) else Some t))"

text \<open>The editing keys, as every step of the wizard handles them.\<close>

fun ti_key :: "key_event \<Rightarrow> text_input \<Rightarrow> text_input option" where
  "ti_key k t =
    (case ke_code k of
       KBackspace \<Rightarrow> ti_backspace t
     | KLeft \<Rightarrow> ti_move_left t
     | KRight \<Rightarrow> ti_move_right t
     | KChar c \<Rightarrow> if is_ctrl_u k then Some (ti_clear t) else ti_insert c t
     | _ \<Rightarrow> Some t)"

subsection \<open>The abstract field\<close>

text \<open>The characters before the cursor and the characters after it.\<close>

type_synonym zipper = "string list \<times> string list"

fun z_key :: "key_event \<Rightarrow> zipper \<Rightarrow> zipper" where
  "z_key k (l, r) =
    (case ke_code k of
       KBackspace \<Rightarrow> (butlast l, r)
     | KLeft \<Rightarrow> (if l = [] then (l, r) else (butlast l, last l # r))
     | KRight \<Rightarrow> (case r of [] \<Rightarrow> (l, r) | c # r' \<Rightarrow> (l @ [c], r'))
     | KChar c \<Rightarrow> if is_ctrl_u k then ([], []) else (l @ [c], r)
     | _ \<Rightarrow> (l, r))"

text \<open>What a field represents.\<close>

definition ti_rep :: "text_input \<Rightarrow> zipper \<Rightarrow> bool" where
  "ti_rep t z \<longleftrightarrow> (\<forall>c \<in> set (fst z @ snd z). code_point c) \<and>
     ti_value t = concat (fst z) @ concat (snd z) \<and> ti_cursor t = length (concat (fst z))"

definition ti_ok :: "text_input \<Rightarrow> bool" where
  "ti_ok t \<longleftrightarrow> (\<exists>z. ti_rep t z)"

lemma code_point_ne: "code_point c \<Longrightarrow> c \<noteq> []"
  by (simp add: code_point_def)

lemma concat_code_points_hd:
  "\<forall>c \<in> set cs. code_point c \<Longrightarrow> concat cs \<noteq> [] \<Longrightarrow> \<not> is_cont (hd (concat cs))"
  by (cases cs) (auto simp: code_point_def)

lemma rep_boundary:
  assumes "ti_rep t (l, r)"
  shows "is_boundary (ti_value t) (ti_cursor t)"
    and "take (ti_cursor t) (ti_value t) = concat l" "drop (ti_cursor t) (ti_value t) = concat r"
    and "chars (concat l) = l" "chars (concat r) = r"
proof -
  from assms have v: "ti_value t = concat l @ concat r" "ti_cursor t = length (concat l)"
    and c: "\<forall>c \<in> set l. code_point c" "\<forall>c \<in> set r. code_point c"
    by (auto simp: ti_rep_def)
  from v show "take (ti_cursor t) (ti_value t) = concat l" "drop (ti_cursor t) (ti_value t) = concat r"
    by simp_all
  show "chars (concat l) = l" "chars (concat r) = r" using c by (simp_all add: chars_concat)
  show "is_boundary (ti_value t) (ti_cursor t)"
  proof (cases "concat r = []")
    case True
    then show ?thesis by (simp add: is_boundary_def v)
  next
    case False
    then have "(concat l @ concat r) ! length (concat l) = hd (concat r)"
      by (simp add: hd_conv_nth nth_append)
    with concat_code_points_hd [OF c(2) False] False show ?thesis
      unfolding is_boundary_def v by simp
  qed
qed

lemma rep_last:
  assumes "ti_rep t (l, r)" "l \<noteq> []"
  shows "last_index (concat l) = Some (length (concat (butlast l)))" "ti_cursor t \<noteq> 0"
proof -
  from assms have c: "\<forall>c \<in> set l. code_point c" and v: "ti_cursor t = length (concat l)"
    by (auto simp: ti_rep_def)
  obtain u x where l: "l = u @ [x]" using assms(2) by (metis append_butlast_last_id)
  then have x: "x \<noteq> []" using c by (auto dest: code_point_ne)
  then show "ti_cursor t \<noteq> 0" by (simp add: v l)
  show "last_index (concat l) = Some (length (concat (butlast l)))"
    using chars_concat [OF c] x by (simp add: last_index_def l)
qed

lemma ti_key_refines:
  assumes rep: "ti_rep t (l, r)" and k: "key_ok k"
  obtains t' where "ti_key k t = Some t'" "ti_rep t' (z_key k (l, r))" "ti_masked t' = ti_masked t"
proof -
  note out = that
  note b = rep_boundary [OF rep]
  from rep have v: "ti_value t = concat l @ concat r" "ti_cursor t = length (concat l)"
    and c: "\<forall>c \<in> set l. code_point c" "\<forall>c \<in> set r. code_point c"
    by (auto simp: ti_rep_def)
  have sl: "slice_to (ti_value t) (ti_cursor t) = Some (concat l)"
    "slice_from (ti_value t) (ti_cursor t) = Some (concat r)"
    using b by (simp_all add: slice_to_def slice_from_def)
  have zero: "ti_cursor t = 0 \<longleftrightarrow> l = []"
    using rep_last(2) [OF rep] v(2) by (cases "l = []") auto
  have left: thesis if kc: "ke_code k = KBackspace \<or> ke_code k = KLeft"
  proof (cases "l = []")
    case True
    then have "ti_key k t = Some t" "z_key k (l, r) = (l, r)"
      using kc zero by (auto simp: ti_backspace_def ti_move_left_def)
    with rep show thesis by (intro out) simp_all
  next
    case False
    obtain u x where l: "l = u @ [x]" using False by (metis append_butlast_last_id)
    have li: "last_index (concat l) = Some (length (concat u))" using rep_last(1) [OF rep False] l by simp
    have nz: "ti_cursor t \<noteq> 0" using False zero by simp
    show thesis
    proof (cases "ke_code k = KBackspace")
      case True
      let ?t = "t\<lparr> ti_value := concat u @ concat r, ti_cursor := length (concat u) \<rparr>"
      have "ti_key k t = Some ?t"
        using True nz sl(1) li b(3) by (simp add: ti_backspace_def v(1)) (simp add: l)
      moreover have "ti_rep ?t (u, r)" using c l by (auto simp: ti_rep_def)
      ultimately show thesis using True l by (intro out [of ?t]) simp_all
    next
      case False
      let ?t = "t\<lparr> ti_cursor := length (concat u) \<rparr>"
      have kl: "ke_code k = KLeft" using kc False by simp
      then have "ti_key k t = Some ?t" using nz sl(1) li by (simp add: ti_move_left_def)
      moreover have "ti_rep ?t (u, x # r)" using c l v by (auto simp: ti_rep_def)
      ultimately show thesis using kl l by (intro out [of ?t]) simp_all
    qed
  qed
  show thesis
  proof (cases "ke_code k")
    case KBackspace
    then show thesis using left by simp
  next
    case KLeft
    then show thesis using left by simp
  next
    case KRight
    show thesis
    proof (cases r)
      case Nil
      have "t\<lparr> ti_cursor := length (ti_value t) \<rparr> = t" using v Nil by simp
      then have "ti_key k t = Some t" using KRight Nil sl(2) by (simp add: ti_move_right_def)
      with rep Nil KRight show thesis by (intro out) simp_all
    next
      case (Cons x xs)
      let ?t = "t\<lparr> ti_cursor := length (concat l) + length x \<rparr>"
      have ne: "ti_value t \<noteq> []" using v(1) Cons c by (auto dest: code_point_ne)
      have "ti_key k t = Some ?t"
        using KRight sl(2) b(5) ne Cons v by (cases xs) (auto simp: ti_move_right_def)
      moreover have "ti_rep ?t (l @ [x], xs)" using c Cons v by (auto simp: ti_rep_def)
      ultimately show thesis using KRight Cons by (intro out [of ?t]) simp_all
    qed
  next
    case (KChar x)
    show thesis
    proof (cases "is_ctrl_u k")
      case True
      with KChar show thesis by (intro out [of "ti_clear t"]) (auto simp: ti_clear_def ti_rep_def)
    next
      case False
      let ?t = "t\<lparr> ti_value := concat l @ x @ concat r, ti_cursor := length (concat l) + length x \<rparr>"
      have "ti_key k t = Some ?t"
        using KChar False b(1-3) v(2) by (simp add: ti_insert_def)
      moreover have "ti_rep ?t (l @ [x], r)" using c k KChar by (auto simp: ti_rep_def key_ok_def)
      ultimately show thesis using KChar False by (intro out [of ?t]) simp_all
    qed
  qed (use rep in \<open>auto intro: out\<close>)
qed

fun ti_keys :: "key_event list \<Rightarrow> text_input \<Rightarrow> text_input option" where
  "ti_keys [] t = Some t"
| "ti_keys (k # ks) t = Option.bind (ti_key k t) (ti_keys ks)"

lemma ti_keys_refines:
  "ti_rep t z \<Longrightarrow> \<forall>k \<in> set ks. key_ok k \<Longrightarrow>
   \<exists>t'. ti_keys ks t = Some t' \<and> ti_rep t' (fold z_key ks z) \<and> ti_masked t' = ti_masked t"
proof (induction ks arbitrary: t z)
  case Nil
  then show ?case by simp
next
  case (Cons k ks)
  obtain l r where z: "z = (l, r)" by (cases z)
  obtain t' where "ti_key k t = Some t'" "ti_rep t' (z_key k (l, r))" "ti_masked t' = ti_masked t"
    using ti_key_refines [of t l r k] Cons.prems z by auto
  with Cons.IH [of t' "z_key k (l, r)"] Cons.prems(2) z show ?case by (auto simp del: ti_key.simps z_key.simps)
qed

lemma ti_rep_new: "ti_rep (text_input_new m) ([], [])"
  by (simp add: ti_rep_def text_input_new_def)



end
