(* ===== verification/Pickers.thy ===== *)
theory Pickers
  imports TextInput
begin

text \<open>
  The three lists with a cursor of the terminal interface: the provider picker of the login wizard
  (\<^verbatim>\<open>ProviderPicker\<close> of \<^verbatim>\<open>tui/src/login_prompt.rs\<close>), the model picker
  (\<^verbatim>\<open>tui/src/model_picker.rs\<close>) and the session list (\<^verbatim>\<open>tui/src/session_list.rs\<close>), with the fuzzy
  match they share. The locale \<open>cursor_list\<close> is what the three have in common; it is interpreted on
  each of them. Lower-casing by the Unicode tables, \<^verbatim>\<open>str::to_lowercase\<close>, is the parameter \<open>low\<close>:
  every theorem holds for any case folding.
\<close>

subsection \<open>Fuzzy match\<close>

text \<open>The loop over the haystack: the characters of the needle that are still to be found.\<close>

fun eat :: "string list \<Rightarrow> string list \<Rightarrow> string list" where
  "eat [] n = n"
| "eat (h # hs) n = eat hs (if n \<noteq> [] \<and> hd n = h then tl n else n)"

definition fuzzy_match :: "(string \<Rightarrow> string) \<Rightarrow> string \<Rightarrow> string \<Rightarrow> bool" where
  "fuzzy_match low haystack needle =
    (if needle = [] then True else eat (chars (low haystack)) (chars (low needle)) = [])"

lemma eat_Nil [simp]: "eat hs [] = []"
  by (induction hs) auto

lemma eat_subseq: "eat hs n = [] \<longleftrightarrow> subseq n hs"
proof (induction hs arbitrary: n)
  case Nil
  then show ?case by (cases n) auto
next
  case (Cons h hs)
  then show ?case by (cases n) auto
qed

subsection \<open>A list with a cursor\<close>

definition cursor_up :: "nat option \<Rightarrow> nat option" where
  "cursor_up c = (case c of Some i \<Rightarrow> if 0 < i then Some (i - 1) else c | None \<Rightarrow> c)"

definition cursor_down :: "nat \<Rightarrow> nat option \<Rightarrow> nat option" where
  "cursor_down n c = (case c of Some i \<Rightarrow> if i + 1 < n then Some (i + 1) else c | None \<Rightarrow> c)"

definition row_at :: "'r list \<Rightarrow> nat option \<Rightarrow> 'r option" where
  "row_at rows c = (case c of Some i \<Rightarrow> if i < length rows then Some (rows ! i) else None | None \<Rightarrow> None)"

definition first_row :: "'r list \<Rightarrow> nat option" where
  "first_row rows = (if rows = [] then None else Some 0)"

text \<open>The cursor is on a row, and nowhere exactly when there is none.\<close>

definition cursor_ok :: "'r list \<Rightarrow> nat option \<Rightarrow> bool" where
  "cursor_ok rows c \<longleftrightarrow> (case c of Some i \<Rightarrow> i < length rows | None \<Rightarrow> rows = [])"

lemma cursor_ok_first [simp]: "cursor_ok rows (first_row rows)"
  by (simp add: cursor_ok_def first_row_def)

lemma cursor_ok_up: "cursor_ok rows c \<Longrightarrow> cursor_ok rows (cursor_up c)"
  by (auto simp: cursor_ok_def cursor_up_def split: option.splits)

lemma cursor_ok_down: "cursor_ok rows c \<Longrightarrow> cursor_ok rows (cursor_down (length rows) c)"
  by (auto simp: cursor_ok_def cursor_down_def split: option.splits)

lemma row_at_ok: "cursor_ok rows c \<Longrightarrow> row_at rows c = None \<longleftrightarrow> rows = []"
  by (auto simp: cursor_ok_def row_at_def split: option.splits)

lemma row_at_in: "row_at rows c = Some r \<Longrightarrow> r \<in> set rows"
  by (auto simp: row_at_def split: option.splits if_splits)

locale cursor_list =
  fixes inv :: "'s \<Rightarrow> bool" and rows :: "'s \<Rightarrow> 'r list" and cursor :: "'s \<Rightarrow> nat option"
    and up :: "'s \<Rightarrow> 's" and down :: "'s \<Rightarrow> 's" and selected :: "'s \<Rightarrow> 'r option"
  assumes inv_up: "inv s \<Longrightarrow> inv (up s)" and inv_down: "inv s \<Longrightarrow> inv (down s)"
    and inv_cursor: "inv s \<Longrightarrow> cursor_ok (rows s) (cursor s)"
    and rows_up: "rows (up s) = rows s" and rows_down: "rows (down s) = rows s"
    and cursor_up: "cursor (up s) = cursor_up (cursor s)"
    and cursor_down: "cursor (down s) = cursor_down (length (rows s)) (cursor s)"
    and selected: "inv s \<Longrightarrow> selected s = row_at (rows s) (cursor s)"
begin

lemma ups: "cursor s = Some i \<Longrightarrow> rows ((up ^^ n) s) = rows s \<and> cursor ((up ^^ n) s) = Some (i - n)"
  by (induction n) (auto simp: rows_up cursor_up Pickers.cursor_up_def)

lemma downs: "cursor s = Some i \<Longrightarrow> i + n < length (rows s) \<Longrightarrow>
    rows ((down ^^ n) s) = rows s \<and> cursor ((down ^^ n) s) = Some (i + n)"
  by (induction n) (auto simp: rows_down cursor_down Pickers.cursor_down_def)

lemma inv_moves: "inv s \<Longrightarrow> inv ((down ^^ i) ((up ^^ n) s))"
proof -
  have "inv s \<Longrightarrow> inv ((up ^^ n) s)" for n s by (induction n) (auto simp: inv_up)
  moreover have "inv s \<Longrightarrow> inv ((down ^^ n) s)" for n s by (induction n) (auto simp: inv_down)
  ultimately show "inv s \<Longrightarrow> inv ((down ^^ i) ((up ^^ n) s))" by blast
qed

text \<open>Every row can be reached: up to the top, then down to the row.\<close>

lemma reach_row:
  assumes "inv s" "i < length (rows s)"
  shows "selected ((down ^^ i) ((up ^^ length (rows s)) s)) = Some (rows s ! i)"
proof -
  obtain j where j: "cursor s = Some j" "j < length (rows s)"
    using assms inv_cursor [of s] by (auto simp: cursor_ok_def split: option.splits)
  let ?u = "(up ^^ length (rows s)) s"
  have u: "rows ?u = rows s" "cursor ?u = Some 0" using ups [OF j(1), of "length (rows s)"] j(2) by auto
  have d: "rows ((down ^^ i) ?u) = rows s" "cursor ((down ^^ i) ?u) = Some i"
    using downs [OF u(2), of i] assms(2) u(1) by auto
  then show ?thesis using assms(2) selected [OF inv_moves [OF assms(1)]] by (simp add: row_at_def)
qed

lemma selected_None: "inv s \<Longrightarrow> selected s = None \<longleftrightarrow> rows s = []"
  by (simp add: selected row_at_ok inv_cursor)

lemma selected_in: "inv s \<Longrightarrow> selected s = Some r \<Longrightarrow> r \<in> set (rows s)"
  by (simp add: selected row_at_in)

end

text \<open>\<^verbatim>\<open>Vec::get\<close>, and the row a cursor selects through a view of indices.\<close>

definition get :: "'a list \<Rightarrow> nat \<Rightarrow> 'a option" where
  "get xs i = (if i < length xs then Some (xs ! i) else None)"

definition through :: "'a list \<Rightarrow> nat list \<Rightarrow> nat option \<Rightarrow> 'a option" where
  "through items view c = Option.bind c (\<lambda>i. Option.bind (get view i) (get items))"

definition view_ok :: "'a list \<Rightarrow> nat list \<Rightarrow> nat option \<Rightarrow> bool" where
  "view_ok items view c \<longleftrightarrow> (\<forall>k \<in> set view. k < length items) \<and> cursor_ok view c"

definition view_rows :: "'a list \<Rightarrow> nat list \<Rightarrow> 'a list" where
  "view_rows items view = map (\<lambda>i. items ! i) view"

lemma through_row_at: "view_ok items view c \<Longrightarrow> through items view c = row_at (view_rows items view) c"
  by (auto simp: view_ok_def through_def row_at_def view_rows_def get_def split: option.splits)

lemma view_ok_moves:
  "view_ok items view c \<Longrightarrow> view_ok items view (cursor_up c)"
  "view_ok items view c \<Longrightarrow> view_ok items view (cursor_down (length view) c)"
  by (auto simp: view_ok_def cursor_ok_up cursor_ok_down)

lemma view_ok_cursor: "view_ok items view c \<Longrightarrow> cursor_ok (view_rows items view) c"
  by (auto simp: view_ok_def view_rows_def cursor_ok_def split: option.splits)

lemma length_view_rows [simp]: "length (view_rows items view) = length view"
  by (simp add: view_rows_def)

text \<open>The view of the items that a query keeps.\<close>

definition kept :: "('a \<Rightarrow> bool) \<Rightarrow> 'a list \<Rightarrow> nat list" where
  "kept P items = filter (\<lambda>i. P (items ! i)) [0..<length items]"

lemma view_ok_kept [simp]: "view_ok items (kept P items) (first_row (kept P items))"
  by (simp add: view_ok_def kept_def)

lemma view_rows_kept: "view_rows items (kept P items) = filter P items"
  unfolding view_rows_def kept_def
  by (simp add: map_nth flip: filter_map [unfolded o_def])

subsection \<open>Provider picker (login\_prompt.rs)\<close>

record picker_item =
  pi_id :: string
  pi_display_name :: string
  pi_endpoint :: "string option"
  pi_is_custom :: bool

definition CUSTOM_SENTINEL_ID :: string where
  "CUSTOM_SENTINEL_ID = ''__custom__''"

definition item_catalog :: "string \<Rightarrow> string \<Rightarrow> string option \<Rightarrow> picker_item" where
  "item_catalog i n e = \<lparr> pi_id = i, pi_display_name = n, pi_endpoint = e, pi_is_custom = False \<rparr>"

definition custom_sentinel :: picker_item where
  "custom_sentinel =
    \<lparr> pi_id = CUSTOM_SENTINEL_ID,
      pi_display_name = ''Custom provider'' @ [CHR 0xE2, CHR 0x80, CHR 0xA6],
      pi_endpoint = None, pi_is_custom = True \<rparr>"

definition pi_search_target :: "(string \<Rightarrow> string) \<Rightarrow> picker_item \<Rightarrow> string" where
  "pi_search_target low it = low (pi_display_name it @ '' '' @ pi_id it)"

record provider_picker =
  pp_items :: "picker_item list"
  pp_query :: string
  pp_cursor :: "nat option"
  pp_filtered :: "nat list"

definition pp_new :: "picker_item list \<Rightarrow> provider_picker" where
  "pp_new items =
    (let its = items @ [custom_sentinel]; f = [0..<length its] in
     \<lparr> pp_items = its, pp_query = [], pp_cursor = first_row f, pp_filtered = f \<rparr>)"

definition pp_selected :: "provider_picker \<Rightarrow> picker_item option" where
  "pp_selected p = through (pp_items p) (pp_filtered p) (pp_cursor p)"

definition pp_keeps :: "(string \<Rightarrow> string) \<Rightarrow> string \<Rightarrow> picker_item \<Rightarrow> bool" where
  "pp_keeps low q it = (if pi_is_custom it then True else fuzzy_match low (pi_search_target low it) q)"

definition pp_recompute_filtered :: "(string \<Rightarrow> string) \<Rightarrow> provider_picker \<Rightarrow> provider_picker" where
  "pp_recompute_filtered low p =
    (let f = kept (pp_keeps low (trim (pp_query p))) (pp_items p) in p\<lparr> pp_filtered := f, pp_cursor := first_row f \<rparr>)"

definition pp_push_query_char :: "(string \<Rightarrow> string) \<Rightarrow> string \<Rightarrow> provider_picker \<Rightarrow> provider_picker" where
  "pp_push_query_char low c p = pp_recompute_filtered low (p\<lparr> pp_query := pp_query p @ c \<rparr>)"

definition pp_pop_query_char :: "(string \<Rightarrow> string) \<Rightarrow> provider_picker \<Rightarrow> provider_picker" where
  "pp_pop_query_char low p =
    (case str_pop (pp_query p) of
       Some q \<Rightarrow> pp_recompute_filtered low (p\<lparr> pp_query := q \<rparr>)
     | None \<Rightarrow> p)"

definition pp_set_query :: "(string \<Rightarrow> string) \<Rightarrow> string \<Rightarrow> provider_picker \<Rightarrow> provider_picker" where
  "pp_set_query low q p = pp_recompute_filtered low (p\<lparr> pp_query := q \<rparr>)"

definition pp_move_up :: "provider_picker \<Rightarrow> provider_picker" where
  "pp_move_up p = p\<lparr> pp_cursor := cursor_up (pp_cursor p) \<rparr>"

definition pp_move_down :: "provider_picker \<Rightarrow> provider_picker" where
  "pp_move_down p = p\<lparr> pp_cursor := cursor_down (length (pp_filtered p)) (pp_cursor p) \<rparr>"

definition pp_ok :: "provider_picker \<Rightarrow> bool" where
  "pp_ok p \<longleftrightarrow> view_ok (pp_items p) (pp_filtered p) (pp_cursor p)"

definition pp_rows :: "provider_picker \<Rightarrow> picker_item list" where
  "pp_rows p = view_rows (pp_items p) (pp_filtered p)"

interpretation provider_rows: cursor_list pp_ok pp_rows pp_cursor pp_move_up pp_move_down pp_selected
  by unfold_locales
    (auto simp: pp_ok_def pp_rows_def pp_move_up_def pp_move_down_def pp_selected_def
      view_ok_moves view_ok_cursor through_row_at)

text \<open>The view is always the one of the current query.\<close>

definition pp_current :: "(string \<Rightarrow> string) \<Rightarrow> picker_item list \<Rightarrow> provider_picker \<Rightarrow> bool" where
  "pp_current low items p \<longleftrightarrow> pp_items p = items @ [custom_sentinel] \<and> pp_ok p \<and>
     pp_rows p = filter (pp_keeps low (trim (pp_query p))) items @ [custom_sentinel]"

lemma pp_keeps_all [simp]: "pp_keeps low [] = (\<lambda>_. True)"
  by (rule ext) (simp add: pp_keeps_def fuzzy_match_def)

lemma pp_current_new: "pp_current low items (pp_new items)"
proof -
  have "[0..<length (items @ [custom_sentinel])] = kept (\<lambda>_. True) (items @ [custom_sentinel])"
    by (simp add: kept_def)
  then show ?thesis
    unfolding pp_current_def pp_new_def Let_def pp_ok_def pp_rows_def
    by (simp add: view_rows_kept del: upt_Suc upt_conv_Cons_Cons length_append)
qed

lemma pp_keeps_custom [simp]: "pp_keeps low q custom_sentinel"
  by (simp add: pp_keeps_def custom_sentinel_def)

lemma pp_current_recompute:
  "pp_items p = items @ [custom_sentinel] \<Longrightarrow> pp_current low items (pp_recompute_filtered low p)"
  by (simp add: pp_current_def pp_recompute_filtered_def pp_ok_def pp_rows_def Let_def view_rows_kept)

lemma pp_current_ops:
  assumes "pp_current low items p"
  shows "pp_current low items (pp_push_query_char low c p)" "pp_current low items (pp_pop_query_char low p)"
    "pp_current low items (pp_set_query low q p)" "pp_current low items (pp_move_up p)"
    "pp_current low items (pp_move_down p)"
  using assms provider_rows.inv_up [of p] provider_rows.inv_down [of p]
    provider_rows.rows_up [of p] provider_rows.rows_down [of p]
  by (auto simp: pp_push_query_char_def pp_pop_query_char_def pp_set_query_def pp_current_recompute
      pp_current_def [of _ _ "pp_move_up p"] pp_current_def [of _ _ "pp_move_down p"] pp_current_def [of _ _ p]
      split: option.splits)
    (simp_all add: pp_move_up_def pp_move_down_def)

lemma pp_selected_Some: "pp_current low items p \<Longrightarrow> pp_selected p \<noteq> None"
  using provider_rows.selected_None [of p] by (auto simp: pp_current_def)

lemma pp_selected_item:
  "pp_current low items p \<Longrightarrow> pp_selected p = Some it \<Longrightarrow> it = custom_sentinel \<or> it \<in> set items"
  using provider_rows.selected_in [of p it] by (auto simp: pp_current_def)


subsection \<open>Model picker (model\_picker.rs)\<close>

record model_item =
  mi_provider_id :: string
  mi_model_id :: string
  mi_display_label :: string
  mi_context_window :: "u64 option"
  mi_supports_tools :: bool

definition mi_search_target :: "(string \<Rightarrow> string) \<Rightarrow> model_item \<Rightarrow> string" where
  "mi_search_target low it = low (mi_provider_id it @ '' '' @ mi_model_id it @ '' '' @ mi_display_label it)"

datatype picker_effect = PkContinue | PkCancel | PkPick

record model_picker =
  mp_items :: "model_item list"
  mp_query :: string
  mp_cursor :: "nat option"
  mp_filtered :: "nat list"

definition mp_new :: "model_item list \<Rightarrow> model_picker" where
  "mp_new items =
    (let f = [0..<length items] in
     \<lparr> mp_items = items, mp_query = [], mp_cursor = first_row f, mp_filtered = f \<rparr>)"

definition mp_selected :: "model_picker \<Rightarrow> model_item option" where
  "mp_selected p = through (mp_items p) (mp_filtered p) (mp_cursor p)"

definition mp_keeps :: "(string \<Rightarrow> string) \<Rightarrow> string \<Rightarrow> model_item \<Rightarrow> bool" where
  "mp_keeps low q it = fuzzy_match low (mi_search_target low it) q"

definition mp_recompute_filtered :: "(string \<Rightarrow> string) \<Rightarrow> model_picker \<Rightarrow> model_picker" where
  "mp_recompute_filtered low p =
    (let f = kept (mp_keeps low (trim (mp_query p))) (mp_items p)
     in p\<lparr> mp_filtered := f, mp_cursor := first_row f \<rparr>)"

definition mp_push_query_char :: "(string \<Rightarrow> string) \<Rightarrow> string \<Rightarrow> model_picker \<Rightarrow> model_picker" where
  "mp_push_query_char low c p = mp_recompute_filtered low (p\<lparr> mp_query := mp_query p @ c \<rparr>)"

definition mp_pop_query_char :: "(string \<Rightarrow> string) \<Rightarrow> model_picker \<Rightarrow> model_picker" where
  "mp_pop_query_char low p =
    (case str_pop (mp_query p) of
       Some q \<Rightarrow> mp_recompute_filtered low (p\<lparr> mp_query := q \<rparr>)
     | None \<Rightarrow> p)"

definition mp_set_query :: "(string \<Rightarrow> string) \<Rightarrow> string \<Rightarrow> model_picker \<Rightarrow> model_picker" where
  "mp_set_query low q p = mp_recompute_filtered low (p\<lparr> mp_query := q \<rparr>)"

definition mp_move_up :: "model_picker \<Rightarrow> model_picker" where
  "mp_move_up p = p\<lparr> mp_cursor := cursor_up (mp_cursor p) \<rparr>"

definition mp_move_down :: "model_picker \<Rightarrow> model_picker" where
  "mp_move_down p = p\<lparr> mp_cursor := cursor_down (length (mp_filtered p)) (mp_cursor p) \<rparr>"

definition mp_handle_key ::
    "(string \<Rightarrow> string) \<Rightarrow> key_event \<Rightarrow> model_picker \<Rightarrow> picker_effect \<times> model_picker" where
  "mp_handle_key low k p =
    (if is_ctrl_c k then (PkCancel, p)
     else case ke_code k of
       KEsc \<Rightarrow> (PkCancel, p)
     | KUp \<Rightarrow> (PkContinue, mp_move_up p)
     | KDown \<Rightarrow> (PkContinue, mp_move_down p)
     | KEnter \<Rightarrow> (if mp_selected p \<noteq> None then PkPick else PkCancel, p)
     | KBackspace \<Rightarrow> (PkContinue, mp_pop_query_char low p)
     | KChar c \<Rightarrow>
         if is_ctrl_u k then (PkContinue, mp_set_query low [] p)
         else (PkContinue, mp_push_query_char low c p)
     | _ \<Rightarrow> (PkContinue, p))"

definition mp_ok :: "model_picker \<Rightarrow> bool" where
  "mp_ok p \<longleftrightarrow> view_ok (mp_items p) (mp_filtered p) (mp_cursor p)"

definition mp_rows :: "model_picker \<Rightarrow> model_item list" where
  "mp_rows p = view_rows (mp_items p) (mp_filtered p)"

interpretation model_rows: cursor_list mp_ok mp_rows mp_cursor mp_move_up mp_move_down mp_selected
  by unfold_locales
    (auto simp: mp_ok_def mp_rows_def mp_move_up_def mp_move_down_def mp_selected_def
      view_ok_moves view_ok_cursor through_row_at)

definition mp_current :: "(string \<Rightarrow> string) \<Rightarrow> model_item list \<Rightarrow> model_picker \<Rightarrow> bool" where
  "mp_current low items p \<longleftrightarrow> mp_items p = items \<and> mp_ok p \<and>
     mp_rows p = filter (mp_keeps low (trim (mp_query p))) items"

lemma mp_keeps_all [simp]: "mp_keeps low [] = (\<lambda>_. True)"
  by (rule ext) (simp add: mp_keeps_def fuzzy_match_def)

lemma mp_current_new: "mp_current low items (mp_new items)"
proof -
  have "[0..<length items] = kept (\<lambda>_. True) items" by (simp add: kept_def)
  then show ?thesis
    unfolding mp_current_def mp_new_def Let_def mp_ok_def mp_rows_def
    by (simp add: view_rows_kept)
qed

lemma mp_current_recompute:
  "mp_items p = items \<Longrightarrow> mp_current low items (mp_recompute_filtered low p)"
  by (simp add: mp_current_def mp_recompute_filtered_def mp_ok_def mp_rows_def Let_def view_rows_kept)

lemma mp_current_moves:
  "mp_current low items p \<Longrightarrow> mp_current low items (mp_move_up p)"
  "mp_current low items p \<Longrightarrow> mp_current low items (mp_move_down p)"
  using model_rows.inv_up [of p] model_rows.inv_down [of p] model_rows.rows_up [of p] model_rows.rows_down [of p]
  by (auto simp: mp_current_def) (simp_all add: mp_move_up_def mp_move_down_def)

lemma mp_current_key: "mp_current low items p \<Longrightarrow> mp_current low items (snd (mp_handle_key low k p))"
proof -
  assume p: "mp_current low items p"
  then have i: "mp_items p = items" by (simp add: mp_current_def)
  show ?thesis
    using p by (auto simp: mp_handle_key_def mp_push_query_char_def mp_pop_query_char_def mp_set_query_def
        mp_current_moves i intro!: mp_current_recompute split: key_code.split option.split)
qed

definition mp_run :: "(string \<Rightarrow> string) \<Rightarrow> key_event list \<Rightarrow> model_picker \<Rightarrow> model_picker" where
  "mp_run low ks p = fold (\<lambda>k p. snd (mp_handle_key low k p)) ks p"

lemma mp_current_run: "mp_current low items p \<Longrightarrow> mp_current low items (mp_run low ks p)"
  unfolding mp_run_def by (induction ks arbitrary: p) (auto simp: mp_current_key)

lemma mp_run_repeat:
  "mp_run low (replicate n (key KUp)) p = (mp_move_up ^^ n) p"
  "mp_run low (replicate n (key KDown)) p = (mp_move_down ^^ n) p"
  by (induction n arbitrary: p)
    (auto simp: mp_run_def mp_handle_key_def key_def is_ctrl_c_def funpow_swap1)

lemma mp_run_append: "mp_run low (ks @ ls) p = mp_run low ls (mp_run low ks p)"
  by (simp add: mp_run_def)

text \<open>The model picker shows exactly the matching models and lets the user take any of them:
  after any keys, the rows are the items whose lower-cased text has the characters of the trimmed
  query, lower-cased, as a subsequence, in catalog order; Enter picks when there is a row and
  cancels when there is none, so the user is never stuck; and every row can be picked by arrow
  keys alone.\<close>

theorem model_picker_complete:
  "let p = mp_run low ks (mp_new items);
       rows = filter (\<lambda>it. trim (mp_query p) = [] \<or>
         subseq (chars (low (trim (mp_query p)))) (chars (low (mi_search_target low it)))) items
   in mp_rows p = rows \<and>
      fst (mp_handle_key low (key KEnter) p) = (if rows = [] then PkCancel else PkPick) \<and>
      (\<forall>i < length rows. \<exists>moves. set moves \<subseteq> {key KUp, key KDown} \<and>
         mp_selected (mp_run low moves p) = Some (rows ! i))"
proof -
  let ?p = "mp_run low ks (mp_new items)"
  let ?rows = "filter (\<lambda>it. trim (mp_query ?p) = [] \<or>
    subseq (chars (low (trim (mp_query ?p)))) (chars (low (mi_search_target low it)))) items"
  have c: "mp_current low items ?p" by (rule mp_current_run [OF mp_current_new])
  then have ok: "mp_ok ?p" and rows: "mp_rows ?p = ?rows"
    by (auto simp: mp_current_def mp_keeps_def [abs_def] fuzzy_match_def eat_subseq if_distrib
        intro!: filter_cong)
  have "fst (mp_handle_key low (key KEnter) ?p) = (if ?rows = [] then PkCancel else PkPick)"
    using model_rows.selected_None [OF ok] rows
    by (simp add: mp_handle_key_def key_def is_ctrl_c_def)
  moreover have "\<exists>moves. set moves \<subseteq> {key KUp, key KDown} \<and>
      mp_selected (mp_run low moves ?p) = Some (?rows ! i)" if "i < length ?rows" for i
  proof (intro exI conjI)
    let ?m = "replicate (length (mp_rows ?p)) (key KUp) @ replicate i (key KDown)"
    show "set ?m \<subseteq> {key KUp, key KDown}" by auto
    show "mp_selected (mp_run low ?m ?p) = Some (?rows ! i)"
      using model_rows.reach_row [OF ok, of i] that unfolding mp_run_append mp_run_repeat rows by blast
  qed
  ultimately show ?thesis using rows unfolding Let_def by blast
qed

definition demo_low :: "string \<Rightarrow> string" where
  "demo_low = map ascii_lower"

definition demo_models :: "model_item list" where
  "demo_models =
    [\<lparr> mi_provider_id = ''p'', mi_model_id = ''m5'', mi_display_label = ''M5'',
       mi_context_window = None, mi_supports_tools = True \<rparr>,
     \<lparr> mi_provider_id = ''p'', mi_model_id = ''m4'', mi_display_label = ''M4'',
       mi_context_window = Some 8192, mi_supports_tools = False \<rparr>]"

theorem model_picker_complete_witness:
  "let p = mp_run demo_low (map key [KChar ''4'']) (mp_new demo_models) in
   map mi_model_id (mp_rows p) = [''m4''] \<and>
   (\<exists>moves. mp_selected (mp_run demo_low moves p) = Some (mp_rows p ! 0))"
proof -
  let ?ks = "map key [KChar ''4'']"
  have "map mi_model_id (mp_rows (mp_run demo_low ?ks (mp_new demo_models))) = [''m4'']"
    by code_simp
  moreover from this have "0 < length (mp_rows (mp_run demo_low ?ks (mp_new demo_models)))" by auto
  ultimately show ?thesis
    using model_picker_complete [of demo_low ?ks demo_models] unfolding Let_def by auto
qed

subsection \<open>Session list (session\_list.rs)\<close>

record session_row =
  sr_id :: string
  sr_cwd :: string
  sr_summary :: "string option"
  sr_updated_at :: string

record session_filter =
  sf_cwd :: "string option"
  sf_limit :: "u32 option"

record session_list =
  sl_entries :: "session_row list"
  sl_cursor :: "nat option"
  sl_cwd_filter_active :: bool

definition session_list_new :: session_list where
  "session_list_new = \<lparr> sl_entries = [], sl_cursor = None, sl_cwd_filter_active = True \<rparr>"

definition set_entries :: "session_row list \<Rightarrow> session_list \<Rightarrow> session_list" where
  "set_entries es l = l\<lparr> sl_entries := es, sl_cursor := first_row es \<rparr>"

definition toggle_cwd_filter :: "session_list \<Rightarrow> session_list" where
  "toggle_cwd_filter l = l\<lparr> sl_cwd_filter_active := \<not> sl_cwd_filter_active l \<rparr>"

text \<open>\<open>lookup\<close> is the \<^verbatim>\<open>SessionLookup\<close> of the store, its rows already projected to what is shown.\<close>

definition sl_load ::
    "(session_filter \<Rightarrow> (session_row list, string) result) \<Rightarrow> string \<Rightarrow> u32 option \<Rightarrow> session_list \<Rightarrow>
     (unit, string) result \<times> session_list" where
  "sl_load lookup cwd limit l =
    (case lookup \<lparr> sf_cwd = (if sl_cwd_filter_active l then Some cwd else None), sf_limit = limit \<rparr> of
       Err e \<Rightarrow> (Err e, l)
     | Ok rows \<Rightarrow> (Ok (), set_entries rows l))"

definition sl_move_up :: "session_list \<Rightarrow> session_list" where
  "sl_move_up l = l\<lparr> sl_cursor := cursor_up (sl_cursor l) \<rparr>"

definition sl_move_down :: "session_list \<Rightarrow> session_list" where
  "sl_move_down l = l\<lparr> sl_cursor := cursor_down (length (sl_entries l)) (sl_cursor l) \<rparr>"

definition sl_selected :: "session_list \<Rightarrow> session_row option" where
  "sl_selected l = Option.bind (sl_cursor l) (get (sl_entries l))"

definition sl_ok :: "session_list \<Rightarrow> bool" where
  "sl_ok l \<longleftrightarrow> cursor_ok (sl_entries l) (sl_cursor l)"

interpretation session_rows: cursor_list sl_ok sl_entries sl_cursor sl_move_up sl_move_down sl_selected
  by unfold_locales
    (auto simp: sl_ok_def sl_move_up_def sl_move_down_def sl_selected_def cursor_ok_up cursor_ok_down
      row_at_def get_def split: option.splits)

lemma sl_ok_new [inv_intros]: "sl_ok session_list_new"
  by (simp add: sl_ok_def session_list_new_def cursor_ok_def)

lemma sl_ok_set_entries [inv_intros]: "sl_ok (set_entries es l)"
  by (simp add: sl_ok_def set_entries_def)

lemma sl_ok_toggle [inv_intros]: "sl_ok l \<Longrightarrow> sl_ok (toggle_cwd_filter l)"
  by (simp add: sl_ok_def toggle_cwd_filter_def)

lemma sl_ok_load [inv_intros]: "sl_ok l \<Longrightarrow> sl_ok (snd (sl_load lookup cwd limit l))"
  by (simp add: sl_load_def sl_ok_set_entries split: result.split)

end
