(* ===== verification/LoginWizard.thy ===== *)
theory LoginWizard
  imports Pickers
begin

text \<open>
  The login wizard (\<^verbatim>\<open>LoginWizard\<close> of \<^verbatim>\<open>tui/src/login_prompt.rs\<close>): provider, optional custom
  provider, label, secret. A handler returns the effect and the new state, or \<open>None\<close> where a text
  field panics, which is proved never to happen.
\<close>

subsection \<open>The wizard\<close>

datatype wizard_step = WProvider | WCustomProvider | WLabel | WSecret | WDone | WCancelled

datatype wizard_effect = WContinue | WCancel | WFinish

record login_wizard =
  lw_step :: wizard_step
  lw_picker :: provider_picker
  lw_custom_input :: text_input
  lw_label_input :: text_input
  lw_secret_input :: text_input
  lw_chose_custom :: bool

definition login_wizard_new :: "picker_item list \<Rightarrow> login_wizard" where
  "login_wizard_new catalog =
    \<lparr> lw_step = WProvider, lw_picker = pp_new catalog, lw_custom_input = text_input_new False,
      lw_label_input = text_input_new False, lw_secret_input = text_input_new True,
      lw_chose_custom = False \<rparr>"

definition lw_provider_id :: "login_wizard \<Rightarrow> string option" where
  "lw_provider_id w =
    (if lw_step w \<in> {WProvider, WCustomProvider, WCancelled} then None
     else if lw_chose_custom w then
       (let raw = trim (ti_value (lw_custom_input w)) in
        if raw = [] then None
        else if starts_with ''custom:'' raw then Some raw
        else Some (''custom:'' @ raw))
     else map_option pi_id (pp_selected (lw_picker w)))"

definition lw_result :: "login_wizard \<Rightarrow> (string \<times> string \<times> string) option" where
  "lw_result w =
    (if lw_step w \<noteq> WDone then None
     else case lw_provider_id w of
       None \<Rightarrow> None
     | Some p \<Rightarrow> Some (p, trim (ti_value (lw_label_input w)), ti_value (lw_secret_input w)))"

definition handle_provider_key ::
    "(string \<Rightarrow> string) \<Rightarrow> key_event \<Rightarrow> login_wizard \<Rightarrow> wizard_effect \<times> login_wizard" where
  "handle_provider_key low k w =
    (case ke_code k of
       KEsc \<Rightarrow> (WCancel, w\<lparr> lw_step := WCancelled \<rparr>)
     | KUp \<Rightarrow> (WContinue, w\<lparr> lw_picker := pp_move_up (lw_picker w) \<rparr>)
     | KDown \<Rightarrow> (WContinue, w\<lparr> lw_picker := pp_move_down (lw_picker w) \<rparr>)
     | KEnter \<Rightarrow>
         (case pp_selected (lw_picker w) of
            Some it \<Rightarrow>
              if pi_is_custom it then (WContinue, w\<lparr> lw_chose_custom := True, lw_step := WCustomProvider \<rparr>)
              else (WContinue, w\<lparr> lw_chose_custom := False, lw_step := WLabel \<rparr>)
          | None \<Rightarrow> (WContinue, w))
     | KBackspace \<Rightarrow> (WContinue, w\<lparr> lw_picker := pp_pop_query_char low (lw_picker w) \<rparr>)
     | KChar c \<Rightarrow>
         if is_ctrl_u k then (WContinue, w\<lparr> lw_picker := pp_set_query low [] (lw_picker w) \<rparr>)
         else (WContinue, w\<lparr> lw_picker := pp_push_query_char low c (lw_picker w) \<rparr>)
     | _ \<Rightarrow> (WContinue, w))"

definition handle_custom_provider_key ::
    "key_event \<Rightarrow> login_wizard \<Rightarrow> (wizard_effect \<times> login_wizard) option" where
  "handle_custom_provider_key k w =
    (case ke_code k of
       KEsc \<Rightarrow> Some (WContinue, w\<lparr> lw_step := WProvider \<rparr>)
     | KEnter \<Rightarrow>
         Some (WContinue, if trim (ti_value (lw_custom_input w)) \<noteq> [] then w\<lparr> lw_step := WLabel \<rparr> else w)
     | _ \<Rightarrow> map_option (\<lambda>t. (WContinue, w\<lparr> lw_custom_input := t \<rparr>)) (ti_key k (lw_custom_input w)))"

definition handle_label_key ::
    "key_event \<Rightarrow> login_wizard \<Rightarrow> (wizard_effect \<times> login_wizard) option" where
  "handle_label_key k w =
    (case ke_code k of
       KEsc \<Rightarrow>
         Some (WContinue, w\<lparr> lw_step := (if lw_chose_custom w then WCustomProvider else WProvider) \<rparr>)
     | KEnter \<Rightarrow>
         Some (WContinue, if trim (ti_value (lw_label_input w)) \<noteq> [] then w\<lparr> lw_step := WSecret \<rparr> else w)
     | _ \<Rightarrow> map_option (\<lambda>t. (WContinue, w\<lparr> lw_label_input := t \<rparr>)) (ti_key k (lw_label_input w)))"

definition handle_secret_key ::
    "key_event \<Rightarrow> login_wizard \<Rightarrow> (wizard_effect \<times> login_wizard) option" where
  "handle_secret_key k w =
    (case ke_code k of
       KEsc \<Rightarrow> Some (WContinue, w\<lparr> lw_step := WLabel \<rparr>)
     | KEnter \<Rightarrow>
         if ti_value (lw_secret_input w) \<noteq> [] then Some (WFinish, w\<lparr> lw_step := WDone \<rparr>)
         else Some (WContinue, w)
     | _ \<Rightarrow> map_option (\<lambda>t. (WContinue, w\<lparr> lw_secret_input := t \<rparr>)) (ti_key k (lw_secret_input w)))"

definition lw_handle_key ::
    "(string \<Rightarrow> string) \<Rightarrow> key_event \<Rightarrow> login_wizard \<Rightarrow> (wizard_effect \<times> login_wizard) option" where
  "lw_handle_key low k w =
    (if is_ctrl_c k then Some (WCancel, w\<lparr> lw_step := WCancelled \<rparr>)
     else case lw_step w of
       WProvider \<Rightarrow> Some (handle_provider_key low k w)
     | WCustomProvider \<Rightarrow> handle_custom_provider_key k w
     | WLabel \<Rightarrow> handle_label_key k w
     | WSecret \<Rightarrow> handle_secret_key k w
     | WDone \<Rightarrow> Some (WContinue, w)
     | WCancelled \<Rightarrow> Some (WContinue, w))"

text \<open>The loop of \<^verbatim>\<open>run_login_wizard_on_stdout\<close> over the keys the terminal delivers: the result of
  the first key that ends it, \<open>None\<close> while the keys do not.\<close>

fun wizard_loop ::
    "(string \<Rightarrow> string) \<Rightarrow> key_event list \<Rightarrow> login_wizard \<Rightarrow> (string \<times> string \<times> string) option option" where
  "wizard_loop low [] w = None"
| "wizard_loop low (k # ks) w =
    (case lw_handle_key low k w of
       None \<Rightarrow> None
     | Some (WContinue, w') \<Rightarrow> wizard_loop low ks w'
     | Some (WCancel, w') \<Rightarrow> Some None
     | Some (WFinish, w') \<Rightarrow> Some (lw_result w'))"

subsection \<open>The invariant\<close>

definition provider_chosen :: "picker_item list \<Rightarrow> login_wizard \<Rightarrow> bool" where
  "provider_chosen cat w \<longleftrightarrow>
    (if lw_chose_custom w then trim (ti_value (lw_custom_input w)) \<noteq> []
     else \<exists>it \<in> set cat. pp_selected (lw_picker w) = Some it)"

definition wiz_inv :: "(string \<Rightarrow> string) \<Rightarrow> picker_item list \<Rightarrow> login_wizard \<Rightarrow> bool" where
  "wiz_inv low cat w \<longleftrightarrow>
    pp_current low cat (lw_picker w) \<and>
    ti_ok (lw_custom_input w) \<and> ti_ok (lw_label_input w) \<and> ti_ok (lw_secret_input w) \<and>
    (lw_step w = WCustomProvider \<longrightarrow> lw_chose_custom w) \<and>
    (lw_step w \<in> {WLabel, WSecret, WDone} \<longrightarrow> provider_chosen cat w) \<and>
    (lw_step w \<in> {WSecret, WDone} \<longrightarrow> trim (ti_value (lw_label_input w)) \<noteq> []) \<and>
    (lw_step w = WDone \<longrightarrow> ti_value (lw_secret_input w) \<noteq> [])"

lemma ti_ok_key: "ti_ok t \<Longrightarrow> key_ok k \<Longrightarrow> \<exists>t'. ti_key k t = Some t' \<and> ti_ok t'"
  unfolding ti_ok_def by (metis surj_pair ti_key_refines)

lemma wiz_inv_new: "wiz_inv low cat (login_wizard_new cat)"
  using ti_rep_new by (auto simp: wiz_inv_def login_wizard_new_def pp_current_new ti_ok_def)

lemma wiz_inv_provider:
  assumes "wiz_inv low cat w" "lw_step w = WProvider" "handle_provider_key low k w = (e, w')"
  shows "wiz_inv low cat w' \<and> e \<noteq> WFinish \<and> lw_step w' \<noteq> WDone"
proof -
  from assms(1) have c: "pp_current low cat (lw_picker w)" by (simp add: wiz_inv_def)
  show ?thesis
  proof (cases "ke_code k = KEnter")
    case False
    with assms c show ?thesis
      by (auto simp: handle_provider_key_def wiz_inv_def pp_current_ops split: key_code.splits if_splits)
  next
    case True
    obtain it where it: "pp_selected (lw_picker w) = Some it" using pp_selected_Some [OF c] by auto
    show ?thesis
    proof (cases "pi_is_custom it")
      case True
      with assms \<open>ke_code k = KEnter\<close> it show ?thesis by (auto simp: handle_provider_key_def wiz_inv_def)
    next
      case False
      then have "it \<in> set cat" using pp_selected_item [OF c it] by (auto simp: custom_sentinel_def)
      with assms \<open>ke_code k = KEnter\<close> it False show ?thesis
        by (auto simp: handle_provider_key_def wiz_inv_def provider_chosen_def)
    qed
  qed
qed

text \<open>A text step: Esc and Enter apart, the key edits the field of the step.\<close>

lemma wiz_inv_custom:
  assumes i: "wiz_inv low cat w" "lw_step w = WCustomProvider" and k: "key_ok k"
  shows "\<exists>w'. handle_custom_provider_key k w = Some (WContinue, w') \<and> wiz_inv low cat w' \<and> lw_step w' \<noteq> WDone"
proof -
  obtain t where t: "ti_key k (lw_custom_input w) = Some t" "ti_ok t"
    using ti_ok_key [of "lw_custom_input w" k] i k by (auto simp: wiz_inv_def simp del: ti_key.simps)
  consider "ke_code k = KEsc" | "ke_code k = KEnter" | "ke_code k \<noteq> KEsc" "ke_code k \<noteq> KEnter" by blast
  then show ?thesis
  proof cases
    case 1
    have "wiz_inv low cat (w\<lparr> lw_step := WProvider \<rparr>)" using i by (simp add: wiz_inv_def)
    with 1 show ?thesis by (simp add: handle_custom_provider_key_def)
  next
    case 2
    have "trim (ti_value (lw_custom_input w)) \<noteq> [] \<Longrightarrow> wiz_inv low cat (w\<lparr> lw_step := WLabel \<rparr>)"
      using i by (simp add: wiz_inv_def provider_chosen_def)
    with 2 i show ?thesis by (simp add: handle_custom_provider_key_def)
  next
    case 3
    then have "handle_custom_provider_key k w = Some (WContinue, w\<lparr> lw_custom_input := t \<rparr>)"
      using t(1) by (cases "ke_code k") (simp_all add: handle_custom_provider_key_def del: ti_key.simps)
    moreover have "wiz_inv low cat (w\<lparr> lw_custom_input := t \<rparr>)" using i t(2) by (simp add: wiz_inv_def)
    ultimately show ?thesis using i by simp
  qed
qed

lemma wiz_inv_label:
  assumes i: "wiz_inv low cat w" "lw_step w = WLabel" and k: "key_ok k"
  shows "\<exists>w'. handle_label_key k w = Some (WContinue, w') \<and> wiz_inv low cat w' \<and> lw_step w' \<noteq> WDone"
proof -
  obtain t where t: "ti_key k (lw_label_input w) = Some t" "ti_ok t"
    using ti_ok_key [of "lw_label_input w" k] i k by (auto simp: wiz_inv_def simp del: ti_key.simps)
  consider "ke_code k = KEsc" | "ke_code k = KEnter" | "ke_code k \<noteq> KEsc" "ke_code k \<noteq> KEnter" by blast
  then show ?thesis
  proof cases
    case 1
    have "wiz_inv low cat (w\<lparr> lw_step := (if lw_chose_custom w then WCustomProvider else WProvider) \<rparr>)"
      using i by (simp add: wiz_inv_def)
    with 1 show ?thesis by (simp add: handle_label_key_def)
  next
    case 2
    have "trim (ti_value (lw_label_input w)) \<noteq> [] \<Longrightarrow> wiz_inv low cat (w\<lparr> lw_step := WSecret \<rparr>)"
      using i by (simp add: wiz_inv_def provider_chosen_def)
    with 2 i show ?thesis by (simp add: handle_label_key_def)
  next
    case 3
    then have "handle_label_key k w = Some (WContinue, w\<lparr> lw_label_input := t \<rparr>)"
      using t(1) by (cases "ke_code k") (simp_all add: handle_label_key_def del: ti_key.simps)
    moreover have "wiz_inv low cat (w\<lparr> lw_label_input := t \<rparr>)"
      using i t(2) by (simp add: wiz_inv_def provider_chosen_def)
    ultimately show ?thesis using i by simp
  qed
qed

lemma wiz_inv_secret:
  assumes i: "wiz_inv low cat w" "lw_step w = WSecret" and k: "key_ok k"
  shows "\<exists>e w'. handle_secret_key k w = Some (e, w') \<and> wiz_inv low cat w' \<and> (e = WFinish \<longleftrightarrow> lw_step w' = WDone)"
proof -
  obtain t where t: "ti_key k (lw_secret_input w) = Some t" "ti_ok t"
    using ti_ok_key [of "lw_secret_input w" k] i k by (auto simp: wiz_inv_def simp del: ti_key.simps)
  consider "ke_code k = KEsc" | "ke_code k = KEnter" | "ke_code k \<noteq> KEsc" "ke_code k \<noteq> KEnter" by blast
  then show ?thesis
  proof cases
    case 1
    have "wiz_inv low cat (w\<lparr> lw_step := WLabel \<rparr>)" using i by (simp add: wiz_inv_def provider_chosen_def)
    with 1 show ?thesis by (simp add: handle_secret_key_def)
  next
    case 2
    have "ti_value (lw_secret_input w) \<noteq> [] \<Longrightarrow> wiz_inv low cat (w\<lparr> lw_step := WDone \<rparr>)"
      using i by (simp add: wiz_inv_def provider_chosen_def)
    with 2 i show ?thesis by (simp add: handle_secret_key_def)
  next
    case 3
    then have "handle_secret_key k w = Some (WContinue, w\<lparr> lw_secret_input := t \<rparr>)"
      using t(1) by (cases "ke_code k") (simp_all add: handle_secret_key_def del: ti_key.simps)
    moreover have "wiz_inv low cat (w\<lparr> lw_secret_input := t \<rparr>)"
      using i t(2) by (simp add: wiz_inv_def provider_chosen_def)
    ultimately show ?thesis using i by simp
  qed
qed

lemma wiz_inv_key:
  assumes "wiz_inv low cat w" "key_ok k"
  obtains e w' where "lw_handle_key low k w = Some (e, w')" "wiz_inv low cat w'"
    "e = WFinish \<longleftrightarrow> lw_step w \<noteq> WDone \<and> lw_step w' = WDone"
proof (cases "is_ctrl_c k")
  case True
  with assms show thesis
    by (intro that [of WCancel "w\<lparr> lw_step := WCancelled \<rparr>"]) (auto simp: lw_handle_key_def wiz_inv_def)
next
  case False
  show thesis
  proof (cases "lw_step w")
    case WProvider
    obtain e w' where r: "handle_provider_key low k w = (e, w')" by force
    from wiz_inv_provider [OF assms(1) WProvider r] r WProvider False show thesis
      by (intro that [of e w']) (auto simp: lw_handle_key_def)
  next
    case WCustomProvider
    with wiz_inv_custom [OF assms(1) _ assms(2)] False show thesis
      by (auto simp: lw_handle_key_def intro: that)
  next
    case WLabel
    with wiz_inv_label [OF assms(1) _ assms(2)] False show thesis
      by (auto simp: lw_handle_key_def intro: that)
  next
    case WSecret
    with wiz_inv_secret [OF assms(1) _ assms(2)] False show thesis
      by (auto simp: lw_handle_key_def intro: that)
  qed (use assms False in \<open>auto simp: lw_handle_key_def intro: that\<close>)
qed

text \<open>The states that keys reach.\<close>

inductive wiz_reach :: "(string \<Rightarrow> string) \<Rightarrow> picker_item list \<Rightarrow> login_wizard \<Rightarrow> bool" for low cat where
  wiz_start: "wiz_reach low cat (login_wizard_new cat)"
| wiz_step: "wiz_reach low cat w \<Longrightarrow> key_ok k \<Longrightarrow> lw_handle_key low k w = Some (e, w') \<Longrightarrow> wiz_reach low cat w'"

lemma wiz_reach_inv: "wiz_reach low cat w \<Longrightarrow> wiz_inv low cat w"
proof (induction rule: wiz_reach.induct)
  case wiz_start
  show ?case by (rule wiz_inv_new)
next
  case (wiz_step w k e w')
  with wiz_inv_key [of low cat w k] show ?case by (metis option.inject prod.inject)
qed

lemma inv_result:
  assumes "wiz_inv low cat w" "lw_step w = WDone"
  obtains p where "lw_result w = Some (p, trim (ti_value (lw_label_input w)), ti_value (lw_secret_input w))"
    "p \<in> pi_id ` set cat \<or> starts_with ''custom:'' p"
proof (cases "lw_chose_custom w")
  case True
  let ?raw = "trim (ti_value (lw_custom_input w))"
  have "?raw \<noteq> []" using assms True by (simp add: wiz_inv_def provider_chosen_def)
  then have "lw_provider_id w = Some (if starts_with ''custom:'' ?raw then ?raw else ''custom:'' @ ?raw)"
    using assms(2) True by (simp add: lw_provider_id_def Let_def)
  then show thesis using assms(2)
    by (intro that [of "if starts_with ''custom:'' ?raw then ?raw else ''custom:'' @ ?raw"])
      (auto simp: lw_result_def starts_with_iff)
next
  case False
  then obtain it where "it \<in> set cat" "pp_selected (lw_picker w) = Some it"
    using assms by (auto simp: wiz_inv_def provider_chosen_def)
  then show thesis using assms(2) False
    by (intro that [of "pi_id it"]) (auto simp: lw_result_def lw_provider_id_def)
qed

text \<open>The wizard never panics and never returns less than a full answer: in every state that keys
  reach, any further key is handled; it finishes the wizard exactly when it leads to the last step,
  where the result is always present, with a provider of the catalog or one in the \<^verbatim>\<open>custom:\<close>
  namespace, a label that is not blank and a secret that is not empty.\<close>

theorem wizard_sound:
  assumes "wiz_reach low cat w" "key_ok k"
  shows "\<exists>e w'. lw_handle_key low k w = Some (e, w') \<and>
    (e = WFinish \<longleftrightarrow> lw_step w \<noteq> WDone \<and> lw_step w' = WDone) \<and>
    (case lw_result w' of
       None \<Rightarrow> lw_step w' \<noteq> WDone
     | Some (p, l, s) \<Rightarrow> lw_step w' = WDone \<and> l \<noteq> [] \<and> s \<noteq> [] \<and>
         (p \<in> pi_id ` set cat \<or> starts_with ''custom:'' p))"
proof -
  obtain e w' where r: "lw_handle_key low k w = Some (e, w')" "wiz_inv low cat w'"
    "e = WFinish \<longleftrightarrow> lw_step w \<noteq> WDone \<and> lw_step w' = WDone"
    using wiz_inv_key [OF wiz_reach_inv [OF assms(1)] assms(2)] .
  have "case lw_result w' of
       None \<Rightarrow> lw_step w' \<noteq> WDone
     | Some (p, l, s) \<Rightarrow> lw_step w' = WDone \<and> l \<noteq> [] \<and> s \<noteq> [] \<and>
         (p \<in> pi_id ` set cat \<or> starts_with ''custom:'' p)"
  proof (cases "lw_step w' = WDone")
    case True
    from inv_result [OF r(2) True] obtain p where
      "lw_result w' = Some (p, trim (ti_value (lw_label_input w')), ti_value (lw_secret_input w'))"
      "p \<in> pi_id ` set cat \<or> starts_with ''custom:'' p" .
    with r(2) True show ?thesis by (simp add: wiz_inv_def)
  next
    case False
    then show ?thesis by (simp add: lw_result_def)
  qed
  with r show ?thesis by blast
qed

definition demo_catalog :: "picker_item list" where
  "demo_catalog = [item_catalog ''openai'' ''OpenAI'' None, item_catalog ''ollama'' ''Ollama'' None]"

definition demo_wizard :: login_wizard where
  "demo_wizard = snd (the (lw_handle_key demo_low (key KEnter) (login_wizard_new demo_catalog)))"

lemma demo_wizard_reach: "wiz_reach demo_low demo_catalog demo_wizard"
proof -
  have k: "key_ok (key KEnter)" by (simp add: key_ok_def key_def)
  obtain e w where "lw_handle_key demo_low (key KEnter) (login_wizard_new demo_catalog) = Some (e, w)"
    by (rule wiz_inv_key [OF wiz_inv_new k, of demo_low demo_catalog]) blast
  then show ?thesis unfolding demo_wizard_def
    by (intro wiz_step [OF wiz_start, of "key KEnter"]) (auto simp: key_ok_def key_def)
qed

theorem wizard_sound_witness:
  "lw_step demo_wizard = WLabel \<and>
   (\<exists>e w'. lw_handle_key demo_low (key KEnter) demo_wizard = Some (e, w') \<and> (e = WFinish \<longleftrightarrow> lw_step w' = WDone))"
proof
  show s: "lw_step demo_wizard = WLabel" by code_simp
  show "\<exists>e w'. lw_handle_key demo_low (key KEnter) demo_wizard = Some (e, w') \<and> (e = WFinish \<longleftrightarrow> lw_step w' = WDone)"
    using wizard_sound [OF demo_wizard_reach, of "key KEnter"] s by (auto simp: key_ok_def key_def)
qed


subsection \<open>The user is never stuck\<close>

lemma type_x:
  assumes "ti_ok t"
  shows "\<exists>t'. ti_key (key (KChar ''x'')) t = Some t' \<and> ti_ok t' \<and> trim (ti_value t') \<noteq> [] \<and> ti_value t' \<noteq> []"
proof -
  obtain l r where rep: "ti_rep t (l, r)" using assms by (auto simp: ti_ok_def)
  have k: "key_ok (key (KChar ''x''))" by (auto simp: key_ok_def key_def code_point_def is_cont_def byte_def)
  obtain t' where t': "ti_key (key (KChar ''x'')) t = Some t'" "ti_rep t' (z_key (key (KChar ''x'')) (l, r))"
    using ti_key_refines [OF rep k] .
  have rep': "ti_rep t' (l @ [''x''], r)" using t'(2) by (simp add: key_def is_ctrl_u_def)
  then have "chars (ti_value t') = (l @ [''x'']) @ r"
    using chars_concat [of "(l @ [''x'']) @ r"] by (simp add: ti_rep_def)
  moreover have "\<not> is_ws ''x''" by (simp add: is_ws_def white_space_def)
  ultimately have "\<not> all_ws (ti_value t')" by (simp add: all_ws_def)
  then have "trim (ti_value t') \<noteq> []" by (simp add: trim_eq_Nil)
  moreover from this have "ti_value t' \<noteq> []" by auto
  ultimately show ?thesis using t'(1) rep' unfolding ti_ok_def by blast
qed

definition finishes :: "(string \<Rightarrow> string) \<Rightarrow> login_wizard \<Rightarrow> bool" where
  "finishes low w \<longleftrightarrow> (\<exists>ks r. (\<forall>k \<in> set ks. key_ok k) \<and> wizard_loop low ks w = Some (Some r))"

lemma finishes_step:
  assumes "lw_handle_key low k w = Some (WContinue, w')" "key_ok k" "finishes low w'"
  shows "finishes low w"
proof -
  from assms(3) obtain ks r where "\<forall>k \<in> set ks. key_ok k" "wizard_loop low ks w' = Some (Some r)"
    unfolding finishes_def by blast
  then have "\<forall>j \<in> set (k # ks). key_ok j" "wizard_loop low (k # ks) w = Some (Some r)"
    using assms(1,2) by simp_all
  then show ?thesis unfolding finishes_def by blast
qed

lemma key_ok_keys: "key_ok (key (KChar ''x''))" "key_ok (key KEnter)"
  by (auto simp: key_ok_def key_def code_point_def is_cont_def byte_def)

lemma not_ctrl_c: "\<not> is_ctrl_c (key k)"
  by (simp add: is_ctrl_c_def key_def)

lemma finishes_secret:
  assumes "wiz_inv low cat w" "lw_step w = WSecret" shows "finishes low w"
proof -
  obtain t where t: "ti_key (key (KChar ''x'')) (lw_secret_input w) = Some t" "ti_ok t" "ti_value t \<noteq> []"
    using type_x [of "lw_secret_input w"] assms(1) by (auto simp: wiz_inv_def simp del: ti_key.simps)
  let ?w = "w\<lparr> lw_secret_input := t \<rparr>"
  have 1: "lw_handle_key low (key (KChar ''x'')) w = Some (WContinue, ?w)"
    using t(1) assms(2) by (simp add: lw_handle_key_def not_ctrl_c handle_secret_key_def del: ti_key.simps)
      (simp add: key_def)
  have 2: "lw_handle_key low (key KEnter) ?w = Some (WFinish, ?w\<lparr> lw_step := WDone \<rparr>)"
    using t(3) assms(2) by (simp add: lw_handle_key_def not_ctrl_c handle_secret_key_def) (simp add: key_def)
  have "wiz_inv low cat (?w\<lparr> lw_step := WDone \<rparr>)"
    using assms t by (simp add: wiz_inv_def provider_chosen_def)
  then obtain r where r: "lw_result (?w\<lparr> lw_step := WDone \<rparr>) = Some r"
    by (rule inv_result) simp_all
  have "finishes low ?w" unfolding finishes_def
    using 2 r key_ok_keys by (intro exI [of _ "[key KEnter]"] exI [of _ r]) simp
  with 1 key_ok_keys(1) show ?thesis by (rule finishes_step)
qed

lemma finishes_label:
  assumes "wiz_inv low cat w" "lw_step w = WLabel" shows "finishes low w"
proof -
  obtain t where t: "ti_key (key (KChar ''x'')) (lw_label_input w) = Some t" "ti_ok t" "trim (ti_value t) \<noteq> []"
    using type_x [of "lw_label_input w"] assms(1) by (auto simp: wiz_inv_def simp del: ti_key.simps)
  let ?w = "w\<lparr> lw_label_input := t \<rparr>"
  have 1: "lw_handle_key low (key (KChar ''x'')) w = Some (WContinue, ?w)"
    using t(1) assms(2) by (simp add: lw_handle_key_def not_ctrl_c handle_label_key_def del: ti_key.simps)
      (simp add: key_def)
  have 2: "lw_handle_key low (key KEnter) ?w = Some (WContinue, ?w\<lparr> lw_step := WSecret \<rparr>)"
    using t(3) assms(2) by (simp add: lw_handle_key_def not_ctrl_c handle_label_key_def) (simp add: key_def)
  have "wiz_inv low cat (?w\<lparr> lw_step := WSecret \<rparr>)"
    using assms t by (simp add: wiz_inv_def provider_chosen_def)
  then have "finishes low (?w\<lparr> lw_step := WSecret \<rparr>)" by (rule finishes_secret) simp
  from finishes_step [OF 1 key_ok_keys(1) finishes_step [OF 2 key_ok_keys(2) this]] show ?thesis .
qed

lemma finishes_custom:
  assumes "wiz_inv low cat w" "lw_step w = WCustomProvider" shows "finishes low w"
proof -
  obtain t where t: "ti_key (key (KChar ''x'')) (lw_custom_input w) = Some t" "ti_ok t" "trim (ti_value t) \<noteq> []"
    using type_x [of "lw_custom_input w"] assms(1) by (auto simp: wiz_inv_def simp del: ti_key.simps)
  let ?w = "w\<lparr> lw_custom_input := t \<rparr>"
  have 1: "lw_handle_key low (key (KChar ''x'')) w = Some (WContinue, ?w)"
    using t(1) assms(2) by (simp add: lw_handle_key_def not_ctrl_c handle_custom_provider_key_def del: ti_key.simps)
      (simp add: key_def)
  have 2: "lw_handle_key low (key KEnter) ?w = Some (WContinue, ?w\<lparr> lw_step := WLabel \<rparr>)"
    using t(3) assms(2) by (simp add: lw_handle_key_def not_ctrl_c handle_custom_provider_key_def) (simp add: key_def)
  have "wiz_inv low cat (?w\<lparr> lw_step := WLabel \<rparr>)"
    using assms t by (simp add: wiz_inv_def provider_chosen_def)
  then have "finishes low (?w\<lparr> lw_step := WLabel \<rparr>)" by (rule finishes_label) simp
  from finishes_step [OF 1 key_ok_keys(1) finishes_step [OF 2 key_ok_keys(2) this]] show ?thesis .
qed

text \<open>Esc goes back one step, through the custom provider when one was chosen, and cancels on the first.\<close>

fun steps_to_leave :: "bool \<Rightarrow> wizard_step \<Rightarrow> nat" where
  "steps_to_leave custom WProvider = 1"
| "steps_to_leave custom WCustomProvider = 2"
| "steps_to_leave custom WLabel = (if custom then 3 else 2)"
| "steps_to_leave custom WSecret = (if custom then 4 else 3)"
| "steps_to_leave custom _ = 0"

lemma esc_step:
  "lw_handle_key low (key KEsc) w =
    (case lw_step w of
       WProvider \<Rightarrow> Some (WCancel, w\<lparr> lw_step := WCancelled \<rparr>)
     | WCustomProvider \<Rightarrow> Some (WContinue, w\<lparr> lw_step := WProvider \<rparr>)
     | WLabel \<Rightarrow> Some (WContinue, w\<lparr> lw_step := (if lw_chose_custom w then WCustomProvider else WProvider) \<rparr>)
     | WSecret \<Rightarrow> Some (WContinue, w\<lparr> lw_step := WLabel \<rparr>)
     | _ \<Rightarrow> Some (WContinue, w))"
  by (simp add: lw_handle_key_def not_ctrl_c handle_provider_key_def handle_custom_provider_key_def
      handle_label_key_def handle_secret_key_def split: wizard_step.split) (simp add: key_def)

lemma esc_leaves:
  assumes "lw_step w \<noteq> WDone" "lw_step w \<noteq> WCancelled"
  shows "wizard_loop low (replicate (steps_to_leave (lw_chose_custom w) (lw_step w)) (key KEsc)) w = Some None"
  using assms by (cases "lw_step w") (simp_all add: esc_step eval_nat_numeral)

text \<open>C15: the user can always complete the wizard and always leave it: from every state that keys reach in which it
  is neither done nor cancelled there are keys that finish it with a result, whatever was typed before and whatever
  the catalog holds, even nothing; Esc pressed once per step that lies behind, the current one included, cancels
  it; and so does Ctrl-C at once.\<close>

theorem wizard_never_stuck:
  assumes "wiz_reach low cat w" "lw_step w \<noteq> WDone" "lw_step w \<noteq> WCancelled"
  shows "(\<exists>ks r. (\<forall>k \<in> set ks. key_ok k) \<and> wizard_loop low ks w = Some (Some r)) \<and>
    wizard_loop low (replicate (steps_to_leave (lw_chose_custom w) (lw_step w)) (key KEsc)) w = Some None \<and>
    (\<forall>ks. wizard_loop low (\<lparr> ke_code = KChar ''c'', ke_ctrl = True \<rparr> # ks) w = Some None)"
proof -
  have i: "wiz_inv low cat w" by (rule wiz_reach_inv [OF assms(1)])
  have "finishes low w"
  proof (cases "lw_step w")
    case WProvider
    then have h: "lw_handle_key low (key KEnter) w = Some (handle_provider_key low (key KEnter) w)"
      by (simp add: lw_handle_key_def not_ctrl_c)
    obtain e w' where r: "handle_provider_key low (key KEnter) w = (e, w')" by force
    have i': "wiz_inv low cat w'" using wiz_inv_provider [OF i WProvider r] by simp
    obtain it where "pp_selected (lw_picker w) = Some it"
      using pp_selected_Some [of low cat "lw_picker w"] i by (auto simp: wiz_inv_def)
    then have "e = WContinue" "lw_step w' \<in> {WCustomProvider, WLabel}"
      using r WProvider by (auto simp: handle_provider_key_def key_def split: if_splits)
    with i' finishes_custom finishes_label have f: "finishes low w'" by blast
    have "lw_handle_key low (key KEnter) w = Some (WContinue, w')" using h r \<open>e = WContinue\<close> by simp
    from finishes_step [OF this key_ok_keys(2) f] show ?thesis .
  next
    case WCustomProvider
    with i show ?thesis by (rule finishes_custom)
  next
    case WLabel
    with i show ?thesis by (rule finishes_label)
  next
    case WSecret
    with i show ?thesis by (rule finishes_secret)
  next
    case WDone
    with assms(2) show ?thesis by contradiction
  next
    case WCancelled
    with assms(3) show ?thesis by contradiction
  qed
  moreover have "wizard_loop low (\<lparr> ke_code = KChar ''c'', ke_ctrl = True \<rparr> # ks) w = Some None" for ks
    by (simp add: lw_handle_key_def is_ctrl_c_def)
  ultimately show ?thesis using esc_leaves [OF assms(2,3), of low] by (simp add: finishes_def)
qed

theorem wizard_never_stuck_witness:
  "(\<exists>ks r. wizard_loop demo_low ks demo_wizard = Some (Some r)) \<and>
   wizard_loop demo_low [key KEsc, key KEsc] demo_wizard = Some None"
proof -
  have s: "lw_step demo_wizard = WLabel" "\<not> lw_chose_custom demo_wizard" by code_simp+
  then have "replicate (steps_to_leave (lw_chose_custom demo_wizard) (lw_step demo_wizard)) (key KEsc) =
      [key KEsc, key KEsc]" by (simp add: eval_nat_numeral)
  with wizard_never_stuck [OF demo_wizard_reach] s show ?thesis by auto
qed

end
