(* ===== verification/MessageBuffer.thy ===== *)
theory MessageBuffer
  imports TextInput
begin

text \<open>
  The input draft and the message history (\<^verbatim>\<open>tui/src/message_buffer.rs\<close>). The history is a list,
  oldest entry first. Subtractions that would underflow panic, which is \<open>None\<close>; the theorem at the
  end shows that they do not and that the history is the window of the last submissions.
\<close>

subsection \<open>The buffer\<close>

record history_entry =
  he_text :: string
  he_pending_approval :: bool

record message_buffer =
  mb_draft :: string
  mb_history :: "history_entry list"
  mb_history_cursor :: "nat option"
  mb_capacity :: nat

definition mb_new :: "nat \<Rightarrow> message_buffer" where
  "mb_new capacity =
    \<lparr> mb_draft = [], mb_history = [], mb_history_cursor = None, mb_capacity = max capacity 1 \<rparr>"

definition mb_push_char :: "string \<Rightarrow> message_buffer \<Rightarrow> message_buffer" where
  "mb_push_char c m = m\<lparr> mb_draft := mb_draft m @ c \<rparr>"

definition mb_push_str :: "string \<Rightarrow> message_buffer \<Rightarrow> message_buffer" where
  "mb_push_str s m = m\<lparr> mb_draft := mb_draft m @ s \<rparr>"

definition mb_backspace :: "message_buffer \<Rightarrow> bool \<times> message_buffer" where
  "mb_backspace m =
    (case str_pop (mb_draft m) of Some d \<Rightarrow> (True, m\<lparr> mb_draft := d \<rparr>) | None \<Rightarrow> (False, m))"

definition mb_set_draft :: "string \<Rightarrow> message_buffer \<Rightarrow> message_buffer" where
  "mb_set_draft d m = m\<lparr> mb_draft := d, mb_history_cursor := None \<rparr>"

definition mb_tab_queue :: "message_buffer \<Rightarrow> string option \<times> message_buffer" where
  "mb_tab_queue m =
    (if mb_draft m = [] then (None, m)
     else (Some (mb_draft m), m\<lparr> mb_draft := mb_draft m @ [nl] \<rparr>))"

definition mb_push_history :: "string \<Rightarrow> bool \<Rightarrow> message_buffer \<Rightarrow> message_buffer" where
  "mb_push_history t p m =
    (let h = (if mb_capacity m \<le> length (mb_history m) then tl (mb_history m) else mb_history m)
     in m\<lparr> mb_history := h @ [\<lparr> he_text = t, he_pending_approval = p \<rparr>] \<rparr>)"

definition mb_submit :: "bool \<Rightarrow> message_buffer \<Rightarrow> string option \<times> message_buffer" where
  "mb_submit p m =
    (let t = trim (mb_draft m) in
     if t = [] then (None, m\<lparr> mb_draft := [], mb_history_cursor := None \<rparr>)
     else (Some t, (mb_push_history t p m)\<lparr> mb_draft := [], mb_history_cursor := None \<rparr>))"

text \<open>The entry a cursor points at, counted from the newest.\<close>

definition from_tail :: "history_entry list \<Rightarrow> nat \<Rightarrow> string option" where
  "from_tail h i = (if i < length h then Some (he_text (h ! (length h - 1 - i))) else None)"

definition mb_history_prev :: "message_buffer \<Rightarrow> string option \<times> message_buffer" where
  "mb_history_prev m =
    (if mb_history m = [] then (None, m)
     else
       let next = (case mb_history_cursor m of None \<Rightarrow> 0 | Some c \<Rightarrow> min (c + 1) (length (mb_history m) - 1))
       in (from_tail (mb_history m) next, m\<lparr> mb_history_cursor := Some next \<rparr>))"

datatype history_nav = AtDraft | AtEntry string

definition mb_history_next :: "message_buffer \<Rightarrow> (history_nav \<times> message_buffer) option" where
  "mb_history_next m =
    (case mb_history_cursor m of
       None \<Rightarrow> Some (AtDraft, m)
     | Some 0 \<Rightarrow> Some (AtDraft, m\<lparr> mb_history_cursor := None \<rparr>)
     | Some (Suc n) \<Rightarrow>
         if n < length (mb_history m) then
           Some (case from_tail (mb_history m) n of Some t \<Rightarrow> AtEntry t | None \<Rightarrow> AtDraft,
                 m\<lparr> mb_history_cursor := Some n \<rparr>)
         else None)"

definition mb_pending :: "message_buffer \<Rightarrow> history_entry list" where
  "mb_pending m = filter he_pending_approval (mb_history m)"

definition mb_approve_pending :: "message_buffer \<Rightarrow> string list \<times> message_buffer" where
  "mb_approve_pending m =
    (map he_text (mb_pending m),
     m\<lparr> mb_history := map (\<lambda>h. h\<lparr> he_pending_approval := False \<rparr>) (mb_history m) \<rparr>)"

subsection \<open>The window of submissions\<close>

definition lastn :: "nat \<Rightarrow> 'a list \<Rightarrow> 'a list" where
  "lastn n xs = drop (length xs - n) xs"

lemma length_lastn [simp]: "length (lastn n xs) = min n (length xs)"
  by (simp add: lastn_def)

lemma map_lastn: "map f (lastn n xs) = lastn n (map f xs)"
  by (simp add: lastn_def drop_map)

lemma lastn_snoc:
  "0 < n \<Longrightarrow> lastn n (xs @ [x]) = (if n \<le> length (lastn n xs) then tl (lastn n xs) else lastn n xs) @ [x]"
  by (auto simp: lastn_def drop_Suc tl_drop [symmetric] Suc_diff_le)

text \<open>The operations, with the list of all entries ever submitted as a ghost; approving clears the
  marks of all of them.\<close>

datatype mb_op =
    MPush string
  | MBackspace
  | MSetDraft string
  | MTab
  | MSubmit bool
  | MPrev
  | MNext
  | MApprove

definition submitted :: "bool \<Rightarrow> message_buffer \<Rightarrow> history_entry list" where
  "submitted p m =
    (if trim (mb_draft m) = [] then []
     else [\<lparr> he_text = trim (mb_draft m), he_pending_approval = p \<rparr>])"

fun mb_step :: "mb_op \<Rightarrow> message_buffer \<times> history_entry list \<Rightarrow> (message_buffer \<times> history_entry list) option" where
  "mb_step (MPush s) (m, g) = Some (mb_push_str s m, g)"
| "mb_step MBackspace (m, g) = Some (snd (mb_backspace m), g)"
| "mb_step (MSetDraft s) (m, g) = Some (mb_set_draft s m, g)"
| "mb_step MTab (m, g) = Some (snd (mb_tab_queue m), g)"
| "mb_step (MSubmit p) (m, g) = Some (snd (mb_submit p m), g @ submitted p m)"
| "mb_step MPrev (m, g) = Some (snd (mb_history_prev m), g)"
| "mb_step MNext (m, g) = map_option (\<lambda>(_, m'). (m', g)) (mb_history_next m)"
| "mb_step MApprove (m, g) =
    Some (snd (mb_approve_pending m), map (\<lambda>h. h\<lparr> he_pending_approval := False \<rparr>) g)"

fun mb_run :: "mb_op list \<Rightarrow> message_buffer \<times> history_entry list \<Rightarrow> (message_buffer \<times> history_entry list) option" where
  "mb_run [] s = Some s"
| "mb_run (op # ops) s = Option.bind (mb_step op s) (mb_run ops)"

definition mb_ok :: "message_buffer \<Rightarrow> bool" where
  "mb_ok m \<longleftrightarrow> 0 < mb_capacity m \<and> length (mb_history m) \<le> mb_capacity m \<and>
     (\<forall>c. mb_history_cursor m = Some c \<longrightarrow> c < length (mb_history m))"

definition mb_window :: "nat \<Rightarrow> message_buffer \<times> history_entry list \<Rightarrow> bool" where
  "mb_window cap s \<longleftrightarrow> mb_ok (fst s) \<and> mb_capacity (fst s) = cap \<and> mb_history (fst s) = lastn cap (snd s)"

lemma mb_ok_new [inv_intros]: "mb_ok (mb_new n)"
  by (simp add: mb_ok_def mb_new_def)

lemma mb_ok_edit [inv_intros]:
  "mb_ok m \<Longrightarrow> mb_ok (mb_push_char c m)" "mb_ok m \<Longrightarrow> mb_ok (mb_push_str s m)"
  "mb_ok m \<Longrightarrow> mb_ok (snd (mb_backspace m))" "mb_ok m \<Longrightarrow> mb_ok (mb_set_draft s m)"
  "mb_ok m \<Longrightarrow> mb_ok (snd (mb_tab_queue m))"
  by (simp_all add: mb_ok_def mb_push_char_def mb_push_str_def mb_backspace_def mb_set_draft_def
      mb_tab_queue_def split: option.split)

lemma mb_ok_submit [inv_intros]: "mb_ok m \<Longrightarrow> mb_ok (snd (mb_submit p m))"
  by (auto simp: mb_ok_def mb_submit_def mb_push_history_def Let_def)

lemma mb_ok_prev [inv_intros]: "mb_ok m \<Longrightarrow> mb_ok (snd (mb_history_prev m))"
  by (auto simp: mb_ok_def mb_history_prev_def Let_def split: option.splits)

lemma mb_next_ok: "mb_ok m \<Longrightarrow> \<exists>r m'. mb_history_next m = Some (r, m') \<and> mb_ok m' \<and>
    mb_history m' = mb_history m \<and> mb_capacity m' = mb_capacity m \<and> mb_draft m' = mb_draft m"
  by (auto simp: mb_ok_def mb_history_next_def split: option.splits nat.splits)

lemma mb_ok_approve [inv_intros]: "mb_ok m \<Longrightarrow> mb_ok (snd (mb_approve_pending m))"
  by (auto simp: mb_ok_def mb_approve_pending_def)

lemma mb_window_step:
  assumes "mb_window cap s" shows "\<exists>s'. mb_step op s = Some s' \<and> mb_window cap s'"
proof -
  obtain m g where s: "s = (m, g)" by (cases s)
  from assms have ok: "mb_ok m" and c: "mb_capacity m = cap" and h: "mb_history m = lastn cap g"
    and p: "0 < cap" by (auto simp: mb_window_def s mb_ok_def)
  show ?thesis
  proof (cases op)
    case (MSubmit b)
    have "mb_history (snd (mb_submit b m)) = lastn cap (g @ submitted b m)"
      using h c p by (simp add: mb_submit_def submitted_def mb_push_history_def Let_def lastn_snoc)
    with MSubmit ok c show ?thesis
      by (simp add: s mb_window_def mb_ok_submit) (simp add: mb_submit_def mb_push_history_def Let_def)
  next
    case MApprove
    with ok c h show ?thesis
      by (simp add: s mb_window_def mb_ok_approve) (simp add: mb_approve_pending_def map_lastn)
  next
    case MNext
    with mb_next_ok [OF ok] c h show ?thesis by (auto simp: s mb_window_def)
  next
    case MPrev
    with ok c h show ?thesis
      by (simp add: s mb_window_def mb_ok_prev) (simp add: mb_history_prev_def Let_def)
  qed (use ok c h in \<open>simp_all add: s mb_window_def mb_ok_edit\<close>,
       simp_all add: mb_push_str_def mb_backspace_def mb_set_draft_def mb_tab_queue_def split: option.split)
qed

lemma mb_window_run: "mb_window cap s \<Longrightarrow> \<exists>s'. mb_run ops s = Some s' \<and> mb_window cap s'"
proof (induction ops arbitrary: s)
  case Nil
  then show ?case by simp
next
  case (Cons op ops)
  from mb_window_step [OF Cons.prems, of op] Cons.IH show ?case by (auto simp: bind_eq_Some_conv)
qed

text \<open>C16: the history is a window: after any operations, none of which panics, it holds exactly the
  last submissions, as many as the capacity allows, oldest first, with the marks of those that
  were approved cleared; the entries that wait for approval are those of the window, so a message
  submitted in plan mode that is pushed out of it is never approved; and the cursor points into it.\<close>

theorem history_window:
  "\<exists>m g. mb_run ops (mb_new n, []) = Some (m, g) \<and> mb_history m = lastn (max n 1) g \<and>
     length (mb_history m) \<le> max n 1 \<and>
     fst (mb_approve_pending m) = map he_text (filter he_pending_approval (lastn (max n 1) g)) \<and>
     (case mb_history_cursor m of None \<Rightarrow> True | Some c \<Rightarrow> from_tail (mb_history m) c \<noteq> None)"
proof -
  have "mb_window (max n 1) (mb_new n, [])"
    by (simp add: mb_window_def mb_ok_new) (simp add: mb_new_def lastn_def)
  from mb_window_run [OF this, of ops] obtain m g where
    r: "mb_run ops (mb_new n, []) = Some (m, g)" "mb_window (max n 1) (m, g)" by auto
  then show ?thesis
    by (auto simp: mb_window_def mb_ok_def mb_approve_pending_def mb_pending_def from_tail_def split: option.splits)
qed

end
