(* ===== verification/TuiApp.thy ===== *)
theory TuiApp
  imports Slash Pickers MessageBuffer
begin

text \<open>
  The state machine of the terminal interface (\<^verbatim>\<open>tui/src/app.rs\<close>, \<^verbatim>\<open>modes.rs\<close>, \<^verbatim>\<open>config.rs\<close>):
  one handler per input mode over the message buffer, the slash parser and the model picker. A
  handler returns the outcome and the new state, or \<open>None\<close> where the history would panic, which the
  invariant excludes. Drawing and reading the terminal are not modelled.
\<close>

subsection \<open>Configuration and modes\<close>

record tui_theme =
  tt_log_fg :: string
  tt_input_fg :: string
  tt_status_fg :: string
  tt_bg :: string

record tui_config =
  tc_theme :: tui_theme
  tc_prompt :: string
  tc_show_plan_indicator :: bool
  tc_history_capacity :: nat

definition tui_theme_default :: tui_theme where
  "tui_theme_default =
    \<lparr> tt_log_fg = ''white'', tt_input_fg = ''white'', tt_status_fg = ''yellow'', tt_bg = ''default'' \<rparr>"

definition tui_config_default :: tui_config where
  "tui_config_default =
    \<lparr> tc_theme = tui_theme_default, tc_prompt = ''> '', tc_show_plan_indicator = True,
      tc_history_capacity = 10000 \<rparr>"

datatype input_mode = Normal | Insert | SlashCommand | ModelsPicker

datatype plan_mode = Planning | Executing

fun is_planning :: "plan_mode \<Rightarrow> bool" where
  "is_planning Planning = True"
| "is_planning Executing = False"

datatype submit_outcome =
    SoEmpty
  | SoCommand parsed_command
  | SoQueuedForApproval string
  | SoDispatched string

datatype key_outcome =
    KoConsumed
  | KoTransitioned
  | KoSubmitted submit_outcome
  | KoCommandError slash_error
  | KoQuit

subsection \<open>The application\<close>

record app =
  ap_config :: tui_config
  ap_input_mode :: input_mode
  ap_plan_mode :: plan_mode
  ap_messages :: message_buffer
  ap_sessions :: session_list
  ap_cwd :: string
  ap_slash_filter :: string
  ap_slash_matches :: "string list"
  ap_models_items :: "model_item list"
  ap_models_picker :: "model_picker option"
  ap_should_quit :: bool

definition app_new :: "string \<Rightarrow> tui_config \<Rightarrow> app" where
  "app_new cwd config =
    \<lparr> ap_config = config, ap_input_mode = Normal, ap_plan_mode = Planning,
      ap_messages = mb_new (tc_history_capacity config), ap_sessions = session_list_new, ap_cwd = cwd,
      ap_slash_filter = [], ap_slash_matches = [], ap_models_items = [], ap_models_picker = None,
      ap_should_quit = False \<rparr>"

definition with_models :: "model_item list \<Rightarrow> app \<Rightarrow> app" where
  "with_models items a = a\<lparr> ap_models_items := items \<rparr>"

definition with_cwd :: "string \<Rightarrow> app \<Rightarrow> app" where
  "with_cwd cwd a = a\<lparr> ap_cwd := cwd \<rparr>"

definition toggle_plan_mode :: "app \<Rightarrow> app" where
  "toggle_plan_mode a =
    a\<lparr> ap_plan_mode := (case ap_plan_mode a of Planning \<Rightarrow> Executing | Executing \<Rightarrow> Planning) \<rparr>"

definition refresh_slash_matches :: "app \<Rightarrow> app" where
  "refresh_slash_matches a =
    (if ap_slash_filter a = [] then a\<lparr> ap_slash_matches := ALL_SLASH_COMMANDS \<rparr>
     else a\<lparr> ap_slash_matches := filter (starts_with (ap_slash_filter a)) ALL_SLASH_COMMANDS \<rparr>)"

definition enter_slash_mode :: "app \<Rightarrow> app" where
  "enter_slash_mode a = refresh_slash_matches (a\<lparr> ap_input_mode := SlashCommand, ap_slash_filter := [] \<rparr>)"

definition submit_draft :: "app \<Rightarrow> submit_outcome \<times> app" where
  "submit_draft a =
    (let draft = mb_draft (ap_messages a) in
     if trim draft = [] then (SoEmpty, a)
     else if starts_with ''/'' (trim_start draft) then
       (case parse_slash_command draft of
          Ok (Some cmd) \<Rightarrow>
            if cmd = CQuit then
              (SoCommand cmd, a\<lparr> ap_should_quit := True, ap_messages := mb_set_draft [] (ap_messages a) \<rparr>)
            else if cmd = CModels then
              (SoCommand cmd,
               a\<lparr> ap_models_picker := Some (mp_new (ap_models_items a)), ap_input_mode := ModelsPicker,
                  ap_messages := mb_set_draft [] (ap_messages a) \<rparr>)
            else (SoCommand cmd, a\<lparr> ap_messages := mb_set_draft [] (ap_messages a) \<rparr>)
        | Ok None \<Rightarrow> (SoEmpty, a)
        | Err _ \<Rightarrow> (SoEmpty, a))
     else
       let pending = is_planning (ap_plan_mode a); (r, m) = mb_submit pending (ap_messages a)
       in (case r of
             Some t \<Rightarrow> if pending then SoQueuedForApproval t else SoDispatched t
           | None \<Rightarrow> SoEmpty,
           a\<lparr> ap_messages := m \<rparr>))"

definition history_up :: "app \<Rightarrow> (key_outcome \<times> app) option" where
  "history_up a = Some (KoConsumed, a\<lparr> ap_messages := snd (mb_history_prev (ap_messages a)) \<rparr>)"

definition history_down :: "app \<Rightarrow> (key_outcome \<times> app) option" where
  "history_down a =
    map_option (\<lambda>(_, m). (KoConsumed, a\<lparr> ap_messages := m \<rparr>)) (mb_history_next (ap_messages a))"

definition handle_normal_key :: "key_event \<Rightarrow> app \<Rightarrow> (key_outcome \<times> app) option" where
  "handle_normal_key k a =
    (case ke_code k of
       KChar c \<Rightarrow>
         if c = ''i'' then Some (KoTransitioned, a\<lparr> ap_input_mode := Insert \<rparr>)
         else if c = ''/'' then Some (KoTransitioned, enter_slash_mode a)
         else Some (KoConsumed, a)
     | KUp \<Rightarrow> history_up a
     | KDown \<Rightarrow> history_down a
     | _ \<Rightarrow> Some (KoConsumed, a))"

definition handle_insert_key :: "key_event \<Rightarrow> app \<Rightarrow> (key_outcome \<times> app) option" where
  "handle_insert_key k a =
    (case ke_code k of
       KEsc \<Rightarrow> Some (KoTransitioned, a\<lparr> ap_input_mode := Normal \<rparr>)
     | KEnter \<Rightarrow> (let (r, b) = submit_draft a in Some (KoSubmitted r, b))
     | KTab \<Rightarrow> Some (KoConsumed, a\<lparr> ap_messages := snd (mb_tab_queue (ap_messages a)) \<rparr>)
     | KBackspace \<Rightarrow> Some (KoConsumed, a\<lparr> ap_messages := snd (mb_backspace (ap_messages a)) \<rparr>)
     | KUp \<Rightarrow> if ke_ctrl k then history_up a else Some (KoConsumed, a)
     | KDown \<Rightarrow> if ke_ctrl k then history_down a else Some (KoConsumed, a)
     | KChar c \<Rightarrow> Some (KoConsumed, a\<lparr> ap_messages := mb_push_char c (ap_messages a) \<rparr>)
     | _ \<Rightarrow> Some (KoConsumed, a))"

definition slash_enter :: "app \<Rightarrow> key_outcome \<times> app" where
  "slash_enter a =
    (let draft = mb_draft (ap_messages a) in
     if \<not> starts_with ''/'' draft then (KoTransitioned, a\<lparr> ap_input_mode := Normal \<rparr>)
     else case parse_slash_command draft of
       Ok (Some cmd) \<Rightarrow>
         if cmd = CQuit then (KoQuit, a\<lparr> ap_should_quit := True, ap_input_mode := Normal \<rparr>)
         else (KoSubmitted (SoCommand cmd),
               a\<lparr> ap_input_mode := Normal, ap_messages := mb_set_draft [] (ap_messages a) \<rparr>)
     | Ok None \<Rightarrow> (KoConsumed, a)
     | Err e \<Rightarrow> (KoCommandError e, a))"

definition slash_backspace :: "app \<Rightarrow> key_outcome \<times> app" where
  "slash_backspace a =
    (case str_pop (ap_slash_filter a) of
       None \<Rightarrow> (KoTransitioned, a\<lparr> ap_input_mode := Normal, ap_slash_matches := [] \<rparr>)
     | Some f \<Rightarrow> (KoConsumed, refresh_slash_matches (a\<lparr> ap_slash_filter := f \<rparr>)))"

definition slash_tab :: "app \<Rightarrow> key_outcome \<times> app" where
  "slash_tab a =
    (case ap_slash_matches a of
       [completed] \<Rightarrow>
         (KoConsumed, refresh_slash_matches
            (a\<lparr> ap_messages := mb_set_draft (''/'' @ completed @ '' '') (ap_messages a),
                ap_slash_filter := completed \<rparr>))
     | _ \<Rightarrow> (KoConsumed, a))"

definition slash_char :: "string \<Rightarrow> app \<Rightarrow> key_outcome \<times> app" where
  "slash_char c a =
    (let b = refresh_slash_matches (a\<lparr> ap_slash_filter := ap_slash_filter a @ c \<rparr>)
     in (KoConsumed, b\<lparr> ap_messages := mb_set_draft (''/'' @ ap_slash_filter b) (ap_messages b) \<rparr>))"

definition handle_slash_key :: "key_event \<Rightarrow> app \<Rightarrow> key_outcome \<times> app" where
  "handle_slash_key k a =
    (case ke_code k of
       KEsc \<Rightarrow>
         (KoTransitioned, a\<lparr> ap_input_mode := Normal, ap_slash_filter := [], ap_slash_matches := [] \<rparr>)
     | KEnter \<Rightarrow> slash_enter a
     | KBackspace \<Rightarrow> slash_backspace a
     | KTab \<Rightarrow> slash_tab a
     | KChar c \<Rightarrow> slash_char c a
     | _ \<Rightarrow> (KoConsumed, a))"

definition handle_models_picker_key :: "(string \<Rightarrow> string) \<Rightarrow> key_event \<Rightarrow> app \<Rightarrow> key_outcome \<times> app" where
  "handle_models_picker_key low k a =
    (case ap_models_picker a of
       None \<Rightarrow> (KoTransitioned, a\<lparr> ap_input_mode := Normal \<rparr>)
     | Some p \<Rightarrow>
         (case mp_handle_key low k p of
            (PkContinue, p') \<Rightarrow> (KoConsumed, a\<lparr> ap_models_picker := Some p' \<rparr>)
          | (PkCancel, p') \<Rightarrow> (KoTransitioned, a\<lparr> ap_models_picker := None, ap_input_mode := Normal \<rparr>)
          | (PkPick, p') \<Rightarrow>
              (case mp_selected p' of
                 Some it \<Rightarrow> KoSubmitted (SoCommand (CModel (mi_provider_id it @ ''/'' @ mi_model_id it)))
               | None \<Rightarrow> KoTransitioned,
               a\<lparr> ap_models_picker := None, ap_input_mode := Normal \<rparr>)))"

definition app_handle_key :: "(string \<Rightarrow> string) \<Rightarrow> key_event \<Rightarrow> app \<Rightarrow> (key_outcome \<times> app) option" where
  "app_handle_key low k a =
    (if is_ctrl_c k then Some (KoQuit, a\<lparr> ap_should_quit := True \<rparr>)
     else case ap_input_mode a of
       Normal \<Rightarrow> handle_normal_key k a
     | Insert \<Rightarrow> handle_insert_key k a
     | SlashCommand \<Rightarrow> Some (handle_slash_key k a)
     | ModelsPicker \<Rightarrow> Some (handle_models_picker_key low k a))"

text \<open>The event loop over the keys the terminal delivers, up to the key that quits.\<close>

fun app_run :: "(string \<Rightarrow> string) \<Rightarrow> key_event list \<Rightarrow> app \<Rightarrow> (key_outcome list \<times> app) option" where
  "app_run low [] a = Some ([], a)"
| "app_run low (k # ks) a =
    (case app_handle_key low k a of
       None \<Rightarrow> None
     | Some (r, b) \<Rightarrow>
         if ap_should_quit b then Some ([r], b)
         else map_option (\<lambda>(rs, c). (r # rs, c)) (app_run low ks b))"

subsection \<open>Reachable states\<close>

text \<open>What the binary and the keys can do to the application: build it, deliver a key, toggle the
  plan mode and approve the pending messages.\<close>

inductive app_reach :: "(string \<Rightarrow> string) \<Rightarrow> app \<Rightarrow> bool" for low where
  ar_new: "app_reach low (with_models items (with_cwd cwd' (app_new cwd config)))"
| ar_key: "app_reach low a \<Longrightarrow> app_handle_key low k a = Some (r, b) \<Longrightarrow> app_reach low b"
| ar_toggle: "app_reach low a \<Longrightarrow> app_reach low (toggle_plan_mode a)"
| ar_approve: "app_reach low a \<Longrightarrow>
    app_reach low (a\<lparr> ap_messages := snd (mb_approve_pending (ap_messages a)) \<rparr>)"

definition slash_list :: "string \<Rightarrow> string list" where
  "slash_list f = filter (starts_with f) ALL_SLASH_COMMANDS"

definition app_inv :: "(string \<Rightarrow> string) \<Rightarrow> app \<Rightarrow> bool" where
  "app_inv low a \<longleftrightarrow> mb_ok (ap_messages a) \<and>
     (ap_input_mode a = SlashCommand \<longrightarrow> ap_slash_matches a = slash_list (ap_slash_filter a)) \<and>
     (ap_input_mode a = ModelsPicker \<longrightarrow>
       (\<exists>p. ap_models_picker a = Some p \<and> mp_current low (ap_models_items a) p))"

lemma starts_with_Nil [simp]: "starts_with [] s"
  by (simp add: starts_with_def)

lemma refresh_simps [frame_simps, simp]:
  "ap_input_mode (refresh_slash_matches a) = ap_input_mode a"
  "ap_messages (refresh_slash_matches a) = ap_messages a"
  "ap_plan_mode (refresh_slash_matches a) = ap_plan_mode a"
  "ap_slash_filter (refresh_slash_matches a) = ap_slash_filter a"
  "ap_models_items (refresh_slash_matches a) = ap_models_items a"
  "ap_models_picker (refresh_slash_matches a) = ap_models_picker a"
  "ap_should_quit (refresh_slash_matches a) = ap_should_quit a"
  "ap_slash_matches (refresh_slash_matches a) = slash_list (ap_slash_filter a)"
  by (simp_all add: refresh_slash_matches_def slash_list_def)

lemma app_inv_new: "app_inv low (with_models items (with_cwd cwd' (app_new cwd config)))"
  by (simp add: app_inv_def with_models_def with_cwd_def app_new_def mb_ok_new)

lemma app_inv_submit: "app_inv low a \<Longrightarrow> ap_input_mode a = Insert \<Longrightarrow> app_inv low (snd (submit_draft a))"
  by (auto simp: submit_draft_def app_inv_def Let_def mb_ok_edit mb_ok_submit mp_current_new split_beta
      split: result.split option.split)

lemma app_inv_normal:
  "app_inv low a \<Longrightarrow> ap_input_mode a = Normal \<Longrightarrow> \<exists>r b. handle_normal_key k a = Some (r, b) \<and> app_inv low b"
  using mb_next_ok [of "ap_messages a"] mb_ok_prev [of "ap_messages a"]
  by (auto simp: handle_normal_key_def history_up_def history_down_def app_inv_def enter_slash_mode_def
      split: key_code.split)

lemma app_inv_insert:
  "app_inv low a \<Longrightarrow> ap_input_mode a = Insert \<Longrightarrow> \<exists>r b. handle_insert_key k a = Some (r, b) \<and> app_inv low b"
  using mb_next_ok [of "ap_messages a"] mb_ok_prev [of "ap_messages a"] app_inv_submit [of low a]
  by (auto simp: handle_insert_key_def history_up_def history_down_def app_inv_def mb_ok_edit split_beta
      split: key_code.split)

lemma app_inv_slash:
  assumes "app_inv low a" "ap_input_mode a = SlashCommand"
  shows "app_inv low (snd (handle_slash_key k a))"
  using assms
  by (auto simp: handle_slash_key_def slash_enter_def slash_backspace_def slash_tab_def slash_char_def
      app_inv_def mb_ok_edit Let_def split: key_code.split result.split option.split list.split)

lemma app_inv_picker:
  assumes "app_inv low a" "ap_input_mode a = ModelsPicker"
  shows "app_inv low (snd (handle_models_picker_key low k a))"
proof -
  from assms obtain p where p: "ap_models_picker a = Some p" "mp_current low (ap_models_items a) p"
    by (auto simp: app_inv_def)
  obtain e p' where e: "mp_handle_key low k p = (e, p')" by fastforce
  with mp_current_key [OF p(2), of k] have "mp_current low (ap_models_items a) p'" by simp
  with assms p(1) e show ?thesis
    by (auto simp: handle_models_picker_key_def app_inv_def split: picker_effect.split)
qed

lemma app_inv_key: "app_inv low a \<Longrightarrow> \<exists>r b. app_handle_key low k a = Some (r, b) \<and> app_inv low b"
proof (cases "is_ctrl_c k")
  case True
  assume "app_inv low a"
  then show ?thesis using True by (simp add: app_handle_key_def app_inv_def)
next
  case False
  assume i: "app_inv low a"
  show ?thesis
    using False app_inv_normal [OF i] app_inv_insert [OF i] app_inv_slash [OF i, of k] app_inv_picker [OF i, of k]
    by (cases "ap_input_mode a"; cases "handle_slash_key k a"; cases "handle_models_picker_key low k a")
      (auto simp: app_handle_key_def)
qed

lemma app_inv_reach: "app_reach low a \<Longrightarrow> app_inv low a"
proof (induction rule: app_reach.induct)
  case (ar_key a k r b)
  with app_inv_key [of low a k] show ?case by simp
next
  case (ar_new items cwd' cwd config)
  show ?case by (rule app_inv_new)
qed (auto simp: app_inv_def toggle_plan_mode_def intro: mb_ok_approve)

lemma plan_mode_kept: "app_handle_key low k a = Some (r, b) \<Longrightarrow> ap_plan_mode b = ap_plan_mode a"
  by (auto simp: app_handle_key_def handle_normal_key_def handle_insert_key_def handle_slash_key_def
      handle_models_picker_key_def history_up_def history_down_def enter_slash_mode_def submit_draft_def
      slash_enter_def slash_backspace_def slash_tab_def slash_char_def Let_def split_beta
      split: if_splits input_mode.splits key_code.splits option.splits result.splits list.splits prod.splits
        picker_effect.splits)

lemma esc_normal:
  assumes "app_handle_key low k a = Some (r, b)" "ke_code k = KEsc" shows "ap_input_mode b = Normal"
proof -
  from assms(2) have "\<not> is_ctrl_c k" "\<not> is_ctrl_u k" by (simp_all add: is_ctrl_c_def is_ctrl_u_def)
  with assms show ?thesis
    by (auto simp: app_handle_key_def handle_normal_key_def handle_insert_key_def handle_slash_key_def
        handle_models_picker_key_def mp_handle_key_def split: input_mode.splits option.splits)
qed

definition submit_sent :: "app \<Rightarrow> app \<Rightarrow> string \<Rightarrow> bool \<Rightarrow> bool" where
  "submit_sent a b t pending \<longleftrightarrow>
     t = trim (mb_draft (ap_messages a)) \<and> t \<noteq> [] \<and> \<not> starts_with ''/'' (trim_start (mb_draft (ap_messages a))) \<and>
     mb_draft (ap_messages b) = [] \<and>
     mb_history (ap_messages b) = lastn (mb_capacity (ap_messages a))
       (mb_history (ap_messages a) @ [\<lparr> he_text = t, he_pending_approval = pending \<rparr>])"

lemma submit_effect:
  assumes "mb_ok (ap_messages a)" "submit_draft a = (r, b)"
  shows "case r of
      SoDispatched t \<Rightarrow> ap_plan_mode a = Executing \<and> submit_sent a b t False
    | SoQueuedForApproval t \<Rightarrow> ap_plan_mode a = Planning \<and> submit_sent a b t True
    | _ \<Rightarrow> mb_history (ap_messages b) = mb_history (ap_messages a)"
proof -
  from assms(1) have c: "0 < mb_capacity (ap_messages a)"
    "lastn (mb_capacity (ap_messages a)) (mb_history (ap_messages a)) = mb_history (ap_messages a)"
    by (simp_all add: mb_ok_def lastn_def)
  show ?thesis
    using assms(2) c
    by (cases "ap_plan_mode a")
      (auto simp: submit_draft_def submit_sent_def mb_submit_def mb_set_draft_def mb_push_history_def Let_def
        lastn_snoc split: if_splits result.splits option.splits)
qed

lemma other_keys_history:
  assumes "app_handle_key low k a = Some (r, b)" "\<not> (ap_input_mode a = Insert \<and> ke_code k = KEnter)"
  shows "mb_history (ap_messages b) = mb_history (ap_messages a) \<and>
    r \<noteq> KoSubmitted (SoDispatched t) \<and> r \<noteq> KoSubmitted (SoQueuedForApproval t)"
  using assms
  by (auto simp: app_handle_key_def handle_normal_key_def handle_insert_key_def handle_slash_key_def
      handle_models_picker_key_def history_up_def history_down_def enter_slash_mode_def
      slash_enter_def slash_backspace_def slash_tab_def slash_char_def Let_def split_beta
      mb_history_prev_def mb_history_next_def mb_tab_queue_def mb_backspace_def mb_set_draft_def mb_push_char_def
      split: if_splits input_mode.splits key_code.splits option.splits result.splits list.splits prod.splits
        picker_effect.splits nat.splits)

subsection \<open>Properties\<close>

text \<open>C17: the interface is never stuck: in every state it can reach, every key is handled (the
  history does not panic) and leads to a reachable state; Ctrl-C quits; Esc gets back to normal
  mode; in the picker's mode there is a picker, showing the models its query keeps; and in the slash
  mode the completions are the commands that the typed prefix starts.\<close>

theorem tui_never_stuck:
  assumes "app_reach low a"
  shows "(\<exists>r b. app_handle_key low k a = Some (r, b) \<and> app_reach low b \<and>
      (is_ctrl_c k \<longrightarrow> r = KoQuit \<and> ap_should_quit b) \<and>
      (ke_code k = KEsc \<longrightarrow> ap_input_mode b = Normal)) \<and>
    (case ap_input_mode a of
       ModelsPicker \<Rightarrow> \<exists>p. ap_models_picker a = Some p \<and>
         mp_rows p = filter (mp_keeps low (trim (mp_query p))) (ap_models_items a)
     | SlashCommand \<Rightarrow> ap_slash_matches a = filter (starts_with (ap_slash_filter a)) ALL_SLASH_COMMANDS
     | _ \<Rightarrow> True)"
proof -
  have i: "app_inv low a" by (rule app_inv_reach [OF assms])
  obtain r b where k: "app_handle_key low k a = Some (r, b)" using app_inv_key [OF i] by blast
  moreover have "is_ctrl_c k \<Longrightarrow> r = KoQuit \<and> ap_should_quit b" using k by (auto simp: app_handle_key_def)
  moreover have "app_reach low b" using assms k by (rule ar_key)
  ultimately show ?thesis
    using i esc_normal [OF k] by (auto simp: app_inv_def slash_list_def mp_current_def split: input_mode.split)
qed


definition demo_app :: app where
  "demo_app = (app_new ''/w'' tui_config_default)\<lparr> ap_input_mode := Insert,
     ap_messages := (mb_new 10000)\<lparr> mb_draft := ''h'' \<rparr> \<rparr>"

lemma demo_app_reach: "app_reach low demo_app"
proof -
  have "app_reach low (with_models [] (with_cwd ''/w'' (app_new ''/w'' tui_config_default)))"
    by (rule ar_new)
  then have "app_reach low (app_new ''/w'' tui_config_default)"
    by (simp add: with_models_def with_cwd_def app_new_def)
  then have "app_reach low ((app_new ''/w'' tui_config_default)\<lparr> ap_input_mode := Insert \<rparr>)"
    by (rule ar_key [where k = "key (KChar ''i'')" and r = KoTransitioned])
      (simp add: app_handle_key_def key_def is_ctrl_c_def app_new_def handle_normal_key_def)
  then show ?thesis
    by (rule ar_key [where k = "key (KChar ''h'')" and r = KoConsumed])
      (simp add: app_handle_key_def key_def is_ctrl_c_def app_new_def handle_insert_key_def demo_app_def
        tui_config_default_def mb_new_def mb_push_char_def)
qed

theorem tui_never_stuck_witness:
  "\<exists>r b. app_handle_key demo_low (key KEsc) demo_app = Some (r, b) \<and> ap_input_mode b = Normal"
  using tui_never_stuck [OF demo_app_reach, of demo_low "key KEsc"] by (auto simp: key_def)

lemma trim_h: "trim ''h'' = ''h''" "trim_start ''h'' = ''h''"
  by code_simp+


subsection \<open>Commands from the keyboard\<close>

lemma app_run_append:
  "app_run low ks a = Some (rs, b) \<Longrightarrow> \<not> ap_should_quit b \<Longrightarrow>
   app_run low (ks @ ls) a = map_option (\<lambda>(qs, c). (rs @ qs, c)) (app_run low ls b)"
proof (induction ks arbitrary: a rs)
  case Nil
  then show ?case by (cases "app_run low ls b") auto
next
  case (Cons k ks)
  then show ?case
    by (cases "app_run low ls b") (auto split: option.splits if_splits)
qed

lemma type_chars:
  "ap_input_mode a = Insert \<Longrightarrow> \<not> ap_should_quit a \<Longrightarrow>
   app_run low (map (\<lambda>c. key (KChar c)) cs) a =
     Some (replicate (length cs) KoConsumed, a\<lparr> ap_messages := mb_push_str (concat cs) (ap_messages a) \<rparr>)"
proof (induction cs arbitrary: a)
  case Nil
  then show ?case by (simp add: mb_push_str_def)
next
  case (Cons c cs)
  from Cons.prems show ?case
    by (simp add: app_handle_key_def key_def is_ctrl_c_def handle_insert_key_def
        Cons.IH [unfolded key_def] mb_push_str_def mb_push_char_def)
qed

lemma all_ws_trim_start: "all_ws s \<Longrightarrow> trim_start s = []"
  by (auto simp: all_ws_def trim_start_def dropWhile_eq_Nil_conv [THEN iffD2])

lemma submit_command:
  assumes "parse_slash_command (mb_draft (ap_messages a)) = Ok (Some c)"
  shows "\<exists>b. submit_draft a = (SoCommand c, b) \<and> mb_draft (ap_messages b) = [] \<and>
     mb_history (ap_messages b) = mb_history (ap_messages a) \<and>
     ap_should_quit b = (ap_should_quit a \<or> c = CQuit) \<and>
     ap_input_mode b = (if c = CModels then ModelsPicker else ap_input_mode a) \<and>
     ap_models_picker b = (if c = CModels then Some (mp_new (ap_models_items a)) else ap_models_picker a)"
proof -
  let ?d = "mb_draft (ap_messages a)"
  have st: "starts_with ''/'' (trim_start ?d)" using assms parse_free_text [of ?d] by auto
  then have "trim ?d \<noteq> []" by (auto simp: trim_eq_Nil starts_with_def dest!: all_ws_trim_start)
  with st assms show ?thesis by (simp add: submit_draft_def Let_def mb_set_draft_def)
qed

text \<open>A command typed on the keyboard is the command that runs: in insert mode with a draft of
  white space, typing any well-formed command character by character and pressing Enter submits
  exactly this command, clears the draft and leaves the history alone; \<^verbatim>\<open>/quit\<close> stops the loop, and
  \<^verbatim>\<open>/models\<close> opens the picker over all the models.\<close>

theorem typed_command_runs:
  assumes "ap_input_mode a = Insert" "\<not> ap_should_quit a" "all_ws (mb_draft (ap_messages a))" "wf_command c"
  shows "let cs = chars (show_command c) in
    \<exists>b. app_run low (map (\<lambda>c. key (KChar c)) cs @ [key KEnter]) a =
        Some (replicate (length cs) KoConsumed @ [KoSubmitted (SoCommand c)], b) \<and>
      mb_draft (ap_messages b) = [] \<and> mb_history (ap_messages b) = mb_history (ap_messages a) \<and>
      ap_should_quit b = (c = CQuit) \<and>
      ap_input_mode b = (if c = CModels then ModelsPicker else Insert) \<and>
      (if c = CModels then map_option mp_rows (ap_models_picker b) = Some (ap_models_items a)
       else ap_models_picker b = ap_models_picker a)"
proof -
  let ?a = "a\<lparr> ap_messages := mb_push_str (show_command c) (ap_messages a) \<rparr>"
  have "parse_slash_command (mb_draft (ap_messages ?a)) = Ok (Some c)"
    using parse_typed [OF assms(4,3)] by (simp add: mb_push_str_def)
  from submit_command [OF this] obtain b where b: "submit_draft ?a = (SoCommand c, b)"
    "mb_draft (ap_messages b) = []" "mb_history (ap_messages b) = mb_history (ap_messages a)"
    "ap_should_quit b = (c = CQuit)" "ap_input_mode b = (if c = CModels then ModelsPicker else Insert)"
    "ap_models_picker b = (if c = CModels then Some (mp_new (ap_models_items a)) else ap_models_picker a)"
    using assms(1,2) by (auto simp: mb_push_str_def)
  have "app_run low [key KEnter] ?a = Some ([KoSubmitted (SoCommand c)], b)"
    using assms(1) b(1) by (simp add: app_handle_key_def key_def is_ctrl_c_def handle_insert_key_def)
  then have "app_run low (map (\<lambda>c. key (KChar c)) (chars (show_command c)) @ [key KEnter]) a =
      Some (replicate (length (chars (show_command c))) KoConsumed @ [KoSubmitted (SoCommand c)], b)"
    using app_run_append [OF type_chars [OF assms(1,2), of low "chars (show_command c)"]] assms(2)
    by (simp add: concat_chars)
  moreover have "mp_rows (mp_new (ap_models_items a)) = ap_models_items a"
    using mp_current_new [of low "ap_models_items a"] by (simp add: mp_current_def mp_new_def Let_def)
  ultimately show ?thesis using b by (auto simp: Let_def)
qed

theorem typed_command_runs_witness:
  "\<exists>b. app_run demo_low (map (\<lambda>c. key (KChar c)) (chars ''/quit'') @ [key KEnter])
        (demo_app\<lparr> ap_messages := mb_new 3 \<rparr>) =
      Some (replicate (length (chars ''/quit'')) KoConsumed @ [KoSubmitted (SoCommand CQuit)], b) \<and>
     ap_should_quit b"
proof -
  let ?a = "demo_app\<lparr> ap_messages := mb_new 3 \<rparr>"
  have "ap_input_mode ?a = Insert" "\<not> ap_should_quit ?a" "all_ws (mb_draft (ap_messages ?a))"
    by (simp_all add: demo_app_def app_new_def mb_new_def all_ws_def)
  moreover have "wf_command CQuit" "show_command CQuit = ''/quit''" by (simp_all add: show_command_def)
  ultimately show ?thesis
    using typed_command_runs [of ?a CQuit demo_low] unfolding Let_def by metis
qed

subsection \<open>Where the slash mode departs from the insert mode\<close>

text \<open>Enter on \<^verbatim>\<open>/models\<close> in slash mode runs the command but does not open the picker.\<close>

lemma slash_models_no_picker:
  "parse_slash_command (mb_draft (ap_messages a)) = Ok (Some CModels) \<Longrightarrow>
   starts_with ''/'' (mb_draft (ap_messages a)) \<Longrightarrow>
   \<exists>b. slash_enter a = (KoSubmitted (SoCommand CModels), b) \<and> ap_input_mode b = Normal \<and>
     ap_models_picker b = ap_models_picker a"
  by (simp add: slash_enter_def Let_def)

text \<open>The space that completion puts after the command is lost with the next character.\<close>

lemma slash_completion_glues:
  "ap_slash_matches a = [w] \<Longrightarrow>
   mb_draft (ap_messages (snd (slash_char c (snd (slash_tab a))))) = ''/'' @ w @ c"
  by (simp add: slash_tab_def slash_char_def Let_def mb_set_draft_def)

text \<open>Backspace shortens the filter but not the draft, which is what Enter parses.\<close>

lemma slash_backspace_keeps_draft:
  "mb_draft (ap_messages (snd (slash_backspace a))) = mb_draft (ap_messages a)"
  by (simp add: slash_backspace_def split: option.split)

end
