(* ===== verification/Config.thy ===== *)
theory Config
  imports RustStr "HOL-Library.AList"
begin

text \<open>
  The layered configuration (\<^verbatim>\<open>config/src/lib.rs\<close>, \<^verbatim>\<open>merge.rs\<close>, \<^verbatim>\<open>env.rs\<close>, \<^verbatim>\<open>loader.rs\<close>,
  \<^verbatim>\<open>paths.rs\<close>) on Unix. The file system and the environment are the record \<open>conf_os\<close>; the TOML
  parser and the iteration order of a \<^verbatim>\<open>HashMap\<close> are parameters. The theorem at the end states the
  precedence the module promises against the detailed loader.
\<close>

subsection \<open>Layers and configurations\<close>

datatype config_layer = System | User | Project | Environment | CommandLine

definition precedence :: "config_layer list" where
  "precedence = [System, User, Project, Environment, CommandLine]"

fun layer_str :: "config_layer \<Rightarrow> string" where
  "layer_str System = ''system''"
| "layer_str User = ''user''"
| "layer_str Project = ''project''"
| "layer_str Environment = ''environment''"
| "layer_str CommandLine = ''cli''"

datatype provider_config = PcNone | PcAnthropic | PcOpenAI | PcOllama

record config =
  cf_data_dir :: string
  cf_log_level :: string
  cf_provider :: provider_config

definition default_log_level :: string where
  "default_log_level = ''info''"

definition config_default :: config where
  "config_default = \<lparr> cf_data_dir = [], cf_log_level = default_log_level, cf_provider = PcNone \<rparr>"

record partial_config =
  pc_data_dir :: "string option"
  pc_log_level :: "string option"
  pc_provider :: "provider_config option"

definition partial_default :: partial_config where
  "partial_default = \<lparr> pc_data_dir = None, pc_log_level = None, pc_provider = None \<rparr>"

definition from_full :: "config \<Rightarrow> partial_config" where
  "from_full c =
    \<lparr> pc_data_dir = Some (cf_data_dir c), pc_log_level = Some (cf_log_level c),
      pc_provider = Some (cf_provider c) \<rparr>"

subsection \<open>Merging\<close>

text \<open>The loop over the stack carries the last value seen of every field.\<close>

definition merge_layer :: "partial_config \<Rightarrow> partial_config \<Rightarrow> partial_config" where
  "merge_layer acc layer =
    \<lparr> pc_data_dir = (case pc_data_dir layer of Some v \<Rightarrow> Some v | None \<Rightarrow> pc_data_dir acc),
      pc_log_level = (case pc_log_level layer of Some v \<Rightarrow> Some v | None \<Rightarrow> pc_log_level acc),
      pc_provider = (case pc_provider layer of Some v \<Rightarrow> Some v | None \<Rightarrow> pc_provider acc) \<rparr>"

definition merge_configs :: "partial_config list \<Rightarrow> config" where
  "merge_configs stack =
    (let m = fold (\<lambda>layer acc. merge_layer acc layer) stack partial_default; d = config_default in
     \<lparr> cf_data_dir = unwrap_or (pc_data_dir m) (cf_data_dir d),
       cf_log_level = unwrap_or (pc_log_level m) (cf_log_level d),
       cf_provider = unwrap_or (pc_provider m) (cf_provider d) \<rparr>)"

subsection \<open>Environment variables\<close>

definition parse_provider :: "string \<Rightarrow> provider_config option" where
  "parse_provider v =
    (let w = map ascii_lower v in
     if w = ''anthropic'' then Some PcAnthropic
     else if w = ''openai'' then Some PcOpenAI
     else if w = ''ollama'' then Some PcOllama
     else if w = ''none'' then Some PcNone
     else None)"

definition env_var :: "string \<times> string \<Rightarrow> partial_config \<Rightarrow> partial_config" where
  "env_var nv out =
    (case strip_prefix ''MSCODE_'' (fst nv) of
       None \<Rightarrow> out
     | Some sfx \<Rightarrow>
         let s = map ascii_lower sfx in
         if s = ''log_level'' \<or> s = ''log-level'' then out\<lparr> pc_log_level := Some (snd nv) \<rparr>
         else if s = ''data_dir'' \<or> s = ''data-dir'' then out\<lparr> pc_data_dir := Some (snd nv) \<rparr>
         else if s = ''provider'' then out\<lparr> pc_provider := parse_provider (snd nv) \<rparr>
         else out)"

definition from_env_vars :: "(string \<times> string) list \<Rightarrow> partial_config" where
  "from_env_vars vars = fold env_var vars partial_default"

text \<open>\<open>order\<close> turns the pairs collected into a \<^verbatim>\<open>HashMap\<close> into the sequence its iterator yields.\<close>

definition unicode_env :: "(string \<times> string) list \<Rightarrow> bool" where
  "unicode_env vars \<longleftrightarrow> list_all (\<lambda>(k, v). utf8_valid k \<and> utf8_valid v) vars"

text \<open>\<open>None\<close> is the panic of \<^verbatim>\<open>std::env::vars\<close> at a variable that is not Unicode.\<close>

definition collect_from_env ::
    "((string \<times> string) list \<Rightarrow> (string \<times> string) list) \<Rightarrow> (string \<times> string) list \<Rightarrow> partial_config option" where
  "collect_from_env order vars = (if unicode_env vars then Some (from_env_vars (order vars)) else None)"

text \<open>What the standard library documents: every key once, with the value inserted last.\<close>

definition hash_order :: "((string \<times> string) list \<Rightarrow> (string \<times> string) list) \<Rightarrow> bool" where
  "hash_order order \<longleftrightarrow> (\<forall>xs. distinct (map fst (order xs)) \<and> map_of (order xs) = map_of (rev xs))"

subsection \<open>Paths and files\<close>

datatype io_error = NotFound | OtherIo string

record conf_os =
  os_config_dir :: "string option"
  os_read :: "string \<Rightarrow> (string, io_error) result"
  os_vars :: "(string \<times> string) list"

definition default_system_config_path :: string where
  "default_system_config_path = ''/etc/mscode/config.toml''"

definition default_user_config_path :: "conf_os \<Rightarrow> string" where
  "default_user_config_path os =
    path_join (path_join (unwrap_or (os_config_dir os) ''.'') ''mscode'') ''config.toml''"

definition default_project_config_path :: string where
  "default_project_config_path = path_join ''.mscode'' ''config.toml''"

fun default_config_path :: "conf_os \<Rightarrow> config_layer \<Rightarrow> string option" where
  "default_config_path os System = Some default_system_config_path"
| "default_config_path os User = Some (default_user_config_path os)"
| "default_config_path os Project = Some default_project_config_path"
| "default_config_path os Environment = None"
| "default_config_path os CommandLine = None"

subsection \<open>Loading\<close>

type_synonym toml_parser = "string \<Rightarrow> (partial_config, string) result"

definition read_optional_partial :: "toml_parser \<Rightarrow> conf_os \<Rightarrow> string \<Rightarrow> partial_config option" where
  "read_optional_partial toml os path =
    (case os_read os path of
       Ok c \<Rightarrow> (case toml c of Ok parsed \<Rightarrow> Some parsed | Err _ \<Rightarrow> None)
     | Err NotFound \<Rightarrow> None
     | Err (OtherIo _) \<Rightarrow> None)"

datatype config_error = CfIo io_error | CfParse string

definition parse_toml_str :: "toml_parser \<Rightarrow> string \<Rightarrow> (partial_config, config_error) result" where
  "parse_toml_str toml text = map_err (\<lambda>e. CfParse (''toml parse error: '' @ e)) (toml text)"

definition load_partial_from_path ::
    "toml_parser \<Rightarrow> conf_os \<Rightarrow> string \<Rightarrow> (partial_config option, config_error) result" where
  "load_partial_from_path toml os path =
    (case os_read os path of
       Ok c \<Rightarrow> map_ok Some (parse_toml_str toml c)
     | Err NotFound \<Rightarrow> Ok None
     | Err (OtherIo e) \<Rightarrow> Err (CfIo (OtherIo e)))"

definition layer_partial ::
    "toml_parser \<Rightarrow> ((string \<times> string) list \<Rightarrow> (string \<times> string) list) \<Rightarrow> conf_os \<Rightarrow> partial_config option \<Rightarrow>
     config_layer \<Rightarrow> partial_config option option" where
  "layer_partial toml order os cli layer =
    (case layer of
       Environment \<Rightarrow> map_option Some (collect_from_env order (os_vars os))
     | CommandLine \<Rightarrow> Some cli
     | _ \<Rightarrow>
         Some (case default_config_path os layer of
            Some path \<Rightarrow> read_optional_partial toml os path
          | None \<Rightarrow> None))"

definition load_config ::
    "toml_parser \<Rightarrow> ((string \<times> string) list \<Rightarrow> (string \<times> string) list) \<Rightarrow> conf_os \<Rightarrow> partial_config option \<Rightarrow>
     (config, config_error) result option" where
  "load_config toml order os cli =
    map_option (\<lambda>layers. Ok (merge_configs (List.map_filter id layers)))
      (those (map (layer_partial toml order os cli) precedence))"

subsection \<open>Precedence\<close>

text \<open>The abstract view: of the layers, highest first, the first that sets the field decides.\<close>

definition effective :: "(partial_config \<Rightarrow> 'a option) \<Rightarrow> partial_config list \<Rightarrow> 'a \<Rightarrow> 'a" where
  "effective f layers d = (case List.find (\<lambda>l. f l \<noteq> None) layers of Some l \<Rightarrow> the (f l) | None \<Rightarrow> d)"

definition or_empty :: "partial_config option \<Rightarrow> partial_config" where
  "or_empty v = unwrap_or v partial_default"

lemma fold_layers:
  assumes "\<And>acc l. f (merge_layer acc l) = (case f l of Some v \<Rightarrow> Some v | None \<Rightarrow> f acc)"
  shows "unwrap_or (f (fold (\<lambda>l acc. merge_layer acc l) st acc)) d =
    effective f (rev st) (unwrap_or (f acc) d)"
  by (induction st arbitrary: acc)
    (auto simp: effective_def assms unwrap_or_def find_append split: option.splits)

lemma merge_configs_effective:
  "merge_configs st =
    \<lparr> cf_data_dir = effective pc_data_dir (rev st) [],
      cf_log_level = effective pc_log_level (rev st) ''info'',
      cf_provider = effective pc_provider (rev st) PcNone \<rparr>"
proof -
  have m: "pc_data_dir (merge_layer acc l) = (case pc_data_dir l of Some v \<Rightarrow> Some v | None \<Rightarrow> pc_data_dir acc)"
    "pc_log_level (merge_layer acc l) = (case pc_log_level l of Some v \<Rightarrow> Some v | None \<Rightarrow> pc_log_level acc)"
    "pc_provider (merge_layer acc l) = (case pc_provider l of Some v \<Rightarrow> Some v | None \<Rightarrow> pc_provider acc)" for acc l
    by (simp_all add: merge_layer_def)
  show ?thesis
    unfolding merge_configs_def Let_def m [THEN fold_layers]
    by (simp add: partial_default_def unwrap_or_def config_default_def default_log_level_def)
qed

lemma effective_snoc:
  "effective f (xs @ [l]) d = effective f xs (case f l of Some v \<Rightarrow> v | None \<Rightarrow> d)"
  by (auto simp: effective_def find_append split: option.splits)

lemma effective_skip:
  "f partial_default = None \<Longrightarrow>
   effective f (rev (List.map_filter g xs)) d = effective f (rev (map (\<lambda>x. or_empty (g x)) xs)) d"
proof (induction xs arbitrary: d)
  case Nil
  then show ?case by (simp add: List.map_filter_def)
next
  case (Cons x xs)
  then show ?case by (cases "g x") (simp_all add: effective_snoc map_filter_simps or_empty_def unwrap_or_def)
qed

text \<open>C19: the loader implements the precedence chain: it panics exactly when a variable of the environment is not
  Unicode, and otherwise succeeds, and every field of the
  effective configuration is the one of the highest layer that sets it, in the order command line,
  environment, project file, user file, system file, and the default when none does. A file that is
  missing, cannot be read or does not parse counts as a layer that sets nothing; a saturated command
  line decides everything.\<close>

theorem config_precedence:
  "(let file = (\<lambda>path. case os_read os path of
          Ok text \<Rightarrow> (case toml text of Ok c \<Rightarrow> c | Err _ \<Rightarrow> partial_default)
        | Err _ \<Rightarrow> partial_default);
        layers = [case cli of Some c \<Rightarrow> c | None \<Rightarrow> partial_default,
          from_env_vars (order (os_vars os)), file ''.mscode/config.toml'',
          file (default_user_config_path os), file ''/etc/mscode/config.toml'']
    in load_config toml order os cli = (if unicode_env (os_vars os) then Some (Ok
      \<lparr> cf_data_dir = effective pc_data_dir layers [],
        cf_log_level = effective pc_log_level layers ''info'',
        cf_provider = effective pc_provider layers PcNone \<rparr>) else None)) \<and>
   load_config toml order os (Some (from_full c)) = (if unicode_env (os_vars os) then Some (Ok c) else None)"
proof -
  let ?file = "\<lambda>path. case os_read os path of
      Ok text \<Rightarrow> (case toml text of Ok c \<Rightarrow> c | Err _ \<Rightarrow> partial_default)
    | Err _ \<Rightarrow> partial_default"
  have f: "or_empty (read_optional_partial toml os p) = ?file p" for p
    by (simp add: read_optional_partial_def or_empty_def unwrap_or_def split: result.split io_error.split)
  have c: "or_empty cli = (case cli of Some c \<Rightarrow> c | None \<Rightarrow> partial_default)" for cli
    by (simp add: or_empty_def unwrap_or_def split: option.split)
  have e: "or_empty (Some x) = x" for x by (simp add: or_empty_def unwrap_or_def)
  let ?layers = "\<lambda>cli. [read_optional_partial toml os ''/etc/mscode/config.toml'',
    read_optional_partial toml os (default_user_config_path os), read_optional_partial toml os ''.mscode/config.toml'',
    Some (from_env_vars (order (os_vars os))), cli]"
  let ?top = "\<lambda>cli. [case cli of Some c \<Rightarrow> c | None \<Rightarrow> partial_default, from_env_vars (order (os_vars os)),
       ?file ''.mscode/config.toml'', ?file (default_user_config_path os), ?file ''/etc/mscode/config.toml'']"
  have l: "rev (map (\<lambda>x. or_empty (id x)) (?layers cli)) = ?top cli" for cli
    by (simp add: c [of cli] e f)
  have ls: "those (map (layer_partial toml order os cli) precedence) =
      (if unicode_env (os_vars os) then Some (?layers cli) else None)" for cli
    by (simp add: precedence_def layer_partial_def collect_from_env_def default_project_config_path_def
        default_system_config_path_def path_join_def)
  have d: "pc_data_dir partial_default = None" "pc_log_level partial_default = None"
    "pc_provider partial_default = None" by (simp_all add: partial_default_def)
  have m: "merge_configs (List.map_filter id (?layers cli)) =
      \<lparr> cf_data_dir = effective pc_data_dir (?top cli) [], cf_log_level = effective pc_log_level (?top cli) ''info'',
        cf_provider = effective pc_provider (?top cli) PcNone \<rparr>" for cli
    unfolding merge_configs_effective effective_skip [of pc_data_dir, OF d(1)]
      effective_skip [of pc_log_level, OF d(2)] effective_skip [of pc_provider, OF d(3)] l ..
  have g: "load_config toml order os cli = (if unicode_env (os_vars os) then Some (Ok
      \<lparr> cf_data_dir = effective pc_data_dir (?top cli) [], cf_log_level = effective pc_log_level (?top cli) ''info'',
        cf_provider = effective pc_provider (?top cli) PcNone \<rparr>) else None)" for cli
    unfolding load_config_def ls m [symmetric] by simp
  have "load_config toml order os (Some (from_full c)) = (if unicode_env (os_vars os) then Some (Ok c) else None)"
    unfolding g by (simp add: effective_def from_full_def)
  with g [of cli] show ?thesis unfolding Let_def by blast
qed

subsection \<open>The environment layer\<close>

datatype env_target = EnvLog | EnvDir | EnvProvider

definition env_field :: "string \<Rightarrow> env_target option" where
  "env_field name =
    (case strip_prefix ''MSCODE_'' name of
       None \<Rightarrow> None
     | Some sfx \<Rightarrow>
         let s = map ascii_lower sfx in
         if s \<in> {''log_level'', ''log-level''} then Some EnvLog
         else if s \<in> {''data_dir'', ''data-dir''} then Some EnvDir
         else if s = ''provider'' then Some EnvProvider
         else None)"

lemma env_var_field:
  "env_var nv out =
    (case env_field (fst nv) of
       Some EnvLog \<Rightarrow> out\<lparr> pc_log_level := Some (snd nv) \<rparr>
     | Some EnvDir \<Rightarrow> out\<lparr> pc_data_dir := Some (snd nv) \<rparr>
     | Some EnvProvider \<Rightarrow> out\<lparr> pc_provider := parse_provider (snd nv) \<rparr>
     | None \<Rightarrow> out)"
  by (simp add: env_var_def env_field_def Let_def split: option.split)

text \<open>The variable that the iteration meets last decides a field.\<close>

lemma env_fold:
  "pc_log_level (fold env_var vs acc) =
     (case List.find (\<lambda>v. env_field (fst v) = Some EnvLog) (rev vs) of
        Some v \<Rightarrow> Some (snd v) | None \<Rightarrow> pc_log_level acc)"
  "pc_data_dir (fold env_var vs acc) =
     (case List.find (\<lambda>v. env_field (fst v) = Some EnvDir) (rev vs) of
        Some v \<Rightarrow> Some (snd v) | None \<Rightarrow> pc_data_dir acc)"
  "pc_provider (fold env_var vs acc) =
     (case List.find (\<lambda>v. env_field (fst v) = Some EnvProvider) (rev vs) of
        Some v \<Rightarrow> parse_provider (snd v) | None \<Rightarrow> pc_provider acc)"
  by (induction vs arbitrary: acc)
    (auto simp: env_var_field find_append split: option.splits env_target.splits)

lemma find_one_name:
  assumes "distinct (map fst xs)" "\<forall>m \<in> fst ` set xs. env_field m = Some f \<longrightarrow> m = n" "env_field n = Some f"
  shows "map_option snd (List.find (\<lambda>v. env_field (fst v) = Some f) (rev xs)) = map_of xs n"
proof (cases "List.find (\<lambda>v. env_field (fst v) = Some f) (rev xs)")
  case None
  with assms(3) have "n \<notin> fst ` set xs" by (auto simp: find_None_iff)
  then have "map_of xs n = None" by (simp add: map_of_eq_None_iff)
  with None show ?thesis by simp
next
  case (Some v)
  then have v: "v \<in> set xs" "env_field (fst v) = Some f" by (auto dest: find_Some_in)
  with assms(2) have "fst v = n" by auto
  with v(1) assms(1) Some show ?thesis by (metis map_of_is_SomeI option.map(2) prod.collapse)
qed

text \<open>The environment sets a field to the value of its variable, whatever order the hash map
  iterates in, when one variable name stands for the field; with two spellings of one name the order
  decides, and an unknown provider erases the one another spelling gave.\<close>

theorem env_layer_spec:
  assumes "hash_order order" "env_field n = Some f" "collect_from_env order vars = Some p"
    and "\<forall>m \<in> fst ` set vars. env_field m = Some f \<longrightarrow> m = n"
  shows "(let v = map_of (rev vars) n in
    case f of
      EnvLog \<Rightarrow> pc_log_level p = v
    | EnvDir \<Rightarrow> pc_data_dir p = v
    | EnvProvider \<Rightarrow> pc_provider p = Option.bind v parse_provider)"
proof -
  have o: "distinct (map fst (order vars))" "map_of (order vars) = map_of (rev vars)"
    using assms(1) by (auto simp: hash_order_def)
  have "fst ` set (order vars) = fst ` set vars"
    using arg_cong [OF o(2), of dom] by (simp add: dom_map_of_conv_image_fst)
  with find_one_name [OF o(1) _ assms(2)] assms(4) o(2)
  have "map_option snd (List.find (\<lambda>v. env_field (fst v) = Some f) (rev (order vars))) = map_of (rev vars) n"
    by simp
  moreover have "p = from_env_vars (order vars)" using assms(3) by (simp add: collect_from_env_def split: if_splits)
  ultimately show ?thesis
    by (cases f; cases "map_of (rev vars) n")
      (auto simp: from_env_vars_def env_fold partial_default_def split: option.splits)
qed

definition demo_order :: "(string \<times> string) list \<Rightarrow> (string \<times> string) list" where
  "demo_order xs = AList.clearjunk (rev xs)"

lemma demo_order_ok: "hash_order demo_order"
  by (simp add: hash_order_def demo_order_def distinct_clearjunk map_of_clearjunk)

theorem env_layer_spec_witness:
  "\<exists>p. collect_from_env demo_order [(''PATH'', ''/bin''), (''MSCODE_PROVIDER'', ''OpenAI'')] = Some p \<and>
     pc_provider p = Some PcOpenAI"
proof -
  let ?vars = "[(''PATH'', ''/bin''), (''MSCODE_PROVIDER'', ''OpenAI'')]"
  have f: "env_field ''MSCODE_PROVIDER'' = Some EnvProvider" "env_field ''PATH'' = None" "unicode_env ?vars"
    by code_simp+
  moreover have "parse_provider ''OpenAI'' = Some PcOpenAI" by code_simp
  moreover obtain p where "collect_from_env demo_order ?vars = Some p" using f(3) by (simp add: collect_from_env_def)
  ultimately show ?thesis
    using env_layer_spec [OF demo_order_ok f(1), of "?vars" p] by (simp add: Let_def)
qed

lemma env_order_matters:
  "pc_provider (from_env_vars [(''MSCODE_provider'', ''openai''), (''MSCODE_PROVIDER'', ''x'')]) = None"
  "pc_provider (from_env_vars [(''MSCODE_PROVIDER'', ''x''), (''MSCODE_provider'', ''openai'')]) = Some PcOpenAI"
  by code_simp+

lemma env_prefix_case: "pc_log_level (from_env_vars [(''mscode_log_level'', ''debug'')]) = None"
  by code_simp

end
