(* ===== verification/FileTree.thy ===== *)
theory FileTree
  imports Sandbox "HOL-Library.AList"
begin

text \<open>
  The file system the tools work on: a tree of named nodes without symbolic links, and the calls of
  \<^verbatim>\<open>tokio::fs\<close> the tools make, each of which may also fail for a reason of its own: \<open>os_fault\<close> is an
  arbitrary function that decides so, and a failed write leaves what \<open>os_partial\<close> says. Every
  theorem holds for all of them.
\<close>

datatype fs_node = NFile string | NDir "(string \<times> fs_node) list" | NOther

fun is_dir :: "fs_node \<Rightarrow> bool" where
  "is_dir (NDir _) = True"
| "is_dir _ = False"

fun is_file :: "fs_node \<Rightarrow> bool" where
  "is_file (NFile _) = True"
| "is_file _ = False"

subsection \<open>Lookup and update\<close>

fun lookup_at :: "fs_node \<Rightarrow> string list \<Rightarrow> fs_node option" where
  "lookup_at t [] = Some t"
| "lookup_at (NDir es) (x # xs) = (case map_of es x of None \<Rightarrow> None | Some t \<Rightarrow> lookup_at t xs)"
| "lookup_at _ (x # xs) = None"

text \<open>Store a node (or nothing) at a path whose directory exists.\<close>

fun update_at :: "string list \<Rightarrow> fs_node option \<Rightarrow> fs_node \<Rightarrow> fs_node" where
  "update_at [] v t = t"
| "update_at [x] v (NDir es) =
    NDir (case v of Some n \<Rightarrow> AList.update x n es | None \<Rightarrow> AList.delete x es)"
| "update_at (x # y # xs) v (NDir es) =
    (case map_of es x of
       None \<Rightarrow> NDir es
     | Some t \<Rightarrow> NDir (AList.update x (update_at (y # xs) v t) es))"
| "update_at _ v t = t"

definition dir_at :: "fs_node \<Rightarrow> string list \<Rightarrow> bool" where
  "dir_at t q \<longleftrightarrow> (case lookup_at t q of Some (NDir _) \<Rightarrow> True | _ \<Rightarrow> False)"

text \<open>The contents of the file at a path.\<close>

definition file_at :: "fs_node \<Rightarrow> string list \<Rightarrow> string option" where
  "file_at t q = (case lookup_at t q of Some (NFile b) \<Rightarrow> Some b | _ \<Rightarrow> None)"

lemma lookup_Nil_iff [simp]: "lookup_at t (x # xs) =
    (case t of NDir es \<Rightarrow> (case map_of es x of None \<Rightarrow> None | Some t \<Rightarrow> lookup_at t xs) | _ \<Rightarrow> None)"
  by (cases t) auto

lemma update_same:
  "p \<noteq> [] \<Longrightarrow> dir_at t (butlast p) \<Longrightarrow> lookup_at (update_at p v t) p = v"
proof (induction p v t rule: update_at.induct)
  case (2 x v es)
  then show ?case by (cases v) (auto simp: update_conv' delete_conv')
next
  case (3 x y xs v es)
  then show ?case by (cases "map_of es x") (auto simp: dir_at_def update_conv')
qed (auto simp: dir_at_def split: if_split_asm)

lemma update_other:
  "\<not> prefix p q \<Longrightarrow> \<not> prefix q p \<Longrightarrow> lookup_at (update_at p v t) q = lookup_at t q"
proof (induction p v t arbitrary: q rule: update_at.induct)
  case (2 x v es)
  then show ?case by (cases q; cases v) (auto simp: update_conv' delete_conv')
next
  case (3 x y xs v es)
  then show ?case by (cases q; cases "map_of es x") (auto simp: update_conv')
qed auto

lemma at_simps [simp]:
  "dir_at (NDir es) []" "\<not> dir_at (NFile b) q" "\<not> dir_at NOther q"
  "dir_at (NDir es) (x # q) = (case map_of es x of None \<Rightarrow> False | Some t \<Rightarrow> dir_at t q)"
  "file_at (NDir es) [] = None" "file_at NOther q = None"
  "file_at (NDir es) (x # q) = (case map_of es x of None \<Rightarrow> None | Some t \<Rightarrow> file_at t q)"
  by (cases q; auto simp: dir_at_def file_at_def split: option.split)+

lemma update_above:
  "strict_prefix q p \<Longrightarrow>
   file_at (update_at p v t) q = file_at t q \<and> dir_at (update_at p v t) q = dir_at t q"
proof (induction p v t arbitrary: q rule: update_at.induct)
  case (2 x v es)
  then show ?case by (cases q) (auto simp: strict_prefix_def)
next
  case (3 x y xs v es)
  then show ?case by (cases q) (auto simp: update_conv' split: option.split)
qed auto

lemma update_no_dir: "\<not> dir_at t (butlast p) \<Longrightarrow> update_at p v t = t"
  by (induction p v t rule: update_at.induct) (auto simp: update_triv split: option.split)

text \<open>Storing a file, or removing one, where there is no directory changes the files at its own path
  only.\<close>

definition leaf_at :: "fs_node \<Rightarrow> string list \<Rightarrow> bool" where
  "leaf_at t p \<longleftrightarrow> p \<noteq> [] \<and> dir_at t (butlast p) \<and> \<not> dir_at t p"

lemma lookup_below_file: "lookup_at t p = Some n \<Longrightarrow> \<not> is_dir n \<Longrightarrow> lookup_at t (p @ x # xs) = None"
proof (induction t p rule: lookup_at.induct)
  case (1 t)
  then show ?case by (cases n) auto
qed (auto split: option.splits)

lemma lookup_below_None: "lookup_at t p = None \<Longrightarrow> lookup_at t (p @ xs) = None"
  by (induction t p rule: lookup_at.induct) (auto split: option.splits)

lemma file_at_below: "\<not> dir_at t p \<Longrightarrow> strict_prefix p q \<Longrightarrow> file_at t q = None"
proof -
  assume d: "\<not> dir_at t p" and "strict_prefix p q"
  then obtain x xs where q: "q = p @ x # xs" by (auto elim: strict_prefixE')
  show ?thesis
  proof (cases "lookup_at t p")
    case None
    then show ?thesis by (simp only: q file_at_def lookup_below_None) simp
  next
    case (Some n)
    with d have "\<not> is_dir n" by (cases n) (auto simp: dir_at_def)
    show ?thesis unfolding q file_at_def lookup_below_file [OF Some \<open>\<not> is_dir n\<close>] by simp
  qed
qed

lemma dir_at_above: "dir_at t (q @ zs) \<Longrightarrow> dir_at t q"
proof (rule ccontr)
  assume d: "dir_at t (q @ zs)" "\<not> dir_at t q"
  then have "zs \<noteq> []" by auto
  then obtain x xs where z: "zs = x # xs" by (cases zs) auto
  show False
  proof (cases "lookup_at t q")
    case None
    with d(1) show False unfolding dir_at_def by (simp add: lookup_below_None)
  next
    case (Some n)
    with d(2) have "\<not> is_dir n" by (cases n) (auto simp: dir_at_def)
    from lookup_below_file [OF Some this] d(1) show False unfolding dir_at_def z by simp
  qed
qed

lemma file_at_update:
  assumes "leaf_at t p" "v = None \<or> (\<exists>b. v = Some (NFile b))"
  shows "file_at (update_at p v t) q =
    (if q = p then (case v of Some (NFile b) \<Rightarrow> Some b | _ \<Rightarrow> None) else file_at t q)"
proof -
  from assms(1) have s: "lookup_at (update_at p v t) p = v" by (auto simp: leaf_at_def update_same)
  with assms(2) have d: "\<not> dir_at (update_at p v t) p" by (auto simp: dir_at_def)
  consider "q = p" | "strict_prefix p q" | "strict_prefix q p" | "\<not> prefix p q" "\<not> prefix q p"
    by (auto simp: strict_prefix_def)
  then show ?thesis
  proof cases
    case 1
    with s show ?thesis by (simp add: file_at_def)
  next
    case 2
    with file_at_below [OF d 2] file_at_below [of t p q] assms(1) show ?thesis by (auto simp: leaf_at_def)
  next
    case 3
    then show ?thesis using update_above [OF 3, of v t] by auto
  next
    case 4
    then show ?thesis using update_other [of p q v t] by (auto simp: file_at_def)
  qed
qed

subsection \<open>The calls\<close>

datatype fs_op = OpMeta | OpRead | OpReadDir | OpNext nat | OpFileType | OpWrite | OpRename | OpRemove | OpMkdir

datatype io_err = ENOENT | ENOTDIR | EISDIR | EEXIST | OsError string

text \<open>\<open>os_lossy\<close> is \<^verbatim>\<open>to_string_lossy\<close>; \<open>os_cwd\<close> is the current directory.\<close>

record os =
  os_cwd :: "string list"
  os_fault :: "fs_op \<Rightarrow> string list \<Rightarrow> io_err option"
  os_partial :: "string list \<Rightarrow> string \<Rightarrow> string option"
  os_lossy :: "string \<Rightarrow> string"

text \<open>The names a path stands for, and whether its text asks for a directory (a trailing slash).\<close>

definition at :: "os \<Rightarrow> string \<Rightarrow> string list" where
  "at os p = (if is_abs p then names p else os_cwd os @ names p)"

definition wants_dir :: "string \<Rightarrow> bool" where
  "wants_dir p \<longleftrightarrow> last (split_byte slash p) \<in> {[], [dot]}"

definition with_fault :: "os \<Rightarrow> fs_op \<Rightarrow> string list \<Rightarrow> ('a, io_err) result \<Rightarrow> ('a, io_err) result" where
  "with_fault os f q r = (case os_fault os f q of Some e \<Rightarrow> Err e | None \<Rightarrow> r)"

definition missing :: "fs_node \<Rightarrow> string list \<Rightarrow> io_err" where
  "missing t q =
    (if \<exists>i < length q. case lookup_at t (take i q) of Some n \<Rightarrow> \<not> is_dir n | None \<Rightarrow> False
     then ENOTDIR else ENOENT)"

definition resolve_path :: "os \<Rightarrow> string \<Rightarrow> fs_node \<Rightarrow> (fs_node, io_err) result" where
  "resolve_path os p t =
    (if p = [] then Err ENOENT
     else case lookup_at t (at os p) of
       None \<Rightarrow> Err (missing t (at os p))
     | Some n \<Rightarrow> if wants_dir p \<and> \<not> is_dir n then Err ENOTDIR else Ok n)"

definition fs_metadata :: "os \<Rightarrow> string \<Rightarrow> fs_node \<Rightarrow> (fs_node, io_err) result" where
  "fs_metadata os p t = with_fault os OpMeta (at os p) (resolve_path os p t)"

definition fs_read :: "os \<Rightarrow> string \<Rightarrow> fs_node \<Rightarrow> (string, io_err) result" where
  "fs_read os p t = with_fault os OpRead (at os p)
    (case resolve_path os p t of
       Ok (NFile b) \<Rightarrow> Ok b
     | Ok (NDir _) \<Rightarrow> Err EISDIR
     | Ok NOther \<Rightarrow> Err (OsError ''not a file'')
     | Err e \<Rightarrow> Err e)"

text \<open>Where a file can be stored.\<close>

definition creatable :: "os \<Rightarrow> string \<Rightarrow> fs_node \<Rightarrow> (unit, io_err) result" where
  "creatable os p t =
    (let q = at os p in
     if p = [] then Err ENOENT
     else if q = [] \<or> dir_at t q \<or> wants_dir p then Err EISDIR
     else if \<not> dir_at t (butlast q) then Err (missing t q)
     else Ok ())"

definition fs_write :: "os \<Rightarrow> string \<Rightarrow> string \<Rightarrow> fs_node \<Rightarrow> (unit, io_err) result \<times> fs_node" where
  "fs_write os p content t =
    (let q = at os p in
     case creatable os p t of
       Err e \<Rightarrow> (Err e, t)
     | Ok _ \<Rightarrow>
         (case os_fault os OpWrite q of
            Some e \<Rightarrow>
              (Err e, case os_partial os q content of None \<Rightarrow> t | Some b \<Rightarrow> update_at q (Some (NFile b)) t)
          | None \<Rightarrow> (Ok (), update_at q (Some (NFile content)) t)))"

text \<open>Renaming a file, which is all the tools rename.\<close>

definition fs_rename :: "os \<Rightarrow> string \<Rightarrow> string \<Rightarrow> fs_node \<Rightarrow> (unit, io_err) result \<times> fs_node" where
  "fs_rename os p p' t =
    (case with_fault os OpRename (at os p') (resolve_path os p t) of
       Err e \<Rightarrow> (Err e, t)
     | Ok (NFile b) \<Rightarrow>
         (case creatable os p' t of
            Err e \<Rightarrow> (Err e, t)
          | Ok _ \<Rightarrow>
              if at os p = at os p' then (Ok (), t)
              else (Ok (), update_at (at os p) None (update_at (at os p') (Some (NFile b)) t)))
     | Ok _ \<Rightarrow> (Err (OsError ''not a file''), t))"

definition fs_remove :: "os \<Rightarrow> string \<Rightarrow> fs_node \<Rightarrow> (unit, io_err) result \<times> fs_node" where
  "fs_remove os p t =
    (case with_fault os OpRemove (at os p) (resolve_path os p t) of
       Err e \<Rightarrow> (Err e, t)
     | Ok (NDir _) \<Rightarrow> (Err EISDIR, t)
     | Ok _ \<Rightarrow> (Ok (), update_at (at os p) None t))"

text \<open>\<^verbatim>\<open>create_dir_all\<close>: every missing directory on the way; the ones made before a failure stay.\<close>

fun mkdirs :: "os \<Rightarrow> string list \<Rightarrow> string list \<Rightarrow> fs_node \<Rightarrow> (unit, io_err) result \<times> fs_node" where
  "mkdirs os pre [] t = (Ok (), t)"
| "mkdirs os pre (x # xs) t =
    (let q = pre @ [x] in
     case lookup_at t q of
       Some (NDir _) \<Rightarrow> mkdirs os q xs t
     | Some _ \<Rightarrow> (Err (if xs = [] then EEXIST else ENOTDIR), t)
     | None \<Rightarrow>
         (case os_fault os OpMkdir q of
            Some e \<Rightarrow> (Err e, t)
          | None \<Rightarrow> mkdirs os q xs (update_at q (Some (NDir [])) t)))"

subsection \<open>Frames\<close>

lemma creatable_leaf: "creatable os p t = Ok () \<Longrightarrow> leaf_at t (at os p)"
  by (auto simp: creatable_def leaf_at_def Let_def split: if_splits)

lemma file_at_write:
  assumes "fs_write os p c t = (r, t')"
  shows "q \<noteq> at os p \<Longrightarrow> file_at t' q = file_at t q" and "r = Ok () \<Longrightarrow> file_at t' (at os p) = Some c"
    and "r = Ok () \<Longrightarrow> leaf_at t (at os p)" and "r = Ok () \<Longrightarrow> t' = update_at (at os p) (Some (NFile c)) t"
proof -
  note l = creatable_leaf [of os p t]
  show "q \<noteq> at os p \<Longrightarrow> file_at t' q = file_at t q"
    using assms l by (auto simp: fs_write_def Let_def file_at_update split: result.splits option.splits)
  show t: "r = Ok () \<Longrightarrow> t' = update_at (at os p) (Some (NFile c)) t" and "r = Ok () \<Longrightarrow> leaf_at t (at os p)"
    using assms l by (auto simp: fs_write_def Let_def split: result.splits option.splits)
  then show "r = Ok () \<Longrightarrow> file_at t' (at os p) = Some c" by (simp add: file_at_update)
qed

lemma dir_at_update:
  assumes "leaf_at t p" "v = None \<or> (\<exists>b. v = Some (NFile b))" "q \<noteq> p"
  shows "dir_at (update_at p v t) q = dir_at t q"
proof -
  from assms(1) have s: "lookup_at (update_at p v t) p = v" by (auto simp: leaf_at_def update_same)
  with assms(2) have d: "\<not> dir_at (update_at p v t) p" by (auto simp: dir_at_def)
  have below: "\<not> dir_at u q" if "strict_prefix p q" "\<not> dir_at u p" for u
    using that dir_at_above [of u p] by (auto simp: strict_prefix_def prefix_def)
  consider "strict_prefix p q" | "strict_prefix q p" | "\<not> prefix p q" "\<not> prefix q p"
    using assms(3) by (auto simp: strict_prefix_def)
  then show ?thesis
  proof cases
    case 1
    with below [OF 1 d] below [OF 1, of t] assms(1) show ?thesis by (simp add: leaf_at_def)
  next
    case 2
    then show ?thesis using update_above by blast
  next
    case 3
    then show ?thesis using update_other [of p q v t] by (auto simp: dir_at_def)
  qed
qed

lemma file_leaf: "file_at t q = Some b \<Longrightarrow> q \<noteq> [] \<Longrightarrow> leaf_at t q"
proof -
  assume f: "file_at t q = Some b" and n: "q \<noteq> []"
  then have "\<not> dir_at t q" by (auto simp: file_at_def dir_at_def split: option.splits fs_node.splits)
  moreover have "dir_at t (butlast q)"
  proof (rule ccontr)
    assume "\<not> dir_at t (butlast q)"
    moreover have "strict_prefix (butlast q) q" using n by (metis append_butlast_last_id strict_prefixI')
    ultimately have "file_at t q = None" by (rule file_at_below)
    with f show False by simp
  qed
  ultimately show ?thesis using n by (simp add: leaf_at_def)
qed

lemma fs_rename_cases:
  assumes "fs_rename os p p' t = (r, t')"
  shows "(\<exists>e. r = Err e) \<and> t' = t \<or>
    (\<exists>b. r = Ok () \<and> file_at t (at os p) = Some b \<and>
      file_at t' = (\<lambda>q. if q = at os p' then Some b else if q = at os p then None else file_at t q))"
proof (cases r)
  case (Ok u)
  with assms obtain b where b: "resolve_path os p t = Ok (NFile b)" "creatable os p' t = Ok ()"
    and t': "t' = (if at os p = at os p' then t
      else update_at (at os p) None (update_at (at os p') (Some (NFile b)) t))"
    by (auto simp: fs_rename_def with_fault_def split: option.splits result.splits fs_node.splits if_splits)
  from b(1) have f: "file_at t (at os p) = Some b"
    by (auto simp: resolve_path_def file_at_def split: if_splits option.splits)
  show ?thesis
  proof (cases "at os p = at os p'")
    case True
    with Ok f t' show ?thesis by (intro disjI2 exI [of _ b]) (auto simp: fun_eq_iff)
  next
    case False
    let ?u = "update_at (at os p') (Some (NFile b)) t"
    have l': "leaf_at t (at os p')" by (rule creatable_leaf [OF b(2)])
    have u: "file_at ?u q = (if q = at os p' then Some b else file_at t q)" for q
      using file_at_update [OF l'] by auto
    have "at os p \<noteq> []"
      using f l' dir_at_above [of t "[]"] by (cases t) (auto simp: leaf_at_def)
    with False f u have "leaf_at ?u (at os p)" by (intro file_leaf [of _ _ b]) auto
    from file_at_update [OF this, of None] u t' False Ok f show ?thesis
      by (intro disjI2 exI [of _ b]) (auto simp: fun_eq_iff)
  qed
next
  case (Err e)
  with assms show ?thesis
    by (auto simp: fs_rename_def split: result.splits fs_node.splits if_splits)
qed

lemma file_at_remove:
  assumes "fs_remove os p t = (r, t')" "file_at t (at os p) = Some b" "at os p \<noteq> []"
  shows "q \<noteq> at os p \<Longrightarrow> file_at t' q = file_at t q"
  using assms file_at_update [OF file_leaf [OF assms(2,3)], of None]
  by (auto simp: fs_remove_def split: result.splits fs_node.splits)

lemma file_at_new_dir:
  assumes "lookup_at t p = None" shows "file_at (update_at p (Some (NDir [])) t) q = file_at t q"
proof (cases "p \<noteq> [] \<and> dir_at t (butlast p)")
  case True
  then have s: "lookup_at (update_at p (Some (NDir [])) t) p = Some (NDir [])" by (simp add: update_same)
  have app: "lookup_at u (p @ xs) = (case lookup_at u p of None \<Rightarrow> None | Some n \<Rightarrow> lookup_at n xs)" for u xs
    by (induction u p rule: lookup_at.induct) (auto split: option.split)
  consider xs where "q = p @ xs" | "strict_prefix q p" | "\<not> prefix p q" "\<not> prefix q p"
    by (auto simp: strict_prefix_def prefix_def)
  then show ?thesis
  proof cases
    case 1
    then show ?thesis using s assms by (cases xs) (simp_all add: file_at_def app)
  next
    case 2
    then show ?thesis using update_above by blast
  next
    case 3
    then show ?thesis using update_other [of p q _ t] by (simp add: file_at_def)
  qed
next
  case False
  with assms show ?thesis by (auto simp: update_no_dir)
qed

lemma file_at_mkdirs: "mkdirs os pre xs t = (r, t') \<Longrightarrow> file_at t' q = file_at t q"
proof (induction os pre xs t rule: mkdirs.induct)
  case (2 os pre x xs t)
  then show ?case
    by (auto simp: Let_def file_at_new_dir split: option.splits fs_node.splits if_splits)
qed auto

end
