(* ===== verification/Tools.thy ===== *)
theory Tools
  imports FileTree Json "HOL-Library.List_Lexorder" "HOL-Library.Multiset"
begin

text \<open>
  The built-in tools (\<^verbatim>\<open>tools/src/fs_read.rs\<close>, \<^verbatim>\<open>fs_write.rs\<close>, \<^verbatim>\<open>fs_list.rs\<close>, \<^verbatim>\<open>fs_grep.rs\<close>,
  \<^verbatim>\<open>bash.rs\<close>) and their errors, over the file tree and the sandbox. What is not code of the
  repository is in the record \<open>tenv\<close>: the operating system, the glob and regex engines, and the texts
  of the errors of serde\_json and of the UTF-8 check.
\<close>

subsection \<open>Errors and inputs\<close>

datatype tool_error =
    TeSandbox sandbox_error
  | TeIo io_err
  | TeInvalidInput string
  | TeNotFound string
  | TeRegex string
  | TeExec string
  | TeJson string

record tenv =
  tv_os :: os
  tv_glob :: "string \<Rightarrow> string \<Rightarrow> bool"
  tv_regex :: "string \<Rightarrow> (string \<Rightarrow> bool, string) result"
  tv_json_err :: "json \<Rightarrow> string"
  tv_utf8_err :: "string \<Rightarrow> string"

text \<open>The texts of the errors; \<open>io_text\<close> is the text of an error of the system.\<close>

fun sandbox_error_text :: "sandbox_error \<Rightarrow> string" where
  "sandbox_error_text (DotDotEscape p) = ''path escapes workspace via `..` segment: '' @ p"
| "sandbox_error_text (OutsideWorkspace p) = ''path is outside the workspace: '' @ p"
| "sandbox_error_text (Denied p) = ''path is explicitly denied: '' @ p"
| "sandbox_error_text (ExtensionDenied p) = ''file extension not allowed: '' @ p"
| "sandbox_error_text (FileTooLarge lim act) =
    ''file exceeds max size ('' @ show_nat (unat lim) @ '' bytes): '' @ show_nat (unat act) @ '' bytes''"
| "sandbox_error_text (ExecDenied c) = ''command not allowed: '' @ c"
| "sandbox_error_text (InvalidCommand c) = ''could not extract command name from: '' @ c"

fun tool_error_text :: "(io_err \<Rightarrow> string) \<Rightarrow> tool_error \<Rightarrow> string" where
  "tool_error_text io_text (TeSandbox e) = ''sandbox rejected operation: '' @ sandbox_error_text e"
| "tool_error_text io_text (TeIo e) = ''io error: '' @ io_text e"
| "tool_error_text io_text (TeInvalidInput m) = ''invalid input: '' @ m"
| "tool_error_text io_text (TeNotFound n) = ''tool not found: '' @ n"
| "tool_error_text io_text (TeRegex m) = ''regex error: '' @ m"
| "tool_error_text io_text (TeExec m) = ''exec error: '' @ m"
| "tool_error_text io_text (TeJson m) = ''json error: '' @ m"

definition ju64 :: "json \<Rightarrow> u64 option" where
  "ju64 j = map_option word_of_nat (jnat j)"

definition parse_as :: "tenv \<Rightarrow> (json \<Rightarrow> 'a option) \<Rightarrow> json \<Rightarrow> ('a, tool_error) result" where
  "parse_as env get j = opt_ok_or (get j) (TeJson (tv_json_err env j))"

subsection \<open>Reading a file\<close>

definition DEFAULT_MAX_BYTES :: u64 where
  "DEFAULT_MAX_BYTES = 1024 * 1024"

record read_file_tool =
  rt_sandbox :: sandbox
  rt_max_bytes :: u64

definition read_tool_new :: "sandbox \<Rightarrow> read_file_tool" where
  "read_tool_new sb = \<lparr> rt_sandbox = sb, rt_max_bytes = DEFAULT_MAX_BYTES \<rparr>"

definition read_tool_with_max_bytes :: "u64 \<Rightarrow> read_file_tool \<Rightarrow> read_file_tool" where
  "read_tool_with_max_bytes n rt = rt\<lparr> rt_max_bytes := n \<rparr>"

definition read_input :: "json \<Rightarrow> (string \<times> u64 option) option" where
  "read_input j =
    Option.bind (struct_fields [''path'', ''max_bytes''] j) (\<lambda>f.
    Option.bind (req_field jstr f ''path'') (\<lambda>p.
    Option.bind (opt_field ju64 f ''max_bytes'') (\<lambda>m. Some (p, m))))"

fun node_len :: "fs_node \<Rightarrow> nat" where
  "node_len (NFile b) = length b"
| "node_len _ = 0"

definition read_invoke :: "tenv \<Rightarrow> read_file_tool \<Rightarrow> json \<Rightarrow> fs_node \<Rightarrow> (json, tool_error) result" where
  "read_invoke env rt input t =
    try_res (parse_as env read_input input) (\<lambda>(path, max_bytes).
    try_res (map_err TeSandbox (validate_read (tv_glob env) (rt_sandbox rt) path)) (\<lambda>_.
    try_res (map_err TeIo (fs_metadata (tv_os env) path t)) (\<lambda>meta.
      if \<not> is_file meta then Err (TeInvalidInput (''path is not a regular file: '' @ path))
      else
        let cap = unwrap_or max_bytes (rt_max_bytes rt); size = node_len meta in
        if unat cap < size then
          Err (TeInvalidInput (''file size '' @ show_nat size @ '' exceeds cap '' @ show_nat (unat cap)))
        else
          try_res (map_err TeIo (fs_read (tv_os env) path t)) (\<lambda>b.
            if utf8_valid b then
              Ok (JObj [(''path'', JStr path), (''bytes'', JInt (int (length b))), (''content'', JStr b)])
            else Err (TeInvalidInput (''file is not valid UTF-8: '' @ tv_utf8_err env b))))))"

subsection \<open>Writing a file\<close>

definition write_input :: "json \<Rightarrow> (string \<times> string \<times> bool option) option" where
  "write_input j =
    Option.bind (struct_fields [''path'', ''content'', ''create_dirs''] j) (\<lambda>f.
    Option.bind (req_field jstr f ''path'') (\<lambda>p.
    Option.bind (req_field jstr f ''content'') (\<lambda>c.
    Option.bind (opt_field jbool f ''create_dirs'') (\<lambda>d. Some (p, c, d)))))"

text \<open>\<^verbatim>\<open>Path::parent\<close>, as a path with the same components; \<^verbatim>\<open>None\<close> for the root and the empty path.\<close>

definition path_parent :: "string \<Rightarrow> string option" where
  "path_parent p =
    (case rev (components p) of
       [] \<Rightarrow> None
     | RootDir # _ \<Rightarrow> None
     | _ # cs \<Rightarrow>
         Some (if cs = [CurDir] then [dot] else normalize_comps (rev cs) [] True))"

text \<open>\<^verbatim>\<open>PathBuf::set_file_name\<close> on the temporary name: replace the last name, or append.\<close>

definition atomic_tmp_path :: "os \<Rightarrow> string \<Rightarrow> string" where
  "atomic_tmp_path os target =
    (let name = (case file_name target of Some n \<Rightarrow> os_lossy os n | None \<Rightarrow> ''out'') @ ''.mscode-tmp'' in
     path_join
       (case file_name target of Some _ \<Rightarrow> unwrap_or (path_parent target) [] | None \<Rightarrow> target)
       name)"

definition write_invoke ::
    "tenv \<Rightarrow> sandbox \<Rightarrow> json \<Rightarrow> fs_node \<Rightarrow> (json, tool_error) result \<times> fs_node" where
  "write_invoke env sb input t =
    (case parse_as env write_input input of
       Err e \<Rightarrow> (Err e, t)
     | Ok (path, content, create_dirs) \<Rightarrow>
         (case map_err TeSandbox (validate_write (tv_glob env) sb path) of
            Err e \<Rightarrow> (Err e, t)
          | Ok _ \<Rightarrow>
              let os = tv_os env;
                (r1, t1) =
                  (case path_parent path of
                     None \<Rightarrow> (Ok (), t)
                   | Some parent \<Rightarrow>
                       if parent \<noteq> [] \<and> unwrap_or create_dirs False then
                         mkdirs os (if is_abs parent then [] else os_cwd os) (names parent) t
                       else (Ok (), t))
              in case r1 of
                Err e \<Rightarrow> (Err (TeIo e), t1)
              | Ok _ \<Rightarrow>
                  let tmp_path = atomic_tmp_path os path; (r2, t2) = fs_write os tmp_path content t1
                  in case r2 of
                    Err e \<Rightarrow> (Err (TeIo e), t2)
                  | Ok _ \<Rightarrow>
                      let (r3, t3) = fs_rename os tmp_path path t2
                      in case r3 of
                        Err e \<Rightarrow> (Err (TeIo e), snd (fs_remove os tmp_path t3))
                      | Ok _ \<Rightarrow>
                          (Ok (JObj [(''path'', JStr path), (''bytes'', JInt (int (length content)))]), t3)))"

subsection \<open>Listing a directory\<close>

definition list_input :: "json \<Rightarrow> string option" where
  "list_input j = Option.bind (struct_fields [''path''] j) (\<lambda>f. req_field jstr f ''path'')"

text \<open>The loop over \<^verbatim>\<open>next_entry\<close>; \<open>k\<close> counts the calls.\<close>

fun list_entries :: "os \<Rightarrow> string list \<Rightarrow> nat \<Rightarrow> (string \<times> fs_node) list \<Rightarrow> (json list, io_err) result" where
  "list_entries os q k [] = with_fault os (OpNext k) q (Ok [])"
| "list_entries os q k ((n, c) # es) = with_fault os (OpNext k) q
    (map_ok ((#) (JObj [(''name'', JStr (os_lossy os n)),
        (''is_dir'', JBool (os_fault os OpFileType (q @ [n]) = None \<and> is_dir c))]))
      (list_entries os q (k + 1) es))"

definition entry_name :: "json \<Rightarrow> string" where
  "entry_name j = unwrap_or (Option.bind (jget j ''name'') jstr) []"

fun entries_of :: "fs_node \<Rightarrow> (string \<times> fs_node) list" where
  "entries_of (NDir es) = es"
| "entries_of _ = []"

definition list_invoke :: "tenv \<Rightarrow> sandbox \<Rightarrow> json \<Rightarrow> fs_node \<Rightarrow> (json, tool_error) result" where
  "list_invoke env sb input t =
    try_res (parse_as env list_input input) (\<lambda>path.
    try_res (map_err TeSandbox (validate_read (tv_glob env) sb path)) (\<lambda>_.
    try_res (map_err TeIo (fs_metadata (tv_os env) path t)) (\<lambda>meta.
      if \<not> is_dir meta then Err (TeInvalidInput (''path is not a directory: '' @ path))
      else let os = tv_os env; q = at os path in
        try_res (map_err TeIo (with_fault os OpReadDir q (Ok ()))) (\<lambda>_.
        try_res (map_err TeIo (list_entries os q 0 (entries_of meta))) (\<lambda>entries.
          Ok (JObj [(''path'', JStr path),
            (''entries'', JArr (sort_key (\<lambda>j. map byte (entry_name j)) entries))]))))))"

subsection \<open>Searching\<close>

definition DEFAULT_MAX_MATCHES :: nat where
  "DEFAULT_MAX_MATCHES = 200"

definition grep_input :: "json \<Rightarrow> (string \<times> string \<times> nat option) option" where
  "grep_input j =
    Option.bind (struct_fields [''pattern'', ''path'', ''max_matches''] j) (\<lambda>f.
    Option.bind (req_field jstr f ''pattern'') (\<lambda>r.
    Option.bind (req_field jstr f ''path'') (\<lambda>p.
    Option.bind (opt_field jnat f ''max_matches'') (\<lambda>m. Some (r, p, m)))))"

definition match_json :: "os \<Rightarrow> string \<Rightarrow> nat \<Rightarrow> string \<Rightarrow> json" where
  "match_json os path lineno line =
    JObj [(''path'', JStr (os_lossy os path)), (''line'', JInt (int (lineno + 1))), (''text'', JStr line)]"

fun scan_lines ::
    "os \<Rightarrow> string \<Rightarrow> (string \<Rightarrow> bool) \<Rightarrow> nat \<Rightarrow> nat \<Rightarrow> string list \<Rightarrow> json list \<Rightarrow> json list" where
  "scan_lines os path re cap lineno [] out = out"
| "scan_lines os path re cap lineno (l # ls) out =
    (if cap \<le> length out then out
     else scan_lines os path re cap (lineno + 1) ls
       (if re l then out @ [match_json os path lineno l] else out))"

definition scan_file ::
    "os \<Rightarrow> string \<Rightarrow> (string \<Rightarrow> bool) \<Rightarrow> nat \<Rightarrow> string \<Rightarrow> json list \<Rightarrow> json list" where
  "scan_file os path re cap bytes out =
    (if os_fault os OpRead (at os path) \<noteq> None then out
     else if \<not> utf8_valid bytes then out
     else scan_lines os path re cap 0 (str_lines bytes) out)"

definition hidden :: "string \<Rightarrow> bool" where
  "hidden n \<longleftrightarrow> utf8_valid n \<and> starts_with ''.'' n"

text \<open>\<^verbatim>\<open>walk\<close> on the node its path leads to, and its loop over the entries of a directory.\<close>

fun walk :: "os \<Rightarrow> (string \<Rightarrow> bool) \<Rightarrow> nat \<Rightarrow> string \<Rightarrow> fs_node \<Rightarrow> json list \<Rightarrow> (json list, io_err) result"
  and walk_entries ::
    "os \<Rightarrow> (string \<Rightarrow> bool) \<Rightarrow> nat \<Rightarrow> string \<Rightarrow> nat \<Rightarrow> (string \<times> fs_node) list \<Rightarrow> json list \<Rightarrow>
     (json list, io_err) result" where
  "walk os re cap path n out =
    (if os_fault os OpMeta (at os path) \<noteq> None then Ok out
     else case n of
       NFile b \<Rightarrow> Ok (scan_file os path re cap b out)
     | NOther \<Rightarrow> Ok out
     | NDir es \<Rightarrow>
         if os_fault os OpReadDir (at os path) \<noteq> None then Ok out
         else walk_entries os re cap path 0 es out)"
| "walk_entries os re cap path k [] out = with_fault os (OpNext k) (at os path) (Ok out)"
| "walk_entries os re cap path k ((name, c) # es) out = with_fault os (OpNext k) (at os path)
    (if cap \<le> length out then Ok out
     else
       let child = path_join path name in
       if hidden name \<and> os_fault os OpMeta (at os child) = None \<and> is_dir c then
         walk_entries os re cap path (k + 1) es out
       else
         try_res (walk os re cap child c out) (walk_entries os re cap path (k + 1) es))"

definition grep_invoke :: "tenv \<Rightarrow> sandbox \<Rightarrow> nat \<Rightarrow> json \<Rightarrow> fs_node \<Rightarrow> (json, tool_error) result" where
  "grep_invoke env sb max_matches input t =
    try_res (parse_as env grep_input input) (\<lambda>(pattern, path, m).
    try_res (map_err TeRegex (tv_regex env pattern)) (\<lambda>re.
    try_res (map_err TeSandbox (validate_read (tv_glob env) sb path)) (\<lambda>_.
      let cap = unwrap_or m max_matches in
      try_res
        (case resolve_path (tv_os env) path t of
           Err _ \<Rightarrow> Ok []
         | Ok n \<Rightarrow> map_err TeIo (walk (tv_os env) re cap path n [])) (\<lambda>matches.
        Ok (JObj [(''path'', JStr path), (''pattern'', JStr pattern), (''matches'', JArr matches),
          (''truncated'', JBool (cap \<le> length matches))])))))"

subsection \<open>Running a command\<close>

text \<open>Durations are in milliseconds.\<close>

definition DEFAULT_TIMEOUT :: nat where
  "DEFAULT_TIMEOUT = 30000"

definition SCRUBBED_ENV_VARS :: "string list" where
  "SCRUBBED_ENV_VARS =
    [''OPENAI_API_KEY'', ''ANTHROPIC_API_KEY'', ''AZURE_API_KEY'', ''GOOGLE_API_KEY'',
     ''HUGGINGFACE_TOKEN'', ''HF_TOKEN'', ''AWS_ACCESS_KEY_ID'', ''AWS_SECRET_ACCESS_KEY'',
     ''AWS_SESSION_TOKEN'', ''GITHUB_TOKEN'', ''GH_TOKEN'', ''GITLAB_TOKEN'', ''CI_TOKEN'',
     ''DATABASE_URL'', ''PGPASSWORD'', ''MSCODE_API_KEY'']"

record bash_tool =
  bt_sandbox :: sandbox
  bt_timeout :: nat
  bt_extra_scrubbed :: "string list"

definition bash_tool_new :: "sandbox \<Rightarrow> bash_tool" where
  "bash_tool_new sb = \<lparr> bt_sandbox = sb, bt_timeout = DEFAULT_TIMEOUT, bt_extra_scrubbed = [] \<rparr>"

definition with_timeout :: "nat \<Rightarrow> bash_tool \<Rightarrow> bash_tool" where
  "with_timeout ms bt = bt\<lparr> bt_timeout := ms \<rparr>"

definition with_extra_scrubbed :: "string list \<Rightarrow> bash_tool \<Rightarrow> bash_tool" where
  "with_extra_scrubbed ns bt = bt\<lparr> bt_extra_scrubbed := bt_extra_scrubbed bt @ ns \<rparr>"

definition bash_input :: "json \<Rightarrow> (string \<times> string option \<times> nat option) option" where
  "bash_input j =
    Option.bind (struct_fields [''command'', ''cwd'', ''timeout_ms''] j) (\<lambda>f.
    Option.bind (req_field jstr f ''command'') (\<lambda>c.
    Option.bind (opt_field jstr f ''cwd'') (\<lambda>d.
    Option.bind (opt_field jnat f ''timeout_ms'') (\<lambda>m. Some (c, d, m)))))"

text \<open>The process the tool starts; its environment is a list of updates of an empty one.\<close>

record command =
  cm_program :: string
  cm_args :: "string list"
  cm_cwd :: "string option"
  cm_env :: "(string \<times> string) list"

definition KEPT_ENV_VARS :: "string list" where
  "KEPT_ENV_VARS = [''PATH'', ''HOME'', ''TMPDIR'', ''LANG'', ''LC_ALL'']"

definition build_command :: "(string \<Rightarrow> string option) \<Rightarrow> bash_tool \<Rightarrow> string \<Rightarrow> string option \<Rightarrow> command" where
  "build_command vars bt raw cwd =
    (let kept = fold (\<lambda>k e. case vars k of Some v \<Rightarrow> AList.update k v e | None \<Rightarrow> e) KEPT_ENV_VARS [];
         e1 = fold AList.delete SCRUBBED_ENV_VARS kept;
         e2 = fold AList.delete (bt_extra_scrubbed bt) e1
     in \<lparr> cm_program = ''sh'', cm_args = [''-c'', raw], cm_cwd = cwd, cm_env = e2 \<rparr>)"

text \<open>What running a command can come to, within a time limit.\<close>

datatype run_outcome =
    NotSpawned io_err
  | Finished "int option" string string
  | WaitFailed string
  | TimedOut

definition bash_invoke ::
    "tenv \<Rightarrow> (string \<Rightarrow> string option) \<Rightarrow> (nat \<Rightarrow> string) \<Rightarrow> (command \<Rightarrow> nat \<Rightarrow> run_outcome) \<Rightarrow>
     bash_tool \<Rightarrow> json \<Rightarrow> (json, tool_error) result" where
  "bash_invoke env vars show_ms run bt input =
    try_res (parse_as env bash_input input) (\<lambda>(cmd, cwd, timeout_ms).
    try_res (map_err TeSandbox (validate_exec (bt_sandbox bt) cmd)) (\<lambda>_.
      let per_call = unwrap_or timeout_ms (bt_timeout bt) in
      case run (build_command vars bt cmd cwd) per_call of
        NotSpawned e \<Rightarrow> Err (TeIo e)
      | Finished code sout serr \<Rightarrow>
          Ok (JObj [(''exit_code'', JInt (unwrap_or code (- 1))),
            (''stdout'', JStr (os_lossy (tv_os env) sout)), (''stderr'', JStr (os_lossy (tv_os env) serr))])
      | WaitFailed e \<Rightarrow> Err (TeExec (''spawn wait failed: '' @ e))
      | TimedOut \<Rightarrow> Err (TeExec (''command timed out after '' @ show_ms per_call))))"

subsection \<open>The temporary file\<close>

definition lossy_ok :: "os \<Rightarrow> bool" where
  "lossy_ok os \<longleftrightarrow> (\<forall>n. slash \<notin> set n \<longrightarrow> slash \<notin> set (os_lossy os n))"

lemma names_join_Nil: "w \<noteq> [] \<Longrightarrow> w \<noteq> [dot] \<Longrightarrow> slash \<notin> set w \<Longrightarrow> names w = [w]"
  by (simp add: names_def split_byte_single)

lemma names_path_join:
  assumes "w \<noteq> []" "w \<noteq> [dot]" "slash \<notin> set w"
  shows "names (path_join base w) = names base @ [w]" and "is_abs (path_join base w) = is_abs base"
proof -
  have h: "hd w \<noteq> slash" using assms by (cases w) auto
  show "is_abs (path_join base w) = is_abs base"
    using assms h by (cases base) (auto simp: path_join_def is_abs_def)
  show "names (path_join base w) = names base @ [w]"
  proof (cases "base = []")
    case True
    then show ?thesis using h assms by (simp add: path_join_def names_join_Nil) (simp add: names_def)
  next
    case False
    have two: "names (b @ slash # w) = names b @ [w]" for b
      using assms by (simp add: names_def split_byte_two split_byte_single)
    show ?thesis
    proof (cases "last base = slash")
      case True
      with False obtain b where b: "base = b @ [slash]" by (metis append_butlast_last_id)
      have "names base = names b" unfolding b names_def by (simp add: split_byte_two)
      then show ?thesis using h two [of b] by (simp add: path_join_def b)
    next
      case False
      with \<open>base \<noteq> []\<close> h two [of base] show ?thesis by (simp add: path_join_def)
    qed
  qed
qed

lemma file_name_names: "no_dotdot p \<Longrightarrow> names p \<noteq> [] \<Longrightarrow> file_name p = Some (last (names p))"
proof -
  assume p: "no_dotdot p" "names p \<noteq> []"
  then obtain ns n where n: "names p = ns @ [n]" by (metis append_butlast_last_id)
  with p(1) have "n \<noteq> [dot, dot]" by (auto simp: no_dotdot_def)
  then show ?thesis by (simp add: file_name_def components_names n comp_of_def)
qed

lemma parent_names:
  assumes "no_dotdot p" "names p \<noteq> []"
  obtains d where "path_parent p = Some d" "names d = butlast (names p)" "is_abs d = is_abs p"
proof -
  from assms(2) obtain ns n where n: "names p = ns @ [n]" by (metis append_butlast_last_id)
  have c: "comp_of n = Normal n" "map comp_of ns = map Normal ns"
    using assms(1) by (auto simp: no_dotdot_def comp_of_def n)
  have sub: "w \<in> set (names p)" if "w \<in> set ns" for w using that n by simp
  have w: "\<forall>w \<in> set ns. w \<noteq> [] \<and> slash \<notin> set w" using names_proper [OF sub] by blast
  have dots: "\<forall>w \<in> set ns. w \<noteq> [dot]" using sub unfolding names_def by fastforce
  have nj: "names (join [slash] ns) = ns"
  proof (cases "ns = []")
    case True
    then show ?thesis by (simp add: names_def)
  next
    case False
    with w dots show ?thesis by (simp add: names_def split_join_slash)
  qed
  have ns_abs: "names (slash # join [slash] ns) = ns" "\<not> is_abs (join [slash] ns)"
    using nj hd_join [of ns] w by (cases "ns = []"; auto simp: names_def is_abs_def)+
  show thesis
  proof (cases "is_abs p")
    case True
    then have "path_parent p = Some (slash # join [slash] ns)"
      using w by (simp add: path_parent_def components_names c n normalize_first)
    with that True ns_abs(1) n show thesis by (simp add: is_abs_def)
  next
    case False
    show thesis
    proof (cases "hd (split_byte slash p) = [dot] \<and> ns = []")
      case True
      then have "path_parent p = Some [dot]"
        using False by (simp add: path_parent_def components_names n c)
      with that False n True show thesis by (simp add: is_abs_def names_def)
    next
      case *: False
      then have "path_parent p = Some (join [slash] ns)"
        using False w
        by (auto simp: path_parent_def components_names c n normalize_first)
      with that False nj ns_abs(2) n show thesis by simp
    qed
  qed
qed

lemma tmp_beside:
  assumes "no_dotdot p" "names p \<noteq> []" "lossy_ok os"
  shows "at os (atomic_tmp_path os p) =
    butlast (at os p) @ [os_lossy os (last (names p)) @ ''.mscode-tmp'']"
proof -
  obtain d where d: "path_parent p = Some d" "names d = butlast (names p)" "is_abs d = is_abs p"
    using parent_names [OF assms(1,2)] by blast
  let ?w = "os_lossy os (last (names p)) @ ''.mscode-tmp''"
  have "slash \<notin> set ?w"
    using assms(3) names_proper [of "last (names p)" p] assms(2) by (auto simp: lossy_ok_def)
  moreover have "?w \<noteq> [dot]" by (cases "os_lossy os (last (names p))") auto
  ultimately have n: "names (path_join d ?w) = names d @ [?w]" "is_abs (path_join d ?w) = is_abs d"
    using names_path_join [of ?w d] by simp_all
  have "atomic_tmp_path os p = path_join d ?w"
    by (simp add: atomic_tmp_path_def Let_def file_name_names assms d(1) unwrap_or_def)
  with n d assms(2) show ?thesis by (auto simp: at_def butlast_append)
qed

text \<open>What is left after the checks: make the directories, write beside the target, rename.\<close>

definition store :: "os \<Rightarrow> string \<Rightarrow> string \<Rightarrow> fs_node \<Rightarrow> (unit, io_err) result \<times> fs_node" where
  "store os path content t =
    (let tmp = atomic_tmp_path os path; (r2, t2) = fs_write os tmp content t
     in case r2 of
       Err e \<Rightarrow> (Err e, t2)
     | Ok _ \<Rightarrow>
         let (r3, t3) = fs_rename os tmp path t2
         in case r3 of Err e \<Rightarrow> (Err e, snd (fs_remove os tmp t3)) | Ok _ \<Rightarrow> (Ok (), t3))"

lemma store_cases:
  assumes "store os path content t = (r, t')"
  shows "(r = Ok () \<longrightarrow> file_at t' = (\<lambda>x. if x = at os path then Some content
        else if x = at os (atomic_tmp_path os path) then None else file_at t x)) \<and>
    (r \<noteq> Ok () \<longrightarrow> (\<forall>x. x \<noteq> at os (atomic_tmp_path os path) \<longrightarrow> file_at t' x = file_at t x))"
proof -
  let ?tmp = "atomic_tmp_path os path"
  obtain r2 t2 where w: "fs_write os ?tmp content t = (r2, t2)" by fastforce
  note same = file_at_write(1) [OF w]
  show ?thesis
  proof (cases r2)
    case (Err e)
    with assms w same show ?thesis by (auto simp: store_def Let_def)
  next
    case (Ok u)
    then have f: "file_at t2 (at os ?tmp) = Some content" "at os ?tmp \<noteq> []"
      using file_at_write(2,3) [OF w] by (auto simp: leaf_at_def)
    obtain r3 t3 where n: "fs_rename os ?tmp path t2 = (r3, t3)" by fastforce
    from fs_rename_cases [OF n] consider e where "r3 = Err e" "t3 = t2"
      | "r3 = Ok ()" "file_at t3 = (\<lambda>q. if q = at os path then Some content
          else if q = at os ?tmp then None else file_at t2 q)"
      using f by auto
    then show ?thesis
    proof cases
      case 1
      obtain r4 t4 where "fs_remove os ?tmp t2 = (r4, t4)" by fastforce
      with file_at_remove [OF this f] assms w n Ok 1 same show ?thesis by (auto simp: store_def Let_def)
    next
      case 2
      with assms w n Ok same show ?thesis by (auto simp: store_def Let_def fun_eq_iff)
    qed
  qed
qed

lemma write_invoke_store:
  assumes "write_input input = Some (path, content, dirs)" "validate_write (tv_glob env) sb path = Ok ()"
    and "write_invoke env sb input t = (r, t')"
  shows "(\<exists>e. r = Err (TeIo e) \<and> file_at t' = file_at t) \<or>
    (\<exists>t1 r2. file_at t1 = file_at t \<and> store (tv_os env) path content t1 = (r2, t') \<and>
      (case r2 of Ok _ \<Rightarrow> \<exists>v. r = Ok v | Err e \<Rightarrow> r = Err (TeIo e)))"
proof -
  let ?os = "tv_os env"
  let ?m = "case path_parent path of None \<Rightarrow> (Ok (), t)
    | Some parent \<Rightarrow> if parent \<noteq> [] \<and> unwrap_or dirs False then
        mkdirs ?os (if is_abs parent then [] else os_cwd ?os) (names parent) t else (Ok (), t)"
  obtain r1 t1 where m: "?m = (r1, t1)" by fastforce
  then have same: "file_at t1 = file_at t"
    by (auto simp: fun_eq_iff split: option.splits if_splits dest: file_at_mkdirs)
  have w: "write_invoke env sb input t = (case r1 of Err e \<Rightarrow> (Err (TeIo e), t1) | Ok _ \<Rightarrow>
      (case store ?os path content t1 of (Err e, u) \<Rightarrow> (Err (TeIo e), u)
       | (Ok _, u) \<Rightarrow> (Ok (JObj [(''path'', JStr path), (''bytes'', JInt (int (length content)))]), u)))"
    using assms(1,2) m
    by (simp add: write_invoke_def parse_as_def store_def Let_def split_beta split: result.split)
  obtain r2 t2 where s: "store ?os path content t1 = (r2, t2)" by fastforce
  show ?thesis
  proof (cases r1)
    case (Ok u)
    with w s assms(3) same show ?thesis
      by (intro disjI2 exI [of _ t1] exI [of _ r2]) (auto split: result.splits)
  next
    case (Err e)
    with w assms(3) same show ?thesis by auto
  qed
qed

text \<open>C20: \<^verbatim>\<open>write_file\<close> replaces a file as a whole or not at all: whatever calls of the operating
  system fail, a success means that the target has exactly the new content and the temporary file is
  gone, an error that every file but the temporary one is as before, and no other file changes in
  either case; a path that the sandbox refuses changes nothing; and the temporary file is a sibling
  of the target, named after it.\<close>

theorem write_file_atomic:
  assumes "write_invoke env sb input t = (r, t')" "write_input input = Some (path, content, dirs)"
  shows "let q = at (tv_os env) path; tmp = at (tv_os env) (atomic_tmp_path (tv_os env) path) in
    (case r of
       Ok _ \<Rightarrow> file_at t' = (\<lambda>x. if x = q then Some content else if x = tmp then None else file_at t x)
     | Err _ \<Rightarrow> \<forall>x. x \<noteq> tmp \<longrightarrow> file_at t' x = file_at t x) \<and>
    (validate_write (tv_glob env) sb path \<noteq> Ok () \<longrightarrow> t' = t \<and> (\<exists>e. r = Err (TeSandbox e))) \<and>
    (no_dotdot path \<and> names path \<noteq> [] \<and> lossy_ok (tv_os env) \<longrightarrow>
      tmp = butlast q @ [os_lossy (tv_os env) (last q) @ ''.mscode-tmp''])"
proof -
  let ?os = "tv_os env"
  have tmp: "no_dotdot path \<and> names path \<noteq> [] \<and> lossy_ok ?os \<longrightarrow>
      at ?os (atomic_tmp_path ?os path) =
      butlast (at ?os path) @ [os_lossy ?os (last (at ?os path)) @ ''.mscode-tmp'']"
    by (auto simp: tmp_beside) (auto simp: at_def)
  show ?thesis
  proof (cases "validate_write (tv_glob env) sb path")
    case (Err e)
    with assms tmp show ?thesis by (auto simp: write_invoke_def parse_as_def Let_def)
  next
    case (Ok u)
    then have v: "validate_write (tv_glob env) sb path = Ok ()" by simp
    from write_invoke_store [OF assms(2) v assms(1)] consider
      e where "r = Err (TeIo e)" "file_at t' = file_at t"
      | t1 r2 where "file_at t1 = file_at t" "store ?os path content t1 = (r2, t')"
        "case r2 of Ok _ \<Rightarrow> \<exists>v. r = Ok v | Err e \<Rightarrow> r = Err (TeIo e)"
      by blast
    then show ?thesis
    proof cases
      case 1
      with v tmp show ?thesis by (simp add: Let_def)
    next
      case 2
      from store_cases [OF 2(2), unfolded 2(1)] 2(3) v tmp show ?thesis by (cases r2) (auto simp: Let_def)
    qed
  qed
qed

definition demo_os :: os where
  "demo_os = \<lparr> os_cwd = [''ws''], os_fault = (\<lambda>_ _. None), os_partial = (\<lambda>_ _. None), os_lossy = id \<rparr>"

definition demo_tenv :: tenv where
  "demo_tenv = \<lparr> tv_os = demo_os, tv_glob = (\<lambda>pat n. pat = ''**/.env'' \<and> n = ''/ws/.env''),
    tv_regex = (\<lambda>p. Ok (contains_sub p)), tv_json_err = (\<lambda>_. ''bad''), tv_utf8_err = (\<lambda>_. ''bad'') \<rparr>"

definition demo_tree :: fs_node where
  "demo_tree = NDir [(''ws'', NDir [(''a'', NFile ''x''), (''.env'', NFile ''k'')])]"

definition demo_box :: sandbox where
  "demo_box = sandbox_with_config ''/tmp'' demo_config"

theorem write_file_atomic_witness:
  "let r = write_invoke demo_tenv demo_box (JObj [(''path'', JStr ''/ws/a''), (''content'', JStr ''y'')]) demo_tree
   in is_ok (fst r) \<and> file_at (snd r) [''ws'', ''a''] = Some ''y'' \<and>
     file_at (snd r) [''ws'', ''.env''] = Some ''k''"
proof -
  let ?j = "JObj [(''path'', JStr ''/ws/a''), (''content'', JStr ''y'')]"
  let ?r = "write_invoke demo_tenv demo_box ?j demo_tree"
  have i: "write_input ?j = Some (''/ws/a'', ''y'', None)" by code_simp
  have ok: "is_ok (fst ?r)" by code_simp
  have p: "at (tv_os demo_tenv) ''/ws/a'' = [''ws'', ''a'']"
    "at (tv_os demo_tenv) (atomic_tmp_path (tv_os demo_tenv) ''/ws/a'') = [''ws'', ''a.mscode-tmp'']"
    "file_at demo_tree [''ws'', ''.env''] = Some ''k''"
    by code_simp+
  from write_file_atomic [of demo_tenv demo_box ?j demo_tree "fst ?r" "snd ?r", OF _ i] ok show ?thesis
    by (auto simp: Let_def is_ok_iff p)
qed

subsection \<open>Reading, listing and searching\<close>

text \<open>\<^verbatim>\<open>read_file\<close> returns exactly the file: a success means that the sandbox allows the path, the
  path is a regular file of valid UTF-8 within the cap, and the output is its whole content with its
  length; and whenever this holds and the calls of the operating system succeed, it succeeds.\<close>

theorem read_file_spec:
  assumes "read_input input = Some (path, m)"
  shows "read_invoke env rt input t = Ok out \<longleftrightarrow>
    (\<exists>b. validate_read (tv_glob env) (rt_sandbox rt) path = Ok () \<and>
       resolve_path (tv_os env) path t = Ok (NFile b) \<and>
       length b \<le> unat (unwrap_or m (rt_max_bytes rt)) \<and> utf8_valid b \<and>
       os_fault (tv_os env) OpMeta (at (tv_os env) path) = None \<and>
       os_fault (tv_os env) OpRead (at (tv_os env) path) = None \<and>
       out = JObj [(''path'', JStr path), (''bytes'', JInt (int (length b))), (''content'', JStr b)])"
proof -
  have r: "read_invoke env rt input t = Ok out \<longleftrightarrow>
    validate_read (tv_glob env) (rt_sandbox rt) path = Ok () \<and>
    (\<exists>meta b. fs_metadata (tv_os env) path t = Ok meta \<and> is_file meta \<and>
       node_len meta \<le> unat (unwrap_or m (rt_max_bytes rt)) \<and> fs_read (tv_os env) path t = Ok b \<and> utf8_valid b \<and>
       out = JObj [(''path'', JStr path), (''bytes'', JInt (int (length b))), (''content'', JStr b)])"
    (is "?A \<longleftrightarrow> ?B")
  proof
    assume ?A
    with assms show ?B by (auto simp: read_invoke_def parse_as_def Let_def split: if_splits)
  next
    assume ?B
    then obtain meta where "fs_metadata (tv_os env) path t = Ok meta" by blast
    with \<open>?B\<close> assms show ?A by (auto simp: read_invoke_def parse_as_def Let_def)
  qed
  show ?thesis
    unfolding r
    by (auto simp: fs_metadata_def fs_read_def with_fault_def split: option.splits result.splits fs_node.splits)
qed

text \<open>The files a search sees, in its order, and all their matching lines.\<close>

fun visible :: "os \<Rightarrow> string \<Rightarrow> fs_node \<Rightarrow> (string \<times> string) list" where
  "visible os path (NFile b) = (if os_fault os OpMeta (at os path) \<noteq> None then [] else [(path, b)])"
| "visible os path NOther = []"
| "visible os path (NDir es) =
    (if os_fault os OpMeta (at os path) \<noteq> None \<or> os_fault os OpReadDir (at os path) \<noteq> None then []
     else concat (map (\<lambda>(name, c).
       if hidden name \<and> os_fault os OpMeta (at os (path_join path name)) = None \<and> is_dir c then []
       else visible os (path_join path name) c) es))"

definition matches_in :: "os \<Rightarrow> (string \<Rightarrow> bool) \<Rightarrow> string \<times> string \<Rightarrow> json list" where
  "matches_in os re f =
    (if os_fault os OpRead (at os (fst f)) \<noteq> None \<or> \<not> utf8_valid (snd f) then []
     else map (\<lambda>(i, l). match_json os (fst f) i l) (filter (re \<circ> snd) (List.enumerate 0 (str_lines (snd f)))))"

lemma scan_lines_take:
  "length out \<le> cap \<Longrightarrow> scan_lines os path re cap i ls out =
    take cap (out @ map (\<lambda>(i, l). match_json os path i l) (filter (re \<circ> snd) (List.enumerate i ls)))"
proof (induction os path re cap i ls out rule: scan_lines.induct)
  case (2 os path re cap i l ls out)
  show ?case
  proof (cases "cap \<le> length out")
    case True
    with 2 show ?thesis by simp
  next
    case False
    with 2 show ?thesis by (simp del: take_append)
  qed
qed auto

lemma scan_file_take:
  "length out \<le> cap \<Longrightarrow> scan_file os path re cap b out = take cap (out @ matches_in os re (path, b))"
  by (simp add: scan_file_def matches_in_def scan_lines_take)

lemma take_twice: "take n (take n xs @ ys) = take n (xs @ ys)"
  by (cases "n \<le> length xs") simp_all

lemma walk_take:
  assumes "\<forall>k q. os_fault os (OpNext k) q = None" "length out \<le> cap"
  shows "walk os re cap path n out =
      Ok (take cap (out @ concat (map (matches_in os re) (visible os path n))))"
    and "walk_entries os re cap path k es out = Ok (take cap (out @ concat (map (matches_in os re)
      (concat (map (\<lambda>(name, c).
        if hidden name \<and> os_fault os OpMeta (at os (path_join path name)) = None \<and> is_dir c then []
        else visible os (path_join path name) c) es)))))"
  using assms
proof (induction os re cap path n out and os re cap path k es out rule: walk_walk_entries.induct)
  case (1 os re cap path n out)
  then show ?case by (cases n) (simp_all add: scan_file_take)
next
  case (2 os re cap path k out)
  then show ?case by (simp add: with_fault_def)
next
  case (3 os re cap path k name c es out)
  show ?case
  proof (cases "cap \<le> length out")
    case True
    with "3.prems" show ?thesis by (simp add: with_fault_def)
  next
    case False
    with 3 show ?thesis by (simp add: with_fault_def Let_def take_twice del: walk.simps take_append)
  qed
qed

text \<open>C21: \<^verbatim>\<open>grep\<close> is the capped search: while no listing breaks off, the matches are the first \<open>cap\<close>
  lines that match, in the order of the files it sees (the directories in the order the system lists
  them, without hidden directories, files that cannot be read and files that are not UTF-8), each
  with its file and line number; and \<^verbatim>\<open>truncated\<close> is set exactly when there are at least \<open>cap\<close>
  matching lines.\<close>

theorem grep_spec:
  assumes "\<forall>k q. os_fault (tv_os env) (OpNext k) q = None"
    and "grep_input input = Some (pattern, path, m)" "tv_regex env pattern = Ok re"
    and "validate_read (tv_glob env) sb path = Ok ()" "resolve_path (tv_os env) path t = Ok n"
  shows "let cap = unwrap_or m max_matches;
      found = concat (map (matches_in (tv_os env) re) (visible (tv_os env) path n))
    in grep_invoke env sb max_matches input t =
      Ok (JObj [(''path'', JStr path), (''pattern'', JStr pattern), (''matches'', JArr (take cap found)),
        (''truncated'', JBool (cap \<le> length found))])"
  using walk_take(1) [OF assms(1), of "[]" _ re path n] assms(2-5)
  by (simp add: grep_invoke_def parse_as_def Let_def del: walk.simps)

text \<open>The search reads files that the sandbox denies: only its root is checked.\<close>

lemma grep_reads_denied:
  "validate_read (tv_glob demo_tenv) demo_box ''/ws/.env'' = Err (Denied ''/ws/.env'')"
  "concat (map (matches_in (tv_os demo_tenv) (contains_sub ''k''))
      (visible (tv_os demo_tenv) ''/ws'' (NDir [(''a'', NFile ''x''), (''.env'', NFile ''k'')]))) =
    [match_json demo_os ''/ws/.env'' 0 ''k'']"
  by code_simp+

theorem grep_spec_witness:
  "grep_invoke demo_tenv demo_box 1 (JObj [(''pattern'', JStr ''k''), (''path'', JStr ''/ws'')]) demo_tree =
     Ok (JObj [(''path'', JStr ''/ws''), (''pattern'', JStr ''k''),
       (''matches'', JArr [match_json demo_os ''/ws/.env'' 0 ''k'']), (''truncated'', JBool True)])"
proof -
  let ?j = "JObj [(''pattern'', JStr ''k''), (''path'', JStr ''/ws'')]"
  let ?ws = "NDir [(''a'', NFile ''x''), (''.env'', NFile ''k'')]"
  have h: "\<forall>k q. os_fault (tv_os demo_tenv) (OpNext k) q = None" by (simp add: demo_tenv_def demo_os_def)
  have i: "grep_input ?j = Some (''k'', ''/ws'', None)" by code_simp
  have r: "tv_regex demo_tenv ''k'' = Ok (contains_sub ''k'')" by (simp add: demo_tenv_def)
  have v: "validate_read (tv_glob demo_tenv) demo_box ''/ws'' = Ok ()" by code_simp
  have n: "resolve_path (tv_os demo_tenv) ''/ws'' demo_tree = Ok ?ws" by code_simp
  show ?thesis
    using grep_spec [OF h i r v n, of 1] unfolding grep_reads_denied(2) Let_def by (simp add: unwrap_or_def)
qed

theorem read_file_spec_witness:
  "read_invoke demo_tenv (read_tool_new demo_box) (JObj [(''path'', JStr ''/ws/a'')]) demo_tree =
     Ok (JObj [(''path'', JStr ''/ws/a''), (''bytes'', JInt 1), (''content'', JStr ''x'')])"
proof -
  have i: "read_input (JObj [(''path'', JStr ''/ws/a'')]) = Some (''/ws/a'', None)" by code_simp
  have c: "validate_read (tv_glob demo_tenv) (rt_sandbox (read_tool_new demo_box)) ''/ws/a'' = Ok ()"
    "resolve_path (tv_os demo_tenv) ''/ws/a'' demo_tree = Ok (NFile ''x'')"
    "os_fault (tv_os demo_tenv) OpMeta (at (tv_os demo_tenv) ''/ws/a'') = None"
    "os_fault (tv_os demo_tenv) OpRead (at (tv_os demo_tenv) ''/ws/a'') = None"
    "utf8_valid ''x''"
    by code_simp+
  have m: "1 \<le> unat (unwrap_or None (rt_max_bytes (read_tool_new demo_box)))"
    by (simp add: unwrap_or_def read_tool_new_def DEFAULT_MAX_BYTES_def)
  show ?thesis
    unfolding read_file_spec [OF i] using m by (intro exI [of _ "''x''"]) (simp add: c)
qed

text \<open>\<^verbatim>\<open>list_dir\<close> lists a directory exactly: a success means that the sandbox allows the path and
  that it is a directory; the output has one entry for each of its entries and no other, with its
  name and, when the type can be read, whether it is a directory, and the names are in byte order.\<close>

theorem list_dir_spec:
  assumes "list_input input = Some path" "list_invoke env sb input t = Ok out"
  shows "\<exists>es entries. validate_read (tv_glob env) sb path = Ok () \<and>
    resolve_path (tv_os env) path t = Ok (NDir es) \<and>
    out = JObj [(''path'', JStr path), (''entries'', JArr entries)] \<and>
    sorted (map (map byte \<circ> entry_name) entries) \<and>
    mset entries = mset (map (\<lambda>(n, c). JObj [(''name'', JStr (os_lossy (tv_os env) n)),
      (''is_dir'', JBool (os_fault (tv_os env) OpFileType (at (tv_os env) path @ [n]) = None \<and> is_dir c))]) es)"
proof -
  let ?os = "tv_os env"
  have l: "list_entries os q k es = Ok js \<Longrightarrow> js = map (\<lambda>(n, c). JObj [(''name'', JStr (os_lossy os n)),
      (''is_dir'', JBool (os_fault os OpFileType (q @ [n]) = None \<and> is_dir c))]) es" for os q k es js
    by (induction os q k es arbitrary: js rule: list_entries.induct)
      (auto simp: with_fault_def split: option.splits)
  from assms obtain meta js where v: "validate_read (tv_glob env) sb path = Ok ()"
    and m: "fs_metadata ?os path t = Ok meta" "is_dir meta"
    and js: "list_entries ?os (at ?os path) 0 (entries_of meta) = Ok js"
    and out: "out = JObj [(''path'', JStr path), (''entries'', JArr (sort_key (\<lambda>j. map byte (entry_name j)) js))]"
    by (auto simp: list_invoke_def parse_as_def Let_def split: if_splits)
  from m obtain es where es: "meta = NDir es" "resolve_path ?os path t = Ok (NDir es)"
    by (cases meta) (auto simp: fs_metadata_def with_fault_def split: option.splits)
  have "sorted (map (map byte \<circ> entry_name) (sort_key (\<lambda>j. map byte (entry_name j)) js))"
    using sorted_sort_key [of "\<lambda>j. map byte (entry_name j)" js] by (simp add: o_def)
  moreover have "mset (sort_key (\<lambda>j. map byte (entry_name j)) js) = mset js" by simp
  moreover have "js = map (\<lambda>(n, c). JObj [(''name'', JStr (os_lossy ?os n)),
      (''is_dir'', JBool (os_fault ?os OpFileType (at ?os path @ [n]) = None \<and> is_dir c))]) es"
    using l [OF js] es(1) by simp
  ultimately show ?thesis using v es(2) out by blast
qed

theorem list_dir_spec_witness:
  "\<exists>out. list_invoke demo_tenv demo_box (JObj [(''path'', JStr ''/ws'')]) demo_tree = Ok out \<and>
     (\<exists>entries. out = JObj [(''path'', JStr ''/ws''), (''entries'', JArr entries)] \<and>
        sorted (map (map byte \<circ> entry_name) entries))"
proof -
  let ?j = "JObj [(''path'', JStr ''/ws'')]"
  have i: "list_input ?j = Some ''/ws''" by code_simp
  have v: "validate_read (tv_glob demo_tenv) demo_box ''/ws'' = Ok ()"
    "fs_metadata (tv_os demo_tenv) ''/ws'' demo_tree = Ok (NDir [(''a'', NFile ''x''), (''.env'', NFile ''k'')])"
    by code_simp+
  have "is_ok (list_invoke demo_tenv demo_box ?j demo_tree)"
    by (simp add: list_invoke_def parse_as_def i v) (simp add: demo_tenv_def demo_os_def with_fault_def Let_def)
  then obtain out where o: "list_invoke demo_tenv demo_box ?j demo_tree = Ok out" by (auto simp: is_ok_iff)
  from list_dir_spec [OF i o] o show ?thesis by blast
qed

subsection \<open>Commands\<close>

lemma map_of_deletes: "map_of (fold AList.delete ks e) = (\<lambda>k. if k \<in> set ks then None else map_of e k)"
  by (induction ks arbitrary: e) (auto simp: delete_conv' fun_eq_iff)

lemma map_of_kept:
  "map_of (fold (\<lambda>k e. case vars k of Some v \<Rightarrow> AList.update k v e | None \<Rightarrow> e) ks e) =
   (\<lambda>k. if k \<in> set ks \<and> vars k \<noteq> None then vars k else map_of e k)"
  by (induction ks arbitrary: e) (auto simp: update_conv' fun_eq_iff split: option.splits)

text \<open>\<^verbatim>\<open>bash\<close> is guarded: a command that the sandbox refuses is never run; of any other, the result
  depends on one run only, of \<^verbatim>\<open>sh -c\<close> with the command as one argument, with the time limit asked
  for or the tool's own, in an environment that holds no scrubbed variable and nothing but the five
  kept ones, with the values of the parent.\<close>

theorem bash_guarded:
  assumes "bash_input input = Some (cmd, cwd, ms)"
  shows "let c = build_command vars bt cmd cwd; limit = unwrap_or ms (bt_timeout bt) in
    (case validate_exec (bt_sandbox bt) cmd of
       Err e \<Rightarrow> bash_invoke env vars show_ms run bt input = Err (TeSandbox e)
     | Ok _ \<Rightarrow> bash_invoke env vars show_ms run bt input =
         bash_invoke env vars show_ms (\<lambda>_ _. run c limit) bt input) \<and>
    cm_program c = ''sh'' \<and> cm_args c = [''-c'', cmd] \<and> cm_cwd c = cwd \<and>
    map_of (cm_env c) = (\<lambda>k. if k \<in> {''PATH'', ''HOME'', ''TMPDIR'', ''LANG'', ''LC_ALL''} \<and>
        k \<notin> set SCRUBBED_ENV_VARS \<and> k \<notin> set (bt_extra_scrubbed bt) then vars k else None)"
proof -
  have "map_of (cm_env (build_command vars bt cmd cwd)) =
      (\<lambda>k. if k \<in> set KEPT_ENV_VARS \<and> k \<notin> set SCRUBBED_ENV_VARS \<and> k \<notin> set (bt_extra_scrubbed bt)
         then vars k else None)"
    by (auto simp: build_command_def Let_def map_of_deletes map_of_kept fun_eq_iff)
  moreover have "set KEPT_ENV_VARS = {''PATH'', ''HOME'', ''TMPDIR'', ''LANG'', ''LC_ALL''}"
    by (simp add: KEPT_ENV_VARS_def)
  moreover have "bash_invoke env vars show_ms run bt input =
      bash_invoke env vars show_ms (\<lambda>_ _. run (build_command vars bt cmd cwd) (unwrap_or ms (bt_timeout bt))) bt input"
    using assms by (simp add: bash_invoke_def parse_as_def Let_def)
  moreover have "bash_invoke env vars show_ms run bt input = Err (TeSandbox e)"
    if "validate_exec (bt_sandbox bt) cmd = Err e" for e
    using assms that by (simp add: bash_invoke_def parse_as_def Let_def)
  ultimately show ?thesis
    by (auto simp: Let_def build_command_def split: result.split)
qed

theorem bash_guarded_witness:
  "bash_invoke demo_tenv (\<lambda>_. Some ''v'') show_nat (\<lambda>c _. Finished (Some 0) (cm_program c) [])
     (bash_tool_new demo_box) (JObj [(''command'', JStr '''')]) = Err (TeSandbox (InvalidCommand '''')) \<and>
   map_of (cm_env (build_command (\<lambda>_. Some ''v'') (bash_tool_new demo_box) '''' None)) ''HF_TOKEN'' = None"
proof -
  have i: "bash_input (JObj [(''command'', JStr '''')]) = Some ('''', None, None)" by code_simp
  have "validate_exec (bt_sandbox (bash_tool_new demo_box)) '''' = Err (InvalidCommand '''')" by (simp add: validate_exec_def)
  with bash_guarded [OF i, of "\<lambda>_. Some ''v''" "bash_tool_new demo_box" demo_tenv show_nat
      "\<lambda>c _. Finished (Some 0) (cm_program c) []"]
  show ?thesis by (simp add: Let_def)
qed

end
