(* ===== verification/Registry.thy ===== *)
theory Registry
  imports Tools
begin

text \<open>
  The tool trait and its registry (\<^verbatim>\<open>tools/src/tool.rs\<close>), and the five built-in tools as values of the
  trait. A tool is a record of its three descriptions and of what it does to a state \<open>'s\<close>; the
  hash map of the registry is an association list that is only read by key or by sorted keys.
\<close>

record 's tool =
  tl_name :: string
  tl_description :: string
  tl_input_schema :: json
  tl_invoke :: "json \<Rightarrow> 's \<Rightarrow> (json, tool_error) result \<times> 's"

type_synonym 's registry = "(string \<times> 's tool) list"

definition reg_register :: "'s tool \<Rightarrow> 's registry \<Rightarrow> 's registry" where
  "reg_register t r = AList.update (tl_name t) t r"

definition reg_get :: "string \<Rightarrow> 's registry \<Rightarrow> 's tool option" where
  "reg_get n r = map_of r n"

definition reg_list :: "'s registry \<Rightarrow> 's tool list" where
  "reg_list r = List.map_filter (map_of r) (sort_key (map byte) (map fst r))"

definition reg_len :: "'s registry \<Rightarrow> nat" where
  "reg_len r = length r"

definition invoke_by_name :: "string \<Rightarrow> json \<Rightarrow> 's registry \<Rightarrow> 's \<Rightarrow> (json, tool_error) result \<times> 's" where
  "invoke_by_name n input r s =
    (case reg_get n r of None \<Rightarrow> (Err (TeNotFound n), s) | Some t \<Rightarrow> tl_invoke t input s)"

definition reg_catalog :: "'s registry \<Rightarrow> json" where
  "reg_catalog r = JArr (map (\<lambda>t. JObj [(''name'', JStr (tl_name t)),
    (''description'', JStr (tl_description t)), (''input_schema'', tl_input_schema t)]) (reg_list r))"

subsection \<open>The built-in tools\<close>

definition prop_schema :: "string \<Rightarrow> string \<Rightarrow> json" where
  "prop_schema ty d = JObj [(''type'', JStr ty), (''description'', JStr d)]"

definition object_schema :: "(string \<times> json) list \<Rightarrow> string list \<Rightarrow> json" where
  "object_schema ps req = JObj [(''type'', JStr ''object''), (''properties'', JObj ps),
    (''required'', JArr (map JStr req))]"

definition read_file :: "tenv \<Rightarrow> read_file_tool \<Rightarrow> fs_node tool" where
  "read_file env rt = \<lparr> tl_name = ''read_file'',
    tl_description = ''Read the contents of a UTF-8 text file from disk. Subject to sandbox policy.'',
    tl_input_schema = object_schema
      [(''path'', prop_schema ''string'' ''Absolute or workspace-relative path.''),
       (''max_bytes'', prop_schema ''integer'' ''Optional cap on bytes returned.'')] [''path''],
    tl_invoke = (\<lambda>j t. (read_invoke env rt j t, t)) \<rparr>"

definition write_file :: "tenv \<Rightarrow> sandbox \<Rightarrow> fs_node tool" where
  "write_file env sb = \<lparr> tl_name = ''write_file'',
    tl_description = ''Write text content to a file atomically (tmp + rename). Subject to sandbox policy.'',
    tl_input_schema = object_schema
      [(''path'', prop_schema ''string'' ''Absolute or workspace-relative path.''),
       (''content'', prop_schema ''string'' ''UTF-8 content to write.''),
       (''create_dirs'', prop_schema ''boolean'' ''Create parent directories if missing (default false).'')]
      [''path'', ''content''],
    tl_invoke = write_invoke env sb \<rparr>"

definition list_dir :: "tenv \<Rightarrow> sandbox \<Rightarrow> fs_node tool" where
  "list_dir env sb = \<lparr> tl_name = ''list_dir'',
    tl_description = ''List entries in a directory. Each entry has a name and an is_dir flag.'',
    tl_input_schema = object_schema [(''path'', prop_schema ''string'' ''Directory to list.'')] [''path''],
    tl_invoke = (\<lambda>j t. (list_invoke env sb j t, t)) \<rparr>"

definition grep :: "tenv \<Rightarrow> sandbox \<Rightarrow> nat \<Rightarrow> fs_node tool" where
  "grep env sb max_matches = \<lparr> tl_name = ''grep'',
    tl_description = ''Recursively search files under a directory for a regex pattern.'',
    tl_input_schema = object_schema
      [(''pattern'', prop_schema ''string'' ''Rust regex syntax.''),
       (''path'', prop_schema ''string'' ''File or directory to search.''),
       (''max_matches'', prop_schema ''integer'' ''Optional cap on total matches returned.'')]
      [''pattern'', ''path''],
    tl_invoke = (\<lambda>j t. (grep_invoke env sb max_matches j t, t)) \<rparr>"

text \<open>A command may change the files: the run is a function of the tree.\<close>

definition bash ::
    "tenv \<Rightarrow> (string \<Rightarrow> string option) \<Rightarrow> (nat \<Rightarrow> string) \<Rightarrow>
     (command \<Rightarrow> nat \<Rightarrow> fs_node \<Rightarrow> run_outcome \<times> fs_node) \<Rightarrow> bash_tool \<Rightarrow> fs_node tool" where
  "bash env vars show_ms run bt = \<lparr> tl_name = ''bash'',
    tl_description = ''Run a shell command via cmd (Windows) or sh (Unix). Subject to sandbox exec allowlist, env scrubbing, and timeout.'',
    tl_input_schema = object_schema
      [(''command'', prop_schema ''string'' ''Shell command line.''),
       (''cwd'', prop_schema ''string'' ''Optional working directory.''),
       (''timeout_ms'', prop_schema ''integer'' ''Optional per-call timeout in milliseconds.'')]
      [''command''],
    tl_invoke = (\<lambda>j t.
      let r = bash_invoke env vars show_ms (\<lambda>c ms. fst (run c ms t)) bt j in
      (r, case parse_as env bash_input j of
            Err _ \<Rightarrow> t
          | Ok (cmd, cwd, ms) \<Rightarrow>
              if is_ok (validate_exec (bt_sandbox bt) cmd) then
                snd (run (build_command vars bt cmd cwd) (unwrap_or ms (bt_timeout bt)) t)
              else t)) \<rparr>"

subsection \<open>The registry\<close>

lemma byte_inj: "byte a = byte b \<longleftrightarrow> a = b"
  by (simp add: byte_def)

lemma inj_bytes: "inj (map byte)"
  by (simp add: inj_def inj_map_eq_map [of byte] inj_on_def byte_inj)

definition reg_ok :: "'s registry \<Rightarrow> bool" where
  "reg_ok r \<longleftrightarrow> distinct (map fst r) \<and> (\<forall>n t. map_of r n = Some t \<longrightarrow> tl_name t = n)"

lemma reg_ok_register: "reg_ok r \<Longrightarrow> reg_ok (reg_register t r)"
  unfolding reg_ok_def reg_register_def update_conv' by (simp add: distinct_update)

lemma reg_ok_fold: "reg_ok r \<Longrightarrow> reg_ok (fold reg_register ts r)"
  by (induction ts arbitrary: r) (simp_all add: reg_ok_register)

lemma reg_get_fold:
  "map_of (fold reg_register ts r) n =
    (case List.find (\<lambda>t. tl_name t = n) (rev ts) of Some t \<Rightarrow> Some t | None \<Rightarrow> map_of r n)"
proof -
  have app: "List.find P (xs @ ys) = (case List.find P xs of Some x \<Rightarrow> Some x | None \<Rightarrow> List.find P ys)" for P xs ys
    by (induction xs) auto
  show ?thesis
    by (induction ts arbitrary: r) (auto simp: reg_register_def update_conv' app split: option.splits)
qed

text \<open>The list takes every key to its tool.\<close>

lemma reg_list_map:
  "reg_list r = map (\<lambda>n. the (map_of r n)) (sort_key (map byte) (map fst r))"
proof -
  have "List.map_filter (map_of r) ks = map (\<lambda>n. the (map_of r n)) ks" if "set ks \<subseteq> fst ` set r" for ks
    using that
  proof (induction ks)
    case (Cons k ks)
    then obtain t where "map_of r k = Some t" by (metis insert_subset list.simps(15) map_of_eq_None_iff not_Some_eq)
    with Cons show ?case by (simp add: map_filter_simps)
  qed (simp add: map_filter_simps)
  then show ?thesis by (simp add: reg_list_def)
qed

lemma reg_list_set:
  assumes "reg_ok r" shows "set (reg_list r) = {t. map_of r (tl_name t) = Some t}"
proof -
  have l: "set (reg_list r) = (\<lambda>n. the (map_of r n)) ` dom (map_of r)"
    by (simp add: reg_list_map dom_map_of_conv_image_fst)
  show ?thesis
  proof (rule set_eqI)
    fix t
    have "t \<in> set (reg_list r) \<longleftrightarrow> (\<exists>n. map_of r n = Some t)" unfolding l by (auto simp: image_iff dom_def)
    also have "\<dots> \<longleftrightarrow> map_of r (tl_name t) = Some t" using assms unfolding reg_ok_def by metis
    finally show "t \<in> set (reg_list r) \<longleftrightarrow> t \<in> {t. map_of r (tl_name t) = Some t}" by simp
  qed
qed

lemma reg_list_sorted:
  assumes "reg_ok r"
  shows "sorted_wrt (<) (map (map byte \<circ> tl_name) (reg_list r))"
proof -
  let ?ks = "sort_key (map byte) (map fst r)"
  have n: "tl_name (the (map_of r k)) = k" if "k \<in> set ?ks" for k
  proof -
    from that obtain t where "map_of r k = Some t" by (metis image_set map_of_eq_None_iff not_Some_eq set_sort)
    with assms show ?thesis by (simp add: reg_ok_def)
  qed
  then have "map (map byte \<circ> tl_name) (reg_list r) = map (map byte) ?ks"
    by (auto simp: reg_list_map intro!: map_cong)
  moreover have "distinct (map (map byte) ?ks)"
    using assms by (simp add: distinct_map reg_ok_def inj_on_subset [OF inj_bytes])
  ultimately show ?thesis by (simp add: strict_sorted_iff)
qed

text \<open>The registry is a map from names: after any registrations, a name finds the tool that was
  registered last under it; the list has exactly these tools, strictly sorted by name, so that
  listings are deterministic, and as many as the length says; and invoking by name runs the tool that
  is found, or reports that there is none.\<close>

theorem registry_spec:
  "let r = fold reg_register ts [] in
   reg_get n r = List.find (\<lambda>t. tl_name t = n) (rev ts) \<and>
   invoke_by_name n j r s = (case List.find (\<lambda>t. tl_name t = n) (rev ts) of
       Some t \<Rightarrow> tl_invoke t j s | None \<Rightarrow> (Err (TeNotFound n), s)) \<and>
   sorted_wrt (<) (map (map byte \<circ> tl_name) (reg_list r)) \<and>
   set (reg_list r) = {t. List.find (\<lambda>u. tl_name u = tl_name t) (rev ts) = Some t} \<and>
   length (reg_list r) = reg_len r"
proof -
  let ?r = "fold reg_register ts []"
  have ok: "reg_ok ?r" by (rule reg_ok_fold) (simp add: reg_ok_def)
  have g: "map_of ?r n = List.find (\<lambda>t. tl_name t = n) (rev ts)" for n
    by (simp add: reg_get_fold split: option.split)
  have l: "set (reg_list ?r) = {t. List.find (\<lambda>u. tl_name u = tl_name t) (rev ts) = Some t}"
    unfolding reg_list_set [OF ok] g ..
  have n: "length (reg_list ?r) = length ?r" by (simp add: reg_list_map)
  show ?thesis
    unfolding Let_def reg_get_def invoke_by_name_def reg_len_def g l n
    using reg_list_sorted [OF ok] by (intro conjI refl)
qed

end
