(* ===== verification/Mcp.thy ===== *)
theory Mcp
  imports Registry
begin

text \<open>
  The Model Context Protocol over newline-delimited JSON: the envelopes
  (\<^verbatim>\<open>mcp-client/src/protocol.rs\<close>), the server (\<^verbatim>\<open>mcp-server/src/server.rs\<close>), the client with its
  transport (\<^verbatim>\<open>client.rs\<close>, \<^verbatim>\<open>transport.rs\<close>) and the adapter that makes a remote tool a tool of the
  registry (\<^verbatim>\<open>adapter.rs\<close>). The client only relies on the locale \<open>rpc_channel\<close>; it is interpreted
  on the stdio transport connected to the server of this repository. The text form of JSON is the
  parameter \<open>J\<close>; a writer that fails is not modelled.
\<close>

subsection \<open>Envelopes (protocol.rs)\<close>

type_synonym i64 = "64 word"

definition ji64 :: "json \<Rightarrow> i64 option" where
  "ji64 j = (case j of JInt i \<Rightarrow> if - (2 ^ 63) \<le> i \<and> i < 2 ^ 63 then Some (word_of_int i) else None | _ \<Rightarrow> None)"

definition i64_json :: "i64 \<Rightarrow> json" where
  "i64_json i = JInt (sint i)"

definition JSONRPC_VERSION :: string where
  "JSONRPC_VERSION = ''2.0''"

record rpc_request =
  rq_jsonrpc :: string
  rq_id :: i64
  rq_method :: string
  rq_params :: "json option"

definition rpc_request_new :: "i64 \<Rightarrow> string \<Rightarrow> json option \<Rightarrow> rpc_request" where
  "rpc_request_new i m p = \<lparr> rq_jsonrpc = JSONRPC_VERSION, rq_id = i, rq_method = m, rq_params = p \<rparr>"

record rpc_error =
  re_code :: i64
  re_message :: string
  re_data :: "json option"

record rpc_response =
  rs_jsonrpc :: string
  rs_id :: i64
  rs_result :: "json option"
  rs_error :: "rpc_error option"

definition into_result :: "rpc_response \<Rightarrow> (json, rpc_error) result" where
  "into_result r =
    (case rs_error r of
       Some e \<Rightarrow> Err e
     | None \<Rightarrow> opt_ok_or (rs_result r)
         \<lparr> re_code = - 32603, re_message = ''response had neither result nor error'', re_data = None \<rparr>)"

definition request_json :: "rpc_request \<Rightarrow> json" where
  "request_json r = JObj ([(''jsonrpc'', JStr (rq_jsonrpc r)), (''id'', i64_json (rq_id r)),
    (''method'', JStr (rq_method r))] @ skip_none ''params'' id (rq_params r))"

definition request_of_json :: "json \<Rightarrow> rpc_request option" where
  "request_of_json j =
    Option.bind (text_fields [''jsonrpc'', ''id'', ''method'', ''params''] j) (\<lambda>f.
    Option.bind (req_field jstr f ''jsonrpc'') (\<lambda>v.
    Option.bind (req_field ji64 f ''id'') (\<lambda>i.
    Option.bind (req_field jstr f ''method'') (\<lambda>m.
    Option.bind (opt_field Some f ''params'') (\<lambda>p.
      Some \<lparr> rq_jsonrpc = v, rq_id = i, rq_method = m, rq_params = p \<rparr>)))))"

definition error_json :: "rpc_error \<Rightarrow> json" where
  "error_json e = JObj ([(''code'', i64_json (re_code e)), (''message'', JStr (re_message e))] @
    skip_none ''data'' id (re_data e))"

definition error_of_json :: "json \<Rightarrow> rpc_error option" where
  "error_of_json j =
    Option.bind (text_fields [''code'', ''message'', ''data''] j) (\<lambda>f.
    Option.bind (req_field ji64 f ''code'') (\<lambda>c.
    Option.bind (req_field jstr f ''message'') (\<lambda>m.
    Option.bind (opt_field Some f ''data'') (\<lambda>d.
      Some \<lparr> re_code = c, re_message = m, re_data = d \<rparr>))))"

definition response_json :: "rpc_response \<Rightarrow> json" where
  "response_json r = JObj ([(''jsonrpc'', JStr (rs_jsonrpc r)), (''id'', i64_json (rs_id r))] @
    skip_none ''result'' id (rs_result r) @ skip_none ''error'' error_json (rs_error r))"

definition response_of_json :: "json \<Rightarrow> rpc_response option" where
  "response_of_json j =
    Option.bind (text_fields [''jsonrpc'', ''id'', ''result'', ''error''] j) (\<lambda>f.
    Option.bind (req_field jstr f ''jsonrpc'') (\<lambda>v.
    Option.bind (req_field ji64 f ''id'') (\<lambda>i.
    Option.bind (opt_field Some f ''result'') (\<lambda>r.
    Option.bind (opt_field error_of_json f ''error'') (\<lambda>e.
      Some \<lparr> rs_jsonrpc = v, rs_id = i, rs_result = r, rs_error = e \<rparr>)))))"

record mcp_tool_info =
  mt_name :: string
  mt_description :: "string option"
  mt_input_schema :: "json option"

definition tool_info_of_json :: "json \<Rightarrow> mcp_tool_info option" where
  "tool_info_of_json j =
    Option.bind (struct_fields [''name'', ''description'', ''input_schema''] j) (\<lambda>f.
    Option.bind (req_field jstr f ''name'') (\<lambda>n.
    Option.bind (opt_field jstr f ''description'') (\<lambda>d.
    Option.bind (opt_field Some f ''input_schema'') (\<lambda>s.
      Some \<lparr> mt_name = n, mt_description = d, mt_input_schema = s \<rparr>))))"

lemma ji64_round [simp]: "ji64 (i64_json i) = Some i"
  using sint_range_size [of i] by (simp add: ji64_def i64_json_def word_size)

lemma opt_field_at:
  "f k = None \<Longrightarrow> opt_field get f k = Some None"
  "f k = Some j \<Longrightarrow> j \<noteq> JNull \<Longrightarrow> opt_field get f k = map_option Some (get j)"
  by (auto simp: opt_field_def split: json.split)

lemmas derive_simps = text_fields_def struct_fields_def req_field_def opt_field_at skip_none_def

lemma request_round: "rq_params r \<noteq> Some JNull \<Longrightarrow> request_of_json (request_json r) = Some r"
  by (cases "rq_params r") (simp_all add: request_of_json_def request_json_def derive_simps)

lemma error_round: "re_data e \<noteq> Some JNull \<Longrightarrow> error_of_json (error_json e) = Some e"
  by (cases "re_data e") (simp_all add: error_of_json_def error_json_def derive_simps)

lemma error_json_not_null: "error_json e \<noteq> JNull"
  by (simp add: error_json_def)

lemma response_round:
  assumes "rs_result r \<noteq> Some JNull" "\<And>e. rs_error r = Some e \<Longrightarrow> re_data e \<noteq> Some JNull"
  shows "response_of_json (response_json r) = Some r"
  using assms
  by (cases "rs_result r"; cases "rs_error r")
    (simp_all add: response_of_json_def response_json_def derive_simps error_round error_json_not_null)

subsection \<open>The server (server.rs)\<close>

definition PARSE_ERROR :: i64 where "PARSE_ERROR = - 32700"

definition METHOD_NOT_FOUND :: i64 where "METHOD_NOT_FOUND = - 32601"

definition INVALID_PARAMS :: i64 where "INVALID_PARAMS = - 32602"

record server_info =
  si_name :: string
  si_version :: string
  si_capabilities :: json

text \<open>The version of the package is set by the build.\<close>

definition mscode_default :: "string \<Rightarrow> server_info" where
  "mscode_default version = \<lparr> si_name = ''mscode'', si_version = version,
    si_capabilities = JObj [(''tools'', JObj [(''listChanged'', JBool False)])] \<rparr>"

record 's mcp_server =
  ms_registry :: "'s registry"
  ms_server_info :: server_info

definition with_registry :: "string \<Rightarrow> 's registry \<Rightarrow> 's mcp_server" where
  "with_registry version r = \<lparr> ms_registry = r, ms_server_info = mscode_default version \<rparr>"

definition mcp_server_new ::
    "string \<Rightarrow> tenv \<Rightarrow> (string \<Rightarrow> string option) \<Rightarrow> (nat \<Rightarrow> string) \<Rightarrow>
     (command \<Rightarrow> nat \<Rightarrow> fs_node \<Rightarrow> run_outcome \<times> fs_node) \<Rightarrow> sandbox \<Rightarrow> fs_node mcp_server" where
  "mcp_server_new version env vars show_ms run sb =
    with_registry version (fold reg_register
      [read_file env (read_tool_new sb), write_file env sb, list_dir env sb,
       grep env sb DEFAULT_MAX_MATCHES, bash env vars show_ms run (bash_tool_new sb)] [])"

definition register_tool :: "'s tool \<Rightarrow> 's mcp_server \<Rightarrow> 's mcp_server" where
  "register_tool t srv = srv\<lparr> ms_registry := reg_register t (ms_registry srv) \<rparr>"

definition initialize_result :: "'s mcp_server \<Rightarrow> json" where
  "initialize_result srv = JObj [(''protocolVersion'', JStr ''2024-11-05''),
    (''capabilities'', si_capabilities (ms_server_info srv)),
    (''serverInfo'', JObj [(''name'', JStr (si_name (ms_server_info srv))),
      (''version'', JStr (si_version (ms_server_info srv)))])]"

definition tools_list_result :: "'s mcp_server \<Rightarrow> json" where
  "tools_list_result srv = JObj [(''tools'', JArr (map (\<lambda>t. JObj [(''name'', JStr (tl_name t)),
    (''description'', JStr (tl_description t)), (''inputSchema'', tl_input_schema t)])
    (reg_list (ms_registry srv))))]"

definition call_params :: "json \<Rightarrow> (string \<times> json) option" where
  "call_params j =
    Option.bind (struct_fields [''name'', ''arguments''] j) (\<lambda>f.
    Option.bind (req_field jstr f ''name'') (\<lambda>n. Some (n, unwrap_or (f ''arguments'') JNull)))"

text \<open>\<open>txt\<close> has the texts of the errors of serde and of the tools.\<close>

record mcp_text =
  mx_json :: json_text
  mx_params_err :: "json \<Rightarrow> string"
  mx_tool_err :: "tool_error \<Rightarrow> string"
  mx_io_err :: string

definition rpc_err :: "i64 \<Rightarrow> string \<Rightarrow> rpc_error" where
  "rpc_err c m = \<lparr> re_code = c, re_message = m, re_data = None \<rparr>"

definition call_content_json :: "string \<Rightarrow> bool \<Rightarrow> json" where
  "call_content_json text is_error = JObj [(''content'', JArr [JObj [(''type'', JStr ''text''), (''text'', JStr text)]]),
    (''isError'', JBool is_error)]"

definition tools_call ::
    "mcp_text \<Rightarrow> 's mcp_server \<Rightarrow> rpc_request \<Rightarrow> 's \<Rightarrow> (json, rpc_error) result \<times> 's" where
  "tools_call txt srv rq s =
    (let params = unwrap_or (rq_params rq) JNull in
     case call_params params of
       None \<Rightarrow> (Err (rpc_err INVALID_PARAMS (''invalid tools/call params: '' @ mx_params_err txt params)), s)
     | Some (n, args) \<Rightarrow>
         (case reg_get n (ms_registry srv) of
            None \<Rightarrow> (Err (rpc_err INVALID_PARAMS (''unknown tool: '' @ n)), s)
          | Some t \<Rightarrow>
              (case tl_invoke t args s of
                 (Ok v, s') \<Rightarrow> (Ok (call_content_json (jt_print (mx_json txt) v) False), s')
               | (Err e, s') \<Rightarrow> (Ok (call_content_json (mx_tool_err txt e) True), s'))))"

definition rpc_dispatch ::
    "mcp_text \<Rightarrow> 's mcp_server \<Rightarrow> rpc_request \<Rightarrow> 's \<Rightarrow> (json, rpc_error) result \<times> 's" where
  "rpc_dispatch txt srv rq s =
    (if rq_method rq = ''initialize'' then (Ok (initialize_result srv), s)
     else if rq_method rq = ''tools/list'' then (Ok (tools_list_result srv), s)
     else if rq_method rq = ''tools/call'' then tools_call txt srv rq s
     else (Err (rpc_err METHOD_NOT_FOUND (''method not found: '' @ rq_method rq)), s))"

definition build_response :: "i64 \<Rightarrow> (json, rpc_error) result \<Rightarrow> rpc_response" where
  "build_response i r =
    (case r of
       Ok v \<Rightarrow> \<lparr> rs_jsonrpc = JSONRPC_VERSION, rs_id = i, rs_result = Some v, rs_error = None \<rparr>
     | Err e \<Rightarrow> \<lparr> rs_jsonrpc = JSONRPC_VERSION, rs_id = i, rs_result = None, rs_error = Some e \<rparr>)"

definition parse_error_response :: rpc_response where
  "parse_error_response = \<lparr> rs_jsonrpc = JSONRPC_VERSION, rs_id = 0, rs_result = None,
    rs_error = Some (rpc_err PARSE_ERROR ''Parse error'') \<rparr>"

definition parse_request :: "json_text \<Rightarrow> string \<Rightarrow> rpc_request option" where
  "parse_request J l = Option.bind (jt_parse J l) request_of_json"

definition handle_line :: "mcp_text \<Rightarrow> 's mcp_server \<Rightarrow> string \<Rightarrow> 's \<Rightarrow> rpc_response option \<times> 's" where
  "handle_line txt srv l s =
    (case parse_request (mx_json txt) l of
       None \<Rightarrow> (Some parse_error_response, s)
     | Some rq \<Rightarrow> (let (r, s') = rpc_dispatch txt srv rq s in (Some (build_response (rq_id rq) r), s')))"

definition response_line :: "json_text \<Rightarrow> rpc_response \<Rightarrow> string" where
  "response_line J r = jt_print J (response_json r) @ [nl]"

text \<open>\<^verbatim>\<open>read_line\<close>: the lines of the input with their newlines.\<close>

definition raw_lines :: "string \<Rightarrow> string list" where
  "raw_lines b = (let ps = split_byte nl b in
    map (\<lambda>w. w @ [nl]) (butlast ps) @ (if last ps = [] then [] else [last ps]))"

datatype server_error = SIo string

fun serve_lines ::
    "mcp_text \<Rightarrow> 's mcp_server \<Rightarrow> string list \<Rightarrow> 's \<Rightarrow> (unit, server_error) result \<times> string \<times> 's" where
  "serve_lines txt srv [] s = (Ok (), [], s)"
| "serve_lines txt srv (raw # rest) s =
    (if \<not> utf8_valid raw then (Err (SIo (mx_io_err txt)), [], s)
     else if trim raw = [] then serve_lines txt srv rest s
     else
       let (resp, s1) = handle_line txt srv (trim raw) s; (r, out, s2) = serve_lines txt srv rest s1
       in (r, (case resp of Some v \<Rightarrow> response_line (mx_json txt) v | None \<Rightarrow> []) @ out, s2))"

definition run_stdio ::
    "mcp_text \<Rightarrow> 's mcp_server \<Rightarrow> string \<Rightarrow> 's \<Rightarrow> (unit, server_error) result \<times> string \<times> 's" where
  "run_stdio txt srv input s = serve_lines txt srv (raw_lines input) s"

lemma build_response_simps [simp]:
  "rs_id (build_response i r) = i" "rs_result (build_response i (Ok v)) = Some v"
  "rs_error (build_response i (Ok v)) = None" "rs_result (build_response i (Err e)) = None"
  "rs_error (build_response i (Err e)) = Some e" "rs_jsonrpc (build_response i r) = JSONRPC_VERSION"
  by (simp_all add: build_response_def split: result.split)

lemma into_result_build [simp]: "into_result (build_response i r) = r"
  by (cases r) (simp_all add: into_result_def)

text \<open>What the answer to a request has to be, in the state the server is in: the id of the request, and for each method
  its result or the code of its error. Only the call of a registered tool acts on the state, and a tool that fails
  is a result, marked as an error.\<close>

definition rpc_answer ::
    "mcp_text \<Rightarrow> 's mcp_server \<Rightarrow> rpc_request \<Rightarrow> 's \<Rightarrow> rpc_response \<Rightarrow> 's \<Rightarrow> bool" where
  "rpc_answer txt srv rq s r s' \<longleftrightarrow> rs_id r = rq_id rq \<and>
     (let result = (\<lambda>v. rs_result r = Some v \<and> rs_error r = None);
          error = (\<lambda>c. rs_result r = None \<and> map_option re_code (rs_error r) = Some c \<and> s' = s) in
      if rq_method rq = ''initialize'' then result (initialize_result srv) \<and> s' = s
      else if rq_method rq = ''tools/list'' then result (tools_list_result srv) \<and> s' = s
      else if rq_method rq = ''tools/call'' then
        (case call_params (case rq_params rq of Some p \<Rightarrow> p | None \<Rightarrow> JNull) of
           None \<Rightarrow> error (- 32602)
         | Some (name, args) \<Rightarrow>
             (case reg_get name (ms_registry srv) of
                None \<Rightarrow> error (- 32602)
              | Some t \<Rightarrow> s' = snd (tl_invoke t args s) \<and>
                  (case fst (tl_invoke t args s) of
                     Ok v \<Rightarrow> result (call_content_json (jt_print (mx_json txt) v) False)
                   | Err e \<Rightarrow> result (call_content_json (mx_tool_err txt e) True))))
      else error (- 32601))"

text \<open>The answers to the lines of the input, in order: a blank line has none, a line that is no request (a notification,
  which has no id, is none) has the code -32700 and the id 0.\<close>

fun answered ::
    "mcp_text \<Rightarrow> 's mcp_server \<Rightarrow> string list \<Rightarrow> 's \<Rightarrow> rpc_response list \<Rightarrow> 's \<Rightarrow> bool" where
  "answered txt srv [] s rs s' \<longleftrightarrow> rs = [] \<and> s' = s"
| "answered txt srv (l # ls) s rs s' \<longleftrightarrow>
     (if trim l = [] then answered txt srv ls s rs s'
      else \<exists>r rs' s1. rs = r # rs' \<and> answered txt srv ls s1 rs' s' \<and>
        (case parse_request (mx_json txt) (trim l) of
           Some rq \<Rightarrow> rpc_answer txt srv rq s r s1
         | None \<Rightarrow> rs_id r = 0 \<and> rs_result r = None \<and> map_option re_code (rs_error r) = Some (- 32700) \<and> s1 = s))"

lemma dispatch_answer:
  assumes "rpc_dispatch txt srv rq s = (r, s')"
  shows "rpc_answer txt srv rq s (build_response (rq_id rq) r) s'"
  using assms
  by (auto simp: rpc_answer_def rpc_dispatch_def tools_call_def unwrap_or_def rpc_err_def METHOD_NOT_FOUND_def
      INVALID_PARAMS_def Let_def split: if_splits option.splits prod.splits result.splits)

text \<open>C22: the server answers every line once: on input that is UTF-8 it never stops early, and it writes exactly one
  response line for every line that is not blank, in order. The answer to a request carries its id and is the result
  of its method, in the state that the calls before have left; a method that does not exist has the code -32601, a
  call with parameters that do not parse or of a tool that is not registered has -32602, and neither acts on the
  state; a line that is no request has -32700 and the id 0. So a notification is answered too, and the id of a parse
  error is not null, against the comments in \<^verbatim>\<open>server.rs\<close>.\<close>

theorem mcp_server_answers:
  assumes "\<forall>l \<in> set (raw_lines input). utf8_valid l"
  shows "\<exists>rs s'. run_stdio txt srv input s = (Ok (), concat (map (response_line (mx_json txt)) rs), s') \<and>
    answered txt srv (raw_lines input) s rs s'"
proof -
  have "\<exists>rs s'. serve_lines txt srv ls s = (Ok (), concat (map (response_line (mx_json txt)) rs), s') \<and>
      answered txt srv ls s rs s'" if "\<forall>l \<in> set ls. utf8_valid l" for ls
    using that
  proof (induction ls arbitrary: s)
    case (Cons l ls)
    show ?case
    proof (cases "trim l = []")
      case True
      with Cons show ?thesis by auto
    next
      case False
      obtain r s1 where h: "handle_line txt srv (trim l) s = (Some r, s1)"
        and a: "case parse_request (mx_json txt) (trim l) of
           Some rq \<Rightarrow> rpc_answer txt srv rq s r s1
         | None \<Rightarrow> rs_id r = 0 \<and> rs_result r = None \<and> map_option re_code (rs_error r) = Some (- 32700) \<and> s1 = s"
        by (cases "parse_request (mx_json txt) (trim l)")
          (auto simp: handle_line_def parse_error_response_def rpc_err_def PARSE_ERROR_def split_beta
            dispatch_answer [OF surjective_pairing])
      from Cons.IH [of s1] Cons.prems obtain rs s' where
        "serve_lines txt srv ls s1 = (Ok (), concat (map (response_line (mx_json txt)) rs), s')"
        "answered txt srv ls s1 rs s'" by auto
      with h a False Cons.prems show ?thesis by (intro exI [of _ "r # rs"] exI [of _ s']) auto
    qed
  qed simp
  with assms show ?thesis unfolding run_stdio_def by blast
qed

subsection \<open>The client (client.rs)\<close>

datatype mcp_error =
    MeIo string
  | MeJson string
  | MeRpc i64 string
  | MeMalformed string
  | MeTransportClosed
  | MeIdMismatch i64 "i64 option"
  | MeSpawn string
  | MeUnknownTool string

text \<open>\<^verbatim>\<open>McpTransport\<close>, on a state \<open>'w\<close>; the client adds its counter.\<close>

record 'w transport =
  tp_send :: "rpc_request \<Rightarrow> 'w \<Rightarrow> (unit, mcp_error) result \<times> 'w"
  tp_recv :: "'w \<Rightarrow> (rpc_response, mcp_error) result \<times> 'w"

record 'w client =
  cl_transport :: 'w
  cl_next_id :: i64

definition with_transport :: "'w \<Rightarrow> 'w client" where
  "with_transport w = \<lparr> cl_transport = w, cl_next_id = 1 \<rparr>"

definition client_request ::
    "'w transport \<Rightarrow> string \<Rightarrow> json option \<Rightarrow> 'w client \<Rightarrow> (json, mcp_error) result \<times> 'w client" where
  "client_request tp m p c =
    (let i = cl_next_id c; c0 = c\<lparr> cl_next_id := i + 1 \<rparr>;
         (r1, w1) = tp_send tp (rpc_request_new i m p) (cl_transport c); c1 = c0\<lparr> cl_transport := w1 \<rparr>
     in case r1 of
       Err e \<Rightarrow> (Err e, c1)
     | Ok _ \<Rightarrow>
         let (r2, w2) = tp_recv tp w1; c2 = c1\<lparr> cl_transport := w2 \<rparr>
         in case r2 of
           Err e \<Rightarrow> (Err e, c2)
         | Ok resp \<Rightarrow>
             if rs_id resp \<noteq> i then (Err (MeIdMismatch i (Some (rs_id resp))), c2)
             else (map_err (\<lambda>e. MeRpc (re_code e) (re_message e)) (into_result resp), c2))"

fun all_some :: "'a option list \<Rightarrow> 'a list option" where
  "all_some [] = Some []"
| "all_some (x # xs) = Option.bind x (\<lambda>y. map_option ((#) y) (all_some xs))"

definition tool_infos :: "json \<Rightarrow> mcp_tool_info list option" where
  "tool_infos j = (case j of JArr xs \<Rightarrow> all_some (map tool_info_of_json xs) | _ \<Rightarrow> None)"

definition client_list_tools ::
    "(json \<Rightarrow> string) \<Rightarrow> 'w transport \<Rightarrow> 'w client \<Rightarrow> (mcp_tool_info list, mcp_error) result \<times> 'w client" where
  "client_list_tools jerr tp c =
    (case client_request tp ''tools/list'' None c of
       (Err e, c') \<Rightarrow> (Err e, c')
     | (Ok v, c') \<Rightarrow>
         (try_res (opt_ok_or (jget v ''tools'') (MeMalformed ''missing `tools` field'')) (\<lambda>tv.
            opt_ok_or (tool_infos tv) (MeJson (jerr tv))), c'))"

definition client_call_tool ::
    "'w transport \<Rightarrow> string \<Rightarrow> json \<Rightarrow> 'w client \<Rightarrow> (json, mcp_error) result \<times> 'w client" where
  "client_call_tool tp n args c =
    client_request tp ''tools/call'' (Some (JObj [(''name'', JStr n), (''arguments'', args)])) c"

subsection \<open>The stdio transport (transport.rs)\<close>

text \<open>The process at the other end takes the bytes written and appends what it answers to its
  output; a read of a line when nothing is left is the end of the stream.\<close>

record 's pipe =
  pi_stdin :: bool
  pi_out :: string
  pi_peer :: 's

definition stdio_send ::
    "json_text \<Rightarrow> (string \<Rightarrow> 's \<Rightarrow> string \<times> 's) \<Rightarrow> rpc_request \<Rightarrow> 's pipe \<Rightarrow> (unit, mcp_error) result \<times> 's pipe" where
  "stdio_send J peer msg w =
    (if \<not> pi_stdin w then (Err MeTransportClosed, w)
     else
       let (out, s') = peer (jt_print J (request_json msg) @ [nl]) (pi_peer w)
       in (Ok (), w\<lparr> pi_out := pi_out w @ out, pi_peer := s' \<rparr>))"

text \<open>One line off the output, with its newline.\<close>

definition take_line :: "string \<Rightarrow> string \<times> string" where
  "take_line b = (case raw_lines b of [] \<Rightarrow> ([], []) | l # ls \<Rightarrow> (l, concat ls))"

definition stdio_recv ::
    "json_text \<Rightarrow> (string \<Rightarrow> string) \<Rightarrow> 's pipe \<Rightarrow> (rpc_response, mcp_error) result \<times> 's pipe" where
  "stdio_recv J jerr w =
    (let (l, rest) = take_line (pi_out w); w' = w\<lparr> pi_out := rest \<rparr>
     in if l = [] then (Err MeTransportClosed, w')
        else if \<not> utf8_valid l then (Err (MeIo ''stream did not contain valid UTF-8''), w')
        else if trim l = [] then (Err (MeMalformed ''empty line''), w')
        else (opt_ok_or (Option.bind (jt_parse J (trim l)) response_of_json) (MeJson (jerr (trim l))), w'))"

definition stdio_close :: "'s pipe \<Rightarrow> (unit, mcp_error) result \<times> 's pipe" where
  "stdio_close w = (Ok (), w\<lparr> pi_stdin := False \<rparr>)"

definition stdio_transport ::
    "json_text \<Rightarrow> (string \<Rightarrow> string) \<Rightarrow> (string \<Rightarrow> 's \<Rightarrow> string \<times> 's) \<Rightarrow> 's pipe transport" where
  "stdio_transport J jerr peer = \<lparr> tp_send = stdio_send J peer, tp_recv = stdio_recv J jerr \<rparr>"

subsection \<open>The client on a channel that answers\<close>

locale rpc_channel =
  fixes tp :: "'w transport" and idle :: "'w \<Rightarrow> bool" and good :: "rpc_request \<Rightarrow> 'w \<Rightarrow> bool"
    and answer :: "rpc_request \<Rightarrow> 'w \<Rightarrow> (json, rpc_error) result \<times> 'w"
  assumes exchange: "idle w \<Longrightarrow> good rq w \<Longrightarrow>
    \<exists>w1. tp_send tp rq w = (Ok (), w1) \<and>
      tp_recv tp w1 = (Ok (build_response (rq_id rq) (fst (answer rq w))), snd (answer rq w)) \<and>
      idle (snd (answer rq w))"
begin

lemma request_answered:
  assumes "idle (cl_transport c)" "good (rpc_request_new (cl_next_id c) m p) (cl_transport c)"
  shows "let a = answer (rpc_request_new (cl_next_id c) m p) (cl_transport c) in
    client_request tp m p c =
      (map_err (\<lambda>e. MeRpc (re_code e) (re_message e)) (fst a),
       c\<lparr> cl_next_id := cl_next_id c + 1, cl_transport := snd a \<rparr>) \<and> idle (snd a)"
proof -
  let ?rq = "rpc_request_new (cl_next_id c) m p"
  obtain w1 where "tp_send tp ?rq (cl_transport c) = (Ok (), w1)"
    "tp_recv tp w1 = (Ok (build_response (rq_id ?rq) (fst (answer ?rq (cl_transport c)))),
      snd (answer ?rq (cl_transport c)))" "idle (snd (answer ?rq (cl_transport c)))"
    using exchange [OF assms] by blast
  moreover have "rq_id ?rq = cl_next_id c" by (simp add: rpc_request_new_def)
  ultimately show ?thesis by (simp add: client_request_def Let_def)
qed

end

subsection \<open>The client and the server\<close>

text \<open>What the two sides rely on: the compact text of a message is one line of UTF-8 without white
  space around it, and parses back.\<close>

definition wire_ok :: "json_text \<Rightarrow> json \<Rightarrow> bool" where
  "wire_ok J j \<longleftrightarrow> (let t = jt_print J j in
    t \<noteq> [] \<and> nl \<notin> set t \<and> utf8_valid t \<and> trim t = t \<and> jt_parse J t = Some j)"

definition server_peer :: "mcp_text \<Rightarrow> 's mcp_server \<Rightarrow> string \<Rightarrow> 's \<Rightarrow> string \<times> 's" where
  "server_peer txt srv b s = snd (run_stdio txt srv b s)"

definition server_answer ::
    "mcp_text \<Rightarrow> 's mcp_server \<Rightarrow> rpc_request \<Rightarrow> 's pipe \<Rightarrow> (json, rpc_error) result \<times> 's pipe" where
  "server_answer txt srv rq w =
    (let (r, s') = rpc_dispatch txt srv rq (pi_peer w) in (r, w\<lparr> pi_peer := s' \<rparr>))"

definition pipe_idle :: "'s pipe \<Rightarrow> bool" where
  "pipe_idle w \<longleftrightarrow> pi_stdin w \<and> pi_out w = []"

definition exchange_ok :: "mcp_text \<Rightarrow> 's mcp_server \<Rightarrow> rpc_request \<Rightarrow> 's pipe \<Rightarrow> bool" where
  "exchange_ok txt srv rq w \<longleftrightarrow>
    (let r = build_response (rq_id rq) (fst (server_answer txt srv rq w)) in
     wire_ok (mx_json txt) (request_json rq) \<and> rq_params rq \<noteq> Some JNull \<and>
     wire_ok (mx_json txt) (response_json r) \<and> rs_result r \<noteq> Some JNull)"

lemma trim_nl: "trim (t @ [nl]) = trim t"
proof -
  have "chars (t @ [nl]) = chars t @ [[nl]]"
    using chars_append [of "[nl]" t] by (simp add: is_cont_def byte_def)
  moreover have "is_ws [nl]" by (simp add: is_ws_def white_space_def)
  ultimately show ?thesis
    by (cases "\<forall>x \<in> set (chars t). is_ws x") (auto simp: trim_def dropWhile_append dropWhile_eq_Nil_conv [THEN iffD2])
qed

lemma raw_line: "nl \<notin> set t \<Longrightarrow> raw_lines (t @ [nl]) = [t @ [nl]]"
  by (simp add: raw_lines_def Let_def split_byte_append)

lemma wire_line:
  assumes "wire_ok J j"
  shows "raw_lines (jt_print J j @ [nl]) = [jt_print J j @ [nl]]" "utf8_valid (jt_print J j @ [nl])"
    "trim (jt_print J j @ [nl]) = jt_print J j" "jt_print J j \<noteq> []" "jt_parse J (jt_print J j) = Some j"
  using assms by (auto simp: wire_ok_def Let_def raw_line trim_nl utf8_valid_append byte_def)

lemma dispatch_no_data: "rpc_dispatch txt srv rq s = (Err e, s') \<Longrightarrow> re_data e = None"
  by (auto simp: rpc_dispatch_def tools_call_def rpc_err_def Let_def split: if_splits option.splits prod.splits result.splits)

lemma server_exchange:
  assumes "pipe_idle w" "exchange_ok txt srv rq w"
    and tp: "tp = stdio_transport (mx_json txt) jerr (server_peer txt srv)"
  shows "\<exists>w1. tp_send tp rq w = (Ok (), w1) \<and>
    tp_recv tp w1 = (Ok (build_response (rq_id rq) (fst (server_answer txt srv rq w))),
      snd (server_answer txt srv rq w)) \<and>
    pipe_idle (snd (server_answer txt srv rq w))"
proof -
  obtain r s' where d: "rpc_dispatch txt srv rq (pi_peer w) = (r, s')" by fastforce
  let ?resp = "build_response (rq_id rq) r"
  have a: "server_answer txt srv rq w = (r, w\<lparr> pi_peer := s' \<rparr>)" by (simp add: server_answer_def d)
  with assms(2) have ok: "wire_ok (mx_json txt) (request_json rq)" "rq_params rq \<noteq> Some JNull"
    "wire_ok (mx_json txt) (response_json ?resp)" "rs_result ?resp \<noteq> Some JNull"
    by (simp_all add: exchange_ok_def Let_def)
  have "parse_request (mx_json txt) (jt_print (mx_json txt) (request_json rq)) = Some rq"
    using wire_line [OF ok(1)] ok(2) by (simp add: parse_request_def request_round)
  then have "server_peer txt srv (jt_print (mx_json txt) (request_json rq) @ [nl]) (pi_peer w) =
      (response_line (mx_json txt) ?resp, s')"
    using wire_line [OF ok(1)] d by (simp add: server_peer_def run_stdio_def handle_line_def Let_def)
  then have send: "tp_send tp rq w = (Ok (), w\<lparr> pi_out := response_line (mx_json txt) ?resp, pi_peer := s' \<rparr>)"
    using assms(1) by (simp add: tp stdio_transport_def stdio_send_def pipe_idle_def)
  have "re_data e \<noteq> Some JNull" if "rs_error ?resp = Some e" for e
    using that d dispatch_no_data [of _ _ rq _ e s'] by (cases r) auto
  with ok(4) have "response_of_json (response_json ?resp) = Some ?resp" by (intro response_round) auto
  then have "tp_recv tp (w\<lparr> pi_out := response_line (mx_json txt) ?resp, pi_peer := s' \<rparr>) =
      (Ok ?resp, w\<lparr> pi_out := [], pi_peer := s' \<rparr>)"
    using wire_line [OF ok(3)]
    by (simp add: tp stdio_transport_def stdio_recv_def take_line_def response_line_def)
  with send assms(1) a show ?thesis by (auto simp: pipe_idle_def)
qed

interpretation stdio: rpc_channel "stdio_transport (mx_json mt) jerr (server_peer mt srv)" pipe_idle
    "exchange_ok mt srv" "server_answer mt srv"
  for mt :: mcp_text and jerr :: "string \<Rightarrow> string" and srv :: "'s mcp_server"
  by unfold_locales (rule server_exchange [OF _ _ refl])

abbreviation stdio_client :: "mcp_text \<Rightarrow> (string \<Rightarrow> string) \<Rightarrow> 's mcp_server \<Rightarrow> 's pipe transport" where
  "stdio_client mt jerr srv \<equiv> stdio_transport (mx_json mt) jerr (server_peer mt srv)"

definition call_request :: "string \<Rightarrow> json \<Rightarrow> 'w client \<Rightarrow> rpc_request" where
  "call_request n args c = rpc_request_new (cl_next_id c) ''tools/call''
    (Some (JObj [(''name'', JStr n), (''arguments'', args)]))"

lemma call_answered:
  assumes "pipe_idle (cl_transport c)" "exchange_ok mt srv (call_request n args c) (cl_transport c)"
  shows "client_call_tool (stdio_client mt jerr srv) n args c =
    (case reg_get n (ms_registry srv) of
       None \<Rightarrow> (Err (MeRpc (- 32602) (''unknown tool: '' @ n)), c\<lparr> cl_next_id := cl_next_id c + 1 \<rparr>)
     | Some t \<Rightarrow>
         let (r, s') = tl_invoke t args (pi_peer (cl_transport c)) in
         (Ok (case r of Ok v \<Rightarrow> call_content_json (jt_print (mx_json mt) v) False
              | Err e \<Rightarrow> call_content_json (mx_tool_err mt e) True),
          c\<lparr> cl_next_id := cl_next_id c + 1, cl_transport := (cl_transport c)\<lparr> pi_peer := s' \<rparr> \<rparr>))"
proof -
  let ?w = "cl_transport c"
  have p: "call_params (JObj [(''name'', JStr n), (''arguments'', args)]) = Some (n, args)"
    by (simp add: call_params_def struct_fields_def req_field_def unwrap_or_def)
  have "client_call_tool (stdio_client mt jerr srv) n args c =
      (map_err (\<lambda>e. MeRpc (re_code e) (re_message e)) (fst (server_answer mt srv (call_request n args c) ?w)),
       c\<lparr> cl_next_id := cl_next_id c + 1, cl_transport := snd (server_answer mt srv (call_request n args c) ?w) \<rparr>)"
    using stdio.request_answered [of c mt srv "''tools/call''"] assms
    by (simp add: Let_def client_call_tool_def call_request_def)
  moreover have "rpc_dispatch mt srv (call_request n args c) (pi_peer ?w) =
      (case reg_get n (ms_registry srv) of
         None \<Rightarrow> (Err (rpc_err INVALID_PARAMS (''unknown tool: '' @ n)), pi_peer ?w)
       | Some t \<Rightarrow>
         (case tl_invoke t args (pi_peer ?w) of
            (Ok v, s') \<Rightarrow> (Ok (call_content_json (jt_print (mx_json mt) v) False), s')
          | (Err e, s') \<Rightarrow> (Ok (call_content_json (mx_tool_err mt e) True), s')))"
    by (simp add: rpc_dispatch_def tools_call_def call_request_def rpc_request_new_def unwrap_or_def p)
  ultimately show ?thesis
    by (auto simp: server_answer_def rpc_err_def INVALID_PARAMS_def split: option.split prod.split result.split)
qed

text \<open>C23: a call over the wire is the call of the tool: the client, connected over stdio to a server
  with any registry, sends one request and reads one response with its own id; the tool that is
  registered under the name runs once, on the arguments and the state of the server, and the client
  gets the text of its output, or the text of its error marked as one; an unknown name is the JSON-RPC
  error -32602. The pipe is idle again and the id has advanced, so the next call can follow.\<close>

theorem mcp_call_end_to_end:
  assumes "pipe_idle (cl_transport c)" "exchange_ok mt srv (call_request n args c) (cl_transport c)"
  shows "\<exists>r c'. client_call_tool (stdio_client mt jerr srv) n args c = (r, c') \<and>
    cl_next_id c' = cl_next_id c + 1 \<and> pipe_idle (cl_transport c') \<and>
    (case reg_get n (ms_registry srv) of
       None \<Rightarrow> r = Err (MeRpc (- 32602) (''unknown tool: '' @ n)) \<and> pi_peer (cl_transport c') = pi_peer (cl_transport c)
     | Some t \<Rightarrow> (case tl_invoke t args (pi_peer (cl_transport c)) of
         (Ok v, s') \<Rightarrow> r = Ok (call_content_json (jt_print (mx_json mt) v) False) \<and> pi_peer (cl_transport c') = s'
       | (Err e, s') \<Rightarrow> r = Ok (call_content_json (mx_tool_err mt e) True) \<and> pi_peer (cl_transport c') = s'))"
  using call_answered [OF assms, of jerr] assms(1)
  by (auto simp: pipe_idle_def split: option.splits prod.split result.split)

text \<open>The list of tools over the wire has every tool of the server, in the order of their names,
  with its description, but never its input schema: the server writes the key \<^verbatim>\<open>inputSchema\<close>, which
  the client reads as \<^verbatim>\<open>input_schema\<close>, so an adapter always advertises the schema of any object.\<close>

theorem mcp_list_loses_schemas:
  assumes "pipe_idle (cl_transport c)"
    and "exchange_ok mt srv (rpc_request_new (cl_next_id c) ''tools/list'' None) (cl_transport c)"
  shows "fst (client_list_tools jtext (stdio_client mt jerr srv) c) =
    Ok (map (\<lambda>t. \<lparr> mt_name = tl_name t, mt_description = Some (tl_description t), mt_input_schema = None \<rparr>)
      (reg_list (ms_registry srv)))"
proof -
  have "all_some (map tool_info_of_json (map (\<lambda>t. JObj [(''name'', JStr (tl_name t)),
      (''description'', JStr (tl_description t)), (''inputSchema'', tl_input_schema t)]) ts)) =
    Some (map (\<lambda>t. \<lparr> mt_name = tl_name t, mt_description = Some (tl_description t), mt_input_schema = None \<rparr>) ts)"
    for ts :: "'a tool list"
    by (induction ts) (simp_all add: tool_info_of_json_def derive_simps)
  moreover have "fst (client_request (stdio_client mt jerr srv) ''tools/list'' None c) = Ok (tools_list_result srv)"
    using stdio.request_answered [of c mt srv "''tools/list''" None jerr] assms
    by (simp add: Let_def server_answer_def rpc_dispatch_def rpc_request_new_def)
  ultimately show ?thesis
    by (auto simp: client_list_tools_def tools_list_result_def tool_infos_def split: prod.split result.split)
qed

subsection \<open>A connected pair\<close>

definition demo_tool :: "nat tool" where
  "demo_tool = \<lparr> tl_name = ''t'', tl_description = ''d'', tl_input_schema = JBool True,
    tl_invoke = (\<lambda>j n. (Ok JNull, Suc n)) \<rparr>"

definition demo_server :: "nat mcp_server" where
  "demo_server = with_registry ''1'' (reg_register demo_tool [])"

definition demo_client :: "nat pipe client" where
  "demo_client = with_transport \<lparr> pi_stdin = True, pi_out = [], pi_peer = 0 \<rparr>"

text \<open>A text form of one request and its response.\<close>

definition demo_mt :: "rpc_request \<Rightarrow> json \<Rightarrow> mcp_text" where
  "demo_mt rq v = \<lparr> mx_json =
      \<lparr> jt_print = (\<lambda>j. if j = request_json rq then ''q'' else if j = JNull then ''n'' else ''a''),
        jt_parse = (\<lambda>s. if s = ''q'' then Some (request_json rq)
          else if s = ''a'' then Some (response_json (build_response 1 (Ok v))) else None) \<rparr>,
    mx_params_err = (\<lambda>_. []), mx_tool_err = (\<lambda>_. []), mx_io_err = [] \<rparr>"

lemma demo_idle: "pipe_idle (cl_transport demo_client)"
  by (simp add: pipe_idle_def demo_client_def with_transport_def)

lemma demo_texts: "trim ''q'' = ''q''" "trim ''a'' = ''a''" "utf8_valid ''q''" "utf8_valid ''a''"
  by code_simp+

lemma demo_get: "reg_get ''t'' (ms_registry demo_server) = Some demo_tool"
  by (simp add: demo_server_def with_registry_def reg_get_def reg_register_def demo_tool_def)

theorem mcp_server_answers_witness:
  "\<exists>r s'. run_stdio (demo_mt (rpc_request_new 1 ''x'' None) JNull) demo_server (''q'' @ [nl]) 0 =
     (Ok (), response_line (mx_json (demo_mt (rpc_request_new 1 ''x'' None) JNull)) r, s') \<and>
     rs_id r = 1 \<and> map_option re_code (rs_error r) = Some (- 32601)"
proof -
  let ?mt = "demo_mt (rpc_request_new 1 ''x'' None) JNull"
  have l: "raw_lines (''q'' @ [nl]) = [''q'' @ [nl]]" by (rule raw_line) simp
  have t: "trim (''q'' @ [nl]) = ''q''" by (simp only: trim_nl demo_texts)
  have p: "parse_request (mx_json ?mt) ''q'' = Some (rpc_request_new 1 ''x'' None)"
    by (simp add: parse_request_def demo_mt_def request_round rpc_request_new_def)
  have "\<forall>l \<in> set (raw_lines (''q'' @ [nl])). utf8_valid l" unfolding l by code_simp
  from mcp_server_answers [OF this, of ?mt demo_server 0] obtain rs s' where
    "run_stdio ?mt demo_server (''q'' @ [nl]) 0 = (Ok (), concat (map (response_line (mx_json ?mt)) rs), s')"
    "answered ?mt demo_server [''q'' @ [nl]] 0 rs s'"
    unfolding l by blast
  then show ?thesis
    by (auto simp del: append.simps simp: t p rpc_answer_def) (auto simp: rpc_request_new_def)
qed

lemma demo_exchange:
  assumes "fst (rpc_dispatch (demo_mt rq v) demo_server rq 0) = Ok v" "rq_id rq = 1" "rq_params rq \<noteq> Some JNull"
    and "v \<noteq> JNull"
  shows "exchange_ok (demo_mt rq v) demo_server rq (cl_transport demo_client)"
proof -
  have "response_json (build_response 1 (Ok v)) \<noteq> request_json rq"
    by (simp add: response_json_def request_json_def build_response_def skip_none_def)
  then show ?thesis
    using assms
    by (auto simp: exchange_ok_def server_answer_def wire_ok_def demo_mt_def demo_client_def with_transport_def
        demo_texts Let_def split_beta response_json_def request_json_def)
qed

theorem mcp_call_end_to_end_witness:
  "\<exists>mt c'. client_call_tool (stdio_client mt id demo_server) ''t'' (JInt 5) demo_client =
     (Ok (call_content_json ''n'' False), c') \<and> pi_peer (cl_transport c') = 1 \<and> cl_next_id c' = 2"
proof -
  let ?rq = "call_request ''t'' (JInt 5) demo_client" and ?v = "call_content_json ''n'' False"
  have id1: "rq_id ?rq = 1" "cl_next_id demo_client = 1"
    by (simp_all add: call_request_def rpc_request_new_def demo_client_def with_transport_def)
  have "fst (rpc_dispatch (demo_mt ?rq ?v) demo_server ?rq 0) = Ok ?v"
    by (simp add: rpc_dispatch_def call_request_def rpc_request_new_def tools_call_def unwrap_or_def call_params_def
        struct_fields_def req_field_def demo_get) (simp add: demo_tool_def demo_mt_def request_json_def)
  from demo_exchange [OF this id1(1)]
  have x: "exchange_ok (demo_mt ?rq ?v) demo_server ?rq (cl_transport demo_client)"
    by (simp add: call_request_def rpc_request_new_def call_content_json_def)
  have p: "pi_peer (cl_transport demo_client) = 0" by (simp add: demo_client_def with_transport_def)
  have n: "jt_print (mx_json (demo_mt ?rq ?v)) JNull = ''n''" by (simp add: demo_mt_def request_json_def)
  from mcp_call_end_to_end [OF demo_idle x, of id] show ?thesis
    unfolding demo_get p
    by (intro exI [of _ "demo_mt ?rq ?v"]) (auto simp: demo_tool_def n id1)
qed

theorem mcp_list_loses_schemas_witness:
  "\<exists>mt. fst (client_list_tools (\<lambda>_. []) (stdio_client mt id demo_server) demo_client) =
     Ok [\<lparr> mt_name = ''t'', mt_description = Some ''d'', mt_input_schema = None \<rparr>]"
proof -
  let ?rq = "rpc_request_new 1 ''tools/list'' None" and ?v = "tools_list_result demo_server"
  have l: "reg_list (ms_registry demo_server) = [demo_tool]"
    by (simp add: demo_server_def with_registry_def reg_list_def reg_register_def demo_tool_def map_filter_simps)
  have "exchange_ok (demo_mt ?rq ?v) demo_server ?rq (cl_transport demo_client)"
    by (rule demo_exchange) (simp_all add: rpc_dispatch_def rpc_request_new_def tools_list_result_def)
  then have "exchange_ok (demo_mt ?rq ?v) demo_server
      (rpc_request_new (cl_next_id demo_client) ''tools/list'' None) (cl_transport demo_client)"
    by (simp add: demo_client_def with_transport_def)
  from mcp_list_loses_schemas [OF demo_idle this] show ?thesis
    by (intro exI [of _ "demo_mt ?rq ?v"]) (simp add: l demo_tool_def)
qed

subsection \<open>The adapter (adapter.rs)\<close>

definition show_int :: "int \<Rightarrow> string" where
  "show_int i = (if i < 0 then ''-'' @ show_nat (nat (- i)) else show_nat (nat i))"

fun mcp_error_text :: "mcp_error \<Rightarrow> string" where
  "mcp_error_text (MeIo e) = ''io error: '' @ e"
| "mcp_error_text (MeJson e) = ''json error: '' @ e"
| "mcp_error_text (MeRpc c m) = ''json-rpc error ('' @ show_int (sint c) @ ''): '' @ m"
| "mcp_error_text (MeMalformed m) = ''malformed json-rpc message: '' @ m"
| "mcp_error_text MeTransportClosed = ''transport closed before response arrived''"
| "mcp_error_text (MeIdMismatch x g) = ''json-rpc id mismatch: expected '' @ show_int (sint x) @ '', got '' @
    (case g of None \<Rightarrow> ''None'' | Some y \<Rightarrow> ''Some('' @ show_int (sint y) @ '')'')"
| "mcp_error_text (MeSpawn m) = ''spawn failed: '' @ m"
| "mcp_error_text (MeUnknownTool n) = ''unknown tool: '' @ n"

fun map_mcp_err :: "mcp_error \<Rightarrow> tool_error" where
  "map_mcp_err (MeUnknownTool n) = TeInvalidInput (''mcp server reports unknown tool: '' @ n)"
| "map_mcp_err e = TeExec (''mcp error: '' @ mcp_error_text e)"

text \<open>All the adapters of one server share its client, which is their state.\<close>

definition mcp_tool_adapter :: "'w transport \<Rightarrow> mcp_tool_info \<Rightarrow> 'w client tool" where
  "mcp_tool_adapter tp info = \<lparr> tl_name = mt_name info,
    tl_description = unwrap_or (mt_description info) ''MCP-backed tool (no description)'',
    tl_input_schema = unwrap_or (mt_input_schema info) (JObj [(''type'', JStr ''object'')]),
    tl_invoke = (\<lambda>input c. let (r, c') = client_call_tool tp (mt_name info) input c in (map_err map_mcp_err r, c')) \<rparr>"

definition register_all ::
    "(json \<Rightarrow> string) \<Rightarrow> 'w transport \<Rightarrow> 'w client registry \<Rightarrow> 'w client \<Rightarrow>
     (string list, mcp_error) result \<times> 'w client registry \<times> 'w client" where
  "register_all jerr tp reg c =
    (case client_list_tools jerr tp c of
       (Err e, c') \<Rightarrow> (Err e, reg, c')
     | (Ok infos, c') \<Rightarrow>
         (Ok (map mt_name infos), fold (\<lambda>info. reg_register (mcp_tool_adapter tp info)) infos reg, c'))"

text \<open>A remote tool that fails succeeds through the adapter: the mark \<^verbatim>\<open>isError\<close> is not read.\<close>

lemma adapter_hides_errors:
  assumes "pipe_idle (cl_transport c)" "exchange_ok mt srv (call_request (mt_name info) args c) (cl_transport c)"
    and "reg_get (mt_name info) (ms_registry srv) = Some t" "tl_invoke t args (pi_peer (cl_transport c)) = (Err e, s')"
  shows "fst (tl_invoke (mcp_tool_adapter (stdio_client mt jerr srv) info) args c) =
    Ok (call_content_json (mx_tool_err mt e) True)"
  using call_answered [OF assms(1,2), of jerr] assms(3,4) by (simp add: mcp_tool_adapter_def)

text \<open>A notification, a line without an id, is answered as if it were no JSON.\<close>

lemma notification_answered:
  assumes "jt_parse (mx_json mt) l = Some (JObj fs)" "map_of fs ''id'' = None"
  shows "handle_line mt srv l s = (Some parse_error_response, s)"
  using assms
  by (auto simp: handle_line_def parse_request_def request_of_json_def text_fields_def struct_fields_def
      req_field_def bind_eq_None_conv split: option.split)

text \<open>A result that is \<^verbatim>\<open>null\<close> reads back as no result, which is an error for the client.\<close>

lemma null_result_is_error:
  "Option.bind (response_of_json (response_json (build_response i (Ok JNull)))) (\<lambda>r. Some (is_ok (into_result r))) =
     Some False"
  by (simp add: response_of_json_def response_json_def build_response_def derive_simps opt_field_def into_result_def)

end
