(* ===== verification/Wire.thy ===== *)
theory Wire
  imports Provider Sse "HOL-Library.AList"
begin

text \<open>
  What the HTTP adapters of the crate \<^verbatim>\<open>provider\<close> (\<^verbatim>\<open>adapters/anthropic.rs\<close>, \<^verbatim>\<open>openai.rs\<close>,
  \<^verbatim>\<open>ollama.rs\<close>) have in common; the three files repeat this code word for word, and the definitions
  here are mapped to the first of them. The HTTP client is the parameter \<open>wr_http\<close>: a request either
  cannot be sent, or is answered by a status and the chunks of the body, each of which may fail to
  arrive. A sink is a function on its own state that may refuse an event. The contract a caller of
  \<^verbatim>\<open>stream\<close> relies on is proved once, in the locale \<open>delta_decoder\<close>, for every adapter whose event
  handler obeys the laws of the locale.
\<close>

subsection \<open>JSON values\<close>

text \<open>\<^verbatim>\<open>v[k] = x\<close> on an object, and on \<^verbatim>\<open>null\<close>, which it turns into an object.\<close>

fun jset :: "string \<Rightarrow> json \<Rightarrow> json \<Rightarrow> json" where
  "jset k v (JObj fs) = JObj (AList.update k v fs)"
| "jset k v _ = JObj [(k, v)]"

definition set_opt :: "string \<Rightarrow> json option \<Rightarrow> json \<Rightarrow> json" where
  "set_opt k v j = (case v of None \<Rightarrow> j | Some x \<Rightarrow> jset k x j)"

text \<open>\<^verbatim>\<open>f64::from\<close> on the bit pattern of an \<^verbatim>\<open>f32\<close> (which keeps its value), and
  \<^verbatim>\<open>Number::from_f64\<close>, which refuses infinities and NaN.\<close>

fun bit_len :: "nat \<Rightarrow> nat" where
  "bit_len n = (if n = 0 then 0 else Suc (bit_len (n div 2)))"

definition f32_fields :: "u32 \<Rightarrow> nat \<times> nat \<times> nat" where
  "f32_fields w = (unat w div 2 ^ 31, unat w div 2 ^ 23 mod 2 ^ 8, unat w mod 2 ^ 23)"

definition f32_to_f64 :: "u32 \<Rightarrow> u64" where
  "f32_to_f64 w =
    (let (s, e, m) = f32_fields w in
     word_of_nat (s * 2 ^ 63 +
       (if e = 255 then 2047 * 2 ^ 52 + m * 2 ^ 29
        else if 0 < e then (e + 896) * 2 ^ 52 + m * 2 ^ 29
        else if m = 0 then 0
        else let k = bit_len m - 1 in (k + 874) * 2 ^ 52 + (m - 2 ^ k) * 2 ^ (52 - k))))"

definition number_from_f32 :: "u32 \<Rightarrow> json option" where
  "number_from_f32 w = (if fst (snd (f32_fields w)) = 255 then None else Some (JFloat (f32_to_f64 w)))"

subsection \<open>Requests and replies\<close>

record http_request =
  hq_url :: string
  hq_headers :: "(string \<times> string) list"
  hq_body :: json

type_synonym chunk = "(string, string) result"

datatype http_reply = SendFailed string | HttpReply u16 "chunk list"

record wire =
  wr_http :: "http_request \<Rightarrow> http_reply"
  wr_json :: json_text
  wr_decode_error :: "string \<Rightarrow> string"

definition is_success :: "u16 \<Rightarrow> bool" where
  "is_success s \<longleftrightarrow> 200 \<le> s \<and> s < 300"

text \<open>The whole body: the chunks in order, or the first failure.\<close>

fun body_bytes :: "chunk list \<Rightarrow> (string, string) result" where
  "body_bytes [] = Ok []"
| "body_bytes (c # cs) = try_res c (\<lambda>b. map_ok ((@) b) (body_bytes cs))"

definition status_error :: "u16 \<Rightarrow> chunk list \<Rightarrow> provider_error" where
  "status_error s cs = from_http_status s (case body_bytes cs of Ok b \<Rightarrow> b | Err _ \<Rightarrow> [])"

definition send_failed :: "string \<Rightarrow> provider_error" where
  "send_failed d = PTransient 0 (''send failed: '' @ d)"

text \<open>\<^verbatim>\<open>resp.json()\<close>.\<close>

definition reply_json :: "wire \<Rightarrow> (json \<Rightarrow> 'a option) \<Rightarrow> chunk list \<Rightarrow> ('a, string) result" where
  "reply_json w get cs =
    try_res (body_bytes cs) (\<lambda>b.
      opt_ok_or (Option.bind (jt_parse (wr_json w) b) get) (wr_decode_error w b))"

text \<open>The body of \<^verbatim>\<open>complete\<close>: \<open>get\<close> reads the adapter's response type.\<close>

definition complete_call ::
    "wire \<Rightarrow> string \<Rightarrow> http_request \<Rightarrow> (json \<Rightarrow> 'a option) \<Rightarrow> ('a, provider_error) result" where
  "complete_call w label rq get =
    (case wr_http w rq of
       SendFailed d \<Rightarrow> Err (send_failed d)
     | HttpReply s cs \<Rightarrow>
         if \<not> is_success s then Err (status_error s cs)
         else map_err (\<lambda>e. PDecode (label @ '' decode: '' @ e)) (reply_json w get cs))"

subsection \<open>Streaming\<close>

type_synonym 'k sink = "stream_event \<Rightarrow> 'k \<Rightarrow> (unit, provider_error) result \<times> 'k"

definition send_then ::
    "'k sink \<Rightarrow> stream_event \<Rightarrow> ('k \<Rightarrow> ('b, provider_error) result \<times> 'k) \<Rightarrow> 'k \<Rightarrow>
     ('b, provider_error) result \<times> 'k" where
  "send_then send e f k = (case send e k of (Err x, k1) \<Rightarrow> (Err x, k1) | (Ok _, k1) \<Rightarrow> f k1)"

definition transport_error :: "string \<Rightarrow> provider_error" where
  "transport_error d = PStreamParse (''transport: '' @ d)"

definition skeleton :: "string \<Rightarrow> llm_response" where
  "skeleton m = \<lparr> rs_content = Text [], rs_stop_reason = Stop, rs_tool_calls = [],
     rs_usage = usage_default, rs_model = m \<rparr>"

text \<open>The body of \<^verbatim>\<open>stream\<close>: \<open>body\<close> is the loop over the chunks, \<open>fin\<close> is \<^verbatim>\<open>finalize\<close>.\<close>

definition stream_call ::
    "wire \<Rightarrow> http_request \<Rightarrow> string \<Rightarrow> 'k sink \<Rightarrow>
     (chunk list \<Rightarrow> 'k \<Rightarrow> ('a, provider_error) result \<times> 'k) \<Rightarrow> ('a \<Rightarrow> llm_response) \<Rightarrow> 'k \<Rightarrow>
     (unit, provider_error) result \<times> 'k" where
  "stream_call w rq model send body fin k =
    (case wr_http w rq of
       SendFailed d \<Rightarrow> (Err (send_failed d), k)
     | HttpReply s cs \<Rightarrow>
         if \<not> is_success s then send_then send (StreamError (status_error s cs)) (\<lambda>k. (Ok (), k)) k
         else
           send_then send (MessageStart (skeleton model)) (\<lambda>k.
             case body cs k of
               (Err e, k1) \<Rightarrow> (Err e, k1)
             | (Ok a, k1) \<Rightarrow> send_then send (MessageStop (fin a)) (\<lambda>k. (Ok (), k)) k1) k)"

lemma next_event_shrinks':
  "next_event p = (Some ev, p1) \<Longrightarrow> length (sse_buf p1) < length (sse_buf p)"
  "(Some ev, p1) = next_event p \<Longrightarrow> length (sse_buf p1) < length (sse_buf p)"
  using next_event_shrinks [of p] by (cases "next_event p", simp)+

text \<open>The loop of the two adapters that read Server-Sent Events: \<open>step\<close> is the event handler.\<close>

function pump_events ::
    "(sse_event \<Rightarrow> 'a \<Rightarrow> (stream_event option, provider_error) result \<times> 'a) \<Rightarrow> 'k sink \<Rightarrow>
     sse_parser \<Rightarrow> 'a \<Rightarrow> 'k \<Rightarrow> (sse_parser \<times> 'a, provider_error) result \<times> 'k" where
  "pump_events step send p a k =
    (case next_event p of
       (None, p1) \<Rightarrow> (Ok (p1, a), k)
     | (Some ev, p1) \<Rightarrow>
         (case step ev a of
            (Err e, _) \<Rightarrow> (Err e, k)
          | (Ok None, a1) \<Rightarrow> pump_events step send p1 a1 k
          | (Ok (Some out), a1) \<Rightarrow> send_then send out (pump_events step send p1 a1) k))"
  by pat_completeness auto
termination
  by (relation "measure (\<lambda>(_, _, p, _). length (sse_buf p))") (auto dest: next_event_shrinks')

declare pump_events.simps [simp del] bit_len.simps [simp del]

fun sse_pump ::
    "(sse_event \<Rightarrow> 'a \<Rightarrow> (stream_event option, provider_error) result \<times> 'a) \<Rightarrow> 'k sink \<Rightarrow>
     sse_parser \<Rightarrow> 'a \<Rightarrow> chunk list \<Rightarrow> 'k \<Rightarrow> ('a, provider_error) result \<times> 'k" where
  "sse_pump step send p a [] k = (Ok a, k)"
| "sse_pump step send p a (Err d # cs) k = (Err (transport_error d), k)"
| "sse_pump step send p a (Ok b # cs) k =
    (case pump_events step send (sse_feed b p) a k of
       (Err e, k1) \<Rightarrow> (Err e, k1)
     | (Ok (p1, a1), k1) \<Rightarrow> sse_pump step send p1 a1 cs k1)"

subsection \<open>The loop, event by event\<close>

text \<open>The handler and the sink on a list of events; the parser is out of the way.\<close>

fun feed_events ::
    "('e \<Rightarrow> 'a \<Rightarrow> (stream_event option, provider_error) result \<times> 'a) \<Rightarrow> 'k sink \<Rightarrow>
     'e list \<Rightarrow> 'a \<Rightarrow> 'k \<Rightarrow> ('a, provider_error) result \<times> 'k" where
  "feed_events step send [] a k = (Ok a, k)"
| "feed_events step send (ev # evs) a k =
    (case step ev a of
       (Err e, _) \<Rightarrow> (Err e, k)
     | (Ok None, a1) \<Rightarrow> feed_events step send evs a1 k
     | (Ok (Some out), a1) \<Rightarrow> send_then send out (feed_events step send evs a1) k)"

lemma feed_events_append:
  "feed_events step send (es @ fs) a k =
    (case feed_events step send es a k of
       (Err e, k1) \<Rightarrow> (Err e, k1)
     | (Ok a1, k1) \<Rightarrow> feed_events step send fs a1 k1)"
  by (induction es arbitrary: a k)
     (auto simp: send_then_def split: prod.splits result.splits option.splits)

lemma pump_events_drain:
  "pump_events step send p a k =
    (case feed_events step send (fst (sse_drain p)) a k of
       (Err e, k1) \<Rightarrow> (Err e, k1)
     | (Ok a1, k1) \<Rightarrow> (Ok (snd (sse_drain p), a1), k1))"
proof (induction "length (sse_buf p)" arbitrary: p a k rule: less_induct)
  case less
  show ?case
  proof (cases "next_event p")
    case (Pair o1 p1)
    show ?thesis
    proof (cases o1)
      case None
      with Pair show ?thesis
        by (simp add: pump_events.simps [of _ _ p] sse_drain.simps [of p])
    next
      case (Some ev)
      with Pair have n: "next_event p = (Some ev, p1)" by simp
      have d: "sse_drain p = (ev # fst (sse_drain p1), snd (sse_drain p1))"
        by (simp add: sse_drain.simps [of p] n Let_def)
      note IH = less.hyps [OF next_event_shrinks'(1) [OF n]]
      show ?thesis
        by (subst pump_events.simps)
           (simp add: n d IH send_then_def split: prod.splits result.splits option.splits)
    qed
  qed
qed

text \<open>The chunks before the first failure, and the failure.\<close>

fun arrived :: "chunk list \<Rightarrow> string list" where
  "arrived (Ok b # cs) = b # arrived cs"
| "arrived _ = []"

fun transport_failure :: "chunk list \<Rightarrow> string option" where
  "transport_failure [] = None"
| "transport_failure (Ok b # cs) = transport_failure cs"
| "transport_failure (Err d # cs) = Some d"

text \<open>The events of all chunks that arrive before the first failure go through the handler in order;
  then the failure, if there is one, ends the stream.\<close>

lemma sse_pump_events:
  "sse_pump step send p a cs k =
    (case feed_events step send (fst (sse_chunks (arrived cs) p)) a k of
       (Err e, k1) \<Rightarrow> (Err e, k1)
     | (Ok a1, k1) \<Rightarrow>
         (case transport_failure cs of None \<Rightarrow> Ok a1 | Some d \<Rightarrow> Err (transport_error d), k1))"
proof (induction cs arbitrary: p a k)
  case Nil
  then show ?case by simp
next
  case (Cons c cs)
  show ?case
  proof (cases c)
    case (Ok b)
    then show ?thesis
      by (auto simp: Cons.IH pump_events_drain feed_events_append split: prod.splits result.splits)
  qed simp
qed

subsection \<open>The contract of a stream\<close>

text \<open>A sink that keeps what it was sent and answers by it: every sink is one of these, since what it
  answers can only depend on the events it has seen.\<close>

definition log_sink :: "(stream_event list \<Rightarrow> (unit, provider_error) result) \<Rightarrow> stream_event list sink" where
  "log_sink V e log = (V (log @ [e]), log @ [e])"

fun is_delta :: "stream_event \<Rightarrow> bool" where
  "is_delta (ContentDelta _) = True"
| "is_delta (ToolCallDelta _ _ _) = True"
| "is_delta _ = False"

text \<open>A finished stream: one error, or a start, deltas and a final response whose text is the text of
  the deltas.\<close>

definition finished_log :: "string \<Rightarrow> stream_event list \<Rightarrow> bool" where
  "finished_log m log \<longleftrightarrow> (\<exists>e. log = [StreamError e]) \<or>
     (\<exists>ds r. log = MessageStart (skeleton m) # ds @ [MessageStop r] \<and> list_all is_delta ds \<and>
        rs_content r = Text (stream_text ds) \<and> rs_model r = m)"

text \<open>A stream that broke off: nothing, or a start and deltas; no final event.\<close>

definition broken_log :: "string \<Rightarrow> stream_event list \<Rightarrow> bool" where
  "broken_log m log \<longleftrightarrow>
     log = [] \<or> (\<exists>ds. log = MessageStart (skeleton m) # ds \<and> list_all is_delta ds)"

text \<open>The loop over the chunks only sends deltas, and its result accounts for their text.\<close>

definition body_sends ::
    "(stream_event list \<Rightarrow> (unit, provider_error) result) \<Rightarrow> string \<Rightarrow> ('a \<Rightarrow> string) \<Rightarrow> stream_event list \<Rightarrow>
     ('a, provider_error) result \<times> stream_event list \<Rightarrow> bool" where
  "body_sends V t kept log out \<longleftrightarrow>
    (\<exists>ds. snd out = log @ ds \<and> list_all is_delta ds \<and>
      (case fst out of
         Ok a \<Rightarrow> kept a = t @ stream_text ds
       | Err e \<Rightarrow> ds \<noteq> [] \<and> V (snd out) = Err e \<or> (\<exists>d. e = transport_error d) \<or> e = PStreamParse ''non-utf8 chunk''))"

lemma stream_text_append [simp]: "stream_text (es @ fs) = stream_text es @ stream_text fs"
proof (induction es)
  case (Cons e es)
  then show ?case by (cases e) auto
qed simp

lemma body_sends_trans:
  assumes "body_sends V (t @ stream_text ds) kept (log @ ds) out" "list_all is_delta ds"
  shows "body_sends V t kept log out"
proof -
  from assms obtain es where es: "snd out = log @ ds @ es" "list_all is_delta (ds @ es)"
    "case fst out of Ok a \<Rightarrow> kept a = (t @ stream_text ds) @ stream_text es
     | Err e \<Rightarrow> es \<noteq> [] \<and> V (snd out) = Err e \<or> (\<exists>d. e = transport_error d) \<or> e = PStreamParse ''non-utf8 chunk''"
    by (auto simp: body_sends_def)
  then show ?thesis
    unfolding body_sends_def by (intro exI [of _ "ds @ es"]) (cases "fst out"; auto)
qed

lemma stream_call_contract:
  assumes body: "\<And>cs log. body_sends V [] kept log (body cs log)"
    and fin: "\<And>cs log a k. body cs log = (Ok a, k) \<Longrightarrow> rs_content (fin a) = Text (kept a) \<and> rs_model (fin a) = m"
    and run: "stream_call w rq m (log_sink V) body fin [] = (r, log)"
  shows "case r of Ok _ \<Rightarrow> finished_log m log | Err e \<Rightarrow> V log = Err e \<or> broken_log m log"
proof (cases "wr_http w rq")
  case (SendFailed d)
  with run show ?thesis by (auto simp: stream_call_def broken_log_def)
next
  case (HttpReply s cs)
  show ?thesis
  proof (cases "is_success s")
    case False
    with run HttpReply show ?thesis
      by (auto simp: stream_call_def send_then_def log_sink_def finished_log_def split: result.splits)
  next
    case True
    let ?start = "[MessageStart (skeleton m)]"
    show ?thesis
    proof (cases "V ?start")
      case (Err e)
      with run HttpReply True show ?thesis
        by (auto simp: stream_call_def send_then_def log_sink_def split: result.splits)
    next
      case (Ok u)
      obtain q k1 where b: "body cs ?start = (q, k1)" by (cases "body cs ?start")
      with body [of ?start cs] obtain ds where ds: "k1 = ?start @ ds" "list_all is_delta ds"
        "case q of Ok a \<Rightarrow> kept a = stream_text ds
         | Err e \<Rightarrow> ds \<noteq> [] \<and> V k1 = Err e \<or> (\<exists>d. e = transport_error d) \<or> e = PStreamParse ''non-utf8 chunk''"
        by (cases q) (auto simp: body_sends_def)
      show ?thesis
      proof (cases q)
        case (Err e)
        with run HttpReply True Ok b ds show ?thesis
          by (auto simp: stream_call_def send_then_def log_sink_def broken_log_def)
      next
        case q: (Ok a)
        with run HttpReply True Ok b ds fin [of cs ?start a k1] show ?thesis
          by (auto simp: stream_call_def send_then_def log_sink_def finished_log_def split: result.splits)
      qed
    qed
  qed
qed

subsection \<open>Decoders\<close>

text \<open>What the loop relies on: the handler never fails, it sends deltas only, and the text it keeps is
  the text it has sent.\<close>

locale delta_decoder =
  fixes step :: "'e \<Rightarrow> 'a \<Rightarrow> (stream_event option, provider_error) result \<times> 'a"
    and kept :: "'a \<Rightarrow> string" and fin :: "'a \<Rightarrow> llm_response" and model :: "'a \<Rightarrow> string"
  assumes step_text: "step ev a = (q, b) \<Longrightarrow>
      case q of Ok None \<Rightarrow> kept b = kept a
        | Ok (Some d) \<Rightarrow> is_delta d \<and> kept b = kept a @ stream_text [d]
        | Err _ \<Rightarrow> False"
    and step_model: "step ev a = (q, b) \<Longrightarrow> model b = model a"
    and fin_text: "rs_content (fin a) = Text (kept a)"
    and fin_model: "rs_model (fin a) = model a"
begin

lemma feed_sends:
  "body_sends V (kept a) kept log (feed_events step (log_sink V) evs a log) \<and>
   (case fst (feed_events step (log_sink V) evs a log) of Ok b \<Rightarrow> model b = model a | Err _ \<Rightarrow> True)"
proof (induction evs arbitrary: a log)
  case Nil
  then show ?case by (simp add: body_sends_def)
next
  case (Cons ev evs)
  obtain q b where s: "step ev a = (q, b)" by (cases "step ev a")
  note t = step_text [OF s] step_model [OF s]
  show ?case
  proof (cases q)
    case (Err e)
    with t show ?thesis by simp
  next
    case (Ok out)
    show ?thesis
    proof (cases out)
      case None
      with Cons.IH [of b log] s t Ok show ?thesis by (auto split: result.splits)
    next
      case (Some d)
      show ?thesis
      proof (cases "V (log @ [d])")
        case (Err e)
        with s t Ok Some show ?thesis
          by (auto simp: send_then_def log_sink_def body_sends_def intro!: exI [of _ "[d]"])
      next
        case v: (Ok u)
        have e: "feed_events step (log_sink V) (ev # evs) a log =
            feed_events step (log_sink V) evs b (log @ [d])"
          by (simp add: s Ok Some v send_then_def log_sink_def)
        from t Ok Some have d: "is_delta d" "kept b = kept a @ stream_text [d]" "model b = model a" by auto
        have ih: "body_sends V (kept a @ stream_text [d]) kept (log @ [d])
            (feed_events step (log_sink V) evs b (log @ [d]))"
          using Cons.IH [of b "log @ [d]"] d(2) by simp
        then have "body_sends V (kept a) kept log (feed_events step (log_sink V) evs b (log @ [d]))"
          by (rule body_sends_trans) (simp add: d(1))
        with Cons.IH [of b "log @ [d]"] d(3) show ?thesis
          unfolding e by (auto split: result.splits)
      qed
    qed
  qed
qed

end

text \<open>Decoders of server-sent events, driven by the parser.\<close>

locale stream_decoder = delta_decoder step kept fin model
  for step :: "sse_event \<Rightarrow> 'a \<Rightarrow> (stream_event option, provider_error) result \<times> 'a"
    and kept :: "'a \<Rightarrow> string" and fin :: "'a \<Rightarrow> llm_response" and model :: "'a \<Rightarrow> string"
begin

lemma pump_sends:
  "body_sends V (kept a) kept log (sse_pump step (log_sink V) p a cs log)"
proof -
  let ?r = "feed_events step (log_sink V) (fst (sse_chunks (arrived cs) p)) a log"
  from feed_sends [of V a log "fst (sse_chunks (arrived cs) p)"]
  have "body_sends V (kept a) kept log ?r" by blast
  then show ?thesis
    by (auto simp: sse_pump_events body_sends_def split: prod.splits result.splits option.splits)
qed

text \<open>The contract of the adapter's \<^verbatim>\<open>stream\<close>.\<close>

lemma sse_stream_contract:
  assumes "stream_call w rq m (log_sink V) (\<lambda>cs. sse_pump step (log_sink V) sse_new a cs) fin [] = (r, log)"
    and "kept a = []" "model a = m"
  shows "case r of Ok _ \<Rightarrow> finished_log m log | Err e \<Rightarrow> V log = Err e \<or> broken_log m log"
proof (rule stream_call_contract [OF _ _ assms(1)])
  show "body_sends V [] kept log (sse_pump step (log_sink V) sse_new a cs log)" for cs log
    using pump_sends [of V a log sse_new cs] assms(2) by simp
next
  fix cs log b k
  assume "sse_pump step (log_sink V) sse_new a cs log = (Ok b, k)"
  with feed_sends [of V a log "fst (sse_chunks (arrived cs) sse_new)"] assms(3)
  have "model b = m" by (auto simp: sse_pump_events split: prod.splits result.splits option.splits)
  then show "rs_content (fin b) = Text (kept b) \<and> rs_model (fin b) = m"
    by (simp add: fin_text fin_model)
qed

end

subsection \<open>What a sink that takes everything is sent\<close>

text \<open>The events a handler sends for a list of server-sent events, and the state it ends in.\<close>

fun decode_all ::
    "('e \<Rightarrow> 'a \<Rightarrow> (stream_event option, provider_error) result \<times> 'a) \<Rightarrow>
     'e list \<Rightarrow> 'a \<Rightarrow> stream_event list \<times> 'a" where
  "decode_all step [] a = ([], a)"
| "decode_all step (ev # evs) a =
    (case step ev a of
       (Err _, b) \<Rightarrow> ([], b)
     | (Ok out, b) \<Rightarrow>
         let (ds, c) = decode_all step evs b in (case out of None \<Rightarrow> ds | Some d \<Rightarrow> d # ds, c))"

lemma decode_all_Cons:
  "is_ok (fst (step ev a)) \<Longrightarrow>
    snd (decode_all step (ev # evs) a) = snd (decode_all step evs (snd (step ev a)))"
  by (auto simp: is_ok_iff Let_def split: prod.splits)

lemma decode_all_append:
  assumes "\<And>ev a. is_ok (fst (step ev a))"
  shows "decode_all step (es @ fs) a =
    (fst (decode_all step es a) @ fst (decode_all step fs (snd (decode_all step es a))),
     snd (decode_all step fs (snd (decode_all step es a))))"
proof (induction es arbitrary: a)
  case (Cons e es)
  with assms [of e a] show ?case
    by (auto simp: Let_def is_ok_iff split: prod.splits result.splits option.splits)
qed simp

text \<open>A sink that never refuses, e.g. the capturing sink.\<close>

definition open_sink :: "(stream_event \<Rightarrow> 'k \<Rightarrow> 'k) \<Rightarrow> 'k sink" where
  "open_sink f e k = (Ok (), f e k)"

context delta_decoder begin

lemma step_ok: "is_ok (fst (step ev a))"
  using step_text [of ev a] by (cases "step ev a") (auto simp: is_ok_iff split: result.splits)

lemma decode_all_text:
  "kept (snd (decode_all step evs a)) = kept a @ stream_text (fst (decode_all step evs a)) \<and>
   list_all is_delta (fst (decode_all step evs a))"
proof (induction evs arbitrary: a)
  case (Cons ev evs)
  obtain out b where s: "step ev a = (Ok out, b)"
    using step_ok [of ev a] by (cases "step ev a") (auto simp: is_ok_iff)
  have d: "decode_all step (ev # evs) a =
      ((case out of None \<Rightarrow> [] | Some d \<Rightarrow> [d]) @ fst (decode_all step evs b), snd (decode_all step evs b))"
    by (auto simp: s Let_def split: prod.splits option.splits)
  from step_text [OF s] Cons.IH [of b] show ?case
    unfolding d fst_conv snd_conv stream_text_append by (cases out) auto
qed simp

lemma feed_open:
  "feed_events step (open_sink f) evs a k =
    (Ok (snd (decode_all step evs a)), fold f (fst (decode_all step evs a)) k)"
proof (induction evs arbitrary: a k)
  case (Cons ev evs)
  with step_ok [of ev a] show ?case
    by (auto simp: send_then_def open_sink_def Let_def is_ok_iff split: prod.splits result.splits option.splits)
qed simp

end

lemma arrived_all: "arrived (map Ok bs) = bs" "transport_failure (map Ok bs) = None"
  by (induction bs) auto

context stream_decoder begin

text \<open>Any framed events, in any chunks that end on character boundaries, reach the sink decoded and
  in order, between the skeleton and the final response.\<close>

lemma sse_stream_run:
  assumes "wr_http w rq = HttpReply s (map Ok bs)" "is_success s"
    and "\<forall>e \<in> set evs. frameable e" "concat bs = concat (map sse_frame evs)" "\<forall>b \<in> set bs. utf8_valid b"
  shows "stream_call w rq m (open_sink f) (\<lambda>cs. sse_pump step (open_sink f) sse_new a cs) fin k =
    (Ok (), fold f (MessageStart (skeleton m) # fst (decode_all step evs a) @
                    [MessageStop (fin (snd (decode_all step evs a)))]) k)"
proof -
  have "sse_chunks bs sse_new = (evs, sse_new)"
    using chunks_concat [of bs sse_new] drain_frames [OF assms(3)] assms(4,5) by (simp add: sse_new_def)
  with assms(1,2) show ?thesis
    by (simp add: stream_call_def send_then_def open_sink_def [of f] sse_pump_events arrived_all
        feed_open [unfolded open_sink_def [abs_def]] open_sink_def [abs_def])
qed

end

subsection \<open>Fields of derived types\<close>

definition ju32 :: "json \<Rightarrow> u32 option" where
  "ju32 j = Option.bind (jnat j) (\<lambda>n. if n < 2 ^ 32 then Some (word_of_nat n) else None)"

definition u32_json :: "u32 \<Rightarrow> json" where
  "u32_json n = JInt (int (unat n))"

lemma jnat_u32_json [simp]: "jnat (u32_json n) = Some (unat n)"
proof -
  have "unat n < 2 ^ 64" using unsigned_less [of n] by (rule order.strict_trans) simp
  then have "int (unat n) < 2 ^ 64" by (simp add: zless_nat_eq_int_zless [symmetric] del: of_nat_unat)
  then show ?thesis by (simp add: u32_json_def del: of_nat_unat)
qed

text \<open>A field with \<^verbatim>\<open>#[serde(default)]\<close>.\<close>

definition def_field :: "'a \<Rightarrow> (json \<Rightarrow> 'a option) \<Rightarrow> (string \<Rightarrow> json option) \<Rightarrow> string \<Rightarrow> 'a option" where
  "def_field d get f k = (case f k of None \<Rightarrow> Some d | Some j \<Rightarrow> get j)"

definition jlist :: "(json \<Rightarrow> 'a option) \<Rightarrow> json \<Rightarrow> 'a list option" where
  "jlist get j = Option.bind (jarr j) (\<lambda>xs. those (map get xs))"

text \<open>\<^verbatim>\<open>v.get(k)\<close> followed by a conversion.\<close>

definition jfield :: "json \<Rightarrow> string \<Rightarrow> (json \<Rightarrow> 'a option) \<Rightarrow> 'a option" where
  "jfield v k get = Option.bind (jget v k) get"

text \<open>The loop that grows a vector of strings until it has an index.\<close>

definition pad_to :: "nat \<Rightarrow> string list \<Rightarrow> string list" where
  "pad_to n xs = xs @ replicate (n - length xs) []"

lemma length_pad_to [simp]: "length (pad_to n xs) = max n (length xs)"
  by (simp add: pad_to_def)

lemma pad_to_id [simp]: "n \<le> length xs \<Longrightarrow> pad_to n xs = xs"
  by (simp add: pad_to_def)

lemma pad_to_Suc [simp]: "length xs = n \<Longrightarrow> pad_to (Suc n) xs = xs @ [[]]"
  by (simp add: pad_to_def)

text \<open>Arguments are parsed, or kept as a string.\<close>

definition args_value :: "json_text \<Rightarrow> string \<Rightarrow> json" where
  "args_value J b = (case jt_parse J b of Some v \<Rightarrow> v | None \<Rightarrow> JStr b)"

end
