(* ===== verification/Anthropic.thy ===== *)
theory Anthropic
  imports Wire
begin

text \<open>
  The Anthropic adapter (\<^verbatim>\<open>provider/src/adapters/anthropic.rs\<close>): the request body, the accumulator
  of a streamed response with the handler of every event, the non-streaming response type, and the
  two operations of the provider. The handlers are an instance of \<open>stream_decoder\<close>.
\<close>

subsection \<open>Configuration and request body\<close>

record anthropic_config =
  anthropic_api_key :: string
  anthropic_endpoint :: string

definition ANTHROPIC_ENDPOINT :: string where
  "ANTHROPIC_ENDPOINT = ''https://api.anthropic.com/v1/messages''"

definition ANTHROPIC_VERSION :: string where
  "ANTHROPIC_VERSION = ''2023-06-01''"

definition anthropic_config_new :: "string \<Rightarrow> anthropic_config" where
  "anthropic_config_new k = \<lparr> anthropic_api_key = k, anthropic_endpoint = ANTHROPIC_ENDPOINT \<rparr>"

definition anthropic_with_endpoint :: "string \<Rightarrow> anthropic_config \<Rightarrow> anthropic_config" where
  "anthropic_with_endpoint e c = c\<lparr> anthropic_endpoint := e \<rparr>"

fun anthropic_block_to_json :: "content_block \<Rightarrow> json" where
  "anthropic_block_to_json (BText t) = JObj [(''type'', JStr ''text''), (''text'', JStr t)]"
| "anthropic_block_to_json (BToolUse i n v) =
    JObj [(''type'', JStr ''tool_use''), (''id'', JStr i), (''name'', JStr n), (''input'', v)]"
| "anthropic_block_to_json (BToolResult i c) =
    JObj [(''type'', JStr ''tool_result''), (''tool_use_id'', JStr i), (''content'', c)]"

fun anthropic_content_to_json :: "message_content \<Rightarrow> json" where
  "anthropic_content_to_json (Text s) = JStr s"
| "anthropic_content_to_json (Blocks bs) = JArr (map anthropic_block_to_json bs)"

definition anthropic_tool_to_json :: "tool_spec \<Rightarrow> json" where
  "anthropic_tool_to_json t =
    JObj [(''name'', JStr (ts_name t)), (''description'', JStr (ts_description t)),
      (''input_schema'', ts_input_schema t)]"

fun anthropic_role :: "role \<Rightarrow> string" where
  "anthropic_role User = ''user''"
| "anthropic_role Assistant = ''assistant''"
| "anthropic_role Tool = ''user''"
| "anthropic_role System = ''user''"

definition anthropic_message :: "llm_message \<Rightarrow> json" where
  "anthropic_message m =
    JObj [(''role'', JStr (anthropic_role (msg_role m))),
      (''content'', anthropic_content_to_json (msg_content m))]"

fun split_system :: "llm_message list \<Rightarrow> string option \<Rightarrow> string option \<times> json list" where
  "split_system [] system = (system, [])"
| "split_system (m # ms) system =
    (if msg_role m = System then
       split_system ms (case system of None \<Rightarrow> Some (as_text (msg_content m)) | Some s \<Rightarrow> Some s)
     else let (s, out) = split_system ms system in (s, anthropic_message m # out))"

definition anthropic_build_body :: "llm_request \<Rightarrow> bool \<Rightarrow> json" where
  "anthropic_build_body req stream =
    (let (system, messages) = split_system (rq_messages req) (rq_system_prompt req);
         b0 = JObj [(''model'', JStr (rq_model req)), (''messages'', JArr messages), (''stream'', JBool stream)];
         b1 = set_opt ''system'' (map_option JStr system) b0;
         b2 = jset ''max_tokens'' (case rq_max_tokens req of Some n \<Rightarrow> u32_json n | None \<Rightarrow> u32_json 4096) b1;
         b3 = set_opt ''temperature'' (Option.bind (rq_temperature req) number_from_f32) b2
     in if rq_tools req = [] then b3
        else jset ''tools'' (JArr (map anthropic_tool_to_json (rq_tools req))) b3)"

definition anthropic_request :: "anthropic_config \<Rightarrow> llm_request \<Rightarrow> bool \<Rightarrow> http_request" where
  "anthropic_request c req stream =
    \<lparr> hq_url = anthropic_endpoint c,
      hq_headers = [(''x-api-key'', anthropic_api_key c), (''anthropic-version'', ANTHROPIC_VERSION),
        (''content-type'', ''application/json'')],
      hq_body = anthropic_build_body req stream \<rparr>"

subsection \<open>The accumulator\<close>

record anthropic_acc =
  an_model :: string
  an_text :: string
  an_tool_calls :: "tool_call list"
  an_arg_buffers :: "string list"
  an_tool_names :: "string list"
  an_usage :: usage
  an_stop_reason :: stop_reason

definition anthropic_new :: "string \<Rightarrow> anthropic_acc" where
  "anthropic_new m = \<lparr> an_model = m, an_text = [], an_tool_calls = [], an_arg_buffers = [],
     an_tool_names = [], an_usage = usage_default, an_stop_reason = Stop \<rparr>"

definition anthropic_call :: "json_text \<Rightarrow> string list \<Rightarrow> nat \<Rightarrow> string \<Rightarrow> tool_call" where
  "anthropic_call J names i b =
    \<lparr> tc_id = ''toolu_stream_'' @ show_nat i, tc_name = (if i < length names then names ! i else []),
      tc_args = args_value J b \<rparr>"

definition anthropic_finalize :: "json_text \<Rightarrow> anthropic_acc \<Rightarrow> llm_response" where
  "anthropic_finalize J a =
    \<lparr> rs_content = Text (an_text a), rs_stop_reason = an_stop_reason a,
      rs_tool_calls = an_tool_calls a @
        map (\<lambda>(i, b). anthropic_call J (an_tool_names a) i b)
          (filter (\<lambda>(i, b). b \<noteq> []) (enumerate 0 (an_arg_buffers a))),
      rs_usage = an_usage a, rs_model = an_model a \<rparr>"

definition anthropic_grow :: "nat \<Rightarrow> anthropic_acc \<Rightarrow> anthropic_acc" where
  "anthropic_grow i a =
    (if length (an_arg_buffers a) \<le> i then
       a\<lparr> an_arg_buffers := pad_to (Suc i) (an_arg_buffers a),
          an_tool_names := an_tool_names a @ replicate (Suc i - length (an_arg_buffers a)) [] \<rparr>
     else a)"

definition id_marker :: "string \<Rightarrow> string" where
  "id_marker i = ''__id:'' @ i @ ''__''"

definition anthropic_open_tool :: "json \<Rightarrow> json \<Rightarrow> string \<Rightarrow> anthropic_acc \<Rightarrow> anthropic_acc" where
  "anthropic_open_tool v cb tid a =
    (let idx = unwrap_or (jfield v ''index'' jnat) 0;
         a1 = anthropic_grow idx a
     in a1\<lparr> an_tool_names := (an_tool_names a1)[idx := unwrap_or (jfield cb ''name'' jstr) []],
            an_arg_buffers := (an_arg_buffers a1)[idx := id_marker tid] \<rparr>)"

definition handle_content_block_start :: "json_text \<Rightarrow> sse_event \<Rightarrow> anthropic_acc \<Rightarrow> anthropic_acc" where
  "handle_content_block_start J ev a =
    (case jt_parse J (ev_data ev) of
       None \<Rightarrow> a
     | Some v \<Rightarrow>
         let a1 = (case jfield v ''index'' jnat of Some b \<Rightarrow> anthropic_grow b a | None \<Rightarrow> a)
         in case jget v ''content_block'' of
              None \<Rightarrow> a1
            | Some cb \<Rightarrow>
                if jfield cb ''type'' jstr = Some ''tool_use'' then
                  (case jfield cb ''id'' jstr of
                     None \<Rightarrow> a1
                   | Some tid \<Rightarrow> anthropic_open_tool v cb tid a1)
                else a1)"

definition handle_text_delta :: "json \<Rightarrow> anthropic_acc \<Rightarrow> stream_event option \<times> anthropic_acc" where
  "handle_text_delta delta a =
    (let t = unwrap_or (jfield delta ''text'' jstr) [] in
     if t = [] then (None, a) else (Some (ContentDelta t), a\<lparr> an_text := an_text a @ t \<rparr>))"

text \<open>The id inside a marker, and what is left of the buffer.\<close>

definition strip_marker :: "string \<Rightarrow> string \<times> string" where
  "strip_marker existing =
    (case Option.bind (strip_prefix ''__id:'' existing) (strip_suffix ''__'') of
       Some i \<Rightarrow> (i, [])
     | None \<Rightarrow> ([], existing))"

definition handle_input_json_delta ::
    "json \<Rightarrow> json \<Rightarrow> anthropic_acc \<Rightarrow> stream_event option \<times> anthropic_acc" where
  "handle_input_json_delta v delta a =
    (let partial = unwrap_or (jfield delta ''partial_json'' jstr) [];
         idx = unwrap_or (jfield v ''index'' jnat) 0
     in if length (an_arg_buffers a) \<le> idx then (None, a)
        else let (i, rest) = strip_marker (an_arg_buffers a ! idx) in
          (Some (ToolCallDelta (if i = [] then None else Some i) None (Some partial)),
           a\<lparr> an_arg_buffers := (an_arg_buffers a)[idx := rest @ partial] \<rparr>))"

definition handle_content_block_delta ::
    "json_text \<Rightarrow> sse_event \<Rightarrow> anthropic_acc \<Rightarrow> stream_event option \<times> anthropic_acc" where
  "handle_content_block_delta J ev a =
    (case jt_parse J (ev_data ev) of
       None \<Rightarrow> (None, a)
     | Some v \<Rightarrow>
         (case jget v ''delta'' of
            None \<Rightarrow> (None, a)
          | Some delta \<Rightarrow>
              if jfield delta ''type'' jstr = Some ''text_delta'' then handle_text_delta delta a
              else if jfield delta ''type'' jstr = Some ''input_json_delta''
              then handle_input_json_delta v delta a
              else (None, a)))"

definition anthropic_stop_reason :: "string \<Rightarrow> stop_reason" where
  "anthropic_stop_reason s =
    (if s = ''end_turn'' \<or> s = ''stop_sequence'' then Stop
     else if s = ''max_tokens'' then Length
     else if s = ''tool_use'' then StopToolUse
     else Stop)"

definition handle_message_delta :: "json_text \<Rightarrow> sse_event \<Rightarrow> anthropic_acc \<Rightarrow> anthropic_acc" where
  "handle_message_delta J ev a =
    (case jt_parse J (ev_data ev) of
       None \<Rightarrow> a
     | Some v \<Rightarrow>
         let a1 = (case Option.bind (jget v ''delta'') (\<lambda>d. jfield d ''stop_reason'' jstr) of
                     Some r \<Rightarrow> a\<lparr> an_stop_reason := anthropic_stop_reason r \<rparr> | None \<Rightarrow> a)
         in case Option.bind (jget v ''usage'') (\<lambda>u. jfield u ''output_tokens'' jnat) of
              Some n \<Rightarrow> a1\<lparr> an_usage := an_usage a1\<lparr> output_tokens := word_of_nat n \<rparr> \<rparr>
            | None \<Rightarrow> a1)"

definition decode_anthropic_event ::
    "json_text \<Rightarrow> sse_event \<Rightarrow> anthropic_acc \<Rightarrow> (stream_event option, provider_error) result \<times> anthropic_acc" where
  "decode_anthropic_event J ev a =
    (if ev_name ev = ''content_block_start'' then (Ok None, handle_content_block_start J ev a)
     else if ev_name ev = ''content_block_delta'' then
       (let (out, b) = handle_content_block_delta J ev a in (Ok out, b))
     else if ev_name ev = ''message_delta'' then (Ok None, handle_message_delta J ev a)
     else (Ok None, a))"

subsection \<open>The non-streaming response\<close>

datatype api_block = ApiText string | ApiToolUse string string json

record anthropic_response =
  ar_content :: "api_block list"
  ar_stop_reason :: "string option"
  ar_input_tokens :: u32
  ar_output_tokens :: u32
  ar_model :: string

text \<open>The tag is the field \<^verbatim>\<open>type\<close>, or the first element of an array.\<close>

definition api_block_fields :: "string \<Rightarrow> json \<Rightarrow> api_block option" where
  "api_block_fields tag rest =
    (if tag = ''text'' then
       Option.bind (text_fields [''text''] rest) (\<lambda>f.
       Option.bind (req_field jstr f ''text'') (\<lambda>t. Some (ApiText t)))
     else if tag = ''tool_use'' then
       Option.bind (text_fields [''id'', ''name'', ''input''] rest) (\<lambda>f.
       Option.bind (req_field jstr f ''id'') (\<lambda>i.
       Option.bind (req_field jstr f ''name'') (\<lambda>n.
       Option.bind (req_field Some f ''input'') (\<lambda>v. Some (ApiToolUse i n v)))))
     else None)"

definition api_block_of_json :: "json \<Rightarrow> api_block option" where
  "api_block_of_json j =
    (case j of
       JObj fs \<Rightarrow>
         Option.bind (text_fields [''type''] j) (\<lambda>f. Option.bind (req_field jstr f ''type'') (\<lambda>tag.
           api_block_fields tag (JObj (filter (\<lambda>(k, _). k \<noteq> ''type'') fs))))
     | JArr (t # xs) \<Rightarrow> Option.bind (jstr t) (\<lambda>tag. api_block_fields tag (JArr xs))
     | _ \<Rightarrow> None)"

definition anthropic_usage_of_json :: "json \<Rightarrow> (u32 \<times> u32) option" where
  "anthropic_usage_of_json j =
    Option.bind (text_fields [''input_tokens'', ''output_tokens''] j) (\<lambda>f.
    Option.bind (def_field 0 ju32 f ''input_tokens'') (\<lambda>i.
    Option.bind (def_field 0 ju32 f ''output_tokens'') (\<lambda>n. Some (i, n))))"

definition anthropic_response_of_json :: "json \<Rightarrow> anthropic_response option" where
  "anthropic_response_of_json j =
    Option.bind (text_fields [''content'', ''stop_reason'', ''usage'', ''model''] j) (\<lambda>f.
    Option.bind (req_field (jlist api_block_of_json) f ''content'') (\<lambda>c.
    Option.bind (opt_field jstr f ''stop_reason'') (\<lambda>s.
    Option.bind (def_field (0, 0) anthropic_usage_of_json f ''usage'') (\<lambda>u.
    Option.bind (req_field jstr f ''model'') (\<lambda>m.
      Some \<lparr> ar_content = c, ar_stop_reason = s, ar_input_tokens = fst u, ar_output_tokens = snd u,
             ar_model = m \<rparr>)))))"

fun api_text :: "api_block \<Rightarrow> string" where
  "api_text (ApiText t) = t"
| "api_text (ApiToolUse _ _ _) = []"

fun api_calls :: "api_block \<Rightarrow> tool_call list" where
  "api_calls (ApiText _) = []"
| "api_calls (ApiToolUse i n v) = [\<lparr> tc_id = i, tc_name = n, tc_args = v \<rparr>]"

definition from_anthropic :: "anthropic_response \<Rightarrow> llm_response" where
  "from_anthropic r =
    \<lparr> rs_content = Text (concat (map api_text (ar_content r))),
      rs_stop_reason = (case ar_stop_reason r of Some s \<Rightarrow> anthropic_stop_reason s | None \<Rightarrow> Stop),
      rs_tool_calls = concat (map api_calls (ar_content r)),
      rs_usage = \<lparr> input_tokens = ar_input_tokens r, output_tokens = ar_output_tokens r \<rparr>,
      rs_model = ar_model r \<rparr>"

subsection \<open>The provider\<close>

definition anthropic_complete ::
    "wire \<Rightarrow> anthropic_config \<Rightarrow> llm_request \<Rightarrow> (llm_response, provider_error) result" where
  "anthropic_complete w c req =
    map_ok from_anthropic
      (complete_call w ''anthropic'' (anthropic_request c req False) anthropic_response_of_json)"

definition anthropic_stream ::
    "wire \<Rightarrow> anthropic_config \<Rightarrow> llm_request \<Rightarrow> 'k sink \<Rightarrow> 'k \<Rightarrow> (unit, provider_error) result \<times> 'k" where
  "anthropic_stream w c req send =
    stream_call w (anthropic_request c req True) (rq_model req) send
      (sse_pump (decode_anthropic_event (wr_json w)) send sse_new (anthropic_new (rq_model req)))
      (anthropic_finalize (wr_json w))"

subsection \<open>The handlers\<close>

lemma anthropic_grow_simps [simp]:
  "an_text (anthropic_grow i a) = an_text a" "an_model (anthropic_grow i a) = an_model a"
  by (simp_all add: anthropic_grow_def)

lemma handle_start_frame [simp]:
  "an_text (handle_content_block_start J ev a) = an_text a"
  "an_model (handle_content_block_start J ev a) = an_model a"
  by (auto simp: handle_content_block_start_def anthropic_open_tool_def Let_def split: option.splits)

lemma handle_message_frame [simp]:
  "an_text (handle_message_delta J ev a) = an_text a"
  "an_model (handle_message_delta J ev a) = an_model a"
  by (auto simp: handle_message_delta_def Let_def split: option.splits)

lemma handle_delta_text:
  "handle_content_block_delta J ev a = (out, b) \<Longrightarrow>
    (case out of None \<Rightarrow> an_text b = an_text a
      | Some d \<Rightarrow> is_delta d \<and> an_text b = an_text a @ stream_text [d]) \<and> an_model b = an_model a"
  by (auto simp: handle_content_block_delta_def handle_text_delta_def handle_input_json_delta_def Let_def
      split: option.splits if_splits prod.splits)

interpretation anthropic: stream_decoder "decode_anthropic_event J" an_text "anthropic_finalize J" an_model
proof
  fix ev a q b
  assume d: "decode_anthropic_event J ev a = (q, b)"
  show "case q of Ok None \<Rightarrow> an_text b = an_text a
      | Ok (Some d) \<Rightarrow> is_delta d \<and> an_text b = an_text a @ stream_text [d] | Err x \<Rightarrow> False"
    using d handle_delta_text
    by (fastforce simp: decode_anthropic_event_def split: if_splits prod.splits option.splits)
  show "an_model b = an_model a"
    using d handle_delta_text
    by (fastforce simp: decode_anthropic_event_def split: if_splits prod.splits)
qed (simp_all add: anthropic_finalize_def)

subsection \<open>Streamed and non-streamed responses\<close>

text \<open>The vector of names is as long as the vector of buffers, so the handler's index into it is in
  range.\<close>

definition anthropic_inv :: "anthropic_acc \<Rightarrow> bool" where
  "anthropic_inv a \<longleftrightarrow> length (an_tool_names a) = length (an_arg_buffers a)"

lemma anthropic_grow_inv [inv_intros]:
  "anthropic_inv a \<Longrightarrow> anthropic_inv (anthropic_grow i a)"
  "anthropic_inv a \<Longrightarrow> i < length (an_tool_names (anthropic_grow i a))"
  by (auto simp: anthropic_inv_def anthropic_grow_def)

lemma anthropic_step_inv:
  "anthropic_inv a \<Longrightarrow> anthropic_inv (snd (decode_anthropic_event J ev a))"
  using anthropic_grow_inv
  by (auto simp: decode_anthropic_event_def handle_content_block_start_def anthropic_open_tool_def
      handle_content_block_delta_def handle_text_delta_def handle_input_json_delta_def
      handle_message_delta_def anthropic_inv_def Let_def split: option.splits prod.splits)

text \<open>The events a server sends for a response, with the fragments it cuts each block into: their names, and the
  fields that the API documents for their data. All other fields (\<^verbatim>\<open>type\<close>, \<^verbatim>\<open>id\<close>, \<^verbatim>\<open>role\<close>, \<^verbatim>\<open>stop_sequence\<close>,
  ...) are free.\<close>

type_synonym payload = "string \<times> (json \<Rightarrow> bool)"

definition has :: "json \<Rightarrow> string \<Rightarrow> (json \<Rightarrow> bool) \<Rightarrow> bool" where
  "has v k P \<longleftrightarrow> (\<exists>x. jget v k = Some x \<and> P x)"

definition index_json :: "nat \<Rightarrow> json" where
  "index_json i = JInt (int i)"

fun opens_block :: "api_block \<Rightarrow> json \<Rightarrow> bool" where
  "opens_block (ApiText t) d \<longleftrightarrow> jget d ''type'' = Some (JStr ''text'') \<and> jget d ''text'' = Some (JStr [])"
| "opens_block (ApiToolUse tid n v) d \<longleftrightarrow> jget d ''type'' = Some (JStr ''tool_use'') \<and>
    jget d ''id'' = Some (JStr tid) \<and> jget d ''name'' = Some (JStr n)"

fun extends_block :: "api_block \<Rightarrow> string \<Rightarrow> json \<Rightarrow> bool" where
  "extends_block (ApiText t) f d \<longleftrightarrow>
    jget d ''type'' = Some (JStr ''text_delta'') \<and> jget d ''text'' = Some (JStr f)"
| "extends_block (ApiToolUse tid n v) f d \<longleftrightarrow>
    jget d ''type'' = Some (JStr ''input_json_delta'') \<and> jget d ''partial_json'' = Some (JStr f)"

definition block_start :: "nat \<Rightarrow> api_block \<Rightarrow> payload" where
  "block_start i b = (''content_block_start'',
    \<lambda>v. jget v ''index'' = Some (index_json i) \<and> has v ''content_block'' (opens_block b))"

definition block_delta :: "nat \<Rightarrow> api_block \<Rightarrow> string \<Rightarrow> payload" where
  "block_delta i b f = (''content_block_delta'',
    \<lambda>v. jget v ''index'' = Some (index_json i) \<and> has v ''delta'' (extends_block b f))"

definition block_stop :: "nat \<Rightarrow> payload" where
  "block_stop i = (''content_block_stop'', \<lambda>v. jget v ''index'' = Some (index_json i))"

definition block_payloads :: "nat \<Rightarrow> api_block \<Rightarrow> string list \<Rightarrow> payload list" where
  "block_payloads i b fs = block_start i b # map (block_delta i b) fs @ [block_stop i]"

fun blocks_payloads :: "nat \<Rightarrow> (api_block \<times> string list) list \<Rightarrow> payload list" where
  "blocks_payloads i [] = []"
| "blocks_payloads i ((b, fs) # bs) = block_payloads i b fs @ blocks_payloads (Suc i) bs"

definition message_start :: "anthropic_response \<Rightarrow> payload" where
  "message_start r = (''message_start'', \<lambda>v. has v ''message'' (\<lambda>m.
     jget m ''model'' = Some (JStr (ar_model r)) \<and>
     has m ''usage'' (\<lambda>u. jget u ''input_tokens'' = Some (u32_json (ar_input_tokens r)))))"

definition message_delta :: "anthropic_response \<Rightarrow> payload" where
  "message_delta r = (''message_delta'', \<lambda>v.
     has v ''delta'' (\<lambda>d. jget d ''stop_reason'' = Some (jopt JStr (ar_stop_reason r))) \<and>
     has v ''usage'' (\<lambda>u. jget u ''output_tokens'' = Some (u32_json (ar_output_tokens r))))"

definition message_stop :: payload where
  "message_stop = (''message_stop'', \<lambda>v. True)"

definition response_payloads :: "anthropic_response \<Rightarrow> string list list \<Rightarrow> payload list" where
  "response_payloads r fss =
    message_start r # blocks_payloads 0 (zip (ar_content r) fss) @ [message_delta r, message_stop]"

text \<open>The API sends pings between them, and reserves the right to send events of other names.\<close>

definition message_event :: "sse_event \<Rightarrow> bool" where
  "message_event ev \<longleftrightarrow> ev_name ev \<in> {''message_start'', ''content_block_start'', ''content_block_delta'',
     ''content_block_stop'', ''message_delta'', ''message_stop''}"

text \<open>The fragments of a block: of its text, or of a JSON text of its input.\<close>

fun fragments_of :: "json_text \<Rightarrow> api_block \<Rightarrow> string list \<Rightarrow> bool" where
  "fragments_of J (ApiText t) fs \<longleftrightarrow> concat fs = t"
| "fragments_of J (ApiToolUse _ _ v) fs \<longleftrightarrow>
    concat fs \<noteq> [] \<and> jt_parse J (concat fs) = Some v \<and> \<not> starts_with ''__id:'' (concat fs)"

text \<open>An event carries a payload: its name, and data that parses to a value with its fields.\<close>

definition carries :: "json_text \<Rightarrow> payload \<Rightarrow> sse_event \<Rightarrow> bool" where
  "carries J p ev \<longleftrightarrow> ev_name ev = fst p \<and> (\<exists>v. jt_parse J (ev_data ev) = Some v \<and> snd p v)"

lemma decode_message_events:
  "snd (decode_all (decode_anthropic_event J) (filter message_event evs) a) =
    snd (decode_all (decode_anthropic_event J) evs a)"
proof (induction evs arbitrary: a)
  case (Cons ev evs)
  have "decode_anthropic_event J ev a = (Ok None, a)" if "\<not> message_event ev"
    using that by (auto simp: message_event_def decode_anthropic_event_def)
  with Cons show ?case
    by (simp add: decode_all_Cons anthropic.step_ok del: decode_all.simps)
qed simp

fun streamed_calls :: "nat \<Rightarrow> api_block list \<Rightarrow> tool_call list" where
  "streamed_calls i [] = []"
| "streamed_calls i (ApiText _ # bs) = streamed_calls (Suc i) bs"
| "streamed_calls i (ApiToolUse _ n v # bs) =
    \<lparr> tc_id = ''toolu_stream_'' @ show_nat i, tc_name = n, tc_args = v \<rparr> # streamed_calls (Suc i) bs"

lemma jfield_index: "jget v ''index'' = Some (index_json i) \<Longrightarrow> i < 2 ^ 64 \<Longrightarrow> jfield v ''index'' jnat = Some i"
  by (simp add: jfield_def index_json_def)

lemma jfield_str: "jget v k = Some (JStr t) \<Longrightarrow> jfield v k jstr = Some t"
  by (simp add: jfield_def)

lemma strip_marker_id: "strip_marker (id_marker i) = (i, [])"
proof -
  have "strip_prefix ''__id:'' (id_marker i) = Some (i @ ''__'')"
    unfolding id_marker_def by (rule strip_prefix_append)
  moreover have "strip_suffix ''__'' (i @ ''__'') = Some i" by (simp add: strip_suffix_Some)
  ultimately show ?thesis by (simp add: strip_marker_def)
qed

lemma strip_marker_plain: "\<not> starts_with ''__id:'' x \<Longrightarrow> strip_marker x = ([], x)"
  by (simp add: strip_marker_def starts_with_def)

text \<open>A new block: a fresh buffer, with the marker when it is a call.\<close>

definition with_block :: "string \<Rightarrow> string \<Rightarrow> string \<Rightarrow> anthropic_acc \<Rightarrow> anthropic_acc" where
  "with_block t n b a =
    a\<lparr> an_text := an_text a @ t, an_tool_names := an_tool_names a @ [n],
       an_arg_buffers := an_arg_buffers a @ [b] \<rparr>"

fun block_name :: "api_block \<Rightarrow> string" where
  "block_name (ApiText _) = []"
| "block_name (ApiToolUse _ n _) = n"

fun block_marker :: "api_block \<Rightarrow> string" where
  "block_marker (ApiText _) = []"
| "block_marker (ApiToolUse i _ _) = id_marker i"

lemma decode_block_start:
  assumes "carries J (block_start i b) ev" "anthropic_inv a" "length (an_arg_buffers a) = i" "i < 2 ^ 64"
  shows "decode_anthropic_event J ev a = (Ok None, with_block [] (block_name b) (block_marker b) a)"
proof -
  from assms(1) obtain v d where v: "ev_name ev = ''content_block_start''" "jt_parse J (ev_data ev) = Some v"
    "jget v ''index'' = Some (index_json i)" "jget v ''content_block'' = Some d" "opens_block b d"
    by (auto simp: carries_def block_start_def has_def)
  with assms(2-4) show ?thesis
    by (cases b)
       (simp_all add: decode_anthropic_event_def handle_content_block_start_def with_block_def jfield_index jfield_str
         anthropic_grow_def anthropic_inv_def anthropic_open_tool_def unwrap_or_def list_update_append Let_def)
qed

lemma decode_text_deltas:
  "list_all2 (carries J) (map (block_delta i (ApiText t)) fs) evs \<Longrightarrow>
    snd (decode_all (decode_anthropic_event J) evs a) = a\<lparr> an_text := an_text a @ concat fs \<rparr>"
proof (induction fs arbitrary: evs a)
  case (Cons f fs)
  from Cons.prems obtain ev evs' where ev: "evs = ev # evs'" "carries J (block_delta i (ApiText t) f) ev"
    "list_all2 (carries J) (map (block_delta i (ApiText t)) fs) evs'"
    unfolding list.map list_all2_Cons1 by blast
  have "snd (decode_anthropic_event J ev a) = a\<lparr> an_text := an_text a @ f \<rparr> \<and>
      is_ok (fst (decode_anthropic_event J ev a))"
    using ev(2) by (auto simp: carries_def block_delta_def has_def decode_anthropic_event_def
        handle_content_block_delta_def handle_text_delta_def jfield_str unwrap_or_def Let_def)
  with Cons.IH [OF ev(3)] show ?case
    unfolding ev(1) by (simp add: decode_all_Cons del: decode_all.simps)
qed simp

lemma starts_with_append: "starts_with p s \<Longrightarrow> starts_with p (s @ t)"
  by (auto simp: starts_with_iff)

lemma decode_args_deltas:
  assumes "list_all2 (carries J) (map (block_delta i (ApiToolUse d n v)) fs) evs"
    and "i < length (an_arg_buffers a)" "i < 2 ^ 64" "fs \<noteq> []"
    and "snd (strip_marker (an_arg_buffers a ! i)) = b" "\<not> starts_with ''__id:'' (b @ concat fs)"
  shows "snd (decode_all (decode_anthropic_event J) evs a) =
    a\<lparr> an_arg_buffers := (an_arg_buffers a)[i := b @ concat fs] \<rparr>"
  using assms
proof (induction fs arbitrary: evs a b)
  case (Cons f fs)
  from Cons.prems(1) obtain ev evs' where ev: "evs = ev # evs'"
    "carries J (block_delta i (ApiToolUse d n v) f) ev"
    "list_all2 (carries J) (map (block_delta i (ApiToolUse d n v)) fs) evs'"
    unfolding list.map list_all2_Cons1 by blast
  let ?a = "a\<lparr> an_arg_buffers := (an_arg_buffers a)[i := b @ f] \<rparr>"
  have s: "snd (decode_anthropic_event J ev a) = ?a \<and> is_ok (fst (decode_anthropic_event J ev a))"
    using ev(2) Cons.prems by (auto simp: carries_def block_delta_def has_def decode_anthropic_event_def
        jfield_index jfield_str unwrap_or_def handle_content_block_delta_def handle_input_json_delta_def Let_def
        split: prod.splits)
  then have d: "snd (decode_all (decode_anthropic_event J) evs a) =
      snd (decode_all (decode_anthropic_event J) evs' ?a)"
    unfolding ev(1) by (simp add: decode_all_Cons del: decode_all.simps)
  have "snd (strip_marker (b @ f)) = b @ f"
    using Cons.prems(6) starts_with_append [of _ "b @ f" "concat fs"]
    by (subst strip_marker_plain) auto
  with Cons.IH [OF ev(3), of ?a "b @ f"] Cons.prems d ev(3) show ?case
    by (cases "fs = []") auto
qed simp

fun block_args :: "api_block \<Rightarrow> string list \<Rightarrow> string" where
  "block_args (ApiText _) fs = []"
| "block_args (ApiToolUse _ _ _) fs = concat fs"

lemma anthropic_append:
  "snd (decode_all (decode_anthropic_event J) (es @ fs) a) =
    snd (decode_all (decode_anthropic_event J) fs (snd (decode_all (decode_anthropic_event J) es a)))"
  by (simp add: decode_all_append anthropic.step_ok)

lemma with_block_inv: "anthropic_inv a \<Longrightarrow> anthropic_inv (with_block t n b a)"
  by (simp add: anthropic_inv_def with_block_def)

lemma decode_deltas:
  assumes "list_all2 (carries J) (map (block_delta i b) fs) evs" "fragments_of J b fs"
    and "length (an_arg_buffers a) = i" "i < 2 ^ 64"
  shows "snd (decode_all (decode_anthropic_event J) evs (with_block [] (block_name b) (block_marker b) a)) =
    with_block (api_text b) (block_name b) (block_args b fs) a"
proof (cases b)
  case (ApiText t)
  with assms(1) show ?thesis
    using decode_text_deltas [of J i t fs evs "with_block [] [] [] a"] assms(2)
    by (simp add: with_block_def)
next
  case (ApiToolUse d n v)
  let ?a = "with_block [] n (id_marker d) a"
  from ApiToolUse assms(2) have fs: "fs \<noteq> []" "\<not> starts_with ''__id:'' (concat fs)" by auto
  have i: "i < length (an_arg_buffers ?a)" "an_arg_buffers ?a ! i = id_marker d"
    using assms(3) by (simp_all add: with_block_def nth_append)
  have "snd (decode_all (decode_anthropic_event J) evs ?a) =
      ?a\<lparr> an_arg_buffers := (an_arg_buffers ?a)[i := [] @ concat fs] \<rparr>"
    by (rule decode_args_deltas [OF _ i(1) assms(4) fs(1)])
       (use assms(1) ApiToolUse i(2) fs(2) in \<open>simp_all add: strip_marker_id\<close>)
  with ApiToolUse assms(3) show ?thesis by (simp add: with_block_def list_update_append)
qed

lemma decode_block:
  assumes "list_all2 (carries J) (block_payloads i b fs) evs" "fragments_of J b fs"
    and "anthropic_inv a" "length (an_arg_buffers a) = i" "i < 2 ^ 64"
  shows "snd (decode_all (decode_anthropic_event J) evs a) =
    with_block (api_text b) (block_name b) (block_args b fs) a"
proof -
  from assms(1) obtain e0 ds e1 where evs: "evs = [e0] @ ds @ [e1]" "carries J (block_start i b) e0"
    "list_all2 (carries J) (map (block_delta i b) fs) ds" "ev_name e1 = ''content_block_stop''"
    unfolding block_payloads_def list_all2_Cons1 list_all2_append1
    by (auto simp: list_all2_Cons1 carries_def block_stop_def)
  have stop: "snd (decode_all (decode_anthropic_event J) [e1] c) = c" for c
    using evs(4) by (simp add: decode_anthropic_event_def Let_def)
  have start: "snd (decode_all (decode_anthropic_event J) [e0] a) =
      with_block [] (block_name b) (block_marker b) a"
    by (simp add: decode_block_start [OF evs(2) assms(3,4,5)])
  show ?thesis
    unfolding evs(1) anthropic_append start decode_deltas [OF evs(3) assms(2,4,5)] stop ..
qed

lemma decode_blocks:
  assumes "list_all2 (carries J) (blocks_payloads i bs) evs" "\<forall>(b, fs) \<in> set bs. fragments_of J b fs"
    and "anthropic_inv a" "length (an_arg_buffers a) = i" "i + length bs \<le> 2 ^ 64"
  shows "snd (decode_all (decode_anthropic_event J) evs a) =
    a\<lparr> an_text := an_text a @ concat (map (api_text \<circ> fst) bs),
       an_tool_names := an_tool_names a @ map (block_name \<circ> fst) bs,
       an_arg_buffers := an_arg_buffers a @ map (\<lambda>(b, fs). block_args b fs) bs \<rparr>"
  using assms
proof (induction bs arbitrary: i evs a)
  case (Cons bf bs)
  obtain b fs where b: "bf = (b, fs)" by (cases bf)
  from Cons.prems(1) obtain es es' where evs: "evs = es @ es'"
    "list_all2 (carries J) (block_payloads i b fs) es" "list_all2 (carries J) (blocks_payloads (Suc i) bs) es'"
    unfolding b blocks_payloads.simps list_all2_append1 by auto
  let ?a = "with_block (api_text b) (block_name b) (block_args b fs) a"
  have e: "snd (decode_all (decode_anthropic_event J) es a) = ?a"
    by (rule decode_block [OF evs(2)]) (use Cons.prems b in auto)
  have "snd (decode_all (decode_anthropic_event J) es' ?a) =
    ?a\<lparr> an_text := an_text ?a @ concat (map (api_text \<circ> fst) bs),
       an_tool_names := an_tool_names ?a @ map (block_name \<circ> fst) bs,
       an_arg_buffers := an_arg_buffers ?a @ map (\<lambda>(b, fs). block_args b fs) bs \<rparr>"
    by (rule Cons.IH [OF evs(3) _ with_block_inv])
       (use Cons.prems b in \<open>auto simp: with_block_def\<close>)
  then show ?case
    unfolding evs(1) anthropic_append e by (simp add: b with_block_def comp_def)
qed simp

lemma streamed_calls_finalize:
  "list_all2 (fragments_of J) bs fss \<Longrightarrow> length pre = i \<Longrightarrow>
    map (\<lambda>(i, b). anthropic_call J (pre @ map block_name bs) i b)
      (filter (\<lambda>(i, b). b \<noteq> []) (enumerate i (map2 block_args bs fss))) = streamed_calls i bs"
proof (induction bs fss arbitrary: pre i rule: list_all2_induct)
  case (Cons b bs fs fss)
  from Cons.IH [of "pre @ [block_name b]" "Suc i"] Cons.prems
  have "map (\<lambda>(i, x). anthropic_call J (pre @ block_name b # map block_name bs) i x)
      (filter (\<lambda>(i, x). x \<noteq> []) (enumerate (Suc i) (map2 block_args bs fss))) = streamed_calls (Suc i) bs"
    by simp
  with Cons.hyps(1) Cons.prems show ?case
    by (cases b) (auto simp: anthropic_call_def args_value_def)
qed simp

lemma streamed_calls_same:
  "map (\<lambda>c. (tc_name c, tc_args c)) (streamed_calls i bs) =
   map (\<lambda>c. (tc_name c, tc_args c)) (concat (map api_calls bs))"
  by (induction i bs rule: streamed_calls.induct) auto

lemma decode_response:
  assumes "list_all2 (carries J) (response_payloads r fss) (filter message_event es')"
    and "list_all2 (fragments_of J) (ar_content r) fss" "length (ar_content r) \<le> 2 ^ 64"
  shows "anthropic_finalize J (snd (decode_all (decode_anthropic_event J) es' (anthropic_new m))) =
    (from_anthropic r)\<lparr> rs_tool_calls := streamed_calls 0 (ar_content r),
       rs_usage := \<lparr> input_tokens = 0, output_tokens = ar_output_tokens r \<rparr>, rs_model := m \<rparr>"
proof -
  let ?bs = "zip (ar_content r) fss"
  have len: "length (ar_content r) = length fss" using assms(2) by (rule list_all2_lengthD)
  from assms(1) obtain e0 es e1 e2 where evs: "filter message_event es' = [e0] @ es @ [e1, e2]"
    "carries J (message_start r) e0" "list_all2 (carries J) (blocks_payloads 0 ?bs) es"
    "carries J (message_delta r) e1" "carries J message_stop e2"
    unfolding response_payloads_def list_all2_Cons1 list_all2_append1
    by (auto simp: list_all2_Cons1)
  have s0: "snd (decode_all (decode_anthropic_event J) [e0] a) = a" for a
    using evs(2) by (simp add: carries_def message_start_def decode_anthropic_event_def Let_def)
  let ?a = "(anthropic_new m)\<lparr> an_text := concat (map (api_text \<circ> fst) ?bs),
    an_tool_names := map (block_name \<circ> fst) ?bs,
    an_arg_buffers := map (\<lambda>(b, fs). block_args b fs) ?bs \<rparr>"
  have s1: "snd (decode_all (decode_anthropic_event J) es (anthropic_new m)) = ?a"
    using decode_blocks [OF evs(3), of "anthropic_new m"] assms(2,3)
    by (simp add: anthropic_new_def anthropic_inv_def list_all2_iff)
  have s2: "snd (decode_all (decode_anthropic_event J) [e1, e2] a) =
      a\<lparr> an_stop_reason := (case ar_stop_reason r of Some s \<Rightarrow> anthropic_stop_reason s | None \<Rightarrow> an_stop_reason a),
         an_usage := (an_usage a)\<lparr> output_tokens := ar_output_tokens r \<rparr> \<rparr>" for a
    using evs(4,5) by (cases "ar_stop_reason r")
      (auto simp: carries_def message_delta_def message_stop_def has_def decode_anthropic_event_def
        handle_message_delta_def jfield_def Let_def)
  have f: "map fst ?bs = ar_content r" "map (\<lambda>(b, fs). block_args b fs) ?bs = map2 block_args (ar_content r) fss"
    using len by simp_all
  have n: "map (block_name \<circ> fst) ?bs = map block_name (ar_content r)"
    "concat (map (api_text \<circ> fst) ?bs) = concat (map api_text (ar_content r))"
    using f(1) by (metis map_map)+
  from streamed_calls_finalize [OF assms(2), of "[]" 0] show ?thesis
    unfolding decode_message_events [of J es', symmetric] evs(1) anthropic_append s0 s1 s2 n
    by (simp add: anthropic_finalize_def from_anthropic_def anthropic_new_def usage_default_def
        split: option.splits)
qed

text \<open>C25: what streaming keeps of a response. A server answers a streamed request with the events that its API
  documents for a response, with pings and events of other names anywhere between them, whatever fragments it cuts texts
  and arguments into and however the network cuts the bytes, and answers the plain request with the response itself; the
  JSON text of the arguments of each call is not empty (a call for which only an empty fragment arrives is dropped, see
  below). Then a caller of \<^verbatim>\<open>stream\<close> with the capturing sink gets the same text, stop reason, output tokens and, call by
  call, the same tool names and arguments as \<^verbatim>\<open>complete\<close>; but every call has lost its id for a number, no input tokens
  are counted, and the model is the one that was asked for.\<close>

theorem anthropic_stream_matches_complete:
  assumes "wr_http w (anthropic_request c req True) = HttpReply s (map Ok bs)" "is_success s"
    and "\<forall>b \<in> set bs. utf8_valid b" "concat bs = concat (map sse_frame evs)" "\<forall>e \<in> set evs. frameable e"
    and "list_all2 (carries (wr_json w)) (response_payloads r fss) (filter message_event evs)"
    and "list_all2 (fragments_of (wr_json w)) (ar_content r) fss" "length (ar_content r) \<le> 2 ^ 64"
    and "complete_call w ''anthropic'' (anthropic_request c req False) anthropic_response_of_json = Ok r"
  shows "\<exists>full k. anthropic_complete w c req = Ok full \<and>
    anthropic_stream w c req (open_sink sink_send) sink_new = (Ok (), k) \<and>
    sk_final_response k = Some (full\<lparr> rs_tool_calls := streamed_calls 0 (ar_content r),
      rs_usage := \<lparr> input_tokens = 0, output_tokens = output_tokens (rs_usage full) \<rparr>,
      rs_model := rq_model req \<rparr>) \<and>
    map (\<lambda>c. (tc_name c, tc_args c)) (streamed_calls 0 (ar_content r)) =
      map (\<lambda>c. (tc_name c, tc_args c)) (rs_tool_calls full) \<and>
    rs_content full = Text (sk_text k)"
proof -
  let ?J = "wr_json w"
  let ?run = "decode_all (decode_anthropic_event ?J) evs (anthropic_new (rq_model req))"
  let ?log = "MessageStart (skeleton (rq_model req)) # fst ?run @ [MessageStop (anthropic_finalize ?J (snd ?run))]"
  have st: "anthropic_stream w c req (open_sink sink_send) sink_new = (Ok (), sink_run ?log sink_new)"
    unfolding anthropic_stream_def sink_run_def
    by (rule anthropic.sse_stream_run [OF assms(1,2,5,4,3)])
  note fin = decode_response [OF assms(6,7,8), of "rq_model req"]
  have last: "sk_final_response (sink_run ?log sink_new) = Some (anthropic_finalize ?J (snd ?run))"
    by (simp add: sink_run_def)
  have tx: "sk_text (sink_run ?log sink_new) = an_text (snd ?run)"
    using anthropic.decode_all_text [of ?J evs "anthropic_new (rq_model req)"] sink_run_text [of ?log sink_new]
    by (simp add: anthropic_new_def sink_new_def)
  have "rs_content (anthropic_finalize ?J (snd ?run)) = rs_content (from_anthropic r)"
    by (simp add: fin)
  then have "rs_content (from_anthropic r) = Text (an_text (snd ?run))"
    by (simp add: anthropic_finalize_def)
  with st last tx fin streamed_calls_same [of 0 "ar_content r"] assms(9) show ?thesis
    by (auto simp: anthropic_complete_def from_anthropic_def)
qed

definition demo_response :: anthropic_response where
  "demo_response = \<lparr> ar_content = [ApiText ''hi'', ApiToolUse ''tu'' ''ls'' (JObj [])],
     ar_stop_reason = Some ''tool_use'', ar_input_tokens = 7, ar_output_tokens = 5, ar_model = ''m'' \<rparr>"

definition demo_data :: "(string \<times> json) list" where
  "demo_data = map (\<lambda>(n, fs). (n, JObj ((''type'', JStr n) # fs)))
    [(''message_start'', [(''message'', JObj [(''id'', JStr ''msg_1''), (''type'', JStr ''message''),
        (''role'', JStr ''assistant''), (''model'', JStr ''m''), (''content'', JArr []), (''stop_reason'', JNull),
        (''usage'', JObj [(''input_tokens'', JInt 7), (''output_tokens'', JInt 1)])])]),
     (''content_block_start'', [(''index'', JInt 0),
        (''content_block'', JObj [(''type'', JStr ''text''), (''text'', JStr [])])]),
     (''ping'', []),
     (''content_block_delta'', [(''index'', JInt 0),
        (''delta'', JObj [(''type'', JStr ''text_delta''), (''text'', JStr ''h'')])]),
     (''content_block_delta'', [(''index'', JInt 0),
        (''delta'', JObj [(''type'', JStr ''text_delta''), (''text'', JStr ''i'')])]),
     (''content_block_stop'', [(''index'', JInt 0)]),
     (''content_block_start'', [(''index'', JInt 1),
        (''content_block'', JObj [(''type'', JStr ''tool_use''), (''id'', JStr ''tu''), (''name'', JStr ''ls''), (''input'', JObj [])])]),
     (''content_block_delta'', [(''index'', JInt 1),
        (''delta'', JObj [(''type'', JStr ''input_json_delta''), (''partial_json'', JStr [])])]),
     (''content_block_delta'', [(''index'', JInt 1),
        (''delta'', JObj [(''type'', JStr ''input_json_delta''), (''partial_json'', JStr ''{}'')])]),
     (''content_block_stop'', [(''index'', JInt 1)]),
     (''message_delta'', [(''delta'', JObj [(''stop_reason'', JStr ''tool_use''), (''stop_sequence'', JNull)]),
        (''usage'', JObj [(''output_tokens'', JInt 5)])]),
     (''message_stop'', [])]"

definition demo_events :: "sse_event list" where
  "demo_events = map2 (\<lambda>p x. \<lparr> ev_name = fst p, ev_data = [x] \<rparr>) demo_data ''abcdefghijkl''"

definition demo_reply :: json where
  "demo_reply = JObj
    [(''content'', JArr [JObj [(''type'', JStr ''text''), (''text'', JStr ''hi'')],
       JObj [(''type'', JStr ''tool_use''), (''id'', JStr ''tu''), (''name'', JStr ''ls''), (''input'', JObj [])]]),
     (''stop_reason'', JStr ''tool_use''),
     (''usage'', JObj [(''input_tokens'', JInt 7), (''output_tokens'', JInt 5)]), (''model'', JStr ''m'')]"

definition demo_wire :: wire where
  "demo_wire = \<lparr>
     wr_http = (\<lambda>rq. HttpReply 200
       (if jfield (hq_body rq) ''stream'' jbool = Some True then [Ok (concat (map sse_frame demo_events))] else [Ok ''R''])),
     wr_json = \<lparr> jt_print = (\<lambda>_. []),
       jt_parse = (\<lambda>s. if s = ''{}'' then Some (JObj []) else if s = ''R'' then Some demo_reply
         else map_of (zip (map ev_data demo_events) (map snd demo_data)) s) \<rparr>,
     wr_decode_error = id \<rparr>"

definition demo_anthropic :: anthropic_config where
  "demo_anthropic = anthropic_config_new ''k''"

lemma demo_stream_flag:
  "jfield (hq_body (anthropic_request c (single_user m p) b)) ''stream'' jbool = Some b"
  by (simp add: anthropic_request_def anthropic_build_body_def single_user_def message_user_def
      llm_message_text_def set_opt_def jfield_def Let_def)

lemmas demo_simps = demo_events_def demo_data_def demo_response_def response_payloads_def block_payloads_def
  message_start_def message_delta_def message_stop_def block_start_def block_delta_def block_stop_def has_def

lemma demo_frameable: "\<forall>e \<in> set demo_events. frameable e"
  by (simp add: demo_simps frameable_def)

lemma demo_ascii: "utf8_valid (concat (map sse_frame demo_events))"
  by (rule utf8_valid_ascii) (simp add: demo_simps sse_frame_def ascii_def byte_def)

lemma demo_carried:
  "list_all2 (carries (wr_json demo_wire)) (response_payloads demo_response [[''h'', ''i''], [[], ''{}'']])
    (filter message_event demo_events)"
  by (simp add: demo_wire_def demo_simps carries_def message_event_def index_json_def u32_json_def)

lemma show_small: "show_nat 0 = ''0''" "show_nat (Suc 0) = ''1''"
  by code_simp+

lemma demo_complete:
  "complete_call demo_wire ''anthropic'' (anthropic_request demo_anthropic (single_user ''big'' ''p'') False)
     anthropic_response_of_json = Ok demo_response"
  by (simp add: complete_call_def demo_wire_def demo_stream_flag is_success_def reply_json_def demo_reply_def
      anthropic_response_of_json_def text_fields_def struct_fields_def req_field_def opt_field_def def_field_def
      jlist_def api_block_of_json_def api_block_fields_def anthropic_usage_of_json_def ju32_def demo_response_def)

theorem anthropic_stream_matches_complete_witness:
  "\<exists>k. anthropic_stream demo_wire demo_anthropic (single_user ''big'' ''p'') (open_sink sink_send) sink_new = (Ok (), k) \<and>
     sk_text k = ''hi'' \<and>
     map_option rs_tool_calls (sk_final_response k) =
       Some [\<lparr> tc_id = ''toolu_stream_1'', tc_name = ''ls'', tc_args = JObj [] \<rparr>] \<and>
     map_ok rs_tool_calls (anthropic_complete demo_wire demo_anthropic (single_user ''big'' ''p'')) =
       Ok [\<lparr> tc_id = ''tu'', tc_name = ''ls'', tc_args = JObj [] \<rparr>]"
proof -
  let ?rq = "\<lambda>b. anthropic_request demo_anthropic (single_user ''big'' ''p'') b"
  have full: "from_anthropic demo_response = \<lparr> rs_content = Text ''hi'', rs_stop_reason = StopToolUse,
      rs_tool_calls = [\<lparr> tc_id = ''tu'', tc_name = ''ls'', tc_args = JObj [] \<rparr>],
      rs_usage = \<lparr> input_tokens = 7, output_tokens = 5 \<rparr>, rs_model = ''m'' \<rparr>"
    by (simp add: from_anthropic_def demo_response_def anthropic_stop_reason_def)
  have c: "anthropic_complete demo_wire demo_anthropic (single_user ''big'' ''p'') = Ok (from_anthropic demo_response)"
    by (simp add: anthropic_complete_def demo_complete)
  have calls: "streamed_calls 0 (ar_content demo_response) =
      [\<lparr> tc_id = ''toolu_stream_1'', tc_name = ''ls'', tc_args = JObj [] \<rparr>]"
    by (simp add: demo_response_def show_small del: show_nat.simps)
  have "\<exists>full k. anthropic_complete demo_wire demo_anthropic (single_user ''big'' ''p'') = Ok full \<and>
    anthropic_stream demo_wire demo_anthropic (single_user ''big'' ''p'') (open_sink sink_send) sink_new = (Ok (), k) \<and>
    sk_final_response k = Some (full\<lparr> rs_tool_calls := streamed_calls 0 (ar_content demo_response),
      rs_usage := \<lparr> input_tokens = 0, output_tokens = output_tokens (rs_usage full) \<rparr>,
      rs_model := rq_model (single_user ''big'' ''p'') \<rparr>) \<and>
    map (\<lambda>c. (tc_name c, tc_args c)) (streamed_calls 0 (ar_content demo_response)) =
      map (\<lambda>c. (tc_name c, tc_args c)) (rs_tool_calls full) \<and>
    rs_content full = Text (sk_text k)"
  proof (rule anthropic_stream_matches_complete)
    show "wr_http demo_wire (?rq True) = HttpReply 200 (map Ok [concat (map sse_frame demo_events)])"
      by (simp add: demo_wire_def demo_stream_flag)
    show "list_all2 (carries (wr_json demo_wire))
        (response_payloads demo_response [[''h'', ''i''], [[], ''{}'']]) (filter message_event demo_events)"
      by (rule demo_carried)
    show "list_all2 (fragments_of (wr_json demo_wire)) (ar_content demo_response) [[''h'', ''i''], [[], ''{}'']]"
      by (simp add: demo_response_def demo_wire_def starts_with_def)
    show "length (ar_content demo_response) \<le> 2 ^ 64" by (simp add: demo_response_def)
  qed (use demo_frameable demo_ascii demo_complete in \<open>simp_all add: is_success_def\<close>)
  then show ?thesis by (auto simp: c full calls)
qed

text \<open>What else the markers do: a call whose arguments never arrive keeps its marker as its
  arguments, and a call whose only fragment is empty is dropped.\<close>

lemma anthropic_unfinished_calls:
  assumes "carries J (block_start 0 (ApiToolUse d n v)) e" "carries J (block_delta 0 (ApiToolUse d n v) []) e'"
    and "jt_parse J (id_marker d) = None"
  shows "rs_tool_calls (anthropic_finalize J (snd (decode_all (decode_anthropic_event J) [e] (anthropic_new m)))) =
      [\<lparr> tc_id = ''toolu_stream_0'', tc_name = n, tc_args = JStr (id_marker d) \<rparr>]"
    and "rs_tool_calls (anthropic_finalize J (snd (decode_all (decode_anthropic_event J) [e, e'] (anthropic_new m)))) = []"
proof -
  let ?a = "with_block [] n (id_marker d) (anthropic_new m)"
  have s: "snd (decode_all (decode_anthropic_event J) [e] (anthropic_new m)) = ?a"
    by (simp add: decode_block_start [OF assms(1)] anthropic_inv_def anthropic_new_def)
  have "id_marker d \<noteq> []" by (simp add: id_marker_def)
  then show "rs_tool_calls (anthropic_finalize J (snd (decode_all (decode_anthropic_event J) [e] (anthropic_new m)))) =
      [\<lparr> tc_id = ''toolu_stream_0'', tc_name = n, tc_args = JStr (id_marker d) \<rparr>]"
    unfolding s using assms(3)
    by (simp add: anthropic_finalize_def with_block_def anthropic_new_def anthropic_call_def args_value_def
        show_small del: show_nat.simps)
  have "snd (decode_all (decode_anthropic_event J) [e'] ?a) =
      ?a\<lparr> an_arg_buffers := (an_arg_buffers ?a)[0 := [] @ concat [[]]] \<rparr>"
    by (rule decode_args_deltas [where i = 0 and fs = "[[]]"])
       (use assms(2) in \<open>simp_all add: with_block_def anthropic_new_def strip_marker_id starts_with_def\<close>)
  then show "rs_tool_calls (anthropic_finalize J
      (snd (decode_all (decode_anthropic_event J) [e, e'] (anthropic_new m)))) = []"
    using anthropic_append [of J "[e]" "[e']" "anthropic_new m"] s
    by (simp add: anthropic_finalize_def with_block_def anthropic_new_def del: decode_all.simps)
qed

text \<open>At most one system text is lifted out of the messages: the explicit one, or else the first; all
  system messages leave the list, so the others are lost.\<close>

lemma split_system_spec:
  "split_system ms system =
    (case system of
       Some s \<Rightarrow> Some s
     | None \<Rightarrow> map_option (\<lambda>m. as_text (msg_content m)) (List.find (\<lambda>m. msg_role m = System) ms),
     map anthropic_message (filter (\<lambda>m. msg_role m \<noteq> System) ms))"
  by (induction ms arbitrary: system) (auto split: option.splits)

end
