(* ===== verification/OpenAi.thy ===== *)
theory OpenAi
  imports Wire
begin

text \<open>
  The OpenAI adapter (\<^verbatim>\<open>provider/src/adapters/openai.rs\<close>): the request body, the accumulator with the
  handler of every chunk, the non-streaming response type, and the two operations of the provider.
  The handler is an instance of \<open>stream_decoder\<close>.
\<close>

subsection \<open>Configuration and request body\<close>

record openai_config =
  openai_api_key :: string
  openai_endpoint :: string

definition OPENAI_ENDPOINT :: string where
  "OPENAI_ENDPOINT = ''https://api.openai.com/v1/chat/completions''"

definition openai_config_new :: "string \<Rightarrow> openai_config" where
  "openai_config_new k = \<lparr> openai_api_key = k, openai_endpoint = OPENAI_ENDPOINT \<rparr>"

definition openai_with_endpoint :: "string \<Rightarrow> openai_config \<Rightarrow> openai_config" where
  "openai_with_endpoint e c = c\<lparr> openai_endpoint := e \<rparr>"

fun openai_role :: "role \<Rightarrow> string" where
  "openai_role System = ''system''"
| "openai_role User = ''user''"
| "openai_role Assistant = ''assistant''"
| "openai_role Tool = ''tool''"

text \<open>Only the text blocks are kept.\<close>

fun openai_content_to_json :: "message_content \<Rightarrow> json" where
  "openai_content_to_json (Text s) = JStr s"
| "openai_content_to_json (Blocks bs) =
    JStr (fold (\<lambda>b s. case b of BText t \<Rightarrow> s @ t | _ \<Rightarrow> s) bs [])"

definition openai_message_to_json :: "llm_message \<Rightarrow> json" where
  "openai_message_to_json m =
    JObj [(''role'', JStr (openai_role (msg_role m))), (''content'', openai_content_to_json (msg_content m))]"

definition openai_tool_to_json :: "tool_spec \<Rightarrow> json" where
  "openai_tool_to_json t =
    JObj [(''type'', JStr ''function''),
      (''function'', JObj [(''name'', JStr (ts_name t)), (''description'', JStr (ts_description t)),
         (''parameters'', ts_input_schema t)])]"

definition openai_build_body :: "llm_request \<Rightarrow> bool \<Rightarrow> json" where
  "openai_build_body req stream =
    (let b0 = JObj [(''model'', JStr (rq_model req)),
           (''messages'', JArr (map openai_message_to_json (rq_messages req))), (''stream'', JBool stream)];
         b1 = set_opt ''max_tokens'' (map_option u32_json (rq_max_tokens req)) b0;
         b2 = set_opt ''temperature'' (Option.bind (rq_temperature req) number_from_f32) b1
     in if rq_tools req = [] then b2
        else jset ''tools'' (JArr (map openai_tool_to_json (rq_tools req))) b2)"

definition openai_request :: "openai_config \<Rightarrow> llm_request \<Rightarrow> bool \<Rightarrow> http_request" where
  "openai_request c req stream =
    \<lparr> hq_url = openai_endpoint c,
      hq_headers = [(''authorization'', ''Bearer '' @ openai_api_key c)],
      hq_body = openai_build_body req stream \<rparr>"

subsection \<open>The accumulator\<close>

record openai_acc =
  oa_model :: string
  oa_text :: string
  oa_tool_calls :: "tool_call list"
  oa_arg_buffers :: "string list"
  oa_tool_ids :: "string list"
  oa_tool_names :: "string list"
  oa_usage :: usage
  oa_stop_reason :: stop_reason

definition openai_new :: "string \<Rightarrow> openai_acc" where
  "openai_new m = \<lparr> oa_model = m, oa_text = [], oa_tool_calls = [], oa_arg_buffers = [],
     oa_tool_ids = [], oa_tool_names = [], oa_usage = usage_default, oa_stop_reason = Stop \<rparr>"

definition nth_or_empty :: "string list \<Rightarrow> nat \<Rightarrow> string" where
  "nth_or_empty xs i = (if i < length xs then xs ! i else [])"

definition openai_finalize :: "json_text \<Rightarrow> openai_acc \<Rightarrow> llm_response" where
  "openai_finalize J a =
    \<lparr> rs_content = Text (oa_text a), rs_stop_reason = oa_stop_reason a,
      rs_tool_calls = oa_tool_calls a @
        map (\<lambda>(i, b). \<lparr> tc_id = nth_or_empty (oa_tool_ids a) i, tc_name = nth_or_empty (oa_tool_names a) i,
                         tc_args = args_value J b \<rparr>)
          (filter (\<lambda>(i, b). b \<noteq> []) (enumerate 0 (oa_arg_buffers a))),
      rs_usage = oa_usage a, rs_model = oa_model a \<rparr>"

definition openai_grow :: "nat \<Rightarrow> openai_acc \<Rightarrow> openai_acc" where
  "openai_grow i a =
    (let fresh = replicate (Suc i - length (oa_arg_buffers a)) []
     in a\<lparr> oa_arg_buffers := oa_arg_buffers a @ fresh, oa_tool_ids := oa_tool_ids a @ fresh,
           oa_tool_names := oa_tool_names a @ fresh \<rparr>)"

text \<open>One element of \<^verbatim>\<open>delta.tool_calls\<close> up to its arguments.\<close>

definition openai_open_call :: "json \<Rightarrow> openai_acc \<Rightarrow> nat \<times> openai_acc" where
  "openai_open_call call a =
    (let idx = unwrap_or (jfield call ''index'' jnat) 0;
         a1 = openai_grow idx a;
         a2 = (case jfield call ''id'' jstr of
                 Some i \<Rightarrow> a1\<lparr> oa_tool_ids := (oa_tool_ids a1)[idx := i] \<rparr> | None \<Rightarrow> a1);
         a3 = (case Option.bind (jget call ''function'') (\<lambda>f. jfield f ''name'' jstr) of
                 Some n \<Rightarrow> a2\<lparr> oa_tool_names := (oa_tool_names a2)[idx := oa_tool_names a2 ! idx @ n] \<rparr>
               | None \<Rightarrow> a2)
     in (idx, a3))"

fun handle_tool_call_delta :: "json list \<Rightarrow> openai_acc \<Rightarrow> stream_event option \<times> openai_acc" where
  "handle_tool_call_delta [] a = (None, a)"
| "handle_tool_call_delta (call # calls) a =
    (let (idx, a1) = openai_open_call call a in
     case Option.bind (jget call ''function'') (\<lambda>f. jfield f ''arguments'' jstr) of
       Some args \<Rightarrow>
         (Some (ToolCallDelta
            (if oa_tool_ids a1 ! idx = [] then None else Some (oa_tool_ids a1 ! idx)) None (Some args)),
          a1\<lparr> oa_arg_buffers := (oa_arg_buffers a1)[idx := oa_arg_buffers a1 ! idx @ args] \<rparr>)
     | None \<Rightarrow> handle_tool_call_delta calls a1)"

definition openai_stop_reason :: "string \<Rightarrow> stop_reason" where
  "openai_stop_reason s =
    (if s = ''stop'' then Stop
     else if s = ''length'' then Length
     else if s = ''tool_calls'' \<or> s = ''function_call'' then StopToolUse
     else if s = ''content_filter'' then ContentFilter
     else Stop)"

text \<open>The delta of the first choice; an event ends the handling of the chunk.\<close>

definition openai_delta :: "json \<Rightarrow> openai_acc \<Rightarrow> stream_event option \<times> openai_acc" where
  "openai_delta delta a =
    (let content = unwrap_or (jfield delta ''content'' jstr) [] in
     if content \<noteq> [] then (Some (ContentDelta content), a\<lparr> oa_text := oa_text a @ content \<rparr>)
     else case jfield delta ''tool_calls'' jarr of
       Some calls \<Rightarrow> handle_tool_call_delta calls a
     | None \<Rightarrow> (None, a))"

definition openai_trailer :: "json \<Rightarrow> json \<Rightarrow> openai_acc \<Rightarrow> openai_acc" where
  "openai_trailer v first a =
    (let a1 = (case jfield first ''finish_reason'' jstr of
                 Some r \<Rightarrow> a\<lparr> oa_stop_reason := openai_stop_reason r \<rparr> | None \<Rightarrow> a)
     in case jget v ''usage'' of
          None \<Rightarrow> a1
        | Some u \<Rightarrow>
            let a2 = (case jfield u ''prompt_tokens'' jnat of
                        Some p \<Rightarrow> a1\<lparr> oa_usage := (oa_usage a1)\<lparr> input_tokens := word_of_nat p \<rparr> \<rparr> | None \<Rightarrow> a1)
            in case jfield u ''completion_tokens'' jnat of
                 Some n \<Rightarrow> a2\<lparr> oa_usage := (oa_usage a2)\<lparr> output_tokens := word_of_nat n \<rparr> \<rparr> | None \<Rightarrow> a2)"

definition decode_openai_value :: "json \<Rightarrow> openai_acc \<Rightarrow> stream_event option \<times> openai_acc" where
  "decode_openai_value v a =
    (case jfield v ''choices'' jarr of
       Some (first # _) \<Rightarrow>
         (case (case jget first ''delta'' of None \<Rightarrow> (None, a) | Some delta \<Rightarrow> openai_delta delta a) of
            (Some out, b) \<Rightarrow> (Some out, b)
          | (None, b) \<Rightarrow> (None, openai_trailer v first b))
     | _ \<Rightarrow> (None, a))"

definition decode_openai_event ::
    "json_text \<Rightarrow> sse_event \<Rightarrow> openai_acc \<Rightarrow> (stream_event option, provider_error) result \<times> openai_acc" where
  "decode_openai_event J ev a =
    (case jt_parse J (ev_data ev) of
       None \<Rightarrow> (Ok None, a)
     | Some v \<Rightarrow> let (out, b) = decode_openai_value v a in (Ok out, b))"

text \<open>The sentinel is skipped by the loop.\<close>

definition openai_step ::
    "json_text \<Rightarrow> sse_event \<Rightarrow> openai_acc \<Rightarrow> (stream_event option, provider_error) result \<times> openai_acc" where
  "openai_step J ev a = (if ev_data ev = ''[DONE]'' then (Ok None, a) else decode_openai_event J ev a)"

subsection \<open>The non-streaming response\<close>

record openai_tool_call =
  ot_id :: string
  ot_name :: string
  ot_arguments :: string

record openai_choice =
  oc_finish_reason :: "string option"
  oc_content :: "string option"
  oc_tool_calls :: "openai_tool_call list"

record openai_response =
  or_choices :: "openai_choice list"
  or_prompt_tokens :: u32
  or_completion_tokens :: u32
  or_model :: string

definition openai_tool_call_of_json :: "json \<Rightarrow> openai_tool_call option" where
  "openai_tool_call_of_json j =
    Option.bind (text_fields [''id'', ''function''] j) (\<lambda>f.
    Option.bind (req_field jstr f ''id'') (\<lambda>i.
    Option.bind (req_field (text_fields [''name'', ''arguments'']) f ''function'') (\<lambda>g.
    Option.bind (req_field jstr g ''name'') (\<lambda>n.
    Option.bind (req_field jstr g ''arguments'') (\<lambda>b.
      Some \<lparr> ot_id = i, ot_name = n, ot_arguments = b \<rparr>)))))"

definition openai_choice_of_json :: "json \<Rightarrow> openai_choice option" where
  "openai_choice_of_json j =
    Option.bind (text_fields [''finish_reason'', ''message''] j) (\<lambda>f.
    Option.bind (opt_field jstr f ''finish_reason'') (\<lambda>r.
    Option.bind (req_field (text_fields [''content'', ''tool_calls'']) f ''message'') (\<lambda>m.
    Option.bind (opt_field jstr m ''content'') (\<lambda>c.
    Option.bind (def_field [] (jlist openai_tool_call_of_json) m ''tool_calls'') (\<lambda>ts.
      Some \<lparr> oc_finish_reason = r, oc_content = c, oc_tool_calls = ts \<rparr>)))))"

definition openai_usage_of_json :: "json \<Rightarrow> (u32 \<times> u32) option" where
  "openai_usage_of_json j =
    Option.bind (text_fields [''prompt_tokens'', ''completion_tokens''] j) (\<lambda>f.
    Option.bind (def_field 0 ju32 f ''prompt_tokens'') (\<lambda>p.
    Option.bind (def_field 0 ju32 f ''completion_tokens'') (\<lambda>n. Some (p, n))))"

definition openai_response_of_json :: "json \<Rightarrow> openai_response option" where
  "openai_response_of_json j =
    Option.bind (text_fields [''choices'', ''usage'', ''model''] j) (\<lambda>f.
    Option.bind (req_field (jlist openai_choice_of_json) f ''choices'') (\<lambda>cs.
    Option.bind (def_field (0, 0) openai_usage_of_json f ''usage'') (\<lambda>u.
    Option.bind (req_field jstr f ''model'') (\<lambda>m.
      Some \<lparr> or_choices = cs, or_prompt_tokens = fst u, or_completion_tokens = snd u, or_model = m \<rparr>))))"

definition from_openai_call :: "json_text \<Rightarrow> openai_tool_call \<Rightarrow> tool_call" where
  "from_openai_call J c = \<lparr> tc_id = ot_id c, tc_name = ot_name c, tc_args = args_value J (ot_arguments c) \<rparr>"

definition from_openai :: "json_text \<Rightarrow> openai_response \<Rightarrow> llm_response" where
  "from_openai J r =
    (let first = (case or_choices r of [] \<Rightarrow> None | c # _ \<Rightarrow> Some c) in
     \<lparr> rs_content = Text (unwrap_or (Option.bind first oc_content) []),
       rs_stop_reason = (case Option.bind first oc_finish_reason of
          Some s \<Rightarrow> openai_stop_reason s | None \<Rightarrow> Stop),
       rs_tool_calls = (case first of Some c \<Rightarrow> map (from_openai_call J) (oc_tool_calls c) | None \<Rightarrow> []),
       rs_usage = \<lparr> input_tokens = or_prompt_tokens r, output_tokens = or_completion_tokens r \<rparr>,
       rs_model = or_model r \<rparr>)"

subsection \<open>The provider\<close>

definition openai_complete ::
    "wire \<Rightarrow> openai_config \<Rightarrow> llm_request \<Rightarrow> (llm_response, provider_error) result" where
  "openai_complete w c req =
    map_ok (from_openai (wr_json w))
      (complete_call w ''openai'' (openai_request c req False) openai_response_of_json)"

definition openai_stream ::
    "wire \<Rightarrow> openai_config \<Rightarrow> llm_request \<Rightarrow> 'k sink \<Rightarrow> 'k \<Rightarrow> (unit, provider_error) result \<times> 'k" where
  "openai_stream w c req send =
    stream_call w (openai_request c req True) (rq_model req) send
      (sse_pump (openai_step (wr_json w)) send sse_new (openai_new (rq_model req)))
      (openai_finalize (wr_json w))"

subsection \<open>The handler\<close>

lemma openai_open_call_frame [simp]:
  "oa_text (snd (openai_open_call call a)) = oa_text a"
  "oa_model (snd (openai_open_call call a)) = oa_model a"
  by (auto simp: openai_open_call_def openai_grow_def Let_def split: option.splits)

lemma handle_tool_call_frame:
  "handle_tool_call_delta calls a = (out, b) \<Longrightarrow>
    oa_text b = oa_text a \<and> oa_model b = oa_model a \<and>
    (case out of None \<Rightarrow> True | Some d \<Rightarrow> is_delta d \<and> stream_text [d] = [])"
proof (induction calls arbitrary: a)
  case (Cons call calls)
  obtain i a1 where o: "openai_open_call call a = (i, a1)" by (cases "openai_open_call call a")
  with openai_open_call_frame [of call a] have f: "oa_text a1 = oa_text a" "oa_model a1 = oa_model a" by auto
  show ?case
  proof (cases "Option.bind (jget call ''function'') (\<lambda>f. jfield f ''arguments'' jstr)")
    case None
    with Cons.prems o have "handle_tool_call_delta calls a1 = (out, b)" by simp
    from Cons.IH [OF this] f show ?thesis by simp
  next
    case (Some args)
    with Cons.prems o f show ?thesis by auto
  qed
qed auto

lemma openai_delta_text:
  "openai_delta delta a = (out, b) \<Longrightarrow>
    (case out of None \<Rightarrow> oa_text b = oa_text a
      | Some d \<Rightarrow> is_delta d \<and> oa_text b = oa_text a @ stream_text [d]) \<and> oa_model b = oa_model a"
  by (auto simp: openai_delta_def Let_def split: if_splits option.splits
      dest!: handle_tool_call_frame)

lemma openai_trailer_frame [simp]:
  "oa_text (openai_trailer v first a) = oa_text a" "oa_model (openai_trailer v first a) = oa_model a"
  by (auto simp: openai_trailer_def Let_def split: option.splits)

lemma decode_openai_value_text:
  assumes "decode_openai_value v a = (out, b)"
  shows "(case out of None \<Rightarrow> oa_text b = oa_text a
      | Some d \<Rightarrow> is_delta d \<and> oa_text b = oa_text a @ stream_text [d]) \<and> oa_model b = oa_model a"
proof (cases "jfield v ''choices'' jarr")
  case (Some cs)
  show ?thesis
  proof (cases cs)
    case (Cons first fs)
    obtain o1 b1 where d: "(case jget first ''delta'' of None \<Rightarrow> (None, a) | Some delta \<Rightarrow> openai_delta delta a) = (o1, b1)"
      by (cases "case jget first ''delta'' of None \<Rightarrow> (None, a) | Some delta \<Rightarrow> openai_delta delta a")
    then have "(case o1 of None \<Rightarrow> oa_text b1 = oa_text a
      | Some d \<Rightarrow> is_delta d \<and> oa_text b1 = oa_text a @ stream_text [d]) \<and> oa_model b1 = oa_model a"
      using openai_delta_text [of _ a o1 b1] by (auto split: option.splits)
    with assms d Some Cons show ?thesis
      by (auto simp: decode_openai_value_def split: option.splits)
  qed (use assms Some in \<open>auto simp: decode_openai_value_def\<close>)
qed (use assms in \<open>auto simp: decode_openai_value_def\<close>)

interpretation openai: stream_decoder "openai_step J" oa_text "openai_finalize J" oa_model
proof
  fix ev a q b
  assume "openai_step J ev a = (q, b)"
  then obtain out where o: "q = Ok out" and
    d: "out = None \<and> b = a \<or> (\<exists>v. decode_openai_value v a = (out, b))"
    by (auto simp: openai_step_def decode_openai_event_def split: if_splits option.splits prod.splits)
  have "(case out of None \<Rightarrow> oa_text b = oa_text a
      | Some d \<Rightarrow> is_delta d \<and> oa_text b = oa_text a @ stream_text [d]) \<and> oa_model b = oa_model a"
    using d decode_openai_value_text [of _ a out b] by auto
  then show "case q of Ok None \<Rightarrow> oa_text b = oa_text a
      | Ok (Some d) \<Rightarrow> is_delta d \<and> oa_text b = oa_text a @ stream_text [d] | Err x \<Rightarrow> False"
    and "oa_model b = oa_model a"
    by (auto simp: o split: option.splits)
qed (simp_all add: openai_finalize_def)

text \<open>The three vectors keep one length, so the indices of the handler are in range.\<close>

definition openai_inv :: "openai_acc \<Rightarrow> bool" where
  "openai_inv a \<longleftrightarrow> length (oa_tool_ids a) = length (oa_arg_buffers a) \<and>
     length (oa_tool_names a) = length (oa_arg_buffers a)"

lemma openai_open_call_inv:
  "openai_inv a \<Longrightarrow> openai_open_call call a = (i, b) \<Longrightarrow> openai_inv b \<and> i < length (oa_arg_buffers b)"
  by (auto simp: openai_open_call_def openai_grow_def openai_inv_def Let_def split: option.splits)

lemma handle_tool_call_inv:
  "openai_inv a \<Longrightarrow> openai_inv (snd (handle_tool_call_delta calls a))"
proof (induction calls arbitrary: a)
  case (Cons call calls)
  obtain i a1 where o: "openai_open_call call a = (i, a1)" by (cases "openai_open_call call a")
  from openai_open_call_inv [OF Cons.prems o] have "openai_inv a1" by simp
  with Cons.IH [OF this] show ?case
    by (auto simp: o openai_inv_def split: option.splits)
qed simp

lemma openai_step_inv: "openai_inv a \<Longrightarrow> openai_inv (snd (openai_step J ev a))"
proof -
  assume a: "openai_inv a"
  have t: "openai_inv (openai_trailer v f b) = openai_inv b" for v f b
    by (auto simp: openai_trailer_def openai_inv_def Let_def split: option.splits)
  have d: "openai_inv (snd (openai_delta delta a))" for delta
    using a handle_tool_call_inv [OF a]
    by (auto simp: openai_delta_def Let_def openai_inv_def split: option.splits)
  have "openai_inv (snd (decode_openai_value v a))" for v
    using a d t by (auto simp: decode_openai_value_def split: option.splits list.splits prod.splits)
       (metis snd_conv)+
  with a show ?thesis
    by (auto simp: openai_step_def decode_openai_event_def split: option.splits prod.splits) (metis snd_conv)
qed

subsection \<open>Streamed and non-streamed responses\<close>

text \<open>The chunks that the API documents for a streamed choice, by the fields they must have; all others (\<^verbatim>\<open>id\<close>,
  \<^verbatim>\<open>object\<close>, \<^verbatim>\<open>created\<close>, \<^verbatim>\<open>model\<close>, \<^verbatim>\<open>index\<close>, \<^verbatim>\<open>role\<close>, \<^verbatim>\<open>logprobs\<close>, ...) are free. The text and the arguments of each call
  come in fragments, the first of a call with its id and name; the last chunk has the reason why it stopped. The
  request asks for no usage, so no chunk with a choice carries one.\<close>

definition absent :: "json \<Rightarrow> string \<Rightarrow> bool" where
  "absent j k \<longleftrightarrow> jget j k \<in> {None, Some JNull}"

definition chunk :: "(json \<Rightarrow> bool) \<Rightarrow> string option \<Rightarrow> json \<Rightarrow> bool" where
  "chunk delta_ok reason v \<longleftrightarrow> absent v ''usage'' \<and> (\<exists>first more d.
     jget v ''choices'' = Some (JArr (first # more)) \<and> jget first ''delta'' = Some d \<and> delta_ok d \<and>
     (case reason of None \<Rightarrow> absent first ''finish_reason'' | Some r \<Rightarrow> jget first ''finish_reason'' = Some (JStr r)))"

definition text_delta :: "string \<Rightarrow> json \<Rightarrow> bool" where
  "text_delta f d \<longleftrightarrow> (jget d ''content'' = Some (JStr f) \<or> f = [] \<and> absent d ''content'') \<and> absent d ''tool_calls''"

definition call_delta :: "(json \<Rightarrow> bool) \<Rightarrow> json \<Rightarrow> bool" where
  "call_delta call_ok d \<longleftrightarrow> (absent d ''content'' \<or> jget d ''content'' = Some (JStr [])) \<and>
     (\<exists>call. jget d ''tool_calls'' = Some (JArr [call]) \<and> call_ok call)"

definition opens :: "nat \<Rightarrow> openai_tool_call \<Rightarrow> string \<Rightarrow> json \<Rightarrow> bool" where
  "opens i c f call \<longleftrightarrow> jget call ''index'' = Some (JInt (int i)) \<and> jget call ''id'' = Some (JStr (ot_id c)) \<and>
     (\<exists>g. jget call ''function'' = Some g \<and> jget g ''name'' = Some (JStr (ot_name c)) \<and>
       jget g ''arguments'' = Some (JStr f))"

definition continues :: "nat \<Rightarrow> string \<Rightarrow> json \<Rightarrow> bool" where
  "continues i f call \<longleftrightarrow> jget call ''index'' = Some (JInt (int i)) \<and> absent call ''id'' \<and>
     (\<exists>g. jget call ''function'' = Some g \<and> absent g ''name'' \<and> jget g ''arguments'' = Some (JStr f))"

definition text_chunk :: "string \<Rightarrow> json \<Rightarrow> bool" where
  "text_chunk f = chunk (text_delta f) None"

definition open_chunk :: "nat \<Rightarrow> openai_tool_call \<Rightarrow> string \<Rightarrow> json \<Rightarrow> bool" where
  "open_chunk i c f = chunk (call_delta (opens i c f)) None"

definition args_chunk :: "nat \<Rightarrow> string \<Rightarrow> json \<Rightarrow> bool" where
  "args_chunk i f = chunk (call_delta (continues i f)) None"

fun calls_chunks :: "nat \<Rightarrow> (openai_tool_call \<times> string list) list \<Rightarrow> (json \<Rightarrow> bool) list" where
  "calls_chunks i [] = []"
| "calls_chunks i ((c, fs) # cs) = open_chunk i c (hd fs) # map (args_chunk i) (tl fs) @ calls_chunks (Suc i) cs"

definition finish_chunk :: "string option \<Rightarrow> json \<Rightarrow> bool" where
  "finish_chunk r = chunk (text_delta []) r"

definition choice_chunks :: "openai_choice \<Rightarrow> string list \<Rightarrow> string list list \<Rightarrow> (json \<Rightarrow> bool) list" where
  "choice_chunks c fs fss =
    map text_chunk fs @ calls_chunks 0 (zip (oc_tool_calls c) fss) @ [finish_chunk (oc_finish_reason c)]"

definition holds_chunk :: "json_text \<Rightarrow> (json \<Rightarrow> bool) \<Rightarrow> sse_event \<Rightarrow> bool" where
  "holds_chunk J p ev \<longleftrightarrow> ev_data ev \<noteq> ''[DONE]'' \<and> (\<exists>v. jt_parse J (ev_data ev) = Some v \<and> p v)"

text \<open>Some servers send chunks without choices too, with a report of filters or, unasked, the usage.\<close>

definition no_choice :: "json_text \<Rightarrow> sse_event \<Rightarrow> bool" where
  "no_choice J ev \<longleftrightarrow> ev_data ev \<noteq> ''[DONE]'' \<and>
     (case jt_parse J (ev_data ev) of None \<Rightarrow> False | Some v \<Rightarrow> jget v ''choices'' = Some (JArr []))"

lemma openai_step_chunk:
  "ev_data ev \<noteq> ''[DONE]'' \<Longrightarrow> jt_parse J (ev_data ev) = Some v \<Longrightarrow>
    openai_step J ev a = (Ok (fst (decode_openai_value v a)), snd (decode_openai_value v a))"
  by (simp add: openai_step_def decode_openai_event_def split: prod.split)

text \<open>The state after a list of events.\<close>

definition after_events :: "json_text \<Rightarrow> sse_event list \<Rightarrow> openai_acc \<Rightarrow> openai_acc" where
  "after_events J evs a = snd (decode_all (openai_step J) evs a)"

lemma after_events_simps:
  "after_events J [] a = a"
  "after_events J (ev # evs) a = after_events J evs (snd (openai_step J ev a))"
  "after_events J (es @ fs) a = after_events J fs (after_events J es a)"
  by (simp_all add: after_events_def decode_all_Cons decode_all_append openai.step_ok del: decode_all.simps(2))

lemma after_no_choice: "after_events J (filter (\<lambda>e. \<not> no_choice J e) evs) a = after_events J evs a"
proof (induction evs arbitrary: a)
  case (Cons ev evs)
  have "snd (openai_step J ev a) = a" if "no_choice J ev"
    using that by (auto simp: no_choice_def openai_step_chunk decode_openai_value_def jfield_def split: option.splits)
  with Cons show ?case by (simp add: after_events_simps)
qed simp

lemma absent_field: "absent j k \<Longrightarrow> jfield j k jstr = None" "absent j k \<Longrightarrow> jfield j k jarr = None"
  by (auto simp: absent_def jfield_def)

lemma absent_usage: "absent v ''usage'' \<Longrightarrow> openai_trailer v first a =
    (case jfield first ''finish_reason'' jstr of
       Some r \<Rightarrow> a\<lparr> oa_stop_reason := openai_stop_reason r \<rparr> | None \<Rightarrow> a)"
  by (auto simp: absent_def openai_trailer_def jfield_def split: option.splits)

text \<open>What a chunk does to the state: its delta, and its reason when the delta has nothing to forward.\<close>

lemma chunk_step:
  assumes "holds_chunk J (chunk dok r) ev"
  obtains d where "dok d" "snd (openai_step J ev a) =
      (case openai_delta d a of
         (Some out, b) \<Rightarrow> b
       | (None, b) \<Rightarrow> (case r of Some s \<Rightarrow> b\<lparr> oa_stop_reason := openai_stop_reason s \<rparr> | None \<Rightarrow> b))"
proof -
  from assms obtain v first more d where v: "ev_data ev \<noteq> ''[DONE]''" "jt_parse J (ev_data ev) = Some v"
    "absent v ''usage''" "jget v ''choices'' = Some (JArr (first # more))" "jget first ''delta'' = Some d" "dok d"
    and f: "case r of None \<Rightarrow> absent first ''finish_reason'' | Some s \<Rightarrow> jget first ''finish_reason'' = Some (JStr s)"
    unfolding holds_chunk_def chunk_def by blast
  from f have "jfield first ''finish_reason'' jstr = r"
    by (cases r) (simp_all add: absent_field, simp add: jfield_def)
  with v show thesis
    by (intro that [of d])
      (auto simp: openai_step_chunk decode_openai_value_def jfield_def absent_usage split: prod.splits option.splits)
qed

lemma chunk_step_open:
  assumes "holds_chunk J (chunk dok None) ev"
  obtains d where "dok d" "snd (openai_step J ev a) = snd (openai_delta d a)"
proof -
  from chunk_step [OF assms, of a] obtain d where "dok d" "snd (openai_step J ev a) =
      (case openai_delta d a of (Some out, b) \<Rightarrow> b | (None, b) \<Rightarrow> case None of None \<Rightarrow> b
         | Some s \<Rightarrow> b\<lparr> oa_stop_reason := openai_stop_reason s \<rparr>)"
    by blast
  then show thesis by (intro that [of d]) (simp_all split: prod.splits option.splits)
qed

lemma text_delta_step:
  assumes "text_delta f d"
  shows "openai_delta d a = (if f = [] then None else Some (ContentDelta f), a\<lparr> oa_text := oa_text a @ f \<rparr>)"
proof (cases "jget d ''content'' = Some (JStr f)")
  case True
  with assms show ?thesis
    by (simp add: text_delta_def openai_delta_def absent_field unwrap_or_def Let_def) (simp add: jfield_def)
next
  case False
  with assms show ?thesis
    by (simp add: text_delta_def openai_delta_def absent_field unwrap_or_def Let_def)
qed

lemma after_text:
  "list_all2 (holds_chunk J) (map text_chunk fs) evs \<Longrightarrow>
    after_events J evs a = a\<lparr> oa_text := oa_text a @ concat fs \<rparr>"
proof (induction fs arbitrary: evs a)
  case (Cons f fs)
  from Cons.prems obtain ev evs' where ev: "evs = ev # evs'" "holds_chunk J (text_chunk f) ev"
    "list_all2 (holds_chunk J) (map text_chunk fs) evs'"
    unfolding list.map list_all2_Cons1 by blast
  from ev(2) obtain d where "text_delta f d" "snd (openai_step J ev a) = snd (openai_delta d a)"
    unfolding text_chunk_def by (rule chunk_step_open)
  with text_delta_step have "snd (openai_step J ev a) = a\<lparr> oa_text := oa_text a @ f \<rparr>" by simp
  with Cons.IH [OF ev(3)] show ?case by (simp add: ev(1) after_events_simps)
qed (simp add: after_events_simps)

definition with_call :: "string \<Rightarrow> string \<Rightarrow> string \<Rightarrow> openai_acc \<Rightarrow> openai_acc" where
  "with_call i n b a =
    a\<lparr> oa_tool_ids := oa_tool_ids a @ [i], oa_tool_names := oa_tool_names a @ [n],
       oa_arg_buffers := oa_arg_buffers a @ [b] \<rparr>"

lemma call_delta_step:
  assumes "call_delta dok d"
  obtains call where "dok call" "openai_delta d a = handle_tool_call_delta [call] a"
proof -
  from assms obtain call where c: "jget d ''tool_calls'' = Some (JArr [call])" "dok call"
    and t: "absent d ''content'' \<or> jget d ''content'' = Some (JStr [])" by (auto simp: call_delta_def)
  from t have "unwrap_or (jfield d ''content'' jstr) [] = []"
    by (auto simp: absent_field unwrap_or_def) (simp add: jfield_def)
  with c show thesis by (intro that [of call]) (simp_all add: openai_delta_def jfield_def Let_def)
qed

lemma call_chunk_step:
  assumes "holds_chunk J (chunk (call_delta dok) None) ev"
  obtains call where "dok call" "snd (openai_step J ev a) = snd (handle_tool_call_delta [call] a)"
proof -
  from assms obtain d where d: "call_delta dok d" "snd (openai_step J ev a) = snd (openai_delta d a)"
    by (rule chunk_step_open)
  from call_delta_step [OF d(1), of a] obtain call where
    "dok call" "openai_delta d a = handle_tool_call_delta [call] a" by blast
  with d(2) show thesis by (intro that [of call]) (simp_all split: prod.splits option.splits)
qed

lemma after_open:
  assumes "holds_chunk J (open_chunk i c f) ev" "openai_inv a" "length (oa_arg_buffers a) = i" "i < 2 ^ 64"
  shows "snd (openai_step J ev a) = with_call (ot_id c) (ot_name c) f a"
proof -
  from call_chunk_step [OF assms(1) [unfolded open_chunk_def], of a] obtain call where
    "opens i c f call" and s: "snd (openai_step J ev a) = snd (handle_tool_call_delta [call] a)" by blast
  then obtain g where "jget call ''index'' = Some (JInt (int i))" "jget call ''id'' = Some (JStr (ot_id c))"
    "jget call ''function'' = Some g" "jget g ''name'' = Some (JStr (ot_name c))" "jget g ''arguments'' = Some (JStr f)"
    by (auto simp: opens_def)
  with assms(2-4) show ?thesis
    unfolding s by (simp add: jfield_def unwrap_or_def openai_open_call_def openai_grow_def openai_inv_def
        with_call_def list_update_append nth_append Let_def)
qed

lemma after_args:
  "list_all2 (holds_chunk J) (map (args_chunk i) fs) evs \<Longrightarrow>
    i < length (oa_arg_buffers a) \<Longrightarrow> length (oa_arg_buffers a) \<le> 2 ^ 64 \<Longrightarrow>
    after_events J evs a =
    a\<lparr> oa_arg_buffers := (oa_arg_buffers a)[i := oa_arg_buffers a ! i @ concat fs] \<rparr>"
proof (induction fs arbitrary: evs a)
  case (Cons f fs)
  from Cons.prems(1) obtain ev evs' where ev: "evs = ev # evs'" "holds_chunk J (args_chunk i f) ev"
    "list_all2 (holds_chunk J) (map (args_chunk i) fs) evs'"
    unfolding list.map list_all2_Cons1 by blast
  from call_chunk_step [OF ev(2) [unfolded args_chunk_def], of a] obtain call where
    "continues i f call" and s: "snd (openai_step J ev a) = snd (handle_tool_call_delta [call] a)" by blast
  then obtain g where g: "jget call ''index'' = Some (JInt (int i))" "absent call ''id''"
    "jget call ''function'' = Some g" "absent g ''name''" "jget g ''arguments'' = Some (JStr f)"
    by (auto simp: continues_def)
  have "jfield call ''index'' jnat = Some i" using g(1) Cons.prems(2,3) by (simp add: jfield_def)
  then have "snd (openai_step J ev a) =
      a\<lparr> oa_arg_buffers := (oa_arg_buffers a)[i := oa_arg_buffers a ! i @ f] \<rparr>"
    using g Cons.prems(2) unfolding s
    by (simp add: unwrap_or_def openai_open_call_def openai_grow_def absent_field Let_def)
      (simp add: jfield_def)
  with Cons.IH [OF ev(3), of "a\<lparr> oa_arg_buffers := (oa_arg_buffers a)[i := oa_arg_buffers a ! i @ f] \<rparr>"] Cons.prems(2,3)
  show ?case by (simp add: ev(1) after_events_simps)
qed (simp add: after_events_simps)

lemma after_calls:
  assumes "list_all2 (holds_chunk J) (calls_chunks i cs) evs" "\<forall>(c, fs) \<in> set cs. fs \<noteq> []"
    and "openai_inv a" "length (oa_arg_buffers a) = i" "i + length cs \<le> 2 ^ 64"
  shows "after_events J evs a =
    a\<lparr> oa_tool_ids := oa_tool_ids a @ map (ot_id \<circ> fst) cs,
       oa_tool_names := oa_tool_names a @ map (ot_name \<circ> fst) cs,
       oa_arg_buffers := oa_arg_buffers a @ map (concat \<circ> snd) cs \<rparr>"
  using assms
proof (induction cs arbitrary: i evs a)
  case (Cons cf cs)
  obtain c fs where c: "cf = (c, fs)" by (cases cf)
  then have fs: "hd fs @ concat (tl fs) = concat fs" using Cons.prems(2) by (cases fs) auto
  from Cons.prems(1) obtain e es es' where evs: "evs = [e] @ es @ es'" "holds_chunk J (open_chunk i c (hd fs)) e"
    "list_all2 (holds_chunk J) (map (args_chunk i) (tl fs)) es" "list_all2 (holds_chunk J) (calls_chunks (Suc i) cs) es'"
    unfolding c calls_chunks.simps list_all2_Cons1 list_all2_append1 by auto
  let ?a = "with_call (ot_id c) (ot_name c) (concat fs) a"
  have "i < 2 ^ 64" using Cons.prems(5) by simp
  note open1 = after_open [OF evs(2) Cons.prems(3,4) this]
  have one: "after_events J es (with_call (ot_id c) (ot_name c) (hd fs) a) = ?a"
    using after_args [OF evs(3), of "with_call (ot_id c) (ot_name c) (hd fs) a"] Cons.prems(4,5) fs
    by (simp add: with_call_def nth_append list_update_append)
  have "after_events J es' ?a =
    ?a\<lparr> oa_tool_ids := oa_tool_ids ?a @ map (ot_id \<circ> fst) cs,
       oa_tool_names := oa_tool_names ?a @ map (ot_name \<circ> fst) cs,
       oa_arg_buffers := oa_arg_buffers ?a @ map (concat \<circ> snd) cs \<rparr>"
    by (rule Cons.IH [OF evs(4)]) (use Cons.prems in \<open>simp_all add: with_call_def openai_inv_def\<close>)
  then show ?case
    unfolding evs(1) by (simp add: after_events_simps open1 one) (simp add: c with_call_def comp_def)
qed (simp add: after_events_simps)

definition args_fragments :: "openai_tool_call \<Rightarrow> string list \<Rightarrow> bool" where
  "args_fragments c fs \<longleftrightarrow> concat fs = ot_arguments c \<and> ot_arguments c \<noteq> []"

lemma finalize_calls:
  "list_all2 args_fragments cs fss \<Longrightarrow> length ids = i \<Longrightarrow> length ns = i \<Longrightarrow>
    map (\<lambda>(i, b). \<lparr> tc_id = nth_or_empty (ids @ map ot_id cs) i, tc_name = nth_or_empty (ns @ map ot_name cs) i,
                    tc_args = args_value J b \<rparr>)
      (filter (\<lambda>(i, b). b \<noteq> []) (enumerate i (map concat fss))) = map (from_openai_call J) cs"
proof (induction cs fss arbitrary: ids ns i rule: list_all2_induct)
  case (Cons c cs fs fss)
  from Cons.IH [of "ids @ [ot_id c]" "Suc i" "ns @ [ot_name c]"] Cons.prems
  have "map (\<lambda>(i, b). \<lparr> tc_id = nth_or_empty (ids @ ot_id c # map ot_id cs) i,
        tc_name = nth_or_empty (ns @ ot_name c # map ot_name cs) i, tc_args = args_value J b \<rparr>)
      (filter (\<lambda>(i, b). b \<noteq> []) (enumerate (Suc i) (map concat fss))) = map (from_openai_call J) cs"
    by simp
  moreover have "(ids @ ot_id c # map ot_id cs) ! i = ot_id c" "(ns @ ot_name c # map ot_name cs) ! i = ot_name c"
    using Cons.prems by (simp_all add: nth_append)
  ultimately show ?case using Cons.hyps(1) Cons.prems
    by (simp add: args_fragments_def from_openai_call_def nth_or_empty_def)
qed simp

lemma after_finish:
  assumes "holds_chunk J (finish_chunk r) ev"
  shows "snd (openai_step J ev a) =
    a\<lparr> oa_stop_reason := (case r of Some s \<Rightarrow> openai_stop_reason s | None \<Rightarrow> oa_stop_reason a) \<rparr>"
proof -
  from assms obtain d where "text_delta [] d" "snd (openai_step J ev a) =
      (case openai_delta d a of
         (Some out, b) \<Rightarrow> b
       | (None, b) \<Rightarrow> (case r of Some s \<Rightarrow> b\<lparr> oa_stop_reason := openai_stop_reason s \<rparr> | None \<Rightarrow> b))"
    unfolding finish_chunk_def by (rule chunk_step [of J "text_delta []" r ev a])
  with text_delta_step [of "[]" d a] show ?thesis by (cases r) simp_all
qed

lemma args_fragments_nonempty: "args_fragments c fs \<Longrightarrow> fs \<noteq> []"
  by (auto simp: args_fragments_def)

lemma decode_choice:
  assumes "list_all2 (holds_chunk J) (choice_chunks c fs fss) (filter (\<lambda>e. \<not> no_choice J e) evs)"
    and "ev_data done = ''[DONE]''"
    and "concat fs = unwrap_or (oc_content c) []" "list_all2 args_fragments (oc_tool_calls c) fss"
    and "length (oc_tool_calls c) \<le> 2 ^ 64" "or_choices r = [c]"
  shows "openai_finalize J (snd (decode_all (openai_step J) (evs @ [done]) (openai_new m))) =
    (from_openai J r)\<lparr> rs_usage := usage_default, rs_model := m \<rparr>"
proof -
  let ?cs = "zip (oc_tool_calls c) fss"
  have len: "length (oc_tool_calls c) = length fss" using assms(4) by (rule list_all2_lengthD)
  then have m: "map (ot_id \<circ> fst) ?cs = map ot_id (oc_tool_calls c)"
    "map (ot_name \<circ> fst) ?cs = map ot_name (oc_tool_calls c)" "map (concat \<circ> snd) ?cs = map concat fss"
    by (metis map_map map_fst_zip, metis map_map map_fst_zip, metis map_map map_snd_zip)
  have ne: "\<forall>(c, fs) \<in> set ?cs. fs \<noteq> []"
    using assms(4) by (auto simp: list_all2_iff dest: args_fragments_nonempty)
  from assms(1) obtain es es' e where evs: "filter (\<lambda>e. \<not> no_choice J e) evs = es @ es' @ [e]"
    "list_all2 (holds_chunk J) (map text_chunk fs) es" "list_all2 (holds_chunk J) (calls_chunks 0 ?cs) es'"
    "holds_chunk J (finish_chunk (oc_finish_reason c)) e"
    unfolding choice_chunks_def list_all2_append1 by (auto simp: list_all2_Cons1)
  let ?a = "(openai_new m)\<lparr> oa_text := concat fs \<rparr>"
  have calls: "after_events J es' ?a =
    ?a\<lparr> oa_tool_ids := map ot_id (oc_tool_calls c), oa_tool_names := map ot_name (oc_tool_calls c),
        oa_arg_buffers := map concat fss \<rparr>"
    using after_calls [OF evs(3) ne, of ?a] assms(5) len m by (simp add: openai_new_def openai_inv_def)
  have skip: "snd (openai_step J done a) = a" for a
    using assms(2) by (simp add: openai_step_def)
  have "snd (decode_all (openai_step J) (evs @ [done]) (openai_new m)) =
      after_events J (es @ es' @ [e]) (openai_new m)"
    using after_no_choice [of J evs "openai_new m"]
    by (simp add: after_events_simps skip evs(1) flip: after_events_def)
  also have "\<dots> = ?a\<lparr> oa_tool_ids := map ot_id (oc_tool_calls c), oa_tool_names := map ot_name (oc_tool_calls c),
        oa_arg_buffers := map concat fss,
        oa_stop_reason := (case oc_finish_reason c of Some s \<Rightarrow> openai_stop_reason s | None \<Rightarrow> Stop) \<rparr>"
    using calls by (simp add: after_events_simps after_text [OF evs(2)] after_finish [OF evs(4)])
      (simp add: openai_new_def split: option.split)
  finally show ?thesis
    using finalize_calls [OF assms(4), of "[]" 0 "[]" J] assms(3,6)
    by (simp add: openai_finalize_def openai_new_def from_openai_def)
qed

text \<open>C26: a response streamed by an OpenAI server, with the chunks its API documents, its text and the arguments of
  its calls in any fragments and the bytes in any chunks of the network, is assembled to what \<^verbatim>\<open>complete\<close> returns: the
  text, stop reason and every call that has arguments with its id, name and parsed arguments; except that its usage is
  zero, because the request does not ask for it and the chunk without choices that would carry it is skipped, and that
  the model is the one that was asked for.\<close>

theorem openai_stream_matches_complete:
  assumes "wr_http w (openai_request c req True) = HttpReply s (map Ok bs)" "is_success s"
    and "\<forall>b \<in> set bs. utf8_valid b" "concat bs = concat (map sse_frame (evs @ [done]))"
    and "\<forall>e \<in> set (evs @ [done]). frameable e" "ev_data done = ''[DONE]''"
    and "list_all2 (holds_chunk (wr_json w)) (choice_chunks ch fs fss) (filter (\<lambda>e. \<not> no_choice (wr_json w) e) evs)"
    and "concat fs = unwrap_or (oc_content ch) []" "list_all2 args_fragments (oc_tool_calls ch) fss"
    and "length (oc_tool_calls ch) \<le> 2 ^ 64" "or_choices r = [ch]"
    and "complete_call w ''openai'' (openai_request c req False) openai_response_of_json = Ok r"
  shows "\<exists>full k. openai_complete w c req = Ok full \<and>
    openai_stream w c req (open_sink sink_send) sink_new = (Ok (), k) \<and>
    sk_final_response k = Some (full\<lparr> rs_usage := usage_default, rs_model := rq_model req \<rparr>) \<and>
    rs_content full = Text (sk_text k)"
proof -
  let ?J = "wr_json w"
  let ?run = "decode_all (openai_step ?J) (evs @ [done]) (openai_new (rq_model req))"
  let ?log = "MessageStart (skeleton (rq_model req)) # fst ?run @ [MessageStop (openai_finalize ?J (snd ?run))]"
  have st: "openai_stream w c req (open_sink sink_send) sink_new = (Ok (), sink_run ?log sink_new)"
    unfolding openai_stream_def sink_run_def
    by (rule openai.sse_stream_run [OF assms(1,2,5,4,3)])
  note fin = decode_choice [OF assms(7,6,8,9,10,11), of "rq_model req"]
  have last: "sk_final_response (sink_run ?log sink_new) = Some (openai_finalize ?J (snd ?run))"
    by (simp add: sink_run_def)
  have tx: "sk_text (sink_run ?log sink_new) = oa_text (snd ?run)"
    using openai.decode_all_text [of ?J "evs @ [done]" "openai_new (rq_model req)"] sink_run_text [of ?log sink_new]
    by (simp add: openai_new_def sink_new_def)
  have "rs_content (openai_finalize ?J (snd ?run)) = rs_content (from_openai ?J r)"
    by (simp add: fin)
  then have "rs_content (from_openai ?J r) = Text (oa_text (snd ?run))"
    by (simp add: openai_finalize_def)
  with st last tx fin assms(12) show ?thesis by (auto simp: openai_complete_def)
qed

definition demo_choice :: openai_choice where
  "demo_choice = \<lparr> oc_finish_reason = Some ''tool_calls'', oc_content = Some ''hi'',
     oc_tool_calls = [\<lparr> ot_id = ''c1'', ot_name = ''ls'', ot_arguments = ''{}'' \<rparr>] \<rparr>"

definition demo_or :: openai_response where
  "demo_or = \<lparr> or_choices = [demo_choice], or_prompt_tokens = 7, or_completion_tokens = 5, or_model = ''m'' \<rparr>"

definition demo_or_json :: json where
  "demo_or_json = JObj
    [(''choices'', JArr [JObj [(''finish_reason'', JStr ''tool_calls''),
       (''message'', JObj [(''content'', JStr ''hi''),
          (''tool_calls'', JArr [JObj [(''id'', JStr ''c1''),
             (''function'', JObj [(''name'', JStr ''ls''), (''arguments'', JStr ''{}'')])]])])]]),
     (''usage'', JObj [(''prompt_tokens'', JInt 7), (''completion_tokens'', JInt 5)]), (''model'', JStr ''m'')]"

text \<open>A stream as the API documents it, and a chunk with the usage, which some servers send.\<close>

definition demo_chunk :: "(string \<times> json) list \<Rightarrow> json \<Rightarrow> json" where
  "demo_chunk delta reason = JObj
    [(''id'', JStr ''chatcmpl-1''), (''object'', JStr ''chat.completion.chunk''), (''created'', JInt 1700000000),
     (''model'', JStr ''m''),
     (''choices'', JArr [JObj [(''index'', JInt 0), (''delta'', JObj delta), (''logprobs'', JNull), (''finish_reason'', reason)]])]"

definition demo_chunks :: "json list" where
  "demo_chunks =
    [demo_chunk [(''role'', JStr ''assistant''), (''content'', JStr [])] JNull,
     demo_chunk [(''content'', JStr ''h'')] JNull,
     demo_chunk [(''content'', JStr ''i'')] JNull,
     demo_chunk [(''tool_calls'', JArr [JObj [(''index'', JInt 0), (''id'', JStr ''c1''), (''type'', JStr ''function''),
       (''function'', JObj [(''name'', JStr ''ls''), (''arguments'', JStr [])])]])] JNull,
     demo_chunk [(''tool_calls'', JArr [JObj [(''index'', JInt 0), (''function'', JObj [(''arguments'', JStr ''{'')])]])] JNull,
     demo_chunk [(''tool_calls'', JArr [JObj [(''index'', JInt 0), (''function'', JObj [(''arguments'', JStr ''}'')])]])] JNull,
     demo_chunk [] (JStr ''tool_calls''),
     JObj [(''choices'', JArr []), (''usage'', JObj [(''prompt_tokens'', JInt 7), (''completion_tokens'', JInt 5)])]]"

definition demo_or_events :: "sse_event list" where
  "demo_or_events = map (\<lambda>x. \<lparr> ev_name = ''message'', ev_data = [x] \<rparr>) ''abcdefgh''"

definition demo_done :: sse_event where
  "demo_done = \<lparr> ev_name = ''message'', ev_data = ''[DONE]'' \<rparr>"

definition demo_or_wire :: wire where
  "demo_or_wire = \<lparr>
     wr_http = (\<lambda>rq. HttpReply 200
       (if jfield (hq_body rq) ''stream'' jbool = Some True
        then [Ok (concat (map sse_frame (demo_or_events @ [demo_done])))] else [Ok ''R''])),
     wr_json = \<lparr> jt_print = (\<lambda>_. []),
       jt_parse = (\<lambda>s. if s = ''{}'' then Some (JObj []) else if s = ''R'' then Some demo_or_json
         else map_of (zip (map ev_data demo_or_events) demo_chunks) s) \<rparr>,
     wr_decode_error = id \<rparr>"

lemma demo_or_flag:
  "jfield (hq_body (openai_request c (single_user m p) b)) ''stream'' jbool = Some b"
  by (simp add: openai_request_def openai_build_body_def single_user_def message_user_def
      llm_message_text_def set_opt_def jfield_def Let_def)

lemmas demo_or_simps = demo_or_events_def demo_done_def demo_chunks_def demo_chunk_def demo_choice_def choice_chunks_def

lemma demo_or_frameable: "\<forall>e \<in> set (demo_or_events @ [demo_done]). frameable e"
  by (simp add: demo_or_simps frameable_def)

lemma demo_or_ascii: "utf8_valid (concat (map sse_frame (demo_or_events @ [demo_done])))"
  by (rule utf8_valid_ascii) (simp add: demo_or_simps sse_frame_def ascii_def byte_def)

lemma demo_or_held:
  "list_all2 (holds_chunk (wr_json demo_or_wire)) (choice_chunks demo_choice [[], ''h'', ''i''] [[[], ''{'', ''}'']])
    (filter (\<lambda>e. \<not> no_choice (wr_json demo_or_wire) e) demo_or_events)"
  by (simp add: demo_or_wire_def demo_or_simps holds_chunk_def no_choice_def text_chunk_def open_chunk_def
      args_chunk_def finish_chunk_def chunk_def text_delta_def call_delta_def opens_def continues_def absent_def)

lemma demo_or_complete:
  "complete_call demo_or_wire ''openai'' (openai_request (openai_config_new ''k'') (single_user ''big'' ''p'') False)
     openai_response_of_json = Ok demo_or"
  by (simp add: complete_call_def demo_or_wire_def demo_or_flag is_success_def reply_json_def demo_or_json_def
      openai_response_of_json_def text_fields_def struct_fields_def req_field_def opt_field_def def_field_def
      jlist_def openai_choice_of_json_def openai_tool_call_of_json_def openai_usage_of_json_def ju32_def
      demo_or_def demo_choice_def)

theorem openai_stream_matches_complete_witness:
  "\<exists>k. openai_stream demo_or_wire (openai_config_new ''k'') (single_user ''big'' ''p'') (open_sink sink_send) sink_new = (Ok (), k) \<and>
     sk_text k = ''hi'' \<and>
     map_option rs_tool_calls (sk_final_response k) = Some [\<lparr> tc_id = ''c1'', tc_name = ''ls'', tc_args = JObj [] \<rparr>]"
proof -
  have full: "from_openai (wr_json demo_or_wire) demo_or = \<lparr> rs_content = Text ''hi'', rs_stop_reason = StopToolUse,
      rs_tool_calls = [\<lparr> tc_id = ''c1'', tc_name = ''ls'', tc_args = JObj [] \<rparr>],
      rs_usage = \<lparr> input_tokens = 7, output_tokens = 5 \<rparr>, rs_model = ''m'' \<rparr>"
    by (simp add: from_openai_def demo_or_def demo_choice_def unwrap_or_def openai_stop_reason_def
        from_openai_call_def args_value_def demo_or_wire_def)
  have "\<exists>full k. openai_complete demo_or_wire (openai_config_new ''k'') (single_user ''big'' ''p'') = Ok full \<and>
    openai_stream demo_or_wire (openai_config_new ''k'') (single_user ''big'' ''p'') (open_sink sink_send) sink_new = (Ok (), k) \<and>
    sk_final_response k = Some (full\<lparr> rs_usage := usage_default, rs_model := rq_model (single_user ''big'' ''p'') \<rparr>) \<and>
    rs_content full = Text (sk_text k)"
  proof (rule openai_stream_matches_complete)
    show "wr_http demo_or_wire (openai_request (openai_config_new ''k'') (single_user ''big'' ''p'') True) =
        HttpReply 200 (map Ok [concat (map sse_frame (demo_or_events @ [demo_done]))])"
      by (simp add: demo_or_wire_def demo_or_flag)
    show "list_all2 (holds_chunk (wr_json demo_or_wire))
        (choice_chunks demo_choice [[], ''h'', ''i''] [[[], ''{'', ''}'']])
        (filter (\<lambda>e. \<not> no_choice (wr_json demo_or_wire) e) demo_or_events)"
      by (rule demo_or_held)
    show "concat [[], ''h'', ''i''] = unwrap_or (oc_content demo_choice) []"
      by (simp add: demo_choice_def unwrap_or_def)
    show "list_all2 args_fragments (oc_tool_calls demo_choice) [[[], ''{'', ''}'']]"
      "length (oc_tool_calls demo_choice) \<le> 2 ^ 64"
      by (simp_all add: demo_choice_def args_fragments_def)
    show "ev_data demo_done = ''[DONE]''" by (simp add: demo_done_def)
    show "or_choices demo_or = [demo_choice]" by (simp add: demo_or_def)
  qed (use demo_or_frameable demo_or_ascii demo_or_complete in \<open>simp_all add: is_success_def\<close>)
  then show ?thesis by (auto simp: openai_complete_def demo_or_complete full)
qed

definition chunk_json :: "(string \<times> json) list \<Rightarrow> (string \<times> json) list \<Rightarrow> json" where
  "chunk_json delta rest = JObj [(''choices'', JArr [JObj ((''delta'', JObj delta) # rest)])]"

text \<open>What a chunk loses when it holds more than one thing: of two calls with arguments only the first
  is read, and a chunk with text is not searched for its stop reason.\<close>

lemma openai_second_call_lost:
  assumes "openai_inv a" "oa_arg_buffers a = []" "f \<noteq> []" "g \<noteq> []"
  shows "snd (decode_openai_value (chunk_json [(''tool_calls'', JArr
      [JObj [(''index'', JInt 0), (''id'', JStr i), (''function'', JObj [(''name'', JStr n), (''arguments'', JStr f)])],
       JObj [(''index'', JInt 1), (''id'', JStr j), (''function'', JObj [(''name'', JStr l), (''arguments'', JStr g)])]])] []) a)
    = with_call i n f a"
  using assms by (simp add: decode_openai_value_def chunk_json_def openai_delta_def jfield_def unwrap_or_def
      openai_open_call_def openai_grow_def openai_inv_def with_call_def Let_def)

lemma openai_finish_with_text_lost:
  "t \<noteq> [] \<Longrightarrow> snd (decode_openai_value (chunk_json [(''content'', JStr t)] [(''finish_reason'', JStr s)]) a) =
    a\<lparr> oa_text := oa_text a @ t \<rparr>"
  by (simp add: decode_openai_value_def chunk_json_def openai_delta_def jfield_def unwrap_or_def Let_def)

text \<open>Only text reaches the server: calls and results in the history are dropped, and so is the
  explicit system prompt.\<close>

lemma openai_flattens: "openai_content_to_json c = JStr (as_text c)"
proof -
  have "fold (\<lambda>b s. case b of BText t \<Rightarrow> s @ t | _ \<Rightarrow> s) bs s = s @ concat (map block_text bs)" for bs s
    by (induction bs arbitrary: s) (auto split: content_block.split)
  then show ?thesis by (cases c) auto
qed

lemma openai_ignores_system_prompt:
  "openai_build_body (req\<lparr> rq_system_prompt := s \<rparr>) b = openai_build_body req b"
  by (simp add: openai_build_body_def Let_def)

end
