(* ===== verification/Ollama.thy ===== *)
theory Ollama
  imports Wire
begin

text \<open>
  The Ollama adapter (\<^verbatim>\<open>provider/src/adapters/ollama.rs\<close>): the request body, the loop over the lines of
  newline-delimited JSON, the non-streaming response type, and the two operations of the provider.
\<close>

subsection \<open>Configuration and request body\<close>

record ollama_config =
  ollama_endpoint :: string

definition OLLAMA_ENDPOINT :: string where
  "OLLAMA_ENDPOINT = ''http://localhost:11434/api/chat''"

definition ollama_config_new :: ollama_config where
  "ollama_config_new = \<lparr> ollama_endpoint = OLLAMA_ENDPOINT \<rparr>"

definition ollama_with_endpoint :: "string \<Rightarrow> ollama_config \<Rightarrow> ollama_config" where
  "ollama_with_endpoint e c = c\<lparr> ollama_endpoint := e \<rparr>"

fun ollama_role :: "role \<Rightarrow> string" where
  "ollama_role System = ''system''"
| "ollama_role User = ''user''"
| "ollama_role Assistant = ''assistant''"
| "ollama_role Tool = ''tool''"

definition ollama_message_to_json :: "llm_message \<Rightarrow> json" where
  "ollama_message_to_json m =
    JObj [(''role'', JStr (ollama_role (msg_role m))), (''content'', JStr (as_text (msg_content m)))]"

definition ollama_tool_to_json :: "tool_spec \<Rightarrow> json" where
  "ollama_tool_to_json t =
    JObj [(''type'', JStr ''function''),
      (''function'', JObj [(''name'', JStr (ts_name t)), (''description'', JStr (ts_description t)),
         (''parameters'', ts_input_schema t)])]"

text \<open>\<^verbatim>\<open>body["options"][k] = v\<close> creates the inner object when it is missing.\<close>

definition set_option :: "string \<Rightarrow> json option \<Rightarrow> json \<Rightarrow> json" where
  "set_option k v b =
    (case v of
       None \<Rightarrow> b
     | Some x \<Rightarrow> jset ''options'' (jset k x (unwrap_or (jget b ''options'') JNull)) b)"

definition ollama_build_body :: "llm_request \<Rightarrow> bool \<Rightarrow> json" where
  "ollama_build_body req stream =
    (let b0 = JObj [(''model'', JStr (rq_model req)),
           (''messages'', JArr (map ollama_message_to_json (rq_messages req))), (''stream'', JBool stream)];
         b1 = set_option ''num_predict'' (map_option u32_json (rq_max_tokens req)) b0;
         b2 = set_option ''temperature'' (Option.bind (rq_temperature req) number_from_f32) b1
     in if rq_tools req = [] then b2
        else jset ''tools'' (JArr (map ollama_tool_to_json (rq_tools req))) b2)"

definition ollama_request :: "ollama_config \<Rightarrow> llm_request \<Rightarrow> bool \<Rightarrow> http_request" where
  "ollama_request c req stream =
    \<lparr> hq_url = ollama_endpoint c, hq_headers = [], hq_body = ollama_build_body req stream \<rparr>"

subsection \<open>The accumulator and the loop over lines\<close>

record ollama_acc =
  ol_model :: string
  ol_text :: string
  ol_tool_calls :: "tool_call list"
  ol_usage :: usage
  ol_stop_reason :: stop_reason
  ol_done :: bool

definition ollama_new :: "string \<Rightarrow> ollama_acc" where
  "ollama_new m = \<lparr> ol_model = m, ol_text = [], ol_tool_calls = [], ol_usage = usage_default,
     ol_stop_reason = Stop, ol_done = False \<rparr>"

text \<open>\<^verbatim>\<open>finalize\<close>, after the loop has set the stop reason.\<close>

definition ollama_finalize :: "ollama_acc \<Rightarrow> llm_response" where
  "ollama_finalize a0 =
    (let a = a0\<lparr> ol_stop_reason := Stop \<rparr> in
     \<lparr> rs_content = Text (ol_text a), rs_stop_reason = ol_stop_reason a, rs_tool_calls = ol_tool_calls a,
       rs_usage = ol_usage a, rs_model = ol_model a \<rparr>)"

record stream_line =
  sl_content :: string
  sl_done :: bool
  sl_eval_count :: "u32 option"

definition stream_message_of_json :: "json \<Rightarrow> string option" where
  "stream_message_of_json j =
    Option.bind (text_fields [''content''] j) (\<lambda>f. def_field [] jstr f ''content'')"

definition stream_line_of_json :: "json \<Rightarrow> stream_line option" where
  "stream_line_of_json j =
    Option.bind (text_fields [''message'', ''done'', ''eval_count''] j) (\<lambda>f.
    Option.bind (def_field [] stream_message_of_json f ''message'') (\<lambda>m.
    Option.bind (def_field False jbool f ''done'') (\<lambda>d.
    Option.bind (opt_field ju32 f ''eval_count'') (\<lambda>n.
      Some \<lparr> sl_content = m, sl_done = d, sl_eval_count = n \<rparr>))))"

definition sat_pred :: "u32 \<Rightarrow> u32" where
  "sat_pred n = (if n = 0 then 0 else n - 1)"

text \<open>One line of the buffer: nothing, or the line's content as a delta; then the end marker.\<close>

definition ollama_line :: "json_text \<Rightarrow> string \<Rightarrow> ollama_acc \<Rightarrow> stream_event option \<times> ollama_acc" where
  "ollama_line J line a =
    (if trim line = [] then (None, a)
     else case Option.bind (jt_parse J (trim line)) stream_line_of_json of
       None \<Rightarrow> (None, a)
     | Some l \<Rightarrow>
         let a1 = a\<lparr> ol_text := ol_text a @ sl_content l, ol_done := sl_done l \<rparr>;
             a2 = (if sl_done l then
                     (case sl_eval_count l of
                        Some n \<Rightarrow> a1\<lparr> ol_usage := \<lparr> input_tokens = 1, output_tokens = sat_pred n \<rparr> \<rparr>
                      | None \<Rightarrow> a1)
                   else a1)
         in (if sl_content l = [] then None else Some (ContentDelta (sl_content l)), a2))"

function ollama_drain ::
    "json_text \<Rightarrow> 'k sink \<Rightarrow> string \<Rightarrow> ollama_acc \<Rightarrow> 'k \<Rightarrow> (string \<times> ollama_acc, provider_error) result \<times> 'k" where
  "ollama_drain J send buf a k =
    (if nl \<in> set buf then
       let line = takeWhile (\<lambda>c. c \<noteq> nl) buf @ [nl];
           rest = drop (length line) buf
       in case ollama_line J line a of
            (None, a1) \<Rightarrow> ollama_drain J send rest a1 k
          | (Some out, a1) \<Rightarrow> send_then send out (ollama_drain J send rest a1) k
     else (Ok (buf, a), k))"
  by pat_completeness auto
termination
  by (relation "measure (\<lambda>(_, _, buf, _). length buf)") (auto intro!: diff_less simp: length_pos_if_in_set)

declare ollama_drain.simps [simp del]

fun ollama_pump ::
    "json_text \<Rightarrow> 'k sink \<Rightarrow> string \<Rightarrow> ollama_acc \<Rightarrow> chunk list \<Rightarrow> 'k \<Rightarrow>
     (ollama_acc, provider_error) result \<times> 'k" where
  "ollama_pump J send buf a [] k = (Ok a, k)"
| "ollama_pump J send buf a (Err d # cs) k = (Err (transport_error d), k)"
| "ollama_pump J send buf a (Ok b # cs) k =
    (if \<not> utf8_valid b then (Err (PStreamParse ''non-utf8 chunk''), k)
     else case ollama_drain J send (buf @ b) a k of
            (Err e, k1) \<Rightarrow> (Err e, k1)
          | (Ok (buf1, a1), k1) \<Rightarrow> ollama_pump J send buf1 a1 cs k1)"

definition ollama_stream ::
    "wire \<Rightarrow> ollama_config \<Rightarrow> llm_request \<Rightarrow> 'k sink \<Rightarrow> 'k \<Rightarrow> (unit, provider_error) result \<times> 'k" where
  "ollama_stream w c req send =
    stream_call w (ollama_request c req True) (rq_model req) send
      (ollama_pump (wr_json w) send [] (ollama_new (rq_model req))) ollama_finalize"

subsection \<open>The non-streaming response\<close>

record ollama_response =
  ol_content :: string
  ol_eval_count :: "u32 option"
  ol_prompt_eval_count :: "u32 option"

definition ollama_response_of_json :: "json \<Rightarrow> ollama_response option" where
  "ollama_response_of_json j =
    Option.bind (text_fields [''message'', ''eval_count'', ''prompt_eval_count''] j) (\<lambda>f.
    Option.bind (req_field stream_message_of_json f ''message'') (\<lambda>m.
    Option.bind (opt_field ju32 f ''eval_count'') (\<lambda>n.
    Option.bind (opt_field ju32 f ''prompt_eval_count'') (\<lambda>p.
      Some \<lparr> ol_content = m, ol_eval_count = n, ol_prompt_eval_count = p \<rparr>))))"

definition from_ollama :: "ollama_response \<Rightarrow> llm_response" where
  "from_ollama r =
    \<lparr> rs_content = Text (ol_content r), rs_stop_reason = Stop, rs_tool_calls = [],
      rs_usage = \<lparr> input_tokens = unwrap_or (ol_prompt_eval_count r) 0,
                   output_tokens = unwrap_or (ol_eval_count r) 0 \<rparr>,
      rs_model = [] \<rparr>"

definition ollama_complete ::
    "wire \<Rightarrow> ollama_config \<Rightarrow> llm_request \<Rightarrow> (llm_response, provider_error) result" where
  "ollama_complete w c req =
    map_ok from_ollama (complete_call w ''ollama'' (ollama_request c req False) ollama_response_of_json)"

subsection \<open>The loop, line by line\<close>

definition ollama_step ::
    "json_text \<Rightarrow> string \<Rightarrow> ollama_acc \<Rightarrow> (stream_event option, provider_error) result \<times> ollama_acc" where
  "ollama_step J line a = (Ok (fst (ollama_line J (line @ [nl]) a)), snd (ollama_line J (line @ [nl]) a))"

interpretation ollama: delta_decoder "ollama_step J" ol_text ollama_finalize ol_model
  by unfold_locales
     (auto simp: ollama_step_def ollama_line_def ollama_finalize_def Let_def split: option.splits)

text \<open>The complete lines of the buffer are handled in order; what follows the last newline stays.\<close>

lemma ollama_drain_lines:
  "ollama_drain J send buf a k =
    (case feed_events (ollama_step J) send (butlast (split_byte nl buf)) a k of
       (Err e, k1) \<Rightarrow> (Err e, k1)
     | (Ok a1, k1) \<Rightarrow> (Ok (last (split_byte nl buf), a1), k1))"
proof (induction "length buf" arbitrary: buf a k rule: less_induct)
  case less
  show ?case
  proof (cases "nl \<in> set buf")
    case False
    then show ?thesis by (simp add: ollama_drain.simps [of _ _ buf] split_byte_single)
  next
    case True
    from split_at_nl [OF this] obtain l r where b: "buf = l @ nl # r" "nl \<notin> set l" by blast
    have l: "takeWhile (\<lambda>c. c \<noteq> nl) buf = l"
      using b by (simp add: takeWhile_append takeWhile_eq_all_conv)
    have IH: "ollama_drain J send r a k =
      (case feed_events (ollama_step J) send (butlast (split_byte nl r)) a k of
         (Err e, k1) \<Rightarrow> (Err e, k1)
       | (Ok a1, k1) \<Rightarrow> (Ok (last (split_byte nl r), a1), k1))" for a k
      by (rule less.hyps) (simp add: b(1))
    have s: "split_byte nl buf = l # split_byte nl r" using b by (simp add: split_byte_append)
    have d: "drop (Suc (length l)) buf = r" by (simp add: b(1))
    show ?thesis
      by (subst ollama_drain.simps)
         (simp add: True l s d IH ollama_step_def Let_def send_then_def
           split: prod.splits option.splits result.splits)
  qed
qed

lemma ollama_pump_lines:
  assumes "\<forall>b \<in> set bs. utf8_valid b" "nl \<notin> set buf"
  shows "ollama_pump J send buf a (map Ok bs) k =
    feed_events (ollama_step J) send (butlast (split_byte nl (buf @ concat bs))) a k"
  using assms
proof (induction bs arbitrary: buf a k)
  case Nil
  then show ?case by (simp add: split_byte_single)
next
  case (Cons b bs)
  let ?x = "last (split_byte nl (buf @ b))"
  have x: "nl \<notin> set ?x" by (rule split_byte_no_sep) (rule last_in_set, simp)
  have "butlast (split_byte nl (buf @ concat (b # bs))) =
      butlast (split_byte nl (buf @ b)) @ butlast (split_byte nl (?x @ concat bs))"
    using split_byte_append_last [of nl "buf @ b" "concat bs"] by (simp add: butlast_append)
  with Cons.IH [OF _ x] Cons.prems show ?case
    by (simp add: ollama_drain_lines feed_events_append split: prod.splits result.splits)
qed

lemma ollama_pump_sends:
  "body_sends V (ol_text a) ol_text log (ollama_pump J (log_sink V) buf a cs log) \<and>
   (case fst (ollama_pump J (log_sink V) buf a cs log) of Ok b \<Rightarrow> ol_model b = ol_model a | Err _ \<Rightarrow> True)"
proof (induction cs arbitrary: buf a log)
  case Nil
  then show ?case by (simp add: body_sends_def)
next
  case (Cons c cs)
  show ?case
  proof (cases c)
    case (Err d)
    then show ?thesis by (auto simp: body_sends_def)
  next
    case (Ok b)
    show ?thesis
    proof (cases "utf8_valid b")
      case False
      with Ok show ?thesis by (simp add: body_sends_def)
    next
      case True
      let ?ls = "butlast (split_byte nl (buf @ b))"
      obtain q k1 where f: "feed_events (ollama_step J) (log_sink V) ?ls a log = (q, k1)"
        by (cases "feed_events (ollama_step J) (log_sink V) ?ls a log")
      note S = ollama.feed_sends [of V a log J ?ls, unfolded f fst_conv]
      show ?thesis
      proof (cases q)
        case (Err e)
        with S Ok True f show ?thesis by (simp add: ollama_drain_lines body_sends_def)
      next
        case q: (Ok a1)
        have e: "ollama_pump J (log_sink V) buf a (c # cs) log =
            ollama_pump J (log_sink V) (last (split_byte nl (buf @ b))) a1 cs k1"
          by (simp add: Ok True ollama_drain_lines f q)
        from S q obtain ds where ds: "k1 = log @ ds" "list_all is_delta ds"
          "ol_text a1 = ol_text a @ stream_text ds" "ol_model a1 = ol_model a"
          by (auto simp: body_sends_def)
        from Cons.IH [of a1 k1 "last (split_byte nl (buf @ b))"] ds show ?thesis
          unfolding e by (auto intro: body_sends_trans split: result.splits)
      qed
    qed
  qed
qed

lemma complete_lines:
  assumes "nl \<notin> set tail" "body = [] \<or> last body = nl"
  shows "butlast (split_byte nl (body @ tail)) = butlast (split_byte nl body)"
proof (cases "body = []")
  case True
  with assms(1) show ?thesis by (simp add: split_byte_single)
next
  case False
  with assms(2) have b: "body = butlast body @ [nl]" by (metis append_butlast_last_id)
  let ?x = "last (split_byte nl (butlast body))"
  have x: "nl \<notin> set ?x" by (rule split_byte_no_sep) (rule last_in_set, simp)
  have e: "split_byte nl (butlast body @ nl # t) = butlast (split_byte nl (butlast body)) @ ?x # split_byte nl t" for t
    using split_byte_append_last [of nl "butlast body" "nl # t"] x by (simp add: split_byte_append)
  have "butlast (split_byte nl (butlast body @ nl # tail)) = butlast (split_byte nl (butlast body @ [nl]))"
    using assms(1) by (simp add: e split_byte_single butlast_append)
  with b show ?thesis by (metis append_Cons append_Nil append_assoc)
qed

text \<open>C27: an Ollama stream depends only on the complete lines of the reply: two replies delivered in any
  chunks that end on character boundaries and that agree up to the last newline give the same events,
  the same result and the same final state of any sink. So the way the network cuts the reply is
  invisible, and an object after the last newline is never read.\<close>

theorem ollama_chunking:
  assumes "wr_http w (ollama_request c req True) = HttpReply s (map Ok bs)" "is_success s"
    and "wr_http w' (ollama_request c req True) = HttpReply s (map Ok bs')" "wr_json w' = wr_json w"
    and "\<forall>b \<in> set bs \<union> set bs'. utf8_valid b"
    and "concat bs = body @ tail" "concat bs' = body @ tail'" "nl \<notin> set tail \<union> set tail'"
    and "body = [] \<or> last body = nl"
  shows "ollama_stream w c req send k = ollama_stream w' c req send k"
proof -
  have l: "butlast (split_byte nl (concat bs)) = butlast (split_byte nl body)"
    "butlast (split_byte nl (concat bs')) = butlast (split_byte nl body)"
    unfolding assms(6,7) using complete_lines [of _ body] assms(8,9) by auto
  have "ollama_pump (wr_json w) send [] a (map Ok bs) j = ollama_pump (wr_json w) send [] a (map Ok bs') j" for a j
    using assms(5) by (simp add: ollama_pump_lines l)
  with assms(1-4) show ?thesis
    by (auto simp: ollama_stream_def stream_call_def send_then_def status_error_def split: prod.splits result.splits)
qed

definition demo_ollama :: "chunk list \<Rightarrow> wire" where
  "demo_ollama cs = \<lparr> wr_http = (\<lambda>_. HttpReply 200 cs),
     wr_json = \<lparr> jt_print = (\<lambda>_. []),
       jt_parse = (\<lambda>s. if s = ''{}'' then Some (JObj [(''message'', JObj [(''content'', JStr ''hi'')])]) else None) \<rparr>,
     wr_decode_error = id \<rparr>"

theorem ollama_chunking_witness:
  "\<forall>send k.
    ollama_stream (demo_ollama (map Ok [''{'', CHR ''}'' # [nl]])) ollama_config_new (single_user ''m'' ''p'') send k =
    ollama_stream (demo_ollama (map Ok [''{}'' @ [nl] @ ''{}''])) ollama_config_new (single_user ''m'' ''p'') send k"
  by (intro allI, rule ollama_chunking [where s = 200 and bs = "[''{'', CHR ''}'' # [nl]]" and bs' = "[''{}'' @ [nl] @ ''{}'']"
     and body = "''{}'' @ [nl]" and tail = "[]" and tail' = "''{}''"])
     (simp_all add: demo_ollama_def is_success_def utf8_valid_ascii ascii_def byte_def)

end
