(* ===== verification/Adapters.thy ===== *)
theory Adapters
  imports Anthropic OpenAi Ollama
begin

text \<open>
  What the three HTTP adapters promise together: the contract of \<^verbatim>\<open>LlmProvider::stream\<close> and
  \<^verbatim>\<open>StreamSink\<close> (\<^verbatim>\<open>provider/src/provider.rs\<close>, \<^verbatim>\<open>stream.rs\<close>), on any server and any sink.
\<close>

text \<open>C24: the contract of every adapter, whatever the server answers and whenever the sink refuses an
  event. When \<^verbatim>\<open>stream\<close> returns normally, the sink was sent either one error, or the skeleton of the
  requested model, then deltas, then one final response whose text is the concatenation of the deltas.
  When it returns an error, either the sink refused the last event with that error, or no final event
  was sent: nothing, or the skeleton and deltas.\<close>

theorem adapter_stream_contract:
  assumes "(r, log) \<in> {anthropic_stream w ca req (log_sink V) [], openai_stream w co req (log_sink V) [],
      ollama_stream w cl req (log_sink V) []}"
  shows "case r of Ok _ \<Rightarrow> finished_log (rq_model req) log
    | Err e \<Rightarrow> V log = Err e \<or> broken_log (rq_model req) log"
proof -
  from assms consider
    (anthropic) "anthropic_stream w ca req (log_sink V) [] = (r, log)" |
    (openai) "openai_stream w co req (log_sink V) [] = (r, log)" |
    (ollama) "ollama_stream w cl req (log_sink V) [] = (r, log)" by auto
  then show ?thesis
  proof cases
    case anthropic
    then show ?thesis unfolding anthropic_stream_def
      by (rule anthropic.sse_stream_contract) (simp_all add: anthropic_new_def)
  next
    case openai
    then show ?thesis unfolding openai_stream_def
      by (rule openai.sse_stream_contract) (simp_all add: openai_new_def)
  next
    case ollama
    let ?a = "ollama_new (rq_model req)"
    note S = ollama_pump_sends [where a = ?a and V = V and J = "wr_json w" and buf = "[]"]
    show ?thesis
    proof (rule stream_call_contract [OF _ _ ollama [unfolded ollama_stream_def]])
      show "body_sends V [] ol_text log (ollama_pump (wr_json w) (log_sink V) [] ?a cs log)" for cs log
        using S [where log = log and cs = cs] by (simp add: ollama_new_def)
    next
      fix cs log a k
      assume "ollama_pump (wr_json w) (log_sink V) [] ?a cs log = (Ok a, k)"
      with S [where log = log and cs = cs] have "ol_model a = rq_model req" by (simp add: ollama_new_def)
      then show "rs_content (ollama_finalize a) = Text (ol_text a) \<and> rs_model (ollama_finalize a) = rq_model req"
        by (simp add: ollama_finalize_def Let_def)
    qed
  qed
qed

text \<open>A reply that breaks off after its headers: the sink, which takes everything, is left without a
  final event, although the trait asks for one.\<close>

theorem adapter_stream_contract_witness:
  "anthropic_stream (demo_ollama [Err ''reset'']) demo_anthropic (single_user ''m'' ''p'') (log_sink (\<lambda>_. Ok ())) [] =
     (Err (transport_error ''reset''), [MessageStart (skeleton ''m'')]) \<and>
   broken_log ''m'' [MessageStart (skeleton ''m'')]"
proof -
  have s: "anthropic_stream (demo_ollama [Err ''reset'']) demo_anthropic (single_user ''m'' ''p'') (log_sink (\<lambda>_. Ok ())) [] =
      (Err (transport_error ''reset''), [MessageStart (skeleton ''m'')])"
    by (simp add: anthropic_stream_def stream_call_def demo_ollama_def is_success_def send_then_def log_sink_def
        single_user_def)
  from adapter_stream_contract [of "Err (transport_error ''reset'')" "[MessageStart (skeleton ''m'')]"
      "demo_ollama [Err ''reset'']" demo_anthropic "single_user ''m'' ''p''" "\<lambda>_. Ok ()"]
  have "broken_log ''m'' [MessageStart (skeleton ''m'')]" unfolding s by (simp add: single_user_def)
  with s show ?thesis by simp
qed

end
