(* ===== verification/Calendar.thy ===== *)
theory Calendar
  imports RustStr "HOL-Library.List_Lexorder" "HOL-Library.Char_ord" "HOL-Library.Product_Lexorder"
begin

text \<open>
  The clock of the two stores: \<^verbatim>\<open>now_iso\<close> and \<^verbatim>\<open>epoch_to_ymd_hms\<close> of
  \<^verbatim>\<open>thread-store/src/store.rs\<close>, repeated word for word in \<^verbatim>\<open>memories/src/store.rs\<close>. The seconds since
  the epoch are an argument; the calendar arithmetic is proved against the calendar itself, a
  successor function on dates.
\<close>

subsection \<open>Seconds to a civil date\<close>

text \<open>The arithmetic stays far below \<^verbatim>\<open>i64\<close> and \<^verbatim>\<open>u32\<close> (lemma \<open>civil_bounds\<close>), except for the year, which
  is cut to 32 bits.\<close>

definition doe_of :: "nat \<Rightarrow> nat" where
  "doe_of days = days - days div 146097 * 146097"

definition yoe_of :: "nat \<Rightarrow> nat" where
  "yoe_of doe = (doe - doe div 1460 + doe div 36524 - doe div 146096) div 365"

definition doy_of :: "nat \<Rightarrow> nat" where
  "doy_of doe = (let yoe = yoe_of doe in doe - (365 * yoe + yoe div 4 - yoe div 100))"

definition month_day :: "nat \<Rightarrow> nat \<times> nat" where
  "month_day doy =
    (let mp = (5 * doy + 2) div 153;
         d = doy - (153 * mp + 2) div 5 + 1;
         m = (if mp < 10 then mp + 3 else mp - 9)
     in (m, d))"

text \<open>The date of a day counted from 0000-03-01.\<close>

definition civil :: "nat \<Rightarrow> nat \<times> nat \<times> nat" where
  "civil days =
    (let era = days div 146097;
         doe = doe_of days;
         y = yoe_of doe + era * 400;
         (m, d) = month_day (doy_of doe)
     in (y + (if m \<le> 2 then 1 else 0), m, d))"

definition epoch_to_ymd_hms :: "u64 \<Rightarrow> nat \<times> nat \<times> nat \<times> nat \<times> nat \<times> nat" where
  "epoch_to_ymd_hms secs =
    (let days = unat secs div 86400 + 719468;
         time = unat secs mod 86400;
         (y, m, d) = civil days
     in (y mod 2 ^ 32, m, d, time div 3600, time mod 3600 div 60, time mod 60))"

text \<open>\<^verbatim>\<open>{n:0w}\<close>.\<close>

definition pad_nat :: "nat \<Rightarrow> nat \<Rightarrow> string" where
  "pad_nat w n = replicate (w - length (show_nat n)) (CHR ''0'') @ show_nat n"

definition now_iso :: "u64 \<Rightarrow> string" where
  "now_iso secs =
    (let (y, m, d, h, mi, s) = epoch_to_ymd_hms secs in
     pad_nat 4 y @ ''-'' @ pad_nat 2 m @ ''-'' @ pad_nat 2 d @ ''T'' @ pad_nat 2 h @ '':'' @
     pad_nat 2 mi @ '':'' @ pad_nat 2 s @ ''Z'')"

subsection \<open>The calendar\<close>

definition leap :: "nat \<Rightarrow> bool" where
  "leap y \<longleftrightarrow> y mod 4 = 0 \<and> (y mod 100 \<noteq> 0 \<or> y mod 400 = 0)"

definition days_in :: "nat \<Rightarrow> nat \<Rightarrow> nat" where
  "days_in y m = (if m = 2 then (if leap y then 29 else 28) else if m \<in> {4, 6, 9, 11} then 30 else 31)"

definition next_date :: "nat \<times> nat \<times> nat \<Rightarrow> nat \<times> nat \<times> nat" where
  "next_date date =
    (let (y, m, d) = date in
     if d < days_in y m then (y, m, d + 1)
     else if m < 12 then (y, m + 1, 1)
     else (y + 1, 1, 1))"

subsection \<open>Years\<close>

text \<open>The first day of a year of the era.\<close>

definition year_start :: "nat \<Rightarrow> nat" where
  "year_start y = 365 * y + y div 4 - y div 100 + y div 400"

definition yoe_int :: "int \<Rightarrow> int" where
  "yoe_int doe = (doe - doe div 1460 + doe div 36524 - doe div 146096) div 365"

definition year_start_int :: "int \<Rightarrow> int" where
  "year_start_int y = 365 * y + y div 4 - y div 100 + y div 400"

lemma yoe_endpoints_int:
  "\<forall>y \<in> set [0..399]. yoe_int (year_start_int y) = y \<and> yoe_int (year_start_int (y + 1) - 1) = y"
  by code_simp

text \<open>Evaluated over the integers, whose numerals are binary.\<close>

definition next_md :: "int \<Rightarrow> int \<Rightarrow> int \<times> int" where
  "next_md m d =
    (if d < (if m = 2 then 28 else if m = 4 \<or> m = 6 \<or> m = 9 \<or> m = 11 then 30 else 31) then (m, d + 1)
     else if m < 12 then (m + 1, 1) else (1, 1))"

definition month_day_int :: "int \<Rightarrow> int \<times> int" where
  "month_day_int doy =
    (let mp = (5 * doy + 2) div 153
     in (if mp < 10 then mp + 3 else mp - 9, doy - (153 * mp + 2) div 5 + 1))"

lemma month_day_steps:
  "\<forall>doy \<in> set [0..363]. month_day_int (doy + 1) =
     next_md (fst (month_day_int doy)) (snd (month_day_int doy)) \<and>
     (fst (month_day_int doy) = 2 \<longrightarrow> snd (month_day_int doy) < 28) \<and>
     1 \<le> fst (month_day_int doy) \<and> 1 \<le> snd (month_day_int doy)"
  by code_simp

lemma month_day_special:
  "month_day 0 = (3, 1)" "month_day 364 = (2, 28)" "month_day 365 = (2, 29)"
  by (simp_all add: month_day_def)

lemma month_day_int:
  assumes "doy \<le> 365"
  shows "(int (fst (month_day doy)), int (snd (month_day doy))) = month_day_int (int doy)"
proof -
  let ?mp = "(5 * doy + 2) div 153"
  have "(153 * ?mp + 2) div 5 \<le> doy" using assms by linarith
  moreover have "int ?mp = (5 * int doy + 2) div 153" by (simp add: zdiv_int)
  ultimately show ?thesis
    by (auto simp: month_day_def month_day_int_def Let_def zdiv_int of_nat_diff algebra_simps)
qed

lemma month_day_step:
  assumes "doy < 364"
  shows "month_day (Suc doy) =
      (let (m, d) = month_day doy in
       if d < (if m = 2 then 28 else if m \<in> {4, 6, 9, 11} then 30 else 31) then (m, d + 1)
       else if m < 12 then (m + 1, 1) else (1, 1))"
    and "fst (month_day doy) = 2 \<Longrightarrow> snd (month_day doy) < 28"
proof -
  obtain m d where md: "month_day doy = (m, d)" by force
  obtain m' d' where md': "month_day (Suc doy) = (m', d')" by force
  have i: "month_day_int (int doy) = (int m, int d)" "month_day_int (int doy + 1) = (int m', int d')"
    using month_day_int [of doy] month_day_int [of "Suc doy"] assms by (simp_all add: md md' add.commute)
  have s: "int doy \<in> set [0..363]" using assms by simp
  from bspec [OF month_day_steps s] i
  have n: "(int m', int d') = next_md (int m) (int d)" and f: "m = 2 \<longrightarrow> d < 28" by auto
  from n show "month_day (Suc doy) =
      (let (m, d) = month_day doy in
       if d < (if m = 2 then 28 else if m \<in> {4, 6, 9, 11} then 30 else 31) then (m, d + 1)
       else if m < 12 then (m + 1, 1) else (1, 1))"
    by (auto simp: md md' next_md_def split: if_splits)
  from f show "fst (month_day doy) = 2 \<Longrightarrow> snd (month_day doy) < 28" by (simp add: md)
qed

lemma div_Suc_step: "Suc d div k = d div k + (if k dvd Suc d then 1 else 0)" for d k :: nat
  by (simp add: div_Suc dvd_eq_mod_eq_0)

definition yoe_num :: "nat \<Rightarrow> nat" where
  "yoe_num doe = doe - doe div 1460 + doe div 36524 - doe div 146096"

lemma yoe_num_mono: "a \<le> b \<Longrightarrow> yoe_num a \<le> yoe_num b"
proof (rule lift_Suc_mono_le [of yoe_num])
  fix n
  have "146096 dvd Suc n \<Longrightarrow> 36524 dvd Suc n" by (rule dvd_trans [of 36524 146096]) simp_all
  moreover have "n div 146096 \<le> n div 36524" by (rule div_le_mono2) simp_all
  moreover have "n div 1460 \<le> n" by simp
  ultimately show "yoe_num n \<le> yoe_num (Suc n)"
    unfolding yoe_num_def div_Suc_step by (auto intro: diff_le_mono)
qed

lemma year_start_int: "int (year_start y) = year_start_int (int y)"
proof -
  have "y div 100 \<le> 365 * y + y div 4" by (simp add: trans_le_add1)
  then show ?thesis by (simp add: year_start_def year_start_int_def zdiv_int of_nat_diff)
qed

lemma yoe_int_of: "int (yoe_of n) = yoe_int (int n)"
proof -
  have "n div 1460 \<le> n" "n div 146096 \<le> n div 36524" by (simp, rule div_le_mono2) simp_all
  then have "int (n - n div 1460 + n div 36524 - n div 146096) =
      int n - int (n div 1460) + int (n div 36524) - int (n div 146096)" by linarith
  then show ?thesis by (simp only: yoe_of_def yoe_int_def zdiv_int) (simp add: zdiv_int)
qed

definition year_len :: "nat \<Rightarrow> nat" where
  "year_len y = (if leap (Suc y) then 366 else 365)"

lemma year_start_of: "int (year_start y) = 365 * int y + int (y div 4) - int (y div 100) + int (y div 400)"
proof -
  have "y div 100 \<le> 365 * y + y div 4" by (simp add: trans_le_add1)
  then show ?thesis by (simp add: year_start_def of_nat_diff)
qed

lemma year_start_Suc: "year_start (Suc y) = year_start y + year_len y"
proof -
  have "400 dvd Suc y \<Longrightarrow> 100 dvd Suc y" "100 dvd Suc y \<Longrightarrow> 4 dvd Suc y"
    by (rule dvd_trans [of _ 400], simp_all) (rule dvd_trans [of _ 100], simp_all)
  then have "int (year_start (Suc y)) = int (year_start y + year_len y)"
    unfolding year_start_of of_nat_add year_len_def leap_def div_Suc_step dvd_eq_mod_eq_0
    by (auto simp del: of_nat_div)
  then show ?thesis by (simp only: of_nat_eq_iff)
qed

lemma year_start_mono: "y \<le> z \<Longrightarrow> year_start y \<le> year_start z"
  by (rule lift_Suc_mono_le [of year_start]) (simp_all add: year_start_Suc)

lemma year_start_era: "year_start (400 * e + y) = 146097 * e + year_start y"
proof -
  have "(400 * e + y) div 4 = 100 * e + y div 4" "(400 * e + y) div 100 = 4 * e + y div 100"
    "(400 * e + y) div 400 = e + y div 400"
    using div_mult_self3 [of 4 "100 * e" y] div_mult_self3 [of 100 "4 * e" y] div_mult_self3 [of 400 e y]
    by (simp_all add: mult.commute)
  then have "int (year_start (400 * e + y)) = int (146097 * e + year_start y)"
    unfolding of_nat_add year_start_of by (simp del: of_nat_div)
  then show ?thesis by (simp only: of_nat_eq_iff)
qed

lemma yoe_of_year:
  assumes "y < 400" "year_start y \<le> doe" "doe < year_start (Suc y)"
  shows "yoe_of doe = y"
proof -
  have m: "a \<le> b \<Longrightarrow> yoe_of a \<le> yoe_of b" for a b
    unfolding yoe_of_def yoe_num_def [symmetric] by (intro div_le_mono yoe_num_mono)
  have "int y \<in> set [0..399]" using assms(1) by simp
  from bspec [OF yoe_endpoints_int this]
  have e: "yoe_int (year_start_int (int y)) = int y" "yoe_int (year_start_int (int y + 1) - 1) = int y" by auto
  have "0 < year_start (Suc y)" by (simp add: year_start_Suc year_len_def)
  then have "int (year_start (Suc y) - 1) = year_start_int (int y + 1) - 1"
    using year_start_int [of "Suc y"] by (simp add: of_nat_diff add.commute)
  then have "yoe_of (year_start y) = y" "yoe_of (year_start (Suc y) - 1) = y"
    using e yoe_int_of [of "year_start y"] yoe_int_of [of "year_start (Suc y) - 1"]
    by (simp_all add: year_start_int)
  with m [OF assms(2)] m [of doe "year_start (Suc y) - 1"] assms(3) show ?thesis by simp
qed

text \<open>The date of a day of the year that starts in March.\<close>

definition date_at :: "nat \<Rightarrow> nat \<Rightarrow> nat \<times> nat \<times> nat" where
  "date_at y doy = (let (m, d) = month_day doy in (y + (if m \<le> 2 then 1 else 0), m, d))"

lemma civil_year:
  assumes "doy < year_len y"
  shows "civil (year_start y + doy) = date_at y doy"
proof -
  define e z where "e = y div 400" and "z = y mod 400"
  have y: "y = 400 * e + z" "z < 400" by (simp_all add: e_def z_def)
  have s: "year_start y = 146097 * e + year_start z" by (simp add: y(1) year_start_era)
  have l: "year_len y = year_len z"
    using year_start_Suc [of y] year_start_Suc [of z] year_start_era [of e "Suc z"] s by (simp add: y(1))
  have lt: "year_start z + doy < year_start (Suc z)" using assms l by (simp add: year_start_Suc)
  moreover have "year_start (Suc z) \<le> year_start 400" using y(2) by (intro year_start_mono) simp
  moreover have "year_start 400 = 146097" by (simp add: year_start_def)
  ultimately have b: "year_start z + doy < 146097" by linarith
  have d: "(year_start y + doy) div 146097 = e" "doe_of (year_start y + doy) = year_start z + doy"
    using b div_mult_self3 [of 146097 e "year_start z + doy"]
    by (simp_all add: s doe_of_def ac_simps)
  have yo: "yoe_of (year_start z + doy) = z" by (rule yoe_of_year [OF y(2)]) (use lt in auto)
  have z: "365 * z + z div 4 - z div 100 = year_start z" using y(2) by (simp add: year_start_def)
  have dy: "doy_of (year_start z + doy) = doy" unfolding doy_of_def yo Let_def z by simp
  obtain m dd where md: "month_day doy = (m, dd)" by force
  have "z + e * 400 = y" using y(1) by simp
  then show ?thesis by (simp only: civil_def Let_def d yo dy md date_at_def prod.case)
qed

lemma next_date_at:
  assumes "doy < year_len y"
  shows "next_date (date_at y doy) = (if Suc doy < year_len y then date_at y (Suc doy) else date_at (Suc y) 0)"
proof -
  consider "doy < 364" | "doy = 364" | "doy = 365" using assms by (force simp: year_len_def split: if_splits)
  then show ?thesis
  proof cases
    case 1
    obtain m d where md: "month_day doy = (m, d)" by force
    from month_day_step [OF 1] md 1 show ?thesis
      by (auto simp: date_at_def next_date_def days_in_def year_len_def split: if_splits)
  next
    case 2
    then show ?thesis
      by (simp add: date_at_def next_date_def days_in_def year_len_def month_day_special)
  next
    case 3
    with assms show ?thesis
      by (simp add: date_at_def next_date_def days_in_def year_len_def month_day_special split: if_splits)
  qed
qed

lemma year_of_day: "\<exists>y doy. n = year_start y + doy \<and> doy < year_len y"
proof (induction n)
  case 0
  have "year_start 0 = 0" "0 < year_len 0" by (simp_all add: year_start_def year_len_def)
  then show ?case by (metis add.right_neutral)
next
  case (Suc n)
  then obtain y doy where d: "n = year_start y + doy" "doy < year_len y" by blast
  show ?case
  proof (cases "Suc doy < year_len y")
    case True
    with d show ?thesis by (intro exI [of _ y] exI [of _ "Suc doy"]) simp
  next
    case False
    with d have "Suc n = year_start (Suc y) + 0" "0 < year_len (Suc y)"
      by (simp_all add: year_start_Suc year_len_def split: if_splits)
    then show ?thesis by blast
  qed
qed

lemma civil_Suc: "civil (Suc n) = next_date (civil n)"
proof -
  obtain y doy where d: "n = year_start y + doy" "doy < year_len y" using year_of_day by blast
  have c: "civil n = date_at y doy" unfolding d(1) by (rule civil_year [OF d(2)])
  show ?thesis
  proof (cases "Suc doy < year_len y")
    case True
    then show ?thesis using civil_year [OF True] d c next_date_at [OF d(2)] by simp
  next
    case False
    with d have e: "Suc n = year_start (Suc y) + 0" "0 < year_len (Suc y)"
      by (simp_all add: year_start_Suc year_len_def split: if_splits)
    show ?thesis unfolding e(1) civil_year [OF e(2)] c next_date_at [OF d(2)] using False by simp
  qed
qed

subsection \<open>Properties\<close>

lemma civil_epoch: "civil (n + 719468) = (next_date ^^ n) (1970, 1, 1)"
proof (induction n)
  case 0
  have "leap 1970 = False" by (simp add: leap_def)
  have "civil (year_start 1969 + 306) = date_at 1969 306"
    by (rule civil_year) (simp add: year_len_def leap_def)
  then show ?case by (simp add: year_start_def date_at_def month_day_def)
next
  case (Suc n)
  then show ?case using civil_Suc [of "n + 719468"] by simp
qed

text \<open>C30: the clock tells the right time: for every number of seconds since the epoch, the date is the
  date that many days after 1970-01-01 in the Gregorian calendar (with the year cut to 32 bits), and
  hour, minute and second are in range and give back the seconds of the day.\<close>

theorem epoch_date_correct:
  "\<exists>y m d h mi s. epoch_to_ymd_hms secs = (y mod 2 ^ 32, m, d, h, mi, s) \<and>
     (next_date ^^ (unat secs div 86400)) (1970, 1, 1) = (y, m, d) \<and>
     unat secs mod 86400 = h * 3600 + mi * 60 + s \<and> h < 24 \<and> mi < 60 \<and> s < 60"
proof -
  obtain y m d where c: "civil (unat secs div 86400 + 719468) = (y, m, d)" by (metis prod_cases3)
  let ?t = "unat secs mod 86400"
  have t: "?t < 86400" by simp
  have split: "t = t div 3600 * 3600 + t mod 3600 div 60 * 60 + t mod 60" for t :: nat
  proof -
    have "t mod 3600 mod 60 = t mod 60" by (rule mod_mod_cancel) simp
    then show ?thesis
      using div_mult_mod_eq [of t 3600] div_mult_mod_eq [of "t mod 3600" 60] by linarith
  qed
  have "?t div 3600 < 24" by (rule less_mult_imp_div_less) (use t in simp)
  moreover have "?t mod 3600 div 60 < 60" by (rule less_mult_imp_div_less) simp
  moreover have "(next_date ^^ (unat secs div 86400)) (1970, 1, 1) = (y, m, d)"
    using civil_epoch [of "unat secs div 86400"] c by simp
  moreover have "epoch_to_ymd_hms secs = (y mod 2 ^ 32, m, d, ?t div 3600, ?t mod 3600 div 60, ?t mod 60)"
    by (simp add: epoch_to_ymd_hms_def c Let_def)
  moreover have "?t mod 60 < 60" by simp
  ultimately show ?thesis using split [of ?t] by blast
qed

end
