(* ===== verification/Timestamps.thy ===== *)
theory Timestamps
  imports Calendar
begin

text \<open>
  The order of the time stamps that \<^verbatim>\<open>now_iso\<close> writes (\<^verbatim>\<open>thread-store/src/store.rs\<close>,
  \<^verbatim>\<open>memories/src/store.rs\<close>): the stores keep them as text and sort by it.
\<close>

subsection \<open>The order of time stamps\<close>

lemma next_date_greater: "date < next_date date"
  by (cases date) (auto simp: next_date_def less_prod_def')

lemma civil_mono: "a < b \<Longrightarrow> civil a < civil b"
  by (rule lift_Suc_mono_less [of civil]) (simp_all add: civil_Suc next_date_greater)

definition valid_date :: "nat \<times> nat \<times> nat \<Rightarrow> bool" where
  "valid_date date \<longleftrightarrow> fst (snd date) \<in> {1..12} \<and> snd (snd date) \<in> {1..31}"

lemma valid_next: "valid_date date \<Longrightarrow> valid_date (next_date date)"
  by (cases date) (auto simp: valid_date_def next_date_def days_in_def split: if_splits)

lemma valid_civil: "valid_date (civil (n + 719468))"
  unfolding civil_epoch
proof (induction n)
  case 0
  show ?case by (simp add: valid_date_def)
next
  case (Suc n)
  then show ?case unfolding funpow.simps comp_apply by (rule valid_next)
qed

lemma lex_append_less:
  "length a = length b \<Longrightarrow> (a @ c < b @ d) = (a < b \<or> a = b \<and> c < d)" for a b :: "'a::linorder list"
  by (induction a b rule: list_induct2) auto

lemma pad_nat_Suc:
  assumes "0 < w"
  shows "pad_nat (Suc w) n = pad_nat w (n div 10) @ [char_of (48 + n mod 10)]"
proof (cases "n < 10")
  case True
  have "replicate (w - Suc 0) (CHR ''0'') @ [CHR ''0''] = replicate w (CHR ''0'')"
    using assms by (metis Suc_pred append_Nil2 replicate_Suc replicate_append_same)
  moreover have "char_of (48 :: nat) = CHR ''0''" by code_simp
  ultimately show ?thesis using True
    by (simp add: pad_nat_def show_nat.simps [of n] show_nat.simps [of 0] del: of_nat_add)
next
  case False
  then show ?thesis by (simp add: pad_nat_def show_nat.simps [of n])
qed

lemma pad_nat_1: "n < 10 \<Longrightarrow> pad_nat (Suc 0) n = [char_of (48 + n)]"
  by (simp add: pad_nat_def show_nat.simps [of n])

lemma char_less: "a < b \<Longrightarrow> b < 10 \<Longrightarrow> (char_of (48 + a) :: char) < char_of (48 + b)" for a b :: nat
  by (simp add: less_char_def)

lemma pad_nat_order:
  "n < 10 ^ Suc w \<Longrightarrow> length (pad_nat (Suc w) n) = Suc w \<and>
     (\<forall>k < n. pad_nat (Suc w) k < pad_nat (Suc w) n)"
proof (induction w arbitrary: n)
  case 0
  then show ?case using char_less by (auto simp: pad_nat_1)
next
  case (Suc w)
  then have n: "n div 10 < 10 ^ Suc w" by (simp add: less_mult_imp_div_less)
  note IH = Suc.IH [OF n]
  have "pad_nat (Suc (Suc w)) k < pad_nat (Suc (Suc w)) n" if k: "k < n" for k
  proof -
    have "k div 10 < n div 10 \<or> k div 10 = n div 10 \<and> k mod 10 < n mod 10"
      using k div_mult_mod_eq [of k 10] div_mult_mod_eq [of n 10] div_le_mono [of k n 10] by linarith
    moreover have "k div 10 < 10 ^ Suc w" using k n by (meson div_le_mono le_less_trans less_imp_le)
    then have "length (pad_nat (Suc w) (k div 10)) = Suc w" using Suc.IH by blast
    ultimately show ?thesis
      using IH char_less [of "k mod 10" "n mod 10"] by (auto simp: pad_nat_Suc lex_append_less)
  qed
  with IH show ?case by (simp add: pad_nat_Suc)
qed

lemma pad_nat_lex:
  assumes "a < 10 ^ w" "b < 10 ^ w" "0 < w"
  shows "(pad_nat w a @ s < pad_nat w b @ t) = (a < b \<or> a = b \<and> s < t)"
proof -
  obtain v where w: "w = Suc v" using assms(3) by (cases w) auto
  have l: "length (pad_nat w a) = length (pad_nat w b)"
    using pad_nat_order [of a v] pad_nat_order [of b v] assms(1,2) by (simp add: w)
  have "a < b \<Longrightarrow> pad_nat w a < pad_nat w b" "b < a \<Longrightarrow> pad_nat w b < pad_nat w a"
    using pad_nat_order [of b v] pad_nat_order [of a v] assms(1,2) by (auto simp: w)
  then show ?thesis unfolding lex_append_less [OF l] by (metis less_asym less_irrefl linorder_neqE)
qed

lemma pad_nat_sep:
  assumes "a < 10 ^ w" "b < 10 ^ w" "0 < w"
  shows "(pad_nat w a @ c # s < pad_nat w b @ c # t) = (a < b \<or> a = b \<and> s < t)"
  using pad_nat_lex [OF assms, of "c # s" "c # t"] by simp

lemma less_prod_simp: "(a, b) < (c, d) \<longleftrightarrow> a < c \<or> a = c \<and> b < d" for a c :: "'a::linorder" and b d :: "'b::linorder"
  by (auto simp: less_prod_def)

text \<open>The key a time stamp is built from.\<close>

definition stamp_key :: "u64 \<Rightarrow> (nat \<times> nat \<times> nat) \<times> nat \<times> nat \<times> nat" where
  "stamp_key secs =
    (let time = unat secs mod 86400
     in (civil (unat secs div 86400 + 719468), time div 3600, time mod 3600 div 60, time mod 60))"

lemma time_key_mono:
  "s < t \<Longrightarrow> (s div 3600, s mod 3600 div 60, s mod 60) < (t div 3600, t mod 3600 div 60, t mod 60)" for s t :: nat
proof -
  assume a: "s < t"
  have m: "x mod 3600 mod 60 = x mod 60" for x :: nat by (rule mod_mod_cancel) simp
  have lt: "x div k < y div k \<or> x div k = y div k \<and> x mod k < y mod k" if "x < y" for x y k :: nat
    using that div_le_mono [of x y k] div_mult_mod_eq [of x k] div_mult_mod_eq [of y k]
    by (metis le_neq_implies_less less_imp_le nat_add_left_cancel_less)
  from lt [OF a, of 3600] show ?thesis
    using lt [of "s mod 3600" "t mod 3600" 60] m [of s] m [of t] by (auto simp: less_prod_def')
qed

lemma stamp_key_mono: "s < t \<Longrightarrow> stamp_key s < stamp_key t"
proof -
  assume "s < t"
  then have n: "unat s < unat t" by (simp add: word_less_nat_alt)
  let ?d = "\<lambda>x :: u64. unat x div 86400"
  consider "?d s < ?d t" | "?d s = ?d t" "unat s mod 86400 < unat t mod 86400"
    using n div_le_mono [of "unat s" "unat t" 86400] div_mult_mod_eq [of "unat s" 86400] div_mult_mod_eq [of "unat t" 86400]
    by (metis le_neq_implies_less less_imp_le nat_add_left_cancel_less)
  then show ?thesis
  proof cases
    case 1
    then have "civil (?d s + 719468) < civil (?d t + 719468)" by (intro civil_mono) simp
    then show ?thesis by (simp add: stamp_key_def less_prod_def' Let_def)
  next
    case 2
    from time_key_mono [OF 2(2)] 2(1) show ?thesis by (simp add: stamp_key_def less_prod_def' Let_def)
  qed
qed

lemma year_bound:
  assumes "unat secs < 253402300800"
  shows "fst (civil (unat secs div 86400 + 719468)) < 10 ^ 4"
proof -
  have "civil 3652364 = (9999, 12, 31)" by (simp add: civil_def doe_of_def yoe_of_def doy_of_def month_day_def)
  moreover have "unat secs div 86400 < 2932897" by (rule less_mult_imp_div_less) (use assms in simp)
  then have "civil (unat secs div 86400 + 719468) \<le> civil 3652364"
    using civil_mono [of "unat secs div 86400 + 719468" 3652364]
    by (cases "unat secs div 86400 + 719468 = 3652364") (simp_all add: less_imp_le)
  ultimately have "fst (civil (unat secs div 86400 + 719468)) \<le> 9999"
    by (cases "civil (unat secs div 86400 + 719468)") (auto simp: less_eq_prod_def)
  then show ?thesis by simp
qed

lemma now_iso_less:
  assumes "unat s < 253402300800" "unat t < 253402300800" "s < t"
  shows "now_iso s < now_iso t"
proof -
  have f: "\<exists>y m d h mi se. stamp_key x = ((y, m, d), h, mi, se) \<and>
      epoch_to_ymd_hms x = (y, m, d, h, mi, se) \<and> y < 10 ^ 4 \<and> m < 10 ^ 2 \<and> d < 10 ^ 2 \<and>
      h < 10 ^ 2 \<and> mi < 10 ^ 2 \<and> se < 10 ^ 2" if b: "unat x < 253402300800" for x
  proof -
    obtain y m d where c: "civil (unat x div 86400 + 719468) = (y, m, d)" by (metis prod_cases3)
    let ?t = "unat x mod 86400"
    have "?t div 3600 < 24" "?t mod 3600 div 60 < 60" "?t mod 60 < 60"
      by (rule less_mult_imp_div_less, simp)+ simp
    moreover have "y < 10 ^ 4" "m \<le> 12" "d \<le> 31"
      using year_bound [OF b] valid_civil [of "unat x div 86400"] c by (auto simp: valid_date_def)
    ultimately show ?thesis
      by (simp add: stamp_key_def epoch_to_ymd_hms_def c Let_def)
  qed
  obtain y m d h mi se where a: "stamp_key s = ((y, m, d), h, mi, se)" "epoch_to_ymd_hms s = (y, m, d, h, mi, se)"
    "y < 10 ^ 4" "m < 10 ^ 2" "d < 10 ^ 2" "h < 10 ^ 2" "mi < 10 ^ 2" "se < 10 ^ 2"
    using f [OF assms(1)] by blast
  obtain y' m' d' h' mi' se' where b: "stamp_key t = ((y', m', d'), h', mi', se')"
    "epoch_to_ymd_hms t = (y', m', d', h', mi', se')"
    "y' < 10 ^ 4" "m' < 10 ^ 2" "d' < 10 ^ 2" "h' < 10 ^ 2" "mi' < 10 ^ 2" "se' < 10 ^ 2"
    using f [OF assms(2)] by blast
  have "((y, m, d), h, mi, se) < ((y', m', d'), h', mi', se')"
    using stamp_key_mono [OF assms(3)] a b by simp
  then have k: "y < y' \<or> y = y' \<and> (m < m' \<or> m = m' \<and> (d < d' \<or> d = d' \<and>
      (h < h' \<or> h = h' \<and> (mi < mi' \<or> mi = mi' \<and> se < se'))))"
    unfolding less_prod_simp by blast
  show ?thesis
    unfolding now_iso_def a(2) b(2) Let_def prod.case append_Cons append_Nil
    by (simp only: pad_nat_sep [OF a(3) b(3) zero_less_numeral] pad_nat_sep [OF a(4) b(4) zero_less_numeral]
        pad_nat_sep [OF a(5) b(5) zero_less_numeral] pad_nat_sep [OF a(6) b(6) zero_less_numeral]
        pad_nat_sep [OF a(7) b(7) zero_less_numeral] pad_nat_lex [OF a(8) b(8) zero_less_numeral] k less_irrefl simp_thms)
qed

text \<open>Time stamps order as their text does: up to the end of the year 9999 a stamp is earlier than
  another exactly when its text comes first byte by byte, which is how the stores sort their rows.\<close>

theorem now_iso_order:
  assumes "unat s < 253402300800" "unat t < 253402300800"
  shows "now_iso s < now_iso t \<longleftrightarrow> s < t"
proof
  assume l: "now_iso s < now_iso t"
  show "s < t"
  proof (rule ccontr)
    assume "\<not> s < t"
    then have "t < s \<or> s = t" by (simp only: not_less le_less) blast
    with now_iso_less [OF assms(2,1)] l show False by (metis less_asym less_irrefl)
  qed
qed (rule now_iso_less [OF assms])

theorem now_iso_order_witness: "now_iso 951782399 < now_iso 951782400"
  by (rule iffD2 [OF now_iso_order]) simp_all

lemma leap_day: "epoch_to_ymd_hms 951782400 = (2000, 2, 29, 0, 0, 0)"
proof -
  have "civil 730484 = (2000, 2, 29)"
    by (simp add: civil_def doe_of_def yoe_of_def doy_of_def month_day_def)
  then show ?thesis by (simp add: epoch_to_ymd_hms_def)
qed

end
