(* ===== verification/SqlTable.thy ===== *)
theory SqlTable
  imports RustStr "HOL-Library.Multiset" "HOL-Library.List_Lexorder" "HOL-Library.Char_ord"
begin

text \<open>
  The part of SQLite that the stores use, as documented: a table is a list of rows, a statement
  either fails without an effect or takes effect as a whole, and a query visits the rows in an order
  of the engine's choice (\<open>db_scan\<close>, any permutation). Every call of the pool or of the engine may fail:
  \<open>db_faults\<close> says which of the next calls do, and with what message.
\<close>

subsection \<open>Tables and calls\<close>

record 'r db =
  db_rows :: "'r list"
  db_scan :: "'r list \<Rightarrow> 'r list"
  db_faults :: "string option list"

definition db_new :: "('r list \<Rightarrow> 'r list) \<Rightarrow> string option list \<Rightarrow> 'r db" where
  "db_new scan faults = \<lparr> db_rows = [], db_scan = scan, db_faults = faults \<rparr>"

definition db_ok :: "'r db \<Rightarrow> bool" where
  "db_ok db \<longleftrightarrow> (\<forall>xs. mset (db_scan db xs) = mset xs)"

definition reliable :: "'r db \<Rightarrow> bool" where
  "reliable db \<longleftrightarrow> (\<forall>x \<in> set (db_faults db). x = None)"

text \<open>One call; \<open>db_try mk f\<close> goes on with \<open>f\<close> when it succeeds.\<close>

definition db_call :: "'r db \<Rightarrow> (unit, string) result \<times> 'r db" where
  "db_call db =
    (case db_faults db of
       Some e # fs \<Rightarrow> (Err e, db\<lparr> db_faults := fs \<rparr>)
     | _ \<Rightarrow> (Ok (), db\<lparr> db_faults := tl (db_faults db) \<rparr>))"

definition db_try ::
    "(string \<Rightarrow> 'e) \<Rightarrow> ('r db \<Rightarrow> ('a, 'e) result \<times> 'r db) \<Rightarrow> 'r db \<Rightarrow> ('a, 'e) result \<times> 'r db" where
  "db_try mk f db = (case db_call db of (Err e, d) \<Rightarrow> (Err (mk e), d) | (Ok _, d) \<Rightarrow> f d)"

text \<open>The \<open>?\<close> operator on an operation of the store.\<close>

definition db_bind ::
    "('r db \<Rightarrow> ('a, 'e) result \<times> 'r db) \<Rightarrow> ('a \<Rightarrow> 'r db \<Rightarrow> ('b, 'e) result \<times> 'r db) \<Rightarrow>
     'r db \<Rightarrow> ('b, 'e) result \<times> 'r db" where
  "db_bind m f db = (case m db of (Err e, d) \<Rightarrow> (Err e, d) | (Ok x, d) \<Rightarrow> f x d)"

text \<open>The rows a query visits, in the engine's order.\<close>

definition select :: "('r \<Rightarrow> bool) \<Rightarrow> 'r db \<Rightarrow> 'r list" where
  "select P db = filter P (db_scan db (db_rows db))"

definition one_row :: "'r list \<Rightarrow> 'r option" where
  "one_row xs = (case xs of [] \<Rightarrow> None | x # _ \<Rightarrow> Some x)"

subsection \<open>Calls that fail and calls that do not\<close>

lemma db_call_frame [simp]:
  "db_rows (snd (db_call db)) = db_rows db" "db_scan (snd (db_call db)) = db_scan db"
  by (auto simp: db_call_def split: list.splits option.splits)

lemma db_callD: "db_call db = (r, d) \<Longrightarrow> db_rows d = db_rows db \<and> db_scan d = db_scan db"
  using db_call_frame [of db] by simp

lemma db_try_rows:
  assumes "\<And>d. db_rows (snd (f d)) = db_rows d"
  shows "db_rows (snd (db_try mk f db)) = db_rows db"
proof -
  obtain r d where c: "db_call db = (r, d)" by force
  then show ?thesis using db_callD [OF c] assms [of d] by (cases r) (auto simp: db_try_def)
qed

lemma db_call_reliable: "reliable db \<Longrightarrow> \<exists>d. db_call db = (Ok (), d) \<and> db_rows d = db_rows db \<and>
    db_scan d = db_scan db \<and> reliable d"
  by (cases "db_faults db") (auto simp: db_call_def reliable_def)

lemma reliable_rows [simp]: "reliable (db\<lparr> db_rows := rs \<rparr>) = reliable db"
  by (simp add: reliable_def)

text \<open>A statement behind a connection: one of the two calls fails and nothing happens, or it runs.\<close>

lemma db_try2_cases:
  obtains (failed) e d where "db_try mk1 (db_try mk2 f) db = (Err e, d)" "db_rows d = db_rows db"
      "db_scan d = db_scan db" "\<not> reliable db" "\<exists>x. e = mk1 x \<or> e = mk2 x"
    | (ran) d where "db_try mk1 (db_try mk2 f) db = f d" "db_rows d = db_rows db" "db_scan d = db_scan db"
      "reliable db \<Longrightarrow> reliable d"
proof -
  obtain q1 d1 where c1: "db_call db = (q1, d1)" by force
  obtain q2 d2 where c2: "db_call d1 = (q2, d2)" by force
  have fr: "db_rows d1 = db_rows db" "db_scan d1 = db_scan db" "db_rows d2 = db_rows db" "db_scan d2 = db_scan db"
    using db_callD [OF c1] db_callD [OF c2] by auto
  have rel: "reliable db \<Longrightarrow> q1 = Ok () \<and> q2 = Ok () \<and> reliable d2"
    using db_call_reliable [of db] db_call_reliable [of d1] c1 c2 by auto
  show thesis
  proof (cases q1)
    case (Err e)
    with fr rel failed [of "mk1 e" d1] show thesis by (auto simp: db_try_def c1)
  next
    case q1: (Ok u)
    show thesis
    proof (cases q2)
      case (Err e)
      with fr rel q1 failed [of "mk2 e" d2] show thesis by (auto simp: db_try_def c1 c2)
    next
      case (Ok v)
      with fr rel q1 ran [of d2] show thesis by (auto simp: db_try_def c1 c2)
    qed
  qed
qed

lemma db_ok_cong: "db_scan d = db_scan db \<Longrightarrow> db_ok d = db_ok db"
  by (simp add: db_ok_def)

lemma mset_select: "db_ok db \<Longrightarrow> mset (select P db) = mset (filter P (db_rows db))"
  by (simp add: select_def db_ok_def mset_filter)

lemma set_select: "db_ok db \<Longrightarrow> set (select P db) = {r \<in> set (db_rows db). P r}"
  using mset_select [of db P] by (metis set_filter set_mset_mset)

lemma length_select: "db_ok db \<Longrightarrow> length (select P db) = length (filter P (db_rows db))"
  using mset_select [of db P] by (metis size_mset)

lemma select_cong: "db_rows d = db_rows db \<Longrightarrow> db_scan d = db_scan db \<Longrightarrow> select P d = select P db"
  by (simp add: select_def)

lemma filter_key:
  "distinct (map key rows) \<Longrightarrow>
    filter (\<lambda>r. key r = k) rows = (case List.find (\<lambda>r. key r = k) rows of None \<Rightarrow> [] | Some r \<Rightarrow> [r])"
proof (induction rows)
  case (Cons a rows)
  from Cons.prems have "key a = k \<Longrightarrow> filter (\<lambda>r. key r = k) rows = []"
    by (auto simp: filter_empty_conv image_iff)
  with Cons show ?case by auto
qed simp

lemma find_key:
  "distinct (map key rows) \<Longrightarrow> List.find (\<lambda>r. key r = k) rows = Some r \<longleftrightarrow> r \<in> set rows \<and> key r = k"
  by (induction rows) (auto simp: image_iff)

lemma select_key:
  assumes "db_ok db" "distinct (map key (db_rows db))"
  shows "one_row (select (\<lambda>r. key r = k) db) = List.find (\<lambda>r. key r = k) (db_rows db)"
proof -
  have "mset (select (\<lambda>r. key r = k) db) =
      mset (case List.find (\<lambda>r. key r = k) (db_rows db) of None \<Rightarrow> [] | Some r \<Rightarrow> [r])"
    using mset_select [OF assms(1)] filter_key [OF assms(2)] by metis
  then show ?thesis by (auto simp: one_row_def split: option.splits list.splits)
qed

subsection \<open>Sequences of calls\<close>

text \<open>\<open>step_ok db m Q E\<close>: run from \<open>db\<close>, \<open>m\<close> keeps the engine, ends with a value and rows that satisfy \<open>Q\<close>, or
  with an error that satisfies \<open>E\<close> or comes from a failed call.\<close>

definition step_ok ::
    "'r db \<Rightarrow> ('r db \<Rightarrow> ('a, 'e) result \<times> 'r db) \<Rightarrow> ('a \<Rightarrow> 'r list \<Rightarrow> bool) \<Rightarrow> ('e \<Rightarrow> bool) \<Rightarrow> bool" where
  "step_ok db m Q E \<longleftrightarrow>
    (case m db of (out, d) \<Rightarrow> db_scan d = db_scan db \<and> (reliable db \<longrightarrow> reliable d) \<and>
      (case out of Ok x \<Rightarrow> Q x (db_rows d) | Err e \<Rightarrow> reliable db \<longrightarrow> E e))"

lemma step_okD:
  "step_ok db m Q E \<Longrightarrow> m db = (out, d) \<Longrightarrow> db_scan d = db_scan db \<and> (reliable db \<longrightarrow> reliable d) \<and>
    (case out of Ok x \<Rightarrow> Q x (db_rows d) | Err e \<Rightarrow> reliable db \<longrightarrow> E e)"
  by (simp add: step_ok_def)

named_theorems step_intros "rules for sequences of calls"

lemma step_bind [step_intros]:
  assumes "step_ok db m Q' E"
    and "\<And>x d. Q' x (db_rows d) \<Longrightarrow> db_scan d = db_scan db \<Longrightarrow> step_ok d (f x) Q E"
  shows "step_ok db (db_bind m f) Q E"
proof -
  obtain out d where m: "m db = (out, d)" by force
  note s = step_okD [OF assms(1) m]
  show ?thesis
  proof (cases out)
    case (Ok x)
    with s assms(2) [of x d] show ?thesis by (auto simp: step_ok_def db_bind_def m split: result.splits)
  next
    case (Err e)
    with s show ?thesis by (simp add: step_ok_def db_bind_def m)
  qed
qed

lemma step_try [step_intros]:
  assumes "\<And>d. db_rows d = db_rows db \<Longrightarrow> db_scan d = db_scan db \<Longrightarrow> step_ok d f Q E"
  shows "step_ok db (db_try mk f) Q E"
proof -
  obtain out d where m: "db_call db = (out, d)" by force
  have fr: "db_rows d = db_rows db" "db_scan d = db_scan db" "reliable db \<Longrightarrow> is_ok out \<and> reliable d"
    using db_callD [OF m] db_call_reliable [of db] m by auto
  show ?thesis
  proof (cases out)
    case (Ok x)
    with fr assms [of d] show ?thesis by (auto simp: step_ok_def db_try_def m split: result.splits)
  next
    case (Err e)
    with fr show ?thesis by (auto simp: step_ok_def db_try_def m)
  qed
qed

lemma step_run:
  "db_scan (snd (m db)) = db_scan db \<Longrightarrow> db_faults (snd (m db)) = db_faults db \<Longrightarrow>
    (\<And>x. fst (m db) = Ok x \<Longrightarrow> Q x (db_rows (snd (m db)))) \<Longrightarrow>
    (\<And>e. fst (m db) = Err e \<Longrightarrow> E e) \<Longrightarrow> step_ok db m Q E"
  by (auto simp: step_ok_def reliable_def split: prod.splits result.splits)

lemma step_pure [step_intros]:
  "(\<And>x. f db = Ok x \<Longrightarrow> Q x (db_rows db)) \<Longrightarrow> (\<And>e. f db = Err e \<Longrightarrow> E e) \<Longrightarrow>
    step_ok db (\<lambda>db. (f db, db)) Q E"
  by (rule step_run) simp_all

text \<open>A transaction: begin, the statements, commit; an error of any of them rolls the rows back.\<close>

definition in_tx ::
    "(string \<Rightarrow> 'e) \<Rightarrow> ('r db \<Rightarrow> ('a, 'e) result \<times> 'r db) \<Rightarrow> 'r db \<Rightarrow> ('a, 'e) result \<times> 'r db" where
  "in_tx mk body = db_try mk (\<lambda>db.
    (case db_bind body (\<lambda>x. db_try mk (\<lambda>d. (Ok x, d))) db of
       (Ok x, d) \<Rightarrow> (Ok x, d)
     | (Err e, d) \<Rightarrow> (Err e, d\<lparr> db_rows := db_rows db \<rparr>)))"

lemma tx_outcome:
  assumes "\<And>d. db_rows d = db_rows db \<Longrightarrow> db_scan d = db_scan db \<Longrightarrow> step_ok d body Q E"
    and run: "in_tx mk body db = (out, d)"
  shows "db_scan d = db_scan db \<and> (reliable db \<longrightarrow> reliable d) \<and>
    (case out of Ok x \<Rightarrow> Q x (db_rows d) | Err e \<Rightarrow> db_rows d = db_rows db \<and> (reliable db \<longrightarrow> E e))"
proof -
  let ?b = "db_bind body (\<lambda>x. db_try mk (\<lambda>d. (Ok x, d)))"
  obtain o1 d1 where c: "db_call db = (o1, d1)" by force
  have fr: "db_rows d1 = db_rows db" "db_scan d1 = db_scan db" "reliable db \<Longrightarrow> is_ok o1 \<and> reliable d1"
    using db_callD [OF c] db_call_reliable [of db] c by auto
  have b: "step_ok d1 ?b Q E"
    by (rule step_bind [OF assms(1) [OF fr(1,2)]], rule step_try, rule step_pure) auto
  obtain o2 d2 where m: "?b d1 = (o2, d2)" by force
  from step_okD [OF b m] fr run show ?thesis
    by (cases o1; cases o2) (auto simp: in_tx_def db_try_def c m)
qed

text \<open>A transaction on a connection that has to be taken from the pool first.\<close>

lemma conn_tx_outcome:
  assumes body: "\<And>d. db_rows d = db_rows db \<Longrightarrow> db_scan d = db_scan db \<Longrightarrow> step_ok d body Q E"
    and run: "db_try mk0 (in_tx mk body) db = (out, d)"
  shows "db_scan d = db_scan db \<and> (reliable db \<longrightarrow> reliable d) \<and>
    (case out of Ok x \<Rightarrow> Q x (db_rows d) | Err e \<Rightarrow> db_rows d = db_rows db \<and> (reliable db \<longrightarrow> E e))"
proof -
  obtain o1 d1 where c: "db_call db = (o1, d1)" by force
  have fr: "db_rows d1 = db_rows db" "db_scan d1 = db_scan db" "reliable db \<Longrightarrow> is_ok o1 \<and> reliable d1"
    using db_callD [OF c] db_call_reliable [of db] c by auto
  show ?thesis
  proof (cases o1)
    case (Ok u)
    with run c have t: "in_tx mk body d1 = (out, d)" by (simp add: db_try_def)
    have b: "\<And>e. db_rows e = db_rows d1 \<Longrightarrow> db_scan e = db_scan d1 \<Longrightarrow> step_ok e body Q E"
      using body fr(1,2) by simp
    from tx_outcome [OF b t] fr show ?thesis by (auto split: result.splits)
  next
    case (Err e)
    with run c fr show ?thesis by (auto simp: db_try_def)
  qed
qed

subsection \<open>LIKE\<close>

text \<open>SQLite's \<^verbatim>\<open>LIKE\<close>: \<^verbatim>\<open>%\<close> is any text, \<^verbatim>\<open>_\<close> any character, ASCII letters match in either case.\<close>

fun like_chars :: "string list \<Rightarrow> string list \<Rightarrow> bool" where
  "like_chars [] [] = True"
| "like_chars [] (c # cs) = False"
| "like_chars (p # ps) [] = (p = ''%'' \<and> like_chars ps [])"
| "like_chars (p # ps) (c # cs) =
    (if p = ''%'' then like_chars ps (c # cs) \<or> like_chars (p # ps) cs
     else (p = ''_'' \<or> map ascii_lower p = map ascii_lower c) \<and> like_chars ps cs)"

definition sql_like :: "string \<Rightarrow> string \<Rightarrow> bool" where
  "sql_like pat t = like_chars (chars pat) (chars t)"

lemma like_any: "like_chars [''%''] t"
  by (induction t) simp_all

text \<open>A pattern without wildcards and a final \<^verbatim>\<open>%\<close> is a prefix up to the case of ASCII letters.\<close>

lemma like_prefix:
  "\<forall>c \<in> set ps. c \<noteq> ''%'' \<and> c \<noteq> ''_'' \<Longrightarrow>
    like_chars (ps @ [''%'']) t \<longleftrightarrow> length ps \<le> length t \<and>
      map (map ascii_lower) (take (length ps) t) = map (map ascii_lower) ps"
proof (induction ps arbitrary: t)
  case Nil
  then show ?case by (simp add: like_any)
next
  case (Cons p ps)
  then show ?case by (cases t) auto
qed

end
