(* ===== verification/Selection.thy ===== *)
theory Selection
  imports MsPrelude "HOL-Library.Multiset"
begin

text \<open>
  The first rows of an order, the specification that the queries of the stores and of the vector index share.
\<close>

text \<open>\<open>out\<close> is the first \<open>n\<close> of the rows \<open>rs\<close> in the order \<open>R\<close> (rows that \<open>R\<close> does not tell apart may come either way).\<close>

definition best_of :: "('r \<Rightarrow> 'r \<Rightarrow> bool) \<Rightarrow> nat \<Rightarrow> 'r list \<Rightarrow> 'r list \<Rightarrow> bool" where
  "best_of R n rs out \<longleftrightarrow>
    (\<exists>rest. mset (out @ rest) = mset rs \<and> sorted_wrt R out \<and>
      (\<forall>a \<in> set out. \<forall>b \<in> set rest. R a b) \<and> length out = min n (length rs))"

lemma best_of_take:
  assumes "mset xs = mset rs" "sorted_wrt R xs"
  shows "best_of R n rs (take n xs)"
  unfolding best_of_def
proof (intro exI conjI)
  have "sorted_wrt R (take n xs @ drop n xs)" using assms(2) by simp
  then show "sorted_wrt R (take n xs)" "\<forall>a \<in> set (take n xs). \<forall>b \<in> set (drop n xs). R a b"
    unfolding sorted_wrt_append by blast+
  show "mset (take n xs @ drop n xs) = mset rs" using assms(1) by simp
  show "length (take n xs) = min n (length rs)" using mset_eq_length [OF assms(1)] by (simp add: min.commute)
qed

lemma best_of_subset: "best_of R n rs out \<Longrightarrow> x \<in> set out \<Longrightarrow> x \<in> set rs"
  unfolding best_of_def by (metis Un_iff mset_eq_setD set_append)

end
