(* ===== verification/KeyedTable.thy ===== *)
theory KeyedTable
  imports SqlTable Selection
begin

text \<open>
  What the session store (\<^verbatim>\<open>thread-store/src/store.rs\<close>) and the memory store (\<^verbatim>\<open>memories/src/store.rs\<close>)
  have in common: a table with a text primary key, whose rows are read back through \<^verbatim>\<open>map_row\<close>. A
  \<open>schema\<close> holds what differs: the key, the reading of a row, and the variants of the error type. The
  locale \<open>keyed_store\<close> is the contract of a schema (a written row reads back as what was written); from
  it follows, for any faults of the database, what each operation does to the map from keys to values.
\<close>

subsection \<open>Operations\<close>

record ('r, 'v, 'e) schema =
  sc_key :: "'r \<Rightarrow> string"
  sc_row :: "'r \<Rightarrow> ('v, string) result"
  sc_pool :: "string \<Rightarrow> 'e"
  sc_sql :: "string \<Rightarrow> 'e"
  sc_missing :: "string \<Rightarrow> 'e"
  sc_bad :: "string \<Rightarrow> 'e"
  sc_dup :: string

definition empty_id :: "string \<Rightarrow> bool" where
  "empty_id i \<longleftrightarrow> trim i = []"

text \<open>A connection, then a statement on it; the id is checked before either.\<close>

definition with_conn ::
    "('r, 'v, 'e) schema \<Rightarrow> ('r db \<Rightarrow> ('a, 'e) result \<times> 'r db) \<Rightarrow> 'r db \<Rightarrow> ('a, 'e) result \<times> 'r db" where
  "with_conn sc f = db_try (sc_pool sc) (db_try (sc_sql sc) f)"

definition with_id ::
    "('r, 'v, 'e) schema \<Rightarrow> string \<Rightarrow> ('r db \<Rightarrow> ('a, 'e) result \<times> 'r db) \<Rightarrow> 'r db \<Rightarrow> ('a, 'e) result \<times> 'r db" where
  "with_id sc i f = (if empty_id i then (\<lambda>db. (Err (sc_bad sc ''empty id''), db)) else with_conn sc f)"

definition get_row :: "('r, 'v, 'e) schema \<Rightarrow> string \<Rightarrow> 'r db \<Rightarrow> ('v option, 'e) result \<times> 'r db" where
  "get_row sc i =
    with_id sc i (\<lambda>db.
      (case one_row (select (\<lambda>r. sc_key sc r = i) db) of
         Some r \<Rightarrow> map_ok Some (map_err (sc_sql sc) (sc_row sc r))
       | None \<Rightarrow> Ok None, db))"

text \<open>The row after a write, \<^verbatim>\<open>self.get_by_id(id)?.ok_or_else(..)\<close>.\<close>

definition refetch :: "('r, 'v, 'e) schema \<Rightarrow> string \<Rightarrow> 'r db \<Rightarrow> ('v, 'e) result \<times> 'r db" where
  "refetch sc i = db_bind (get_row sc i) (\<lambda>v db. (opt_ok_or v (sc_missing sc i), db))"

definition insert_keyed :: "('r, 'v, 'e) schema \<Rightarrow> 'r \<Rightarrow> 'r db \<Rightarrow> (unit, 'e) result \<times> 'r db" where
  "insert_keyed sc r db =
    (if sc_key sc r \<in> set (map (sc_key sc) (db_rows db)) then (Err (sc_sql sc (sc_dup sc)), db)
     else (Ok (), db\<lparr> db_rows := db_rows db @ [r] \<rparr>))"

definition create_row :: "('r, 'v, 'e) schema \<Rightarrow> 'r \<Rightarrow> 'r db \<Rightarrow> ('v, 'e) result \<times> 'r db" where
  "create_row sc r = with_conn sc (db_bind (insert_keyed sc r) (\<lambda>_. refetch sc (sc_key sc r)))"

text \<open>An \<^verbatim>\<open>UPDATE .. WHERE id = ?\<close>: how many rows it changed.\<close>

definition set_rows :: "('r, 'v, 'e) schema \<Rightarrow> string \<Rightarrow> ('r \<Rightarrow> 'r) \<Rightarrow> 'r db \<Rightarrow> (nat, 'e) result \<times> 'r db" where
  "set_rows sc i f db =
    (Ok (length (filter (\<lambda>r. sc_key sc r = i) (db_rows db))),
     db\<lparr> db_rows := map (\<lambda>r. if sc_key sc r = i then f r else r) (db_rows db) \<rparr>)"

definition update_row :: "('r, 'v, 'e) schema \<Rightarrow> string \<Rightarrow> ('r \<Rightarrow> 'r) \<Rightarrow> 'r db \<Rightarrow> ('v, 'e) result \<times> 'r db" where
  "update_row sc i f =
    with_id sc i (db_bind (set_rows sc i f)
      (\<lambda>changed. if changed = 0 then (\<lambda>db. (Err (sc_missing sc i), db)) else refetch sc i))"

definition delete_row :: "('r, 'v, 'e) schema \<Rightarrow> string \<Rightarrow> 'r db \<Rightarrow> (bool, 'e) result \<times> 'r db" where
  "delete_row sc i =
    with_id sc i (\<lambda>db.
      (Ok (filter (\<lambda>r. sc_key sc r = i) (db_rows db) \<noteq> []),
       db\<lparr> db_rows := filter (\<lambda>r. sc_key sc r \<noteq> i) (db_rows db) \<rparr>))"

text \<open>\<^verbatim>\<open>SELECT .. WHERE P ORDER BY .. LIMIT n\<close>, with every row read by \<^verbatim>\<open>map_row\<close>.\<close>

fun read_rows :: "('r \<Rightarrow> ('v, string) result) \<Rightarrow> 'r list \<Rightarrow> ('v list, string) result" where
  "read_rows f [] = Ok []"
| "read_rows f (r # rs) = try_res (f r) (\<lambda>v. map_ok ((#) v) (read_rows f rs))"

definition limited :: "nat option \<Rightarrow> 'r list \<Rightarrow> 'r list" where
  "limited n rs = (case n of Some k \<Rightarrow> take k rs | None \<Rightarrow> rs)"

definition query_rows ::
    "('r, 'v, 'e) schema \<Rightarrow> ('r \<Rightarrow> bool) \<Rightarrow> ('r list \<Rightarrow> 'r list) \<Rightarrow> nat option \<Rightarrow> 'r db \<Rightarrow> ('v list, 'e) result \<times> 'r db" where
  "query_rows sc P order n =
    with_conn sc (\<lambda>db. (map_err (sc_sql sc) (read_rows (sc_row sc) (limited n (order (select P db)))), db))"

text \<open>The limit of a query: 1000 unless given, never more than 10000.\<close>

definition row_limit :: "u32 option \<Rightarrow> nat" where
  "row_limit l = min (unat (unwrap_or l 1000)) 10000"

subsection \<open>The table as a map\<close>

definition table_map :: "('r, 'v, 'e) schema \<Rightarrow> 'r db \<Rightarrow> string \<rightharpoonup> 'v" where
  "table_map sc db i =
    (case List.find (\<lambda>r. sc_key sc r = i) (db_rows db) of
       Some r \<Rightarrow> (case sc_row sc r of Ok v \<Rightarrow> Some v | Err _ \<Rightarrow> None)
     | None \<Rightarrow> None)"

definition table_inv :: "('r, 'v, 'e) schema \<Rightarrow> ('v \<Rightarrow> 'r) \<Rightarrow> 'r db \<Rightarrow> bool" where
  "table_inv sc enc db \<longleftrightarrow>
    distinct (map (sc_key sc) (db_rows db)) \<and>
    (\<forall>r \<in> set (db_rows db). \<not> empty_id (sc_key sc r) \<and> (\<exists>v. r = enc v)) \<and> db_ok db"

text \<open>What an operation may do to the map: \<open>app\<close> says when it applies, \<open>eff\<close> what it does then.\<close>

definition op_outcome ::
    "('r, 'v, 'e) schema \<Rightarrow> ('v \<Rightarrow> 'r) \<Rightarrow> bool \<Rightarrow> ((string \<rightharpoonup> 'v) \<Rightarrow> (string \<rightharpoonup> 'v)) \<Rightarrow>
     'r db \<Rightarrow> 'r db \<Rightarrow> bool \<Rightarrow> bool" where
  "op_outcome sc enc app eff db d success \<longleftrightarrow>
    table_inv sc enc d \<and>
    (table_map sc d = table_map sc db \<or> app \<and> table_map sc d = eff (table_map sc db)) \<and>
    (success \<longrightarrow> app \<and> table_map sc d = eff (table_map sc db)) \<and>
    (reliable db \<longrightarrow> success = app \<and> reliable d)"

definition ok_value :: "'v \<Rightarrow> ('v, 'e) result \<Rightarrow> bool" where
  "ok_value v out \<longleftrightarrow> (\<forall>x. out = Ok x \<longrightarrow> x = v)"

lemma table_map_cong: "db_rows d = db_rows db \<Longrightarrow> table_map sc d = table_map sc db"
  by (simp add: table_map_def fun_eq_iff)

lemma table_inv_cong: "db_rows d = db_rows db \<Longrightarrow> db_scan d = db_scan db \<Longrightarrow> table_inv sc enc d = table_inv sc enc db"
  by (simp add: table_inv_def db_ok_def)

lemma table_inv_rows:
  "table_inv sc enc (db\<lparr> db_rows := rs \<rparr>) \<longleftrightarrow>
    distinct (map (sc_key sc) rs) \<and> (\<forall>r \<in> set rs. \<not> empty_id (sc_key sc r) \<and> (\<exists>v. r = enc v)) \<and> db_ok db"
  by (simp add: table_inv_def db_ok_def)

lemma op_outcome_refused:
  "table_inv sc enc db \<Longrightarrow> db_rows d = db_rows db \<Longrightarrow> db_scan d = db_scan db \<Longrightarrow> \<not> success \<Longrightarrow>
    reliable db \<longrightarrow> \<not> app \<and> reliable d \<Longrightarrow> op_outcome sc enc app eff db d success"
  using table_map_cong [of d db sc] table_inv_cong [of d db sc enc] by (simp add: op_outcome_def)

lemma op_outcome_done:
  "table_inv sc enc d \<Longrightarrow> app \<Longrightarrow> table_map sc d = eff (table_map sc db) \<Longrightarrow>
    reliable db \<longrightarrow> success \<and> reliable d \<Longrightarrow> op_outcome sc enc app eff db d success"
  by (auto simp: op_outcome_def)

lemma with_conn_cases:
  obtains (failed) e d where "with_conn sc f db = (Err e, d)" "db_rows d = db_rows db"
      "db_scan d = db_scan db" "\<not> reliable db"
    | (ran) d where "with_conn sc f db = f d" "db_rows d = db_rows db" "db_scan d = db_scan db"
      "reliable db \<Longrightarrow> reliable d"
  unfolding with_conn_def by (rule db_try2_cases [of "sc_pool sc" "sc_sql sc" f db]) blast+

subsection \<open>The contract of a schema\<close>

locale keyed_store =
  fixes sc :: "('r, 'v, 'e) schema"
    and enc :: "'v \<Rightarrow> 'r"
  assumes reads_back: "sc_row sc (enc v) = Ok v"
begin

lemma table_map_None:
  assumes "table_inv sc enc db"
  shows "table_map sc db i = None \<longleftrightarrow> i \<notin> set (map (sc_key sc) (db_rows db))"
proof -
  have "\<forall>r \<in> set (db_rows db). \<exists>v. sc_row sc r = Ok v"
    using assms reads_back by (force simp: table_inv_def)
  then show ?thesis
    by (auto simp: table_map_def find_None_iff split: option.splits result.splits dest!: find_Some_in)
qed

lemma table_map_Some:
  assumes "table_inv sc enc db"
  shows "table_map sc db i = Some v \<longleftrightarrow> enc v \<in> set (db_rows db) \<and> sc_key sc (enc v) = i"
proof
  assume "table_map sc db i = Some v"
  then obtain r where r: "List.find (\<lambda>r. sc_key sc r = i) (db_rows db) = Some r" "sc_row sc r = Ok v"
    by (auto simp: table_map_def split: option.splits result.splits)
  from find_Some_in [OF r(1)] have "r \<in> set (db_rows db)" "sc_key sc r = i" by auto
  with assms obtain w where "r = enc w" by (auto simp: table_inv_def)
  with r reads_back \<open>r \<in> set (db_rows db)\<close> \<open>sc_key sc r = i\<close>
  show "enc v \<in> set (db_rows db) \<and> sc_key sc (enc v) = i" by auto
next
  assume "enc v \<in> set (db_rows db) \<and> sc_key sc (enc v) = i"
  with assms have "List.find (\<lambda>r. sc_key sc r = i) (db_rows db) = Some (enc v)"
    by (simp add: find_key table_inv_def)
  then show "table_map sc db i = Some v" by (simp add: table_map_def reads_back)
qed

lemma get_row_spec:
  assumes inv: "table_inv sc enc db" and run: "get_row sc i db = (out, d)"
  shows "db_rows d = db_rows db \<and> db_scan d = db_scan db \<and>
    (case out of
       Ok v \<Rightarrow> \<not> empty_id i \<and> v = table_map sc db i
     | Err e \<Rightarrow> if empty_id i then e = sc_bad sc ''empty id'' else \<not> reliable db) \<and>
    (reliable db \<longrightarrow> reliable d)"
proof (cases "empty_id i")
  case True
  with run show ?thesis by (auto simp: get_row_def with_id_def)
next
  case False
  let ?f = "\<lambda>db. (case one_row (select (\<lambda>r. sc_key sc r = i) db) of
      Some r \<Rightarrow> map_ok Some (map_err (sc_sql sc) (sc_row sc r)) | None \<Rightarrow> Ok None, db)"
  show ?thesis
  proof (cases rule: with_conn_cases [of sc ?f db])
    case (failed e d1)
    with run False show ?thesis by (auto simp: get_row_def with_id_def)
  next
    case (ran d1)
    have "one_row (select (\<lambda>r. sc_key sc r = i) d1) = List.find (\<lambda>r. sc_key sc r = i) (db_rows db)"
      using inv select_key [of db "sc_key sc" i] select_cong [OF ran(2,3)] by (simp add: table_inv_def)
    moreover have "List.find (\<lambda>r. sc_key sc r = i) (db_rows db) = Some r \<Longrightarrow> \<exists>v. sc_row sc r = Ok v" for r
      using inv reads_back by (fastforce simp: table_inv_def dest: find_Some_in)
    ultimately have "fst (?f d1) = Ok (table_map sc db i)"
      by (auto simp: table_map_def split: option.splits result.splits)
    with ran run False show ?thesis by (auto simp: get_row_def with_id_def)
  qed
qed

lemma refetch_spec:
  assumes "table_inv sc enc db" "refetch sc i db = (out, d)" "table_map sc db i = Some v" "\<not> empty_id i"
  shows "db_rows d = db_rows db \<and> db_scan d = db_scan db \<and> ok_value v out \<and>
    (reliable db \<longrightarrow> is_ok out \<and> reliable d)"
proof -
  obtain q d1 where g: "get_row sc i db = (q, d1)" by force
  from get_row_spec [OF assms(1) g] assms(2-4) show ?thesis
    by (cases q) (auto simp: refetch_def db_bind_def g ok_value_def)
qed

text \<open>A write that is read back: the write decides what happens to the map.\<close>

lemma refetch_outcome:
  assumes inv: "table_inv sc enc d1" and m: "table_map sc d1 = eff (table_map sc db)"
    and v: "eff (table_map sc db) i = Some v" and "\<not> empty_id i" "app"
    and rel: "reliable db \<Longrightarrow> reliable d1" and run: "refetch sc i d1 = (out, d)"
  shows "op_outcome sc enc app eff db d (is_ok out) \<and> ok_value v out"
proof -
  have "table_map sc d1 i = Some v" using m v by simp
  from refetch_spec [OF inv run this \<open>\<not> empty_id i\<close>]
  have s: "db_rows d = db_rows d1" "db_scan d = db_scan d1" "ok_value v out"
    "reliable d1 \<longrightarrow> is_ok out \<and> reliable d" by auto
  have "op_outcome sc enc app eff db d (is_ok out)"
    using s inv m rel \<open>app\<close> table_map_cong [OF s(1), of sc] table_inv_cong [OF s(1,2), of sc enc]
    by (intro op_outcome_done) auto
  with s(3) show ?thesis by simp
qed

end

subsection \<open>What the operations do to the map\<close>

lemma find_map_keeps:
  "(\<And>x. x \<in> set xs \<Longrightarrow> key (g x) = key x) \<Longrightarrow>
    List.find (\<lambda>x. key x = k) (map g xs) = map_option g (List.find (\<lambda>x. key x = k) xs)"
  by (induction xs) auto

context keyed_store begin

lemma insert_map:
  assumes inv: "table_inv sc enc db" and new: "sc_key sc (enc v) \<notin> set (map (sc_key sc) (db_rows db))"
    and id: "\<not> empty_id (sc_key sc (enc v))"
  defines "d \<equiv> db\<lparr> db_rows := db_rows db @ [enc v] \<rparr>"
  shows "table_inv sc enc d" "table_map sc d = (table_map sc db)(sc_key sc (enc v) \<mapsto> v)"
proof -
  show "table_inv sc enc d" using inv new id by (auto simp: table_inv_def db_ok_def d_def)
  have none: "List.find (\<lambda>r. sc_key sc r = sc_key sc (enc v)) (db_rows db) = None"
  proof (rule ccontr)
    assume "List.find (\<lambda>r. sc_key sc r = sc_key sc (enc v)) (db_rows db) \<noteq> None"
    then obtain x where "List.find (\<lambda>r. sc_key sc r = sc_key sc (enc v)) (db_rows db) = Some x" by blast
    from find_Some_in [OF this] have x: "x \<in> set (db_rows db)" "sc_key sc x = sc_key sc (enc v)" by auto
    from imageI [OF x(1), of "sc_key sc"] x(2) new show False by simp
  qed
  show "table_map sc d = (table_map sc db)(sc_key sc (enc v) \<mapsto> v)"
  proof
    fix i
    show "table_map sc d i = ((table_map sc db)(sc_key sc (enc v) \<mapsto> v)) i"
      using none
      by (cases "List.find (\<lambda>r. sc_key sc r = i) (db_rows db)") (auto simp: table_map_def d_def find_append reads_back)
  qed
qed

lemma create_outcome:
  assumes inv: "table_inv sc enc db" and id: "\<not> empty_id (sc_key sc (enc v))"
    and run: "create_row sc (enc v) db = (out, d)"
  shows "op_outcome sc enc (table_map sc db (sc_key sc (enc v)) = None)
      (\<lambda>m. m(sc_key sc (enc v) \<mapsto> v)) db d (is_ok out) \<and> ok_value v out"
proof (cases rule: with_conn_cases [of sc "db_bind (insert_keyed sc (enc v)) (\<lambda>_. refetch sc (sc_key sc (enc v)))" db])
  case (failed e d1)
  with run inv show ?thesis
    by (auto simp: create_row_def ok_value_def intro: op_outcome_refused)
next
  case (ran d1)
  let ?k = "sc_key sc (enc v)"
  have m: "table_map sc d1 = table_map sc db" "table_inv sc enc d1"
    using inv table_map_cong [OF ran(2)] table_inv_cong [OF ran(2,3)] by auto
  show ?thesis
  proof (cases "?k \<in> set (map (sc_key sc) (db_rows d1))")
    case True
    then have "table_map sc db ?k \<noteq> None" using table_map_None [OF m(2)] m(1) by metis
    with True run ran inv show ?thesis
      by (auto simp: create_row_def db_bind_def insert_keyed_def ok_value_def intro!: op_outcome_refused)
  next
    case False
    note i = insert_map [OF m(2) False id]
    have none: "table_map sc db ?k = None" using False table_map_None [OF m(2)] m(1) by metis
    have g: "refetch sc ?k (d1\<lparr> db_rows := db_rows d1 @ [enc v] \<rparr>) = (out, d)"
      using run ran(1) False by (simp add: create_row_def db_bind_def insert_keyed_def)
    show ?thesis
      by (rule refetch_outcome [OF i(1) _ _ id none _ g]) (use i(2) m(1) ran(4) in auto)
  qed
qed

lemma set_rows_map:
  fixes i :: string
  assumes inv: "table_inv sc enc db"
    and upd: "\<And>v. f (enc v) = enc (g v)" "\<And>v. sc_key sc (enc (g v)) = sc_key sc (enc v)"
  defines "d \<equiv> db\<lparr> db_rows := map (\<lambda>r. if sc_key sc r = i then f r else r) (db_rows db) \<rparr>"
  shows "table_inv sc enc d" "table_map sc d = (table_map sc db)(i := map_option g (table_map sc db i))"
proof -
  let ?g = "\<lambda>r. if sc_key sc r = i then f r else r"
  have key: "r \<in> set (db_rows db) \<Longrightarrow> sc_key sc (?g r) = sc_key sc r" for r
    using inv upd by (auto simp: table_inv_def)
  have row: "r \<in> set (db_rows db) \<Longrightarrow> \<exists>v. ?g r = enc v" for r
    using inv upd(1) by (metis (no_types, lifting) table_inv_def)
  have keys: "map (sc_key sc) (map ?g (db_rows db)) = map (sc_key sc) (db_rows db)"
    using key by (auto simp: comp_def)
  show iv: "table_inv sc enc d"
  proof -
    have "\<forall>r \<in> set (map ?g (db_rows db)). \<not> empty_id (sc_key sc r) \<and> (\<exists>v. r = enc v)"
    proof
      fix r assume "r \<in> set (map ?g (db_rows db))"
      then obtain s where s: "s \<in> set (db_rows db)" "r = ?g s"
        by (simp only: set_map image_iff) blast
      with key [OF s(1)] row [OF s(1)] inv show "\<not> empty_id (sc_key sc r) \<and> (\<exists>v. r = enc v)"
        unfolding table_inv_def s(2) by metis
    qed
    with inv keys show ?thesis unfolding d_def table_inv_rows by (simp only: table_inv_def)
  qed
  show "table_map sc d = (table_map sc db)(i := map_option g (table_map sc db i))"
  proof
    fix j
    have "List.find (\<lambda>r. sc_key sc r = j) (map ?g (db_rows db)) =
        map_option ?g (List.find (\<lambda>r. sc_key sc r = j) (db_rows db))"
      by (rule find_map_keeps) (simp only: key)
    then have m: "table_map sc d j = (case map_option ?g (List.find (\<lambda>r. sc_key sc r = j) (db_rows db)) of
        Some r \<Rightarrow> (case sc_row sc r of Ok v \<Rightarrow> Some v | Err _ \<Rightarrow> None) | None \<Rightarrow> None)"
      by (simp add: table_map_def d_def)
    show "table_map sc d j = ((table_map sc db)(i := map_option g (table_map sc db i))) j"
    proof (cases "List.find (\<lambda>r. sc_key sc r = j) (db_rows db)")
      case None
      with m show ?thesis by (auto simp: table_map_def)
    next
      case (Some r)
      from find_Some_in [OF this] inv obtain v where "r = enc v" "sc_key sc (enc v) = j"
        by (auto simp: table_inv_def)
      with Some m upd show ?thesis by (auto simp: table_map_def reads_back)
    qed
  qed
qed

lemma update_outcome:
  assumes inv: "table_inv sc enc db"
    and upd: "\<And>v. f (enc v) = enc (g v)" "\<And>v. sc_key sc (enc (g v)) = sc_key sc (enc v)"
    and run: "update_row sc i f db = (out, d)"
  shows "op_outcome sc enc (\<not> empty_id i \<and> table_map sc db i \<noteq> None)
      (\<lambda>m. m(i := map_option g (m i))) db d (is_ok out) \<and>
    (\<forall>x. out = Ok x \<longrightarrow> map_option g (table_map sc db i) = Some x)"
proof (cases "empty_id i")
  case True
  with run inv show ?thesis by (auto simp: update_row_def with_id_def intro: op_outcome_refused)
next
  case ne: False
  let ?f = "db_bind (set_rows sc i f)
      (\<lambda>changed. if changed = 0 then (\<lambda>db. (Err (sc_missing sc i), db)) else refetch sc i)"
  have run: "with_conn sc ?f db = (out, d)" using run ne by (simp add: update_row_def with_id_def)
  show ?thesis
  proof (cases rule: with_conn_cases [of sc ?f db])
    case (failed e d1)
    with run inv show ?thesis by (auto intro: op_outcome_refused)
  next
    case (ran d1)
    let ?d = "d1\<lparr> db_rows := map (\<lambda>r. if sc_key sc r = i then f r else r) (db_rows d1) \<rparr>"
    have m: "table_map sc d1 = table_map sc db" "table_inv sc enc d1"
      using inv table_map_cong [OF ran(2)] table_inv_cong [OF ran(2,3)] by auto
    show ?thesis
    proof (cases "table_map sc db i")
      case None
      then have "filter (\<lambda>r. sc_key sc r = i) (db_rows d1) = []"
          "map (\<lambda>r. if sc_key sc r = i then f r else r) (db_rows d1) = db_rows d1"
        using table_map_None [OF m(2), of i] m(1) by (auto simp: filter_empty_conv intro!: map_idI)
      with run ran inv None show ?thesis
        by (auto simp: db_bind_def set_rows_def intro!: op_outcome_refused)
    next
      case (Some v)
      then have "filter (\<lambda>r. sc_key sc r = i) (db_rows d1) \<noteq> []"
        using table_map_Some [OF m(2), of i v] m(1) by (auto simp: filter_empty_conv)
      then have r: "refetch sc i ?d = (out, d)" using run ran(1) by (simp add: db_bind_def set_rows_def)
      note s = set_rows_map [OF m(2), where f = f and g = g and i = i, OF upd]
      have "op_outcome sc enc (\<not> empty_id i \<and> table_map sc db i \<noteq> None)
          (\<lambda>m. m(i := map_option g (m i))) db d (is_ok out) \<and> ok_value (g v) out"
        by (rule refetch_outcome [OF s(1) _ _ ne _ _ r]) (use s(2) m(1) Some ne ran(4) in auto)
      with Some show ?thesis by (auto simp: ok_value_def)
    qed
  qed
qed

lemma delete_outcome:
  assumes inv: "table_inv sc enc db" and run: "delete_row sc i db = (out, d)"
  shows "op_outcome sc enc (\<not> empty_id i) (\<lambda>m. m(i := None)) db d (is_ok out) \<and>
    ok_value (table_map sc db i \<noteq> None) out"
proof (cases "empty_id i")
  case True
  with run inv show ?thesis by (auto simp: delete_row_def with_id_def ok_value_def intro: op_outcome_refused)
next
  case ne: False
  let ?f = "\<lambda>db. (Ok (filter (\<lambda>r. sc_key sc r = i) (db_rows db) \<noteq> []),
      db\<lparr> db_rows := filter (\<lambda>r. sc_key sc r \<noteq> i) (db_rows db) \<rparr>)"
  have run: "with_conn sc ?f db = (out, d)" using run ne by (simp add: delete_row_def with_id_def)
  show ?thesis
  proof (cases rule: with_conn_cases [of sc ?f db])
    case (failed e d1)
    with run inv show ?thesis by (auto simp: ok_value_def intro: op_outcome_refused)
  next
    case (ran d1)
    have m: "table_map sc d1 = table_map sc db" "table_inv sc enc d1"
      using inv table_map_cong [OF ran(2)] table_inv_cong [OF ran(2,3)] by auto
    have o: "out = Ok (filter (\<lambda>r. sc_key sc r = i) (db_rows d1) \<noteq> [])"
      "d = d1\<lparr> db_rows := filter (\<lambda>r. sc_key sc r \<noteq> i) (db_rows d1) \<rparr>"
      using run ran(1) by simp_all
    have find: "List.find (\<lambda>r. sc_key sc r = j) (filter (\<lambda>r. sc_key sc r \<noteq> i) rs) =
        (if j = i then None else List.find (\<lambda>r. sc_key sc r = j) rs)" for j rs
      by (induction rs) auto
    have "op_outcome sc enc (\<not> empty_id i) (\<lambda>m. m(i := None)) db d (is_ok out)"
    proof (rule op_outcome_done [OF _ ne])
      show "table_inv sc enc d" unfolding o(2) table_inv_rows
        using m(2) by (auto simp: table_inv_def intro: distinct_map_filter)
      show "table_map sc d = (table_map sc db)(i := None)"
        unfolding m(1) [symmetric] by (auto simp: table_map_def o(2) find fun_eq_iff)
      show "reliable db \<longrightarrow> is_ok out \<and> reliable d" using ran(4) o by (auto simp: reliable_def)
    qed
    moreover have "filter (\<lambda>r. sc_key sc r = i) (db_rows d1) \<noteq> [] \<longleftrightarrow> table_map sc db i \<noteq> None"
      using table_map_None [OF m(2), of i] m(1) by (auto simp: filter_empty_conv)
    ultimately show ?thesis by (simp add: o(1) ok_value_def)
  qed
qed

text \<open>A query leaves the rows alone, and returns the values of the rows it selects, in its order.\<close>

lemma read_rows_enc: "\<forall>r \<in> set rs. \<exists>v. r = enc v \<Longrightarrow> \<exists>vs. read_rows (sc_row sc) rs = Ok vs \<and> map enc vs = rs"
proof (induction rs)
  case (Cons r rs)
  then obtain v vs where "r = enc v" "read_rows (sc_row sc) rs = Ok vs" "map enc vs = rs" by auto
  then show ?case by (auto simp: reads_back)
qed simp

lemma query_spec:
  assumes inv: "table_inv sc enc db" and run: "query_rows sc P order n db = (out, d)"
    and perm: "\<And>rs. mset (order rs) = mset rs"
  shows "db_rows d = db_rows db \<and> db_scan d = db_scan db \<and> (reliable db \<longrightarrow> is_ok out \<and> reliable d) \<and>
    (\<forall>vs. out = Ok vs \<longrightarrow> map enc vs = limited n (order (select P db)))"
proof (cases rule: with_conn_cases
    [of sc "\<lambda>db. (map_err (sc_sql sc) (read_rows (sc_row sc) (limited n (order (select P db)))), db)" db])
  case (failed e d1)
  with run show ?thesis by (auto simp: query_rows_def)
next
  case (ran d1)
  let ?rs = "limited n (order (select P db))"
  have "set ?rs \<subseteq> set (order (select P db))" by (auto simp: limited_def dest: in_set_takeD split: option.splits)
  also have "\<dots> = set (select P db)" using perm by (metis set_mset_mset)
  also have "\<dots> \<subseteq> set (db_rows db)" using inv set_select [of db P] by (auto simp: table_inv_def)
  finally have "\<forall>r \<in> set ?rs. \<exists>v. r = enc v" using inv by (auto simp: table_inv_def)
  from read_rows_enc [OF this] obtain vs where "read_rows (sc_row sc) ?rs = Ok vs" "map enc vs = ?rs" by auto
  with run ran select_cong [OF ran(2,3), of P] show ?thesis by (auto simp: query_rows_def)
qed

end

subsection \<open>Ordered queries\<close>

text \<open>\<^verbatim>\<open>ORDER BY key ASC\<close> and \<^verbatim>\<open>ORDER BY key DESC\<close>.\<close>

definition order_asc :: "('r \<Rightarrow> string) \<Rightarrow> 'r list \<Rightarrow> 'r list" where
  "order_asc key rs = sort_key key rs"

definition order_desc :: "('r \<Rightarrow> string) \<Rightarrow> 'r list \<Rightarrow> 'r list" where
  "order_desc key rs = rev (sort_key key (rev rs))"

lemma mset_order [simp]: "mset (order_asc key rs) = mset rs" "mset (order_desc key rs) = mset rs"
  by (simp_all add: order_asc_def order_desc_def)

lemma sorted_order:
  "sorted_wrt (\<lambda>a b. key a \<le> key b) (order_asc key rs)"
  "sorted_wrt (\<lambda>a b. key b \<le> key a) (order_desc key rs)"
  using sorted_sort_key [of key rs] sorted_sort_key [of key "rev rs"]
  by (simp_all add: order_asc_def order_desc_def sorted_wrt_rev sorted_map)

context keyed_store begin

lemma query_first:
  assumes inv: "table_inv sc enc db" and run: "query_rows sc P order (Some n) db = (out, d)"
    and perm: "\<And>rs. mset (order rs) = mset rs" and sorted: "\<And>rs. sorted_wrt R (order rs)" and rel: "reliable db"
  shows "\<exists>vs. out = Ok vs \<and> best_of R n (filter P (db_rows db)) (map enc vs)"
proof -
  from query_spec [OF inv run perm] rel obtain vs where vs: "out = Ok vs" "map enc vs = take n (order (select P db))"
    by (auto simp: is_ok_iff limited_def)
  have "mset (order (select P db)) = mset (filter P (db_rows db))"
    using inv perm mset_select [of db P] by (simp add: table_inv_def)
  from best_of_take [OF this sorted] vs show ?thesis by metis
qed

text \<open>Reading keeps the invariant.\<close>

lemma get_keeps: "table_inv sc enc db \<Longrightarrow> table_inv sc enc (snd (get_row sc i db))"
  using get_row_spec [OF _ prod.collapse [symmetric], of db i]
    table_inv_cong [of "snd (get_row sc i db)" db sc enc] by blast

lemma query_keeps:
  assumes "table_inv sc enc db" and perm: "\<And>rs. mset (order rs) = mset rs"
  shows "table_inv sc enc (snd (query_rows sc P order n db))"
  using query_spec [OF assms(1) prod.collapse [symmetric] perm, of P n] assms(1)
    table_inv_cong [of "snd (query_rows sc P order n db)" db sc enc] by blast

end

end
