(* ===== verification/ThreadStore.thy ===== *)
theory ThreadStore
  imports KeyedTable
begin

text \<open>
  The session store (\<^verbatim>\<open>thread-store/src/store.rs\<close>, \<^verbatim>\<open>types.rs\<close>, \<^verbatim>\<open>error.rs\<close>) over the table
  \<^verbatim>\<open>sessions\<close>: its operations are those of \<open>KeyedTable\<close> at the schema of the table. The text of the
  current time (\<^verbatim>\<open>now_iso\<close>) is an argument.
\<close>

subsection \<open>Types\<close>

record session =
  se_id :: string
  se_cwd :: string
  se_project_root :: "string option"
  se_created_at :: string
  se_updated_at :: string
  se_summary :: "string option"

record new_session =
  ns_id :: string
  ns_cwd :: string
  ns_project_root :: "string option"
  ns_created_at :: "string option"
  ns_summary :: "string option"

datatype thread_error =
    TsSqlite string
  | TsState string
  | TsAmbiguousPrefix nat
  | TsNotFound string
  | TsInvalidId string

record list_filter =
  lf_cwd :: "string option"
  lf_limit :: "u32 option"

type_synonym session_db = "session db"

type_synonym 'a thread_op = "session_db \<Rightarrow> ('a, thread_error) result \<times> session_db"

subsection \<open>Operations\<close>

definition read_session :: "session \<Rightarrow> (session, string) result" where
  "read_session r = Ok r"

definition session_schema :: "(session, session, thread_error) schema" where
  "session_schema = \<lparr> sc_key = se_id, sc_row = read_session, sc_pool = TsState, sc_sql = TsSqlite,
     sc_missing = TsNotFound, sc_bad = TsInvalidId, sc_dup = ''UNIQUE constraint failed: sessions.id'' \<rparr>"

definition session_of_new :: "new_session \<Rightarrow> string \<Rightarrow> session" where
  "session_of_new n now =
    (let created = unwrap_or (ns_created_at n) now
     in \<lparr> se_id = ns_id n, se_cwd = ns_cwd n, se_project_root = ns_project_root n,
          se_created_at = created, se_updated_at = created, se_summary = ns_summary n \<rparr>)"

definition session_create :: "new_session \<Rightarrow> string \<Rightarrow> session thread_op" where
  "session_create n now =
    (if empty_id (ns_id n) then (\<lambda>db. (Err (TsInvalidId ''empty id''), db))
     else create_row session_schema (session_of_new n now))"

definition list_sessions :: "list_filter \<Rightarrow> session list thread_op" where
  "list_sessions f =
    query_rows session_schema (\<lambda>r. case lf_cwd f of Some c \<Rightarrow> se_cwd r = c | None \<Rightarrow> True)
      (order_desc se_updated_at) (Some (row_limit (lf_limit f)))"

definition session_get_by_id :: "string \<Rightarrow> session option thread_op" where
  "session_get_by_id i = get_row session_schema i"

definition prefix_result :: "string \<Rightarrow> session list \<Rightarrow> (session, thread_error) result" where
  "prefix_result p rows =
    (case rows of
       [] \<Rightarrow> Err (TsNotFound p) | [r] \<Rightarrow> Ok r | _ \<Rightarrow> Err (TsAmbiguousPrefix (length rows)))"

definition session_get_by_id_prefix :: "string \<Rightarrow> session thread_op" where
  "session_get_by_id_prefix p =
    (if empty_id p then (\<lambda>db. (Err (TsInvalidId ''empty id''), db))
     else db_bind (session_get_by_id p) (\<lambda>exact.
       case exact of
         Some r \<Rightarrow> (\<lambda>db. (Ok r, db))
       | None \<Rightarrow> db_bind
           (query_rows session_schema (\<lambda>r. sql_like (p @ ''%'') (se_id r)) (order_asc se_id) None)
           (\<lambda>rows db. (prefix_result p rows, db))))"

definition session_update_summary :: "string \<Rightarrow> string \<Rightarrow> string \<Rightarrow> session thread_op" where
  "session_update_summary i summary now =
    update_row session_schema i (\<lambda>r. r\<lparr> se_summary := Some summary, se_updated_at := now \<rparr>)"

definition session_delete :: "string \<Rightarrow> bool thread_op" where
  "session_delete i = delete_row session_schema i"

lemma session_schema_simps [simp]:
  "sc_key session_schema = se_id" "sc_row session_schema = read_session" "sc_pool session_schema = TsState"
  "sc_sql session_schema = TsSqlite" "sc_missing session_schema = TsNotFound" "sc_bad session_schema = TsInvalidId"
  by (simp_all add: session_schema_def)

lemma session_of_new_id [simp]: "se_id (session_of_new n now) = ns_id n"
  by (simp add: session_of_new_def Let_def)

interpretation sessions: keyed_store session_schema "\<lambda>s. s"
  by unfold_locales (simp add: read_session_def)

definition session_inv :: "session_db \<Rightarrow> bool" where
  "session_inv db = table_inv session_schema (\<lambda>s. s) db"

definition session_map :: "session_db \<Rightarrow> string \<rightharpoonup> session" where
  "session_map db = table_map session_schema db"

definition session_outcome ::
    "bool \<Rightarrow> ((string \<rightharpoonup> session) \<Rightarrow> (string \<rightharpoonup> session)) \<Rightarrow> session_db \<Rightarrow> session_db \<Rightarrow> bool \<Rightarrow> bool" where
  "session_outcome app eff db d success \<longleftrightarrow>
    session_inv d \<and>
    (session_map d = session_map db \<or> app \<and> session_map d = eff (session_map db)) \<and>
    (success \<longrightarrow> app \<and> session_map d = eff (session_map db)) \<and>
    (reliable db \<longrightarrow> success = app \<and> reliable d)"

lemma session_outcome_iff: "op_outcome session_schema (\<lambda>s. s) = session_outcome"
  by (intro ext) (simp add: op_outcome_def session_outcome_def session_inv_def session_map_def)

subsection \<open>Every operation keeps the invariant\<close>

lemma session_create_outcome:
  assumes "session_inv db" "session_create n now db = (out, d)"
  shows "session_outcome (\<not> empty_id (ns_id n) \<and> session_map db (ns_id n) = None)
      (\<lambda>m. m(ns_id n \<mapsto> session_of_new n now)) db d (is_ok out) \<and> ok_value (session_of_new n now) out"
proof (cases "empty_id (ns_id n)")
  case True
  with assms show ?thesis
    by (auto simp: session_create_def ok_value_def session_outcome_def)
next
  case False
  with sessions.create_outcome [of db "session_of_new n now" out d] assms show ?thesis
    by (simp add: session_create_def session_inv_def session_outcome_iff session_map_def)
qed

lemma session_update_outcome:
  assumes "session_inv db" "session_update_summary i su now db = (out, d)"
  shows "session_outcome (\<not> empty_id i \<and> session_map db i \<noteq> None)
      (\<lambda>m. m(i := map_option (\<lambda>r. r\<lparr> se_summary := Some su, se_updated_at := now \<rparr>) (m i))) db d (is_ok out) \<and>
    (\<forall>x. out = Ok x \<longrightarrow> map_option (\<lambda>r. r\<lparr> se_summary := Some su, se_updated_at := now \<rparr>) (session_map db i) = Some x)"
  using sessions.update_outcome [OF assms(1) [unfolded session_inv_def] _ _ assms(2) [unfolded session_update_summary_def]]
  by (simp add: session_outcome_iff session_map_def)

lemma session_delete_outcome:
  assumes "session_inv db" "session_delete i db = (out, d)"
  shows "session_outcome (\<not> empty_id i) (\<lambda>m. m(i := None)) db d (is_ok out) \<and> ok_value (session_map db i \<noteq> None) out"
  using sessions.delete_outcome [OF assms(1) [unfolded session_inv_def] assms(2) [unfolded session_delete_def]]
  by (simp add: session_outcome_iff session_map_def)

lemma session_list_inv: "session_inv db \<Longrightarrow> session_inv (snd (list_sessions f db))"
  unfolding list_sessions_def session_inv_def by (rule sessions.query_keeps) simp_all

lemma session_get_inv: "session_inv db \<Longrightarrow> session_inv (snd (session_get_by_id i db))"
  unfolding session_get_by_id_def session_inv_def by (rule sessions.get_keeps)

lemma session_prefix_inv:
  assumes "session_inv db"
  shows "session_inv (snd (session_get_by_id_prefix p db))"
proof -
  let ?q = "query_rows session_schema (\<lambda>r. sql_like (p @ ''%'') (se_id r)) (order_asc se_id) None"
  obtain out d where g: "session_get_by_id p db = (out, d)" by force
  have d: "session_inv d" using session_get_inv [OF assms, of p] g by simp
  obtain rows e where q: "?q d = (rows, e)" by force
  have e: "session_inv e"
    using sessions.query_keeps [OF d [unfolded session_inv_def], of "order_asc se_id"] q
    by (metis mset_order(1) session_inv_def snd_conv)
  show ?thesis using assms d e
    by (auto simp: session_get_by_id_prefix_def db_bind_def g q split: result.splits option.splits)
qed

subsection \<open>Properties\<close>

inductive session_reach :: "session_db \<Rightarrow> bool" where
  sr_new: "db_ok (db_new scan faults) \<Longrightarrow> session_reach (db_new scan faults)"
| sr_create: "session_reach db \<Longrightarrow> session_reach (snd (session_create n now db))"
| sr_update: "session_reach db \<Longrightarrow> session_reach (snd (session_update_summary i su now db))"
| sr_delete: "session_reach db \<Longrightarrow> session_reach (snd (session_delete i db))"
| sr_get: "session_reach db \<Longrightarrow> session_reach (snd (session_get_by_id i db))"
| sr_prefix: "session_reach db \<Longrightarrow> session_reach (snd (session_get_by_id_prefix i db))"
| sr_list: "session_reach db \<Longrightarrow> session_reach (snd (list_sessions f db))"

lemma outcome_inv: "session_outcome app eff db d success \<and> Q \<Longrightarrow> session_inv d"
  by (simp add: session_outcome_def)

lemmas session_write_inv =
  outcome_inv [OF session_create_outcome [OF _ prod.collapse [symmetric]]]
  outcome_inv [OF session_update_outcome [OF _ prod.collapse [symmetric]]]
  outcome_inv [OF session_delete_outcome [OF _ prod.collapse [symmetric]]]

lemma reach_session_inv: "session_reach db \<Longrightarrow> session_inv db"
proof (induction rule: session_reach.induct)
  case (sr_new scan faults)
  then show ?case by (simp add: session_inv_def table_inv_def db_new_def)
qed (auto intro: session_write_inv session_get_inv session_prefix_inv session_list_inv)

text \<open>C28: the session store is a map from ids to sessions, whatever calls to the database fail: after
  any operations, ids are unique, each write either takes its full effect on the map or none, a write
  that reports success has taken effect and returns the row it wrote, and while the database answers
  a write succeeds exactly when its arguments allow it (a new id for create, a known one for update).\<close>

theorem session_store_refines:
  assumes "session_reach db"
  shows "(case session_create n now db of (out, d) \<Rightarrow>
      session_outcome (\<not> empty_id (ns_id n) \<and> session_map db (ns_id n) = None)
        (\<lambda>m. m(ns_id n \<mapsto> session_of_new n now)) db d (is_ok out) \<and> ok_value (session_of_new n now) out) \<and>
    (case session_update_summary i su now db of (out, d) \<Rightarrow>
      session_outcome (\<not> empty_id i \<and> session_map db i \<noteq> None)
        (\<lambda>m. m(i := map_option (\<lambda>r. r\<lparr> se_summary := Some su, se_updated_at := now \<rparr>) (m i))) db d (is_ok out) \<and>
      (\<forall>x. out = Ok x \<longrightarrow>
        map_option (\<lambda>r. r\<lparr> se_summary := Some su, se_updated_at := now \<rparr>) (session_map db i) = Some x)) \<and>
    (case session_delete i db of (out, d) \<Rightarrow>
      session_outcome (\<not> empty_id i) (\<lambda>m. m(i := None)) db d (is_ok out) \<and> ok_value (session_map db i \<noteq> None) out)"
  using session_create_outcome [OF reach_session_inv [OF assms] prod.collapse [symmetric]]
    session_update_outcome [OF reach_session_inv [OF assms] prod.collapse [symmetric]]
    session_delete_outcome [OF reach_session_inv [OF assms] prod.collapse [symmetric]]
  unfolding case_prod_unfold by blast

definition demo_ns :: "string \<Rightarrow> new_session" where
  "demo_ns i = \<lparr> ns_id = i, ns_cwd = ''/w'', ns_project_root = None, ns_created_at = None, ns_summary = None \<rparr>"

definition demo_db :: session_db where
  "demo_db = snd (session_create (demo_ns ''ab%d'') ''2026-01-02T00:00:00Z''
     (snd (session_create (demo_ns ''ABc1'') ''2026-01-01T00:00:00Z'' (db_new rev []))))"

lemma demo_db_reach: "session_reach demo_db"
  unfolding demo_db_def by (intro session_reach.intros) (simp add: db_ok_def db_new_def)

lemma demo_ns_id [simp]: "ns_id (demo_ns i) = i"
  by (simp add: demo_ns_def)

lemma demo_db_rows:
  "db_rows demo_db = [session_of_new (demo_ns ''ABc1'') ''2026-01-01T00:00:00Z'',
     session_of_new (demo_ns ''ab%d'') ''2026-01-02T00:00:00Z'']" "reliable demo_db"
  by (code_simp, code_simp)

lemma session_store_refines_witness:
  "case session_create (demo_ns ''x'') ''t'' demo_db of (out, d) \<Rightarrow>
    session_outcome (\<not> empty_id ''x'' \<and> session_map demo_db ''x'' = None)
      (\<lambda>m. m(''x'' \<mapsto> session_of_new (demo_ns ''x'') ''t'')) demo_db d (is_ok out)"
  using session_store_refines [OF demo_db_reach, of "demo_ns ''x''" "''t''"] by (auto split: prod.splits)

definition id_prefix :: "string \<Rightarrow> string \<Rightarrow> bool" where
  "id_prefix p i \<longleftrightarrow> length p \<le> length i \<and> map ascii_lower (take (length p) i) = map ascii_lower p"

lemma sql_like_plain:
  assumes "ascii p" "ascii i" "CHR ''%'' \<notin> set p" "CHR ''_'' \<notin> set p"
  shows "sql_like (p @ ''%'') i \<longleftrightarrow> id_prefix p i"
proof -
  have "ascii (p @ ''%'')" using assms(1) by (auto simp: ascii_def byte_def)
  then have c: "chars (p @ ''%'') = map (\<lambda>c. [c]) p @ [''%'']" by (simp add: chars_ascii)
  have "\<forall>c \<in> set (map (\<lambda>c. [c]) p). c \<noteq> ''%'' \<and> c \<noteq> ''_''" using assms(3,4) by auto
  note like_prefix [OF this, of "map (\<lambda>c. [c]) i"]
  moreover have "map (map ascii_lower) (map (\<lambda>c. [c]) xs) = map (\<lambda>c. [c]) (map ascii_lower xs)" for xs
    by simp
  moreover have "map (\<lambda>c. [c]) xs = map (\<lambda>c. [c]) ys \<longleftrightarrow> xs = ys" for xs ys :: string
    by (rule inj_map_eq_map) (simp add: inj_def)
  ultimately show ?thesis
    unfolding sql_like_def c chars_ascii [OF assms(2)] id_prefix_def by (simp only: length_map take_map)
qed

lemma prefix_result_cases:
  "prefix_result p rows =
    (if length rows = 0 then Err (TsNotFound p)
     else if length rows = 1 then Ok (hd rows) else Err (TsAmbiguousPrefix (length rows)))"
  by (auto simp: prefix_result_def split: list.splits)

text \<open>Looking a session up by a prefix, on a store whose ids are ASCII and a prefix without the
  wildcards of \<^verbatim>\<open>LIKE\<close>: an exact id wins; otherwise the one session whose id starts with the prefix (up
  to the case of letters) is returned, none is \<open>NotFound\<close>, and several are an error with their number.\<close>

theorem session_prefix_lookup:
  assumes "session_reach db" "reliable db" "\<not> empty_id p"
    "ascii p" "CHR ''%'' \<notin> set p" "CHR ''_'' \<notin> set p" "\<forall>r \<in> set (db_rows db). ascii (se_id r)"
  shows "fst (session_get_by_id_prefix p db) =
    (case session_map db p of
       Some r \<Rightarrow> Ok r
     | None \<Rightarrow>
         (let hits = filter (\<lambda>r. id_prefix p (se_id r)) (db_rows db)
          in if hits = [] then Err (TsNotFound p)
             else if length hits = 1 then Ok (hd hits) else Err (TsAmbiguousPrefix (length hits))))"
proof -
  let ?P = "\<lambda>r. sql_like (p @ ''%'') (se_id r)"
  let ?hits = "filter (\<lambda>r. id_prefix p (se_id r)) (db_rows db)"
  have inv: "table_inv session_schema (\<lambda>s. s) db"
    using reach_session_inv [OF assms(1)] by (simp add: session_inv_def)
  obtain q d where g: "session_get_by_id p db = (q, d)" by force
  from sessions.get_row_spec [OF inv g [unfolded session_get_by_id_def]] assms(2,3)
  have q: "q = Ok (session_map db p)" "db_rows d = db_rows db" "db_scan d = db_scan db" "reliable d"
    by (auto simp: session_map_def split: result.splits)
  have inv_d: "table_inv session_schema (\<lambda>s. s) d" using inv table_inv_cong [OF q(2,3)] by metis
  obtain rows e where r: "query_rows session_schema ?P (order_asc se_id) None d = (rows, e)" by force
  from sessions.query_spec [OF inv_d r mset_order(1)] q(4)
  have rows: "rows = Ok (order_asc se_id (select ?P d))" by (auto simp: is_ok_iff limited_def)
  have "filter ?P (db_rows db) = ?hits"
    using assms(4-7) by (auto intro!: filter_cong simp: sql_like_plain)
  then have m: "mset (order_asc se_id (select ?P d)) = mset ?hits"
    using mset_select [of d ?P] inv_d q(2) by (simp add: table_inv_def del: mset_filter)
  have hd: "length ?hits = 1 \<Longrightarrow> hd (order_asc se_id (select ?P d)) = hd ?hits"
  proof -
    assume "length ?hits = 1"
    then obtain x where "?hits = [x]" by (auto simp: length_Suc_conv)
    with m show ?thesis by (auto simp: order_asc_def)
  qed
  have "prefix_result p (order_asc se_id (select ?P d)) =
    (if ?hits = [] then Err (TsNotFound p)
     else if length ?hits = 1 then Ok (hd ?hits) else Err (TsAmbiguousPrefix (length ?hits)))"
    unfolding prefix_result_cases mset_eq_length [OF m] using hd by auto
  then show ?thesis
    using assms(3) by (simp add: session_get_by_id_prefix_def db_bind_def g q r rows Let_def split: option.split)
qed

lemma session_prefix_lookup_witness:
  "fst (session_get_by_id_prefix ''abC'' demo_db) =
     Ok (session_of_new (demo_ns ''ABc1'') ''2026-01-01T00:00:00Z'') \<and>
   fst (session_get_by_id_prefix ''aB'' demo_db) = Err (TsAmbiguousPrefix 2)"
proof -
  have "\<not> empty_id ''abC''" "\<not> empty_id ''aB''" "ascii ''abC''" "ascii ''aB''" "ascii ''ABc1''" "ascii ''ab%d''"
      "id_prefix ''abC'' ''ABc1''" "\<not> id_prefix ''abC'' ''ab%d''" "id_prefix ''aB'' ''ABc1''" "id_prefix ''aB'' ''ab%d''"
    by code_simp+
  moreover have "session_map demo_db ''abC'' = None" "session_map demo_db ''aB'' = None"
    by (simp_all add: session_map_def table_map_def demo_db_rows)
  ultimately show ?thesis
    using session_prefix_lookup [OF demo_db_reach demo_db_rows(2), of "''abC''"]
      session_prefix_lookup [OF demo_db_reach demo_db_rows(2), of "''aB''"]
    by (simp add: demo_db_rows)
qed

text \<open>Listing sessions on a store that answers: the result is the newest of the matching sessions,
  newest first, as many as the limit (1000 unless given, at most 10000) allows.\<close>

theorem session_list_newest:
  assumes "session_reach db" "reliable db"
  shows "\<exists>out. fst (list_sessions f db) = Ok out \<and>
    best_of (\<lambda>a b. se_updated_at b \<le> se_updated_at a) (row_limit (lf_limit f))
      (filter (\<lambda>r. case lf_cwd f of Some c \<Rightarrow> se_cwd r = c | None \<Rightarrow> True) (db_rows db)) out"
  using sessions.query_first [OF reach_session_inv [OF assms(1), unfolded session_inv_def] prod.collapse [symmetric]
      mset_order(2) sorted_order(2) assms(2)]
  by (simp add: list_sessions_def)

lemma session_list_newest_witness:
  "\<exists>out. fst (list_sessions \<lparr> lf_cwd = None, lf_limit = Some 1 \<rparr> demo_db) = Ok out \<and>
    best_of (\<lambda>a b. se_updated_at b \<le> se_updated_at a) 1 (db_rows demo_db) out"
proof -
  have n: "row_limit (Some 1) = 1" by code_simp
  show ?thesis
    using session_list_newest [OF demo_db_reach demo_db_rows(2), of "\<lparr> lf_cwd = None, lf_limit = Some 1 \<rparr>"]
    by (simp add: n)
qed

end
