(* ===== verification/Memories.thy ===== *)
theory Memories
  imports KeyedTable
begin

text \<open>
  The memory store (\<^verbatim>\<open>memories/src/store.rs\<close>, \<^verbatim>\<open>scope.rs\<close>, \<^verbatim>\<open>types.rs\<close>, \<^verbatim>\<open>error.rs\<close>): key/value rows
  tagged with a scope. A row holds the tag of its scope as text, and \<^verbatim>\<open>map_row\<close> parses it back, so the
  contract \<open>keyed_store\<close> rests on the round trip of the tags. SHA-256 is a parameter.
\<close>

subsection \<open>Types\<close>

datatype scope =
    ScopeSession string
  | ScopeProject string
  | ScopeUser
  | ScopeGlobal

datatype memory_error =
    MeSqlite string
  | MeState string
  | MeNotFound string
  | MeInvalidInput string

record memory =
  me_id :: string
  me_scope :: scope
  me_key :: string
  me_value :: string
  me_embedding :: "u8 list option"
  me_created_at :: string
  me_accessed_at :: string
  me_access_count :: int

record new_memory =
  nm_id :: string
  nm_scope :: scope
  nm_key :: string
  nm_value :: string
  nm_embedding :: "u8 list option"
  nm_created_at :: "string option"

record mem_query =
  mq_scope :: "scope option"
  mq_key :: "string option"
  mq_limit :: "u32 option"

subsection \<open>Scopes\<close>

fun to_tag :: "scope \<Rightarrow> string" where
  "to_tag (ScopeSession i) = ''session:'' @ i"
| "to_tag (ScopeProject h) = ''project:'' @ h"
| "to_tag ScopeUser = ''user''"
| "to_tag ScopeGlobal = ''global''"

definition from_tag :: "string \<Rightarrow> (scope, memory_error) result" where
  "from_tag tag =
    (case strip_prefix ''session:'' tag of
       Some i \<Rightarrow> Ok (ScopeSession i)
     | None \<Rightarrow>
       (case strip_prefix ''project:'' tag of
          Some h \<Rightarrow> Ok (ScopeProject h)
        | None \<Rightarrow>
            if tag = ''user'' then Ok ScopeUser
            else if tag = ''global'' then Ok ScopeGlobal
            else Err (MeInvalidInput (''unknown scope tag: '' @ tag))))"

lemma from_to_tag [simp]: "from_tag (to_tag s) = Ok s"
  by (cases s) (simp_all add: from_tag_def)

lemma from_tag_Ok: "from_tag t = Ok s \<Longrightarrow> t = to_tag s"
  by (auto simp: from_tag_def strip_prefix_Some split: option.splits if_splits)

lemma to_tag_inject [simp]: "to_tag s = to_tag t \<longleftrightarrow> s = t"
  by (metis from_to_tag result.inject(1))

text \<open>\<^verbatim>\<open>project_root_hash\<close>: the first 16 bytes of the digest, two lower-case hex digits a byte.\<close>

definition hex_digit :: "nat \<Rightarrow> char" where
  "hex_digit n = (if n < 10 then char_of (48 + n) else char_of (87 + n))"

definition hex_lower :: "u8 list \<Rightarrow> string" where
  "hex_lower bs = concat (map (\<lambda>b. [hex_digit (unat b div 16), hex_digit (unat b mod 16)]) bs)"

definition project_root_hash :: "(string \<Rightarrow> u8 list) \<Rightarrow> string \<Rightarrow> string" where
  "project_root_hash sha256 root = hex_lower (take 16 (sha256 root))"

subsection \<open>Rows\<close>

text \<open>The columns of the table \<^verbatim>\<open>memories\<close>; the counter is an INTEGER column.\<close>

record memory_row =
  mr_id :: string
  mr_scope :: string
  mr_key :: string
  mr_value :: string
  mr_embedding :: "u8 list option"
  mr_created_at :: string
  mr_accessed_at :: string
  mr_access_count :: int

text \<open>The text of the error that \<^verbatim>\<open>map_row\<close> wraps is its \<^verbatim>\<open>Display\<close>.\<close>

fun memory_error_text :: "memory_error \<Rightarrow> string" where
  "memory_error_text (MeSqlite e) = ''sqlite error: '' @ e"
| "memory_error_text (MeState e) = ''state error: '' @ e"
| "memory_error_text (MeNotFound i) = ''memory not found: '' @ i"
| "memory_error_text (MeInvalidInput e) = ''invalid input: '' @ e"

definition memory_map_row :: "memory_row \<Rightarrow> (memory, string) result" where
  "memory_map_row r =
    try_res (map_err memory_error_text (from_tag (mr_scope r))) (\<lambda>scope.
      Ok \<lparr> me_id = mr_id r, me_scope = scope, me_key = mr_key r, me_value = mr_value r,
           me_embedding = mr_embedding r, me_created_at = mr_created_at r,
           me_accessed_at = mr_accessed_at r, me_access_count = mr_access_count r \<rparr>)"

definition row_of_memory :: "memory \<Rightarrow> memory_row" where
  "row_of_memory m =
    \<lparr> mr_id = me_id m, mr_scope = to_tag (me_scope m), mr_key = me_key m, mr_value = me_value m,
      mr_embedding = me_embedding m, mr_created_at = me_created_at m,
      mr_accessed_at = me_accessed_at m, mr_access_count = me_access_count m \<rparr>"

definition memory_schema :: "(memory_row, memory, memory_error) schema" where
  "memory_schema = \<lparr> sc_key = mr_id, sc_row = memory_map_row, sc_pool = MeState, sc_sql = MeSqlite,
     sc_missing = MeNotFound, sc_bad = MeInvalidInput, sc_dup = ''UNIQUE constraint failed: memories.id'' \<rparr>"

lemma memory_schema_simps [simp]:
  "sc_key memory_schema = mr_id" "sc_row memory_schema = memory_map_row" "sc_pool memory_schema = MeState"
  "sc_sql memory_schema = MeSqlite" "sc_missing memory_schema = MeNotFound" "sc_bad memory_schema = MeInvalidInput"
  by (simp_all add: memory_schema_def)

lemma row_of_memory_simps [simp]:
  "mr_id (row_of_memory m) = me_id m" "mr_scope (row_of_memory m) = to_tag (me_scope m)"
  "mr_key (row_of_memory m) = me_key m" "mr_created_at (row_of_memory m) = me_created_at m"
  by (simp_all add: row_of_memory_def)

interpretation memories: keyed_store memory_schema row_of_memory
  by unfold_locales (simp add: memory_map_row_def row_of_memory_def)

subsection \<open>Operations\<close>

type_synonym memory_db = "memory_row db"

type_synonym 'a memory_op = "memory_db \<Rightarrow> ('a, memory_error) result \<times> memory_db"

definition new_memory_row :: "new_memory \<Rightarrow> string \<Rightarrow> memory_row" where
  "new_memory_row n now =
    (let created = unwrap_or (nm_created_at n) now
     in \<lparr> mr_id = nm_id n, mr_scope = to_tag (nm_scope n), mr_key = nm_key n, mr_value = nm_value n,
          mr_embedding = nm_embedding n, mr_created_at = created, mr_accessed_at = created,
          mr_access_count = 0 \<rparr>)"

definition memory_create :: "new_memory \<Rightarrow> string \<Rightarrow> memory memory_op" where
  "memory_create n now =
    (if empty_id (nm_id n) then (\<lambda>db. (Err (MeInvalidInput ''empty id''), db))
     else if empty_id (nm_key n) then (\<lambda>db. (Err (MeInvalidInput ''empty key''), db))
     else create_row memory_schema (new_memory_row n now))"

definition memory_get_by_id :: "string \<Rightarrow> memory option memory_op" where
  "memory_get_by_id i = get_row memory_schema i"

definition memory_touch :: "string \<Rightarrow> string \<Rightarrow> memory memory_op" where
  "memory_touch i now =
    update_row memory_schema i (\<lambda>r. r\<lparr> mr_access_count := mr_access_count r + 1, mr_accessed_at := now \<rparr>)"

definition memory_update_value :: "string \<Rightarrow> string \<Rightarrow> u8 list option \<Rightarrow> string \<Rightarrow> memory memory_op" where
  "memory_update_value i v emb now =
    update_row memory_schema i (\<lambda>r. r\<lparr> mr_value := v, mr_embedding := emb, mr_accessed_at := now \<rparr>)"

definition memory_query :: "mem_query \<Rightarrow> memory list memory_op" where
  "memory_query q =
    query_rows memory_schema
      (\<lambda>r. (case mq_scope q of Some s \<Rightarrow> mr_scope r = to_tag s | None \<Rightarrow> True) \<and>
           (case mq_key q of Some k \<Rightarrow> mr_key r = k | None \<Rightarrow> True))
      (order_asc mr_created_at) (Some (row_limit (mq_limit q)))"

definition memory_delete :: "string \<Rightarrow> bool memory_op" where
  "memory_delete i = delete_row memory_schema i"

subsection \<open>Properties\<close>

definition memory_of_new :: "new_memory \<Rightarrow> string \<Rightarrow> memory" where
  "memory_of_new n now =
    (let created = unwrap_or (nm_created_at n) now
     in \<lparr> me_id = nm_id n, me_scope = nm_scope n, me_key = nm_key n, me_value = nm_value n,
          me_embedding = nm_embedding n, me_created_at = created, me_accessed_at = created,
          me_access_count = 0 \<rparr>)"

definition touched :: "string \<Rightarrow> memory \<Rightarrow> memory" where
  "touched now m = m\<lparr> me_access_count := me_access_count m + 1, me_accessed_at := now \<rparr>"

definition revalued :: "string \<Rightarrow> u8 list option \<Rightarrow> string \<Rightarrow> memory \<Rightarrow> memory" where
  "revalued v emb now m = m\<lparr> me_value := v, me_embedding := emb, me_accessed_at := now \<rparr>"

lemma new_memory_row: "new_memory_row n now = row_of_memory (memory_of_new n now)"
  by (simp add: new_memory_row_def memory_of_new_def row_of_memory_def Let_def)

lemma memory_of_new_id [simp]: "me_id (memory_of_new n now) = nm_id n"
  by (simp add: memory_of_new_def Let_def)

definition memory_inv :: "memory_db \<Rightarrow> bool" where
  "memory_inv db = table_inv memory_schema row_of_memory db"

definition memory_map :: "memory_db \<Rightarrow> string \<rightharpoonup> memory" where
  "memory_map db = table_map memory_schema db"

text \<open>As \<open>op_outcome\<close>, over the map of the memory store.\<close>

definition memory_outcome ::
    "bool \<Rightarrow> ((string \<rightharpoonup> memory) \<Rightarrow> (string \<rightharpoonup> memory)) \<Rightarrow> memory_db \<Rightarrow> memory_db \<Rightarrow> bool \<Rightarrow> bool" where
  "memory_outcome app eff db d success \<longleftrightarrow>
    memory_inv d \<and>
    (memory_map d = memory_map db \<or> app \<and> memory_map d = eff (memory_map db)) \<and>
    (success \<longrightarrow> app \<and> memory_map d = eff (memory_map db)) \<and>
    (reliable db \<longrightarrow> success = app \<and> reliable d)"

lemma memory_outcome_iff: "op_outcome memory_schema row_of_memory = memory_outcome"
  by (intro ext) (simp add: op_outcome_def memory_outcome_def memory_inv_def memory_map_def)

lemma memory_create_outcome:
  assumes "memory_inv db" "memory_create n now db = (out, d)"
  shows "memory_outcome (\<not> empty_id (nm_id n) \<and> \<not> empty_id (nm_key n) \<and> memory_map db (nm_id n) = None)
      (\<lambda>m. m(nm_id n \<mapsto> memory_of_new n now)) db d (is_ok out) \<and> ok_value (memory_of_new n now) out"
proof (cases "empty_id (nm_id n) \<or> empty_id (nm_key n)")
  case True
  with assms show ?thesis
    by (auto simp: memory_create_def ok_value_def memory_outcome_def split: if_splits)
next
  case False
  with memories.create_outcome [of db "memory_of_new n now" out d] assms show ?thesis
    by (simp add: memory_create_def memory_inv_def memory_outcome_iff memory_map_def new_memory_row)
qed

lemma memory_touch_outcome:
  assumes "memory_inv db" "memory_touch i now db = (out, d)"
  shows "memory_outcome (\<not> empty_id i \<and> memory_map db i \<noteq> None)
      (\<lambda>m. m(i := map_option (touched now) (m i))) db d (is_ok out) \<and>
    (\<forall>x. out = Ok x \<longrightarrow> map_option (touched now) (memory_map db i) = Some x)"
  using memories.update_outcome
    [OF assms(1) [unfolded memory_inv_def] _ _ assms(2) [unfolded memory_touch_def], of "touched now"]
  by (simp add: memory_outcome_iff memory_map_def touched_def row_of_memory_def)

lemma memory_update_outcome:
  assumes "memory_inv db" "memory_update_value i v emb now db = (out, d)"
  shows "memory_outcome (\<not> empty_id i \<and> memory_map db i \<noteq> None)
      (\<lambda>m. m(i := map_option (revalued v emb now) (m i))) db d (is_ok out) \<and>
    (\<forall>x. out = Ok x \<longrightarrow> map_option (revalued v emb now) (memory_map db i) = Some x)"
  using memories.update_outcome
    [OF assms(1) [unfolded memory_inv_def] _ _ assms(2) [unfolded memory_update_value_def], of "revalued v emb now"]
  by (simp add: memory_outcome_iff memory_map_def revalued_def row_of_memory_def)

lemma memory_delete_outcome:
  assumes "memory_inv db" "memory_delete i db = (out, d)"
  shows "memory_outcome (\<not> empty_id i) (\<lambda>m. m(i := None)) db d (is_ok out) \<and> ok_value (memory_map db i \<noteq> None) out"
  using memories.delete_outcome [OF assms(1) [unfolded memory_inv_def] assms(2) [unfolded memory_delete_def]]
  by (simp add: memory_outcome_iff memory_map_def)

inductive memory_reach :: "memory_db \<Rightarrow> bool" where
  mr_new: "db_ok (db_new scan faults) \<Longrightarrow> memory_reach (db_new scan faults)"
| mr_create: "memory_reach db \<Longrightarrow> memory_reach (snd (memory_create n now db))"
| mr_touch: "memory_reach db \<Longrightarrow> memory_reach (snd (memory_touch i now db))"
| mr_update: "memory_reach db \<Longrightarrow> memory_reach (snd (memory_update_value i v emb now db))"
| mr_delete: "memory_reach db \<Longrightarrow> memory_reach (snd (memory_delete i db))"
| mr_get: "memory_reach db \<Longrightarrow> memory_reach (snd (memory_get_by_id i db))"
| mr_query: "memory_reach db \<Longrightarrow> memory_reach (snd (memory_query q db))"

lemma memory_outcome_inv: "memory_outcome app eff db d success \<and> Q \<Longrightarrow> memory_inv d"
  by (simp add: memory_outcome_def)

lemmas memory_write_inv =
  memory_outcome_inv [OF memory_create_outcome [OF _ prod.collapse [symmetric]]]
  memory_outcome_inv [OF memory_touch_outcome [OF _ prod.collapse [symmetric]]]
  memory_outcome_inv [OF memory_update_outcome [OF _ prod.collapse [symmetric]]]
  memory_outcome_inv [OF memory_delete_outcome [OF _ prod.collapse [symmetric]]]

lemma memory_read_inv:
  "memory_inv db \<Longrightarrow> memory_inv (snd (memory_get_by_id i db))"
  "memory_inv db \<Longrightarrow> memory_inv (snd (memory_query q db))"
  unfolding memory_get_by_id_def memory_query_def memory_inv_def
  by (rule memories.get_keeps memories.query_keeps; simp)+

lemma reach_memory_inv: "memory_reach db \<Longrightarrow> memory_inv db"
proof (induction rule: memory_reach.induct)
  case (mr_new scan faults)
  then show ?case by (simp add: memory_inv_def table_inv_def db_new_def)
qed (auto intro: memory_write_inv memory_read_inv)

text \<open>C29: the memory store is a map from ids to memories, whatever calls to the database fail: ids are
  unique and every row reads back; create, touch, update_value and delete either take their full effect
  or none; one that reports success has taken effect and returns the row after it; and while the database
  answers each succeeds exactly when its arguments allow it. Creating starts the counter at 0, touching
  adds one, and neither touching nor a new value changes the id, scope, key or creation time.\<close>

theorem memory_store_refines:
  assumes "memory_reach db"
  shows "(case memory_create n now db of (out, d) \<Rightarrow>
      memory_outcome (\<not> empty_id (nm_id n) \<and> \<not> empty_id (nm_key n) \<and> memory_map db (nm_id n) = None)
        (\<lambda>m. m(nm_id n \<mapsto> memory_of_new n now)) db d (is_ok out) \<and> ok_value (memory_of_new n now) out) \<and>
    (case memory_touch i now db of (out, d) \<Rightarrow>
      memory_outcome (\<not> empty_id i \<and> memory_map db i \<noteq> None)
        (\<lambda>m. m(i := map_option (touched now) (m i))) db d (is_ok out) \<and>
      (\<forall>x. out = Ok x \<longrightarrow> map_option (touched now) (memory_map db i) = Some x)) \<and>
    (case memory_update_value i v emb now db of (out, d) \<Rightarrow>
      memory_outcome (\<not> empty_id i \<and> memory_map db i \<noteq> None)
        (\<lambda>m. m(i := map_option (revalued v emb now) (m i))) db d (is_ok out) \<and>
      (\<forall>x. out = Ok x \<longrightarrow> map_option (revalued v emb now) (memory_map db i) = Some x)) \<and>
    (case memory_delete i db of (out, d) \<Rightarrow>
      memory_outcome (\<not> empty_id i) (\<lambda>m. m(i := None)) db d (is_ok out) \<and> ok_value (memory_map db i \<noteq> None) out)"
  using memory_create_outcome [OF reach_memory_inv [OF assms] prod.collapse [symmetric]]
    memory_touch_outcome [OF reach_memory_inv [OF assms] prod.collapse [symmetric]]
    memory_update_outcome [OF reach_memory_inv [OF assms] prod.collapse [symmetric]]
    memory_delete_outcome [OF reach_memory_inv [OF assms] prod.collapse [symmetric]]
  unfolding case_prod_unfold by blast

definition demo_nm :: "string \<Rightarrow> scope \<Rightarrow> new_memory" where
  "demo_nm i s = \<lparr> nm_id = i, nm_scope = s, nm_key = ''k'', nm_value = ''v'', nm_embedding = None, nm_created_at = None \<rparr>"

definition demo_memories :: memory_db where
  "demo_memories = snd (memory_create (demo_nm ''b'' ScopeUser) ''2026-01-02T00:00:00Z''
     (snd (memory_create (demo_nm ''a'' (ScopeSession ''s'')) ''2026-01-01T00:00:00Z'' (db_new rev [None, Some ''locked'']))))"

lemma demo_memories_reach: "memory_reach demo_memories"
  unfolding demo_memories_def by (intro memory_reach.intros) (simp add: db_ok_def db_new_def)

lemma demo_memories_rows:
  "db_rows demo_memories = [row_of_memory (memory_of_new (demo_nm ''b'' ScopeUser) ''2026-01-02T00:00:00Z'')]"
  "reliable demo_memories"
  by (code_simp, code_simp)

lemma memory_store_refines_witness:
  "fst (memory_touch ''b'' ''t'' demo_memories) =
     Ok (touched ''t'' (memory_of_new (demo_nm ''b'' ScopeUser) ''2026-01-02T00:00:00Z''))"
proof -
  let ?m = "memory_of_new (demo_nm ''b'' ScopeUser) ''2026-01-02T00:00:00Z''"
  have m: "memory_map demo_memories ''b'' = Some ?m"
    by (simp add: memory_map_def table_map_def demo_memories_rows memories.reads_back [simplified]) (simp add: demo_nm_def)
  have "\<not> empty_id ''b''" by code_simp
  with memory_store_refines [OF demo_memories_reach, where i = "''b''" and now = "''t''",
      THEN conjunct2, THEN conjunct1] demo_memories_rows(2)
  show ?thesis by (auto simp: m memory_outcome_def is_ok_iff split: prod.splits)
qed

text \<open>A tag parses to a scope exactly when it is the tag of that scope; so distinct scopes have
  distinct tags, and a tag of neither kind is refused.\<close>

theorem scope_tags: "from_tag t = Ok s \<longleftrightarrow> t = to_tag s"
  using from_tag_Ok by auto

text \<open>A query on a store that answers returns memories of the asked scope and key only, all of
  them up to the limit, oldest first: what another session, project or user stored is never in the answer.\<close>

theorem memory_query_scoped:
  assumes "memory_reach db" "reliable db"
  shows "\<exists>out. fst (memory_query q db) = Ok out \<and>
    (\<forall>m \<in> set out. memory_map db (me_id m) = Some m \<and>
       (case mq_scope q of Some s \<Rightarrow> me_scope m = s | None \<Rightarrow> True) \<and>
       (case mq_key q of Some k \<Rightarrow> me_key m = k | None \<Rightarrow> True)) \<and>
    best_of (\<lambda>a b. mr_created_at a \<le> mr_created_at b) (row_limit (mq_limit q))
      (filter (\<lambda>r. (case mq_scope q of Some s \<Rightarrow> mr_scope r = to_tag s | None \<Rightarrow> True) \<and>
         (case mq_key q of Some k \<Rightarrow> mr_key r = k | None \<Rightarrow> True)) (db_rows db))
      (map row_of_memory out)"
proof -
  let ?P = "\<lambda>r. (case mq_scope q of Some s \<Rightarrow> mr_scope r = to_tag s | None \<Rightarrow> True) \<and>
      (case mq_key q of Some k \<Rightarrow> mr_key r = k | None \<Rightarrow> True)"
  note inv = reach_memory_inv [OF assms(1), unfolded memory_inv_def]
  obtain out where out: "fst (memory_query q db) = Ok out"
    and b: "best_of (\<lambda>a b. mr_created_at a \<le> mr_created_at b) (row_limit (mq_limit q)) (filter ?P (db_rows db))
      (map row_of_memory out)"
    using memories.query_first [OF inv prod.collapse [symmetric] mset_order(1) sorted_order(1) assms(2)]
    unfolding memory_query_def by blast
  have "memory_map db (me_id m) = Some m \<and> (case mq_scope q of Some s \<Rightarrow> me_scope m = s | None \<Rightarrow> True) \<and>
      (case mq_key q of Some k \<Rightarrow> me_key m = k | None \<Rightarrow> True)" if "m \<in> set out" for m
  proof -
    have "row_of_memory m \<in> set (map row_of_memory out)" using that by simp
    from best_of_subset [OF b this] show ?thesis
      using memories.table_map_Some [OF inv, of "me_id m" m]
      by (auto simp: memory_map_def split: option.splits)
  qed
  with out b show ?thesis by blast
qed

lemma memory_query_scoped_witness:
  "\<exists>out. fst (memory_query \<lparr> mq_scope = Some ScopeUser, mq_key = None, mq_limit = None \<rparr> demo_memories) = Ok out \<and>
    (\<forall>m \<in> set out. me_scope m = ScopeUser) \<and> length out = 1"
proof -
  have n: "row_limit None = 1000" by code_simp
  have f: "filter (\<lambda>r. mr_scope r = ''user'') (db_rows demo_memories) = db_rows demo_memories"
    "length (db_rows demo_memories) = 1"
    by (simp_all add: demo_memories_rows) (simp add: memory_of_new_def demo_nm_def Let_def)
  show ?thesis
    using memory_query_scoped [OF demo_memories_reach demo_memories_rows(2),
        of "\<lparr> mq_scope = Some ScopeUser, mq_key = None, mq_limit = None \<rparr>"]
    by (auto simp: n f best_of_def)
qed

end
