(* ===== verification/SqlCredentials.thy ===== *)
theory SqlCredentials
  imports Credentials SqlTable
begin

text \<open>
  The credential store over SQLite (\<^verbatim>\<open>credentials/src/sqlite.rs\<close>, with the table of
  \<^verbatim>\<open>state/src/migrations.rs\<close>): the rows hold text columns, every call of the pool or the engine may
  fail, and the secrets live in any keyring backend. The text of an instant is chrono's and the text of
  a JSON value serde\_json's: both are parameters. An instant is a number of nanoseconds; its text has
  whole seconds. The lemmas relate the store to the in-memory store of \<open>Credentials\<close>.
\<close>

subsection \<open>Rows\<close>

record time_text =
  tt_show :: "int \<Rightarrow> string"
  tt_parse :: "string \<Rightarrow> int option"

definition whole_secs :: "int \<Rightarrow> int" where
  "whole_secs t = t - t mod 1000000000"

text \<open>What chrono promises: the text of an instant of the years 0 to 9999, which RFC 3339 has, reads back as the
  instant, less its fraction of a second.\<close>

definition text_time :: "int \<Rightarrow> bool" where
  "text_time t \<longleftrightarrow> - 62167219200 * 1000000000 \<le> t \<and> t < 253402300800 * 1000000000"

definition time_text_ok :: "time_text \<Rightarrow> bool" where
  "time_text_ok T \<longleftrightarrow> (\<forall>t. text_time t \<longrightarrow> tt_parse T (tt_show T t) = Some (whole_secs t))"

record account_row =
  ar_id :: string
  ar_provider :: string
  ar_label :: string
  ar_endpoint :: string
  ar_key_id :: string
  ar_is_default :: int
  ar_status :: string
  ar_cooldown_until :: "string option"
  ar_last_used_at :: "string option"
  ar_metadata :: string
  ar_created_at :: string

type_synonym account_db = "account_row db"

definition account_of_row :: "time_text \<Rightarrow> json_text \<Rightarrow> int \<Rightarrow> account_row \<Rightarrow> account" where
  "account_of_row T J created r =
    \<lparr> ac_id = ar_id r, ac_provider = ar_provider r, ac_label = ar_label r, ac_endpoint = ar_endpoint r,
      ac_key_id = ar_key_id r, ac_is_default = (ar_is_default r \<noteq> 0),
      ac_status = status_from_str_lossy (ar_status r),
      ac_cooldown_until = Option.bind (ar_cooldown_until r) (tt_parse T),
      ac_last_used_at = Option.bind (ar_last_used_at r) (tt_parse T),
      ac_metadata = unwrap_or (jt_parse J (ar_metadata r)) (JObj []),
      ac_created_at = created \<rparr>"

definition row_to_account :: "time_text \<Rightarrow> json_text \<Rightarrow> account_row \<Rightarrow> (account, string) result" where
  "row_to_account T J r =
    (case tt_parse T (ar_created_at r) of
       Some c \<Rightarrow> Ok (account_of_row T J c r)
     | None \<Rightarrow> Err ''Conversion error from type Text at index: 10'')"

text \<open>The constraints of the table: the primary key, two unique columns, one default per provider.\<close>

definition row_conflict :: "account_row \<Rightarrow> account_row list \<Rightarrow> bool" where
  "row_conflict r rows \<longleftrightarrow>
    (\<exists>x \<in> set rows. ar_id x = ar_id r \<or> ar_provider x = ar_provider r \<and> ar_label x = ar_label r \<or>
       ar_key_id x = ar_key_id r \<or>
       ar_provider x = ar_provider r \<and> ar_is_default x = 1 \<and> ar_is_default r = 1)"

definition has_name :: "string \<Rightarrow> string \<Rightarrow> account_row \<Rightarrow> bool" where
  "has_name p l r \<longleftrightarrow> ar_provider r = p \<and> ar_label r = l"

subsection \<open>Statements\<close>

text \<open>An \<^verbatim>\<open>UPDATE\<close> of the rows with a property, with the number of rows it changed.\<close>

definition update_where ::
    "(account_row \<Rightarrow> bool) \<Rightarrow> (account_row \<Rightarrow> account_row) \<Rightarrow> account_db \<Rightarrow> (nat, 'e) result \<times> account_db" where
  "update_where P f db =
    (Ok (length (filter P (db_rows db))), db\<lparr> db_rows := map (\<lambda>r. if P r then f r else r) (db_rows db) \<rparr>)"

definition count_where :: "(account_row \<Rightarrow> bool) \<Rightarrow> account_db \<Rightarrow> (nat, 'e) result \<times> account_db" where
  "count_where P db = (Ok (length (filter P (db_rows db))), db)"

definition clear_defaults :: "string \<Rightarrow> account_db \<Rightarrow> (nat, 'e) result \<times> account_db" where
  "clear_defaults p = update_where (\<lambda>r. ar_provider r = p) (\<lambda>r. r\<lparr> ar_is_default := 0 \<rparr>)"

text \<open>The \<^verbatim>\<open>INSERT\<close> of \<^verbatim>\<open>add\<close>; its failures undo the keyring entry, which the flag of the error says.\<close>

definition insert_account :: "account_row \<Rightarrow> account_db \<Rightarrow> (unit, bool \<times> cred_error) result \<times> account_db" where
  "insert_account r =
    db_try (\<lambda>e. (True, CSqlite e)) (\<lambda>db.
      if row_conflict r (db_rows db) then (Err (True, CDuplicate (ar_provider r) (ar_label r)), db)
      else (Ok (), db\<lparr> db_rows := db_rows db @ [r] \<rparr>))"

subsection \<open>The store\<close>

record 'k sql_store =
  sq_db :: account_db
  sq_keyring :: 'k

definition new_account_row ::
    "time_text \<Rightarrow> new_account \<Rightarrow> string \<Rightarrow> string \<Rightarrow> string \<Rightarrow> int \<Rightarrow> account_row" where
  "new_account_row T a endpoint key_id row_id now =
    \<lparr> ar_id = row_id, ar_provider = na_provider a, ar_label = na_label a, ar_endpoint = endpoint,
      ar_key_id = key_id, ar_is_default = (if na_set_default a then 1 else 0), ar_status = ''active'',
      ar_cooldown_until = None, ar_last_used_at = None, ar_metadata = ''{}'', ar_created_at = tt_show T now \<rparr>"

definition add_tx :: "new_account \<Rightarrow> account_row \<Rightarrow> account_db \<Rightarrow> (unit, bool \<times> cred_error) result \<times> account_db" where
  "add_tx a r =
    (let mk = (\<lambda>e. (False, CSqlite e)); p = na_provider a in
     db_bind (if na_set_default a then db_try mk (clear_defaults p) else (\<lambda>db. (Ok 0, db))) (\<lambda>_.
     db_bind (insert_account r) (\<lambda>_.
     db_bind (db_try mk (count_where (\<lambda>x. ar_provider x = p))) (\<lambda>count.
       if count = 1 then
         db_bind (db_try mk (update_where (\<lambda>x. ar_id x = ar_id r) (\<lambda>x. x\<lparr> ar_is_default := 1 \<rparr>))) (\<lambda>_ db. (Ok (), db))
       else (\<lambda>db. (Ok (), db))))))"

definition fetch_account ::
    "time_text \<Rightarrow> json_text \<Rightarrow> (account_row \<Rightarrow> bool) \<Rightarrow> account_db \<Rightarrow> (account option, cred_error) result \<times> account_db" where
  "fetch_account T J P =
    db_try CState (db_try CSqlite (\<lambda>db.
      (case one_row (select P db) of
         Some r \<Rightarrow> map_ok Some (map_err CSqlite (row_to_account T J r))
       | None \<Rightarrow> Ok None, db)))"

definition sql_add ::
    "time_text \<Rightarrow> json_text \<Rightarrow> 'k keyring_api \<Rightarrow> new_account \<Rightarrow> string \<Rightarrow> string \<Rightarrow> int \<Rightarrow> 'k sql_store \<Rightarrow>
     (account, cred_error) result \<times> 'k sql_store" where
  "sql_add T J B a key_id row_id now s =
    (case validate_new a of
       Err e \<Rightarrow> (Err e, s)
     | Ok _ \<Rightarrow>
       (case resolve_endpoint a of
          Err e \<Rightarrow> (Err e, s)
        | Ok ep \<Rightarrow>
          (case kr_store B key_id (na_api_key a) (sq_keyring s) of
             (Err e, k1) \<Rightarrow> (Err e, s\<lparr> sq_keyring := k1 \<rparr>)
           | (Ok _, k1) \<Rightarrow>
             (case db_try (\<lambda>e. (False, CState e)) (in_tx (\<lambda>e. (False, CSqlite e))
                     (add_tx a (new_account_row T a ep key_id row_id now))) (sq_db s) of
                (Err (undo, e), d) \<Rightarrow>
                  (Err e, \<lparr> sq_db = d, sq_keyring = (if undo then snd (kr_delete B key_id k1) else k1) \<rparr>)
              | (Ok _, d) \<Rightarrow>
                  (case fetch_account T J (has_name (na_provider a) (na_label a)) d of
                     (r, d') \<Rightarrow>
                       (try_res r (\<lambda>v. opt_ok_or v (CNotFound (na_provider a) (na_label a))),
                        \<lparr> sq_db = d', sq_keyring = k1 \<rparr>))))))"

text \<open>An operation on the rows alone.\<close>

definition on_rows ::
    "(account_db \<Rightarrow> ('a, cred_error) result \<times> account_db) \<Rightarrow> 'k sql_store \<Rightarrow> ('a, cred_error) result \<times> 'k sql_store" where
  "on_rows m s = (case m (sq_db s) of (r, d) \<Rightarrow> (r, s\<lparr> sq_db := d \<rparr>))"

fun read_accounts :: "time_text \<Rightarrow> json_text \<Rightarrow> account_row list \<Rightarrow> (account list, string) result" where
  "read_accounts T J [] = Ok []"
| "read_accounts T J (r # rs) =
    try_res (row_to_account T J r) (\<lambda>a. map_ok ((#) a) (read_accounts T J rs))"

definition sql_list :: "time_text \<Rightarrow> json_text \<Rightarrow> 'k sql_store \<Rightarrow> (account list, cred_error) result \<times> 'k sql_store" where
  "sql_list T J = on_rows (db_try CState (db_try CSqlite (\<lambda>db.
    (map_err CSqlite (read_accounts T J
       (sort_key (\<lambda>r. (ar_provider r, ar_label r)) (select (\<lambda>_. True) db))), db))))"

definition sql_list_for_provider ::
    "time_text \<Rightarrow> json_text \<Rightarrow> string \<Rightarrow> 'k sql_store \<Rightarrow> (account list, cred_error) result \<times> 'k sql_store" where
  "sql_list_for_provider T J p = on_rows (db_try CState (db_try CSqlite (\<lambda>db.
    (map_err CSqlite (read_accounts T J (sort_key ar_label (select (\<lambda>r. ar_provider r = p) db))), db))))"

text \<open>The transaction of \<^verbatim>\<open>remove\<close> returns the key identifier of the row and the number of deleted rows.\<close>

definition remove_tx :: "string \<Rightarrow> string \<Rightarrow> account_db \<Rightarrow> (string \<times> nat, cred_error) result \<times> account_db" where
  "remove_tx p l =
    db_bind (db_try CSqlite (\<lambda>db. (Ok (map_option ar_key_id (one_row (select (has_name p l) db))), db))) (\<lambda>key.
      case key of
        None \<Rightarrow> (\<lambda>db. (Err (CNotFound p l), db))
      | Some k \<Rightarrow> db_try CSqlite (\<lambda>db.
          (Ok (k, length (filter (has_name p l) (db_rows db))),
           db\<lparr> db_rows := filter (\<lambda>r. \<not> has_name p l r) (db_rows db) \<rparr>)))"

definition sql_remove ::
    "'k keyring_api \<Rightarrow> string \<Rightarrow> string \<Rightarrow> 'k sql_store \<Rightarrow> (unit, cred_error) result \<times> 'k sql_store" where
  "sql_remove B p l s =
    (case db_try CState (in_tx CSqlite (remove_tx p l)) (sq_db s) of
       (Err e, d) \<Rightarrow> (Err e, s\<lparr> sq_db := d \<rparr>)
     | (Ok (k, affected), d) \<Rightarrow>
         if affected = 0 then (Err (CNotFound p l), s\<lparr> sq_db := d \<rparr>)
         else (Ok (), \<lparr> sq_db = d, sq_keyring = snd (kr_delete B k (sq_keyring s)) \<rparr>))"

definition default_tx :: "string \<Rightarrow> string \<Rightarrow> account_db \<Rightarrow> (unit, cred_error) result \<times> account_db" where
  "default_tx p l =
    db_bind (db_try CSqlite (count_where (has_name p l))) (\<lambda>exists.
      if exists = 0 then (\<lambda>db. (Err (CNotFound p l), db))
      else db_bind (db_try CSqlite (clear_defaults p)) (\<lambda>_.
        db_bind (db_try CSqlite (update_where (has_name p l) (\<lambda>r. r\<lparr> ar_is_default := 1 \<rparr>))) (\<lambda>_ db. (Ok (), db))))"

definition sql_set_default :: "string \<Rightarrow> string \<Rightarrow> 'k sql_store \<Rightarrow> (unit, cred_error) result \<times> 'k sql_store" where
  "sql_set_default p l = on_rows (db_try CState (in_tx CSqlite (default_tx p l)))"

definition sql_get_default ::
    "time_text \<Rightarrow> json_text \<Rightarrow> string \<Rightarrow> 'k sql_store \<Rightarrow> (account option, cred_error) result \<times> 'k sql_store" where
  "sql_get_default T J p = on_rows (fetch_account T J (\<lambda>r. ar_provider r = p \<and> ar_is_default r = 1))"

definition sql_load_key ::
    "time_text \<Rightarrow> json_text \<Rightarrow> 'k keyring_api \<Rightarrow> string \<Rightarrow> string \<Rightarrow> 'k sql_store \<Rightarrow>
     (string, cred_error) result \<times> 'k sql_store" where
  "sql_load_key T J B p l s =
    (case on_rows (fetch_account T J (has_name p l)) s of
       (r, s') \<Rightarrow>
         (try_res r (\<lambda>v. try_res (opt_ok_or v (CNotFound p l)) (\<lambda>a.
            try_res (kr_load B (ac_key_id a) (sq_keyring s')) (\<lambda>k. opt_ok_or k (COrphanedKey p l (ac_key_id a))))), s'))"

definition sql_resolve ::
    "time_text \<Rightarrow> json_text \<Rightarrow> 'k keyring_api \<Rightarrow> int \<Rightarrow> string \<Rightarrow> 'k sql_store \<Rightarrow>
     (account \<times> string, cred_error) result \<times> 'k sql_store" where
  "sql_resolve T J B now p s =
    (case sql_list_for_provider T J p s of
       (Err e, s') \<Rightarrow> (Err e, s')
     | (Ok candidates, s') \<Rightarrow>
         (if candidates = [] then Err (CNoEligible p)
          else case min_by_key ac_last_used_at (filter (is_eligible_at now) candidates) of
            None \<Rightarrow> Err (CNoEligible p)
          | Some a \<Rightarrow>
              try_res (kr_load B (ac_key_id a) (sq_keyring s')) (\<lambda>k.
                map_ok (\<lambda>x. (a, x)) (opt_ok_or k (COrphanedKey (ac_provider a) (ac_label a) (ac_key_id a)))), s'))"

definition sql_set_status ::
    "account_status \<Rightarrow> string option \<Rightarrow> string \<Rightarrow> string \<Rightarrow> 'k sql_store \<Rightarrow> (unit, cred_error) result \<times> 'k sql_store" where
  "sql_set_status st until p l = on_rows (db_try CState (db_bind
     (db_try CSqlite (update_where (has_name p l) (\<lambda>r. r\<lparr> ar_status := status_str st, ar_cooldown_until := until \<rparr>)))
     (\<lambda>affected db. (if affected = 0 then Err (CNotFound p l) else Ok (), db))))"

definition sql_mark_cooldown ::
    "time_text \<Rightarrow> string \<Rightarrow> string \<Rightarrow> int \<Rightarrow> 'k sql_store \<Rightarrow> (unit, cred_error) result \<times> 'k sql_store" where
  "sql_mark_cooldown T p l until = sql_set_status AcCooldown (Some (tt_show T until)) p l"

definition sql_mark_dead :: "string \<Rightarrow> string \<Rightarrow> 'k sql_store \<Rightarrow> (unit, cred_error) result \<times> 'k sql_store" where
  "sql_mark_dead p l = sql_set_status AcDead None p l"

definition sql_clear_status :: "string \<Rightarrow> string \<Rightarrow> 'k sql_store \<Rightarrow> (unit, cred_error) result \<times> 'k sql_store" where
  "sql_clear_status p l = sql_set_status AcActive None p l"

subsection \<open>The in-memory store behind the rows\<close>

definition row_account :: "time_text \<Rightarrow> json_text \<Rightarrow> account_row \<Rightarrow> account" where
  "row_account T J r = account_of_row T J (unwrap_or (tt_parse T (ar_created_at r)) 0) r"

definition abs_rows :: "time_text \<Rightarrow> json_text \<Rightarrow> account_row list \<Rightarrow> account_rows" where
  "abs_rows T J rows = map (\<lambda>r. ((ar_provider r, ar_label r), row_account T J r)) rows"

definition sql_abs :: "time_text \<Rightarrow> json_text \<Rightarrow> 'k sql_store \<Rightarrow> 'k cred_store" where
  "sql_abs T J s = \<lparr> cs_rows = abs_rows T J (db_rows (sq_db s)), cs_backend = sq_keyring s \<rparr>"

definition sql_rows_inv :: "time_text \<Rightarrow> json_text \<Rightarrow> account_row list \<Rightarrow> bool" where
  "sql_rows_inv T J rows \<longleftrightarrow>
    (\<forall>r \<in> set rows. tt_parse T (ar_created_at r) \<noteq> None \<and> (ar_is_default r = 0 \<or> ar_is_default r = 1)) \<and>
    distinct (map ar_id rows) \<and> rows_inv (abs_rows T J rows)"

lemma row_account_simps [simp]:
  "ac_provider (row_account T J r) = ar_provider r" "ac_label (row_account T J r) = ar_label r"
  "ac_key_id (row_account T J r) = ar_key_id r" "ac_is_default (row_account T J r) = (ar_is_default r \<noteq> 0)"
  "ac_id (row_account T J r) = ar_id r"
  by (simp_all add: row_account_def account_of_row_def)

lemma row_account_default:
  "row_account T J (r\<lparr> ar_is_default := b \<rparr>) = (row_account T J r)\<lparr> ac_is_default := (b \<noteq> 0) \<rparr>"
  by (simp add: row_account_def account_of_row_def)

lemma row_account_status:
  "row_account T J (r\<lparr> ar_status := status_str st, ar_cooldown_until := u \<rparr>) =
    (row_account T J r)\<lparr> ac_status := st, ac_cooldown_until := Option.bind u (tt_parse T) \<rparr>"
  by (cases st) (simp_all add: row_account_def account_of_row_def status_from_str_lossy_def)

lemma row_reads: "tt_parse T (ar_created_at r) \<noteq> None \<Longrightarrow> row_to_account T J r = Ok (row_account T J r)"
  by (auto simp: row_to_account_def row_account_def unwrap_or_def)

lemma read_accounts_reads:
  "\<forall>r \<in> set rs. tt_parse T (ar_created_at r) \<noteq> None \<Longrightarrow> read_accounts T J rs = Ok (map (row_account T J) rs)"
  by (induction rs) (auto simp: row_reads)

lemma abs_rows_simps [simp]:
  "abs_rows T J [] = []" "abs_rows T J (r # rs) = ((ar_provider r, ar_label r), row_account T J r) # abs_rows T J rs"
  "abs_rows T J (rs @ rs') = abs_rows T J rs @ abs_rows T J rs'"
  "map snd (abs_rows T J rs) = map (row_account T J) rs" "key_ids (abs_rows T J rs) = ar_key_id ` set rs"
  by (auto simp: abs_rows_def key_ids_def image_iff)

lemma map_of_abs: "map_of (abs_rows T J rows) (p, l) = map_option (row_account T J) (List.find (has_name p l) rows)"
  by (induction rows) (auto simp: has_name_def)

lemma of_provider_abs: "of_provider p (abs_rows T J rows) = map (row_account T J) (filter (\<lambda>r. ar_provider r = p) rows)"
  by (induction rows) (auto simp: of_provider_def)

lemma abs_rows_filter:
  "abs_rows T J (filter (\<lambda>r. \<not> has_name p l r) rows) = AList.delete (p, l) (abs_rows T J rows)"
  by (induction rows) (auto simp: has_name_def)

lemma abs_rows_clear:
  "abs_rows T J (map (\<lambda>r. if ar_provider r = p then r\<lparr> ar_is_default := 0 \<rparr> else r) rows) =
    map_rows (drop_default p) (abs_rows T J rows)"
proof (induction rows)
  case (Cons r rows)
  have "row_account T J (r\<lparr> ar_is_default := 0 \<rparr>) = row_account T J r" if "ar_is_default r = 0" for r
    using that by (simp add: row_account_def account_of_row_def)
  with Cons show ?case by (auto simp: map_rows_def drop_default_def row_account_default)
qed (simp add: map_rows_def)

lemma abs_rows_update:
  assumes "\<And>r. row_account T J (f r) = g (row_account T J r)" "\<And>r. ar_provider (f r) = ar_provider r"
    "\<And>r. ar_label (f r) = ar_label r"
  shows "abs_rows T J (map (\<lambda>r. if has_name p l r then f r else r) rows) =
    map (\<lambda>(k, x). (k, if k = (p, l) then g x else x)) (abs_rows T J rows)"
  by (induction rows) (auto simp: has_name_def assms)

text \<open>At most one row has a name, and at most one is the default of its provider.\<close>

lemma unique_name:
  assumes "sql_rows_inv T J rows"
  shows "length (filter (has_name p l) rows) \<le> 1"
proof -
  have "length (filter (has_name p l) rows) = length (filter (\<lambda>x. fst x = (p, l)) (abs_rows T J rows))"
    by (induction rows) (auto simp: has_name_def)
  also have "\<dots> \<le> 1" using assms by (intro one_key) (simp add: sql_rows_inv_def rows_inv_def)
  finally show ?thesis .
qed

lemma unique_default:
  assumes "sql_rows_inv T J rows"
  shows "length (filter (\<lambda>r. ar_provider r = p \<and> ar_is_default r = 1) rows) \<le> 1"
proof -
  have "length (filter (\<lambda>r. ar_provider r = p \<and> ar_is_default r = 1) rows) \<le> defaults p (abs_rows T J rows)"
    unfolding defaults_def by (induction rows) auto
  also have "\<dots> \<le> 1" using assms by (simp add: sql_rows_inv_def rows_inv_def)
  finally show ?thesis .
qed

lemma first_unique:
  assumes "db_ok db" "length (filter P (db_rows db)) \<le> 1"
  shows "one_row (select P db) = List.find P (db_rows db)"
proof (cases "filter P (db_rows db)")
  case Nil
  then have "select P db = []" "List.find P (db_rows db) = None"
    using length_select [OF assms(1), of P] by (simp, simp add: find_None_iff filter_empty_conv)
  then show ?thesis by (simp add: one_row_def)
next
  case (Cons x xs)
  with assms(2) have "filter P (db_rows db) = [x]" by simp
  with mset_select [OF assms(1), of P] have "select P db = [x]" by simp
  moreover have "List.find P rs = Some x" if "filter P rs = [x]" for rs
    using that by (induction rs) (auto split: if_splits)
  ultimately show ?thesis using \<open>filter P (db_rows db) = [x]\<close> by (simp add: one_row_def)
qed

lemma fetch_spec:
  assumes inv: "sql_rows_inv T J (db_rows db)" "db_ok db" and one: "length (filter P (db_rows db)) \<le> 1"
  shows "step_ok db (fetch_account T J P)
    (\<lambda>v rs. rs = db_rows db \<and> v = map_option (row_account T J) (List.find P (db_rows db))) (\<lambda>_. False)"
proof -
  let ?out = "\<lambda>db. case one_row (select P db) of
      Some r \<Rightarrow> map_ok Some (map_err CSqlite (row_to_account T J r)) | None \<Rightarrow> Ok None"
  have r: "?out d = Ok (map_option (row_account T J) (List.find P (db_rows db)))"
    if "db_rows d = db_rows db" "db_scan d = db_scan db" for d
  proof -
    have "one_row (select P d) = List.find P (db_rows db)"
      using first_unique [OF inv(2) one] select_cong [OF that] by simp
    moreover have "List.find P (db_rows db) = Some x \<Longrightarrow> row_to_account T J x = Ok (row_account T J x)" for x
      using inv(1) by (auto simp: sql_rows_inv_def intro!: row_reads dest!: find_Some_in)
    ultimately show ?thesis by (cases "List.find P (db_rows db)") simp_all
  qed
  show ?thesis
    unfolding fetch_account_def by (intro step_try step_pure) (simp_all add: r)
qed

lemma fetch_rows: "db_rows (snd (fetch_account T J P db)) = db_rows db"
  unfolding fetch_account_def by (intro db_try_rows) simp

subsection \<open>The statements on the rows\<close>

lemma step_update_where [step_intros]:
  "Q (length (filter P (db_rows db))) (map (\<lambda>r. if P r then f r else r) (db_rows db)) \<Longrightarrow>
    step_ok db (update_where P f) Q E"
  by (rule step_run) (simp_all add: update_where_def)

lemma step_count_where [step_intros]:
  "Q (length (filter P (db_rows db))) (db_rows db) \<Longrightarrow> step_ok db (count_where P) Q E"
  by (rule step_run) (simp_all add: count_where_def)

definition cleared :: "string \<Rightarrow> account_row list \<Rightarrow> account_row list" where
  "cleared p rows = map (\<lambda>r. if ar_provider r = p then r\<lparr> ar_is_default := 0 \<rparr> else r) rows"

text \<open>What \<^verbatim>\<open>add\<close> makes of the rows.\<close>

definition added :: "new_account \<Rightarrow> account_row \<Rightarrow> account_row list \<Rightarrow> account_row list" where
  "added a r rows =
    (let p = na_provider a;
         rows1 = (if na_set_default a then cleared p rows else rows) @ [r]
     in if length (filter (\<lambda>x. ar_provider x = p) rows1) = 1
        then map (\<lambda>x. if ar_id x = ar_id r then x\<lparr> ar_is_default := 1 \<rparr> else x) rows1 else rows1)"

lemma add_tx_spec:
  fixes a :: new_account and r :: account_row
  defines "base \<equiv> \<lambda>rows. if na_set_default a then cleared (na_provider a) rows else rows"
  shows "step_ok db (add_tx a r)
    (\<lambda>_ rs. \<not> row_conflict r (base (db_rows db)) \<and> rs = added a r (db_rows db))
    (\<lambda>e. row_conflict r (base (db_rows db)) \<and> e = (True, CDuplicate (ar_provider r) (ar_label r)))"
  unfolding add_tx_def Let_def
proof (rule step_bind)
  show "step_ok db (if na_set_default a then db_try (\<lambda>e. (False, CSqlite e)) (clear_defaults (na_provider a))
      else (\<lambda>db. (Ok 0, db))) (\<lambda>_ rs. rs = base (db_rows db))
    (\<lambda>e. row_conflict r (base (db_rows db)) \<and> e = (True, CDuplicate (ar_provider r) (ar_label r)))"
  proof (cases "na_set_default a")
    case True
    show ?thesis unfolding if_P [OF True] clear_defaults_def
      by (intro step_try step_update_where) (simp add: base_def True cleared_def)
  next
    case False
    then show ?thesis by (auto intro!: step_pure simp: base_def)
  qed
next
  fix x :: nat and d :: account_db
  assume d: "db_rows d = base (db_rows db)" "db_scan d = db_scan db"
  let ?E = "\<lambda>e. row_conflict r (base (db_rows db)) \<and> e = (True, CDuplicate (ar_provider r) (ar_label r))"
  let ?Q = "\<lambda>_ :: unit. \<lambda>rs. \<not> row_conflict r (base (db_rows db)) \<and> rs = added a r (db_rows db)"
  let ?P = "\<lambda>x. ar_provider x = na_provider a"
  show "step_ok d (db_bind (insert_account r) (\<lambda>_. db_bind (db_try (\<lambda>e. (False, CSqlite e)) (count_where ?P))
      (\<lambda>count. if count = 1 then db_bind (db_try (\<lambda>e. (False, CSqlite e))
          (update_where (\<lambda>x. ar_id x = ar_id r) (\<lambda>x. x\<lparr> ar_is_default := 1 \<rparr>))) (\<lambda>_ db. (Ok (), db))
        else (\<lambda>db. (Ok (), db))))) ?Q ?E"
  proof (rule step_bind)
    show "step_ok d (insert_account r)
        (\<lambda>_ rs. \<not> row_conflict r (base (db_rows db)) \<and> rs = base (db_rows db) @ [r]) ?E"
      unfolding insert_account_def by (rule step_try, rule step_run) (auto simp: d split: if_splits)
  next
    fix u :: unit and d1 :: account_db
    assume d1: "\<not> row_conflict r (base (db_rows db)) \<and> db_rows d1 = base (db_rows db) @ [r]"
    show "step_ok d1 (db_bind (db_try (\<lambda>e. (False, CSqlite e)) (count_where ?P))
      (\<lambda>count. if count = 1 then db_bind (db_try (\<lambda>e. (False, CSqlite e))
          (update_where (\<lambda>x. ar_id x = ar_id r) (\<lambda>x. x\<lparr> ar_is_default := 1 \<rparr>))) (\<lambda>_ db. (Ok (), db))
        else (\<lambda>db. (Ok (), db)))) ?Q ?E"
    proof (rule step_bind [where Q' = "\<lambda>n rs. n = length (filter ?P (base (db_rows db) @ [r])) \<and> rs = base (db_rows db) @ [r]"])
      show "step_ok d1 (db_try (\<lambda>e. (False, CSqlite e)) (count_where ?P))
          (\<lambda>n rs. n = length (filter ?P (base (db_rows db) @ [r])) \<and> rs = base (db_rows db) @ [r]) ?E"
        by (intro step_try step_count_where) (simp add: d1)
    next
      fix count :: nat and d2 :: account_db
      assume d2: "count = length (filter ?P (base (db_rows db) @ [r])) \<and> db_rows d2 = base (db_rows db) @ [r]"
      show "step_ok d2 (if count = 1 then db_bind (db_try (\<lambda>e. (False, CSqlite e))
          (update_where (\<lambda>x. ar_id x = ar_id r) (\<lambda>x. x\<lparr> ar_is_default := 1 \<rparr>))) (\<lambda>_ db. (Ok (), db))
        else (\<lambda>db. (Ok (), db))) ?Q ?E"
      proof (cases "count = 1")
        case True
        then have "added a r (db_rows db) =
            map (\<lambda>x. if ar_id x = ar_id r then x\<lparr> ar_is_default := 1 \<rparr> else x) (base (db_rows db) @ [r])"
          using d2 by (simp add: added_def Let_def base_def)
        then show ?thesis unfolding if_P [OF True]
          by (intro step_bind [where Q' = "\<lambda>_ rs. rs = added a r (db_rows db)"] step_try step_update_where step_pure)
            (use d1 d2 in auto)
      next
        case False
        then have "added a r (db_rows db) = base (db_rows db) @ [r]"
          using d2 by (simp add: added_def Let_def base_def)
        then show ?thesis using False d1 d2 by (auto intro!: step_pure)
      qed
    qed
  qed
qed

lemma cleared_simps [simp]:
  "map ar_id (cleared p rows) = map ar_id rows"
  "abs_rows T J (cleared p rows) = map_rows (drop_default p) (abs_rows T J rows)"
  by (simp_all add: cleared_def abs_rows_clear comp_def if_distrib)

lemma find_cleared [simp]:
  "List.find (has_name q l) (cleared p rows) = None \<longleftrightarrow> List.find (has_name q l) rows = None"
  by (induction rows) (auto simp: cleared_def has_name_def)

lemma cleared_fields: "x \<in> set (cleared p rows) \<Longrightarrow>
    \<exists>y \<in> set rows. ar_id x = ar_id y \<and> ar_provider x = ar_provider y \<and> ar_label x = ar_label y \<and>
      ar_key_id x = ar_key_id y \<and> ar_created_at x = ar_created_at y \<and>
      (if ar_provider y = p then ar_is_default x = 0 else x = y)"
  by (auto simp: cleared_def)

lemma cleared_fields': "y \<in> set rows \<Longrightarrow>
    \<exists>x \<in> set (cleared p rows). ar_provider x = ar_provider y \<and> ar_label x = ar_label y"
  unfolding cleared_def set_map by (rule bexI [OF _ imageI]) auto

text \<open>With fresh identifiers the only constraint an insertion can violate is that of the name.\<close>

lemma conflict_iff:
  assumes "ar_id r \<notin> ar_id ` set rows" "ar_key_id r \<notin> ar_key_id ` set rows"
    "na_provider a = ar_provider r" "ar_is_default r = (if na_set_default a then 1 else 0)"
  shows "row_conflict r (if na_set_default a then cleared (na_provider a) rows else rows) \<longleftrightarrow>
    List.find (has_name (ar_provider r) (ar_label r)) rows \<noteq> None"
proof (cases "na_set_default a")
  case True
  show ?thesis
  proof
    assume "row_conflict r (if na_set_default a then cleared (na_provider a) rows else rows)"
    then obtain x where x: "x \<in> set (cleared (na_provider a) rows)"
      "ar_id x = ar_id r \<or> ar_provider x = ar_provider r \<and> ar_label x = ar_label r \<or> ar_key_id x = ar_key_id r \<or>
       ar_provider x = ar_provider r \<and> ar_is_default x = 1 \<and> ar_is_default r = 1"
      using True by (auto simp: row_conflict_def)
    from cleared_fields [OF x(1)] x(2) assms(1-3)
    have "\<exists>y \<in> set rows. has_name (ar_provider r) (ar_label r) y"
      unfolding has_name_def by (metis image_eqI zero_neq_one)
    then show "List.find (has_name (ar_provider r) (ar_label r)) rows \<noteq> None" by (auto simp: find_None_iff)
  next
    assume "List.find (has_name (ar_provider r) (ar_label r)) rows \<noteq> None"
    then obtain y where "y \<in> set rows" "has_name (ar_provider r) (ar_label r) y" by (auto simp: find_None_iff)
    with cleared_fields' [of y rows "na_provider a"]
    show "row_conflict r (if na_set_default a then cleared (na_provider a) rows else rows)"
      unfolding if_P [OF True] row_conflict_def has_name_def by metis
  qed
next
  case False
  with assms show ?thesis
    by (auto simp: row_conflict_def find_None_iff has_name_def image_iff)
qed

lemma added_snoc:
  assumes "ar_id r \<notin> ar_id ` set rows" "na_provider a = ar_provider r"
  defines "base \<equiv> if na_set_default a then cleared (na_provider a) rows else rows"
  shows "added a r rows = base @ [if of_provider (na_provider a) (abs_rows T J base) = [] then r\<lparr> ar_is_default := 1 \<rparr> else r]"
proof -
  have "set (map ar_id base) = set (map ar_id rows)" by (simp add: base_def del: set_map)
  then have "ar_id x \<in> ar_id ` set rows" if "x \<in> set base" for x
    using that by (metis imageI set_map)
  then have "\<forall>x \<in> set base. ar_id x \<noteq> ar_id r" using assms(1) by metis
  then have "map (\<lambda>x. if ar_id x = ar_id r then x\<lparr> ar_is_default := 1 \<rparr> else x) base = base"
    by (intro map_idI) auto
  moreover have "length (filter (\<lambda>x. ar_provider x = na_provider a) (base @ [r])) = 1 \<longleftrightarrow>
      of_provider (na_provider a) (abs_rows T J base) = []"
    using assms(2) by (simp add: of_provider_abs)
  ultimately show ?thesis by (simp add: added_def Let_def base_def [symmetric])
qed

lemma find_snoc: "List.find P xs = None \<Longrightarrow> List.find P (xs @ [x]) = (if P x then Some x else None)"
  by (simp add: find_append)

lemma added_abs:
  assumes "ar_id r \<notin> ar_id ` set rows" "List.find (has_name (ar_provider r) (ar_label r)) rows = None"
    "na_provider a = ar_provider r" "ar_is_default r = (if na_set_default a then 1 else 0)"
  shows "\<exists>r'. insert_row (row_account T J r) (abs_rows T J rows) = (row_account T J r', abs_rows T J (added a r rows)) \<and>
    List.find (has_name (ar_provider r) (ar_label r)) (added a r rows) = Some r' \<and>
    (r' = r \<or> r' = r\<lparr> ar_is_default := 1 \<rparr>) \<and>
    added a r rows = (if na_set_default a then cleared (na_provider a) rows else rows) @ [r']"
proof -
  let ?base = "if na_set_default a then cleared (na_provider a) rows else rows"
  let ?r' = "if of_provider (na_provider a) (abs_rows T J ?base) = [] then r\<lparr> ar_is_default := 1 \<rparr> else r"
  note s = added_snoc [OF assms(1,3), of T J]
  have n: "List.find (has_name (ar_provider r) (ar_label r)) ?base = None" using assms(2) by simp
  have b: "abs_rows T J ?base = (if ac_is_default (row_account T J r)
      then map_rows (drop_default (na_provider a)) (abs_rows T J rows) else abs_rows T J rows)"
    using assms(4) by simp
  have "(ar_provider r, ar_label r) \<notin> set (map fst (abs_rows T J ?base))"
    using n map_of_abs [of T J ?base "ar_provider r" "ar_label r"] by (simp only: map_of_eq_None_iff [symmetric] set_map) simp
  then have u: "AList.update (ar_provider r, ar_label r) x (abs_rows T J ?base) =
      abs_rows T J ?base @ [((ar_provider r, ar_label r), x)]" for x by (rule update_new)
  have "insert_row (row_account T J r) (abs_rows T J rows) = (row_account T J ?r', abs_rows T J (added a r rows))"
    unfolding insert_row_def row_account_simps(1,2) assms(3) [symmetric] b [symmetric] s Let_def
    using u assms(3) by (auto simp: row_account_default)
  moreover have "List.find (has_name (ar_provider r) (ar_label r)) (added a r rows) = Some ?r'"
    unfolding s using find_snoc [OF n, of ?r'] by (auto simp: has_name_def)
  ultimately show ?thesis using s by (intro exI [of _ ?r']) auto
qed

subsection \<open>Refinement of the in-memory store\<close>

definition texts_ok :: "time_text \<Rightarrow> json_text \<Rightarrow> bool" where
  "texts_ok T J \<longleftrightarrow> time_text_ok T \<and> jt_parse J ''{}'' = Some (JObj [])"

definition sql_inv :: "time_text \<Rightarrow> json_text \<Rightarrow> 'k sql_store \<Rightarrow> bool" where
  "sql_inv T J s \<longleftrightarrow> sql_rows_inv T J (db_rows (sq_db s)) \<and> db_ok (sq_db s)"

text \<open>A run of an operation on the rows (\<open>out\<close>, \<open>s'\<close>) against a run in memory (\<open>r\<close>, \<open>t\<close>): the rows are those before
  or those after; a reported success is the run in memory; and without failures the runs agree.\<close>

definition sql_refines ::
    "time_text \<Rightarrow> json_text \<Rightarrow> 'k sql_store \<Rightarrow> ('a, cred_error) result \<times> 'k sql_store \<Rightarrow>
     ('a, cred_error) result \<times> 'k cred_store \<Rightarrow> bool" where
  "sql_refines T J s = (\<lambda>(out, s') (r, t).
    sql_inv T J s' \<and>
    (cs_rows (sql_abs T J s') = cs_rows (sql_abs T J s) \<or> cs_rows (sql_abs T J s') = cs_rows t) \<and>
    (is_ok out \<longrightarrow> out = r \<and> sql_abs T J s' = t) \<and>
    (reliable (sq_db s) \<longrightarrow> out = r \<and> sql_abs T J s' = t \<and> reliable (sq_db s')))"

lemma sql_refines_same:
  "sql_inv T J s' \<Longrightarrow> sql_abs T J s' = t \<Longrightarrow> (reliable (sq_db s) \<longrightarrow> reliable (sq_db s')) \<Longrightarrow>
    sql_refines T J s (out, s') (out, t)"
  by (auto simp: sql_refines_def)

lemma sql_refines_failed:
  "sql_inv T J s' \<Longrightarrow> cs_rows (sql_abs T J s') = cs_rows (sql_abs T J s) \<or> cs_rows (sql_abs T J s') = cs_rows t \<Longrightarrow>
    \<not> reliable (sq_db s) \<Longrightarrow> sql_refines T J s (Err e, s') (r, t)"
  by (auto simp: sql_refines_def)

lemma sql_inv_same:
  "sql_inv T J s \<Longrightarrow> db_rows (sq_db s') = db_rows (sq_db s) \<Longrightarrow> db_scan (sq_db s') = db_scan (sq_db s) \<Longrightarrow> sql_inv T J s'"
  by (simp add: sql_inv_def db_ok_def)

lemma sql_abs_simps [simp]:
  "cs_rows (sql_abs T J s) = abs_rows T J (db_rows (sq_db s))" "cs_backend (sql_abs T J s) = sq_keyring s"
  by (simp_all add: sql_abs_def)

lemma row_account_new:
  "texts_ok T J \<Longrightarrow> text_time now \<Longrightarrow>
    row_account T J (new_account_row T a ep key_id row_id now) = new_row a ep key_id row_id (whole_secs now)"
  by (simp add: texts_ok_def time_text_ok_def row_account_def account_of_row_def new_account_row_def new_row_def
      status_from_str_lossy_def unwrap_or_def)

lemma sql_rows_inv_added:
  assumes inv: "sql_rows_inv T J rows" and r: "ar_id r \<notin> ar_id ` set rows" "tt_parse T (ar_created_at r) \<noteq> None"
    "ar_is_default r = (if na_set_default a then 1 else 0)"
    and snoc: "rows' = (if na_set_default a then cleared (na_provider a) rows else rows) @ [r']"
      "r' = r \<or> r' = r\<lparr> ar_is_default := 1 \<rparr>"
    and ri: "rows_inv (abs_rows T J rows')"
  shows "sql_rows_inv T J rows'"
proof -
  let ?base = "if na_set_default a then cleared (na_provider a) rows else rows"
  have base: "map ar_id ?base = map ar_id rows" by simp
  have "\<forall>x \<in> set ?base. tt_parse T (ar_created_at x) \<noteq> None \<and> (ar_is_default x = 0 \<or> ar_is_default x = 1)"
  proof
    fix x assume x: "x \<in> set ?base"
    show "tt_parse T (ar_created_at x) \<noteq> None \<and> (ar_is_default x = 0 \<or> ar_is_default x = 1)"
    proof (cases "na_set_default a")
      case True
      with x have "x \<in> set (cleared (na_provider a) rows)" by simp
      from cleared_fields [OF this] inv show ?thesis by (auto simp: sql_rows_inv_def split: if_splits)
    next
      case False
      with x inv show ?thesis by (simp add: sql_rows_inv_def)
    qed
  qed
  moreover have "tt_parse T (ar_created_at r') \<noteq> None" "ar_is_default r' = 0 \<or> ar_is_default r' = 1" "ar_id r' = ar_id r"
    using snoc(2) r(2,3) by auto
  moreover have "distinct (map ar_id rows')"
    using inv r(1) \<open>ar_id r' = ar_id r\<close> unfolding snoc(1) map_append base by (simp add: sql_rows_inv_def)
  ultimately show ?thesis using ri unfolding sql_rows_inv_def snoc(1) by simp
qed

lemma sql_add_refines:
  assumes inv: "sql_inv T J s" and tx: "texts_ok T J" "text_time now"
    and fresh: "row_id \<notin> ar_id ` set (db_rows (sq_db s))" "key_id \<notin> ar_key_id ` set (db_rows (sq_db s))"
  shows "sql_refines T J s (sql_add T J B a key_id row_id now s) (add B a key_id row_id (whole_secs now) (sql_abs T J s))"
proof (cases "validate_new a")
  case (Err e)
  then show ?thesis using inv by (simp add: sql_add_def add_def sql_refines_same)
next
  case v: (Ok u)
  show ?thesis
  proof (cases "resolve_endpoint a")
    case (Err e)
    then show ?thesis using inv v by (simp add: sql_add_def add_def sql_refines_same)
  next
    case ep: (Ok ep)
    obtain st k1 where st: "kr_store B key_id (na_api_key a) (sq_keyring s) = (st, k1)" by force
    show ?thesis
    proof (cases st)
      case (Err e)
      then show ?thesis using inv v ep st
        by (auto simp: sql_add_def add_def sql_abs_def sql_inv_def intro!: sql_refines_same)
    next
      case stored: (Ok u2)
      let ?r = "new_account_row T a ep key_id row_id now"
      let ?rows = "db_rows (sq_db s)"
      let ?p = "na_provider a" and ?l = "na_label a"
      have r: "ar_id ?r = row_id" "ar_key_id ?r = key_id" "ar_provider ?r = ?p" "ar_label ?r = ?l"
        "ar_is_default ?r = (if na_set_default a then 1 else 0)" "tt_parse T (ar_created_at ?r) \<noteq> None"
        using tx by (simp_all add: new_account_row_def texts_ok_def time_text_ok_def)
      have conf: "row_conflict ?r (if na_set_default a then cleared ?p ?rows else ?rows) \<longleftrightarrow>
          List.find (has_name ?p ?l) ?rows \<noteq> None"
        using conflict_iff [of ?r ?rows a] fresh r by simp
      obtain o1 d where t: "db_try (\<lambda>e. (False, CState e)) (in_tx (\<lambda>e. (False, CSqlite e)) (add_tx a ?r)) (sq_db s) = (o1, d)"
        by force
      have dup: "map_of (cs_rows (sql_abs T J s)) (?p, ?l) = map_option (row_account T J) (List.find (has_name ?p ?l) ?rows)"
        by (simp add: map_of_abs)
      have "step_ok e (add_tx a ?r)
          (\<lambda>_ rs. List.find (has_name ?p ?l) ?rows = None \<and> rs = added a ?r ?rows)
          (\<lambda>e. List.find (has_name ?p ?l) ?rows \<noteq> None \<and> e = (True, CDuplicate ?p ?l))"
        if "db_rows e = ?rows" for e :: account_db
        using add_tx_spec [of e a ?r] unfolding that conf r(3,4) not_not .
      from conn_tx_outcome [OF this t]
      have d: "db_scan d = db_scan (sq_db s)" "reliable (sq_db s) \<longrightarrow> reliable d"
        "case o1 of Ok _ \<Rightarrow> List.find (has_name ?p ?l) ?rows = None \<and> db_rows d = added a ?r ?rows
         | Err e \<Rightarrow> db_rows d = ?rows \<and> (reliable (sq_db s) \<longrightarrow>
             List.find (has_name ?p ?l) ?rows \<noteq> None \<and> e = (True, CDuplicate ?p ?l))" by auto
      show ?thesis
      proof (cases o1)
        case (Err e)
        obtain undo er where e: "e = (undo, er)" by force
        let ?s' = "\<lparr> sq_db = d, sq_keyring = (if undo then snd (kr_delete B key_id k1) else k1) \<rparr>"
        have run: "sql_add T J B a key_id row_id now s = (Err er, ?s')"
          using v ep st stored t Err e by (simp add: sql_add_def)
        have i: "sql_inv T J ?s'" using inv d(1,3) Err by (auto simp: sql_inv_def db_ok_def)
        show ?thesis
        proof (cases "reliable (sq_db s)")
          case True
          with d(3) Err e have "List.find (has_name ?p ?l) ?rows \<noteq> None" "undo" "er = CDuplicate ?p ?l" "db_rows d = ?rows"
            by auto
          with i d(2) show ?thesis unfolding run using v ep st stored dup
            by (auto simp: add_def sql_abs_def intro!: sql_refines_same)
        next
          case False
          with i d(3) Err show ?thesis unfolding run
            by (cases "add B a key_id row_id (whole_secs now) (sql_abs T J s)") (auto intro!: sql_refines_failed)
        qed
      next
        case (Ok u3)
        with d(3) have none: "List.find (has_name ?p ?l) ?rows = None" and rows: "db_rows d = added a ?r ?rows" by auto
        from added_abs [of ?r ?rows a T J, unfolded r(1,3,4), OF fresh(1) none refl r(5)]
        obtain r' where r': "insert_row (row_account T J ?r) (abs_rows T J ?rows) = (row_account T J r', abs_rows T J (added a ?r ?rows))"
          "List.find (has_name ?p ?l) (added a ?r ?rows) = Some r'" "r' = ?r \<or> r' = ?r\<lparr> ar_is_default := 1 \<rparr>"
          "added a ?r ?rows = (if na_set_default a then cleared ?p ?rows else ?rows) @ [r']" by blast
        let ?t = "\<lparr> cs_rows = abs_rows T J (added a ?r ?rows), cs_backend = k1 \<rparr>"
        have mem: "add B a key_id row_id (whole_secs now) (sql_abs T J s) = (Ok (row_account T J r'), ?t)"
          using v ep st stored dup none r'(1) by (simp add: add_def row_account_new [OF tx])
        have "rows_inv (cs_rows (snd (add B a key_id row_id (whole_secs now) (sql_abs T J s))))"
          using inv fresh(2) by (intro rows_inv_add) (simp_all add: sql_inv_def sql_rows_inv_def)
        then have ri: "rows_inv (abs_rows T J (added a ?r ?rows))" unfolding mem by simp
        have ri: "sql_rows_inv T J (added a ?r ?rows)"
          by (rule sql_rows_inv_added [OF _ _ r(6,5) r'(4,3) ri]) (use inv fresh(1) r(1) in \<open>simp_all add: sql_inv_def\<close>)
        have ok: "db_ok d" using inv d(1) by (simp add: sql_inv_def db_ok_def)
        obtain f d' where f: "fetch_account T J (has_name ?p ?l) d = (f, d')" by force
        have fi: "sql_rows_inv T J (db_rows d)" using ri rows by simp
        from step_okD [OF fetch_spec [OF fi ok unique_name [OF fi]] f] r'(2) rows
        have f': "db_scan d' = db_scan d" "reliable d \<longrightarrow> reliable d'"
          "case f of Ok v \<Rightarrow> db_rows d' = added a ?r ?rows \<and> v = Some (row_account T J r') | Err e \<Rightarrow> \<not> reliable d" by (auto split: result.splits)
        have rows': "db_rows d' = added a ?r ?rows"
          using f rows fetch_rows [of T J "has_name ?p ?l" d] by simp
        let ?s' = "\<lparr> sq_db = d', sq_keyring = k1 \<rparr>"
        have run: "sql_add T J B a key_id row_id now s =
            (try_res f (\<lambda>v. opt_ok_or v (CNotFound ?p ?l)), ?s')"
          using v ep st stored t Ok f by (simp add: sql_add_def)
        have i: "sql_inv T J ?s'" using ri rows' ok f'(1) by (simp add: sql_inv_def db_ok_def)
        have ab: "sql_abs T J ?s' = ?t" by (simp add: sql_abs_def rows')
        show ?thesis
        proof (cases f)
          case (Ok w)
          with f'(3) show ?thesis unfolding run mem
            using i ab d(2) f'(2) by (auto intro!: sql_refines_same)
        next
          case (Err e)
          with f'(3) d(2) have "\<not> reliable (sq_db s)" by auto
          with i ab Err show ?thesis unfolding run mem by (auto intro!: sql_refines_failed simp: rows')
        qed
      qed
    qed
  qed
qed

lemma db_bind_try: "db_bind (db_try mk f) k = db_try mk (db_bind f k)"
  by (auto simp: db_bind_def db_try_def fun_eq_iff split: prod.splits result.splits)

lemma first_named:
  assumes "sql_rows_inv T J (db_rows db)" "db_ok db" "db_rows d = db_rows db" "db_scan d = db_scan db"
  shows "one_row (select (has_name p l) d) = List.find (has_name p l) (db_rows db)"
  using first_unique [OF assms(2) unique_name [OF assms(1)]] select_cong [OF assms(3,4)] by simp

lemma sql_rows_inv_rows:
  assumes "sql_rows_inv T J rows" "map ar_id rows' = map ar_id rows"
    "\<forall>r \<in> set rows'. tt_parse T (ar_created_at r) \<noteq> None \<and> (ar_is_default r = 0 \<or> ar_is_default r = 1)"
    "rows_inv (abs_rows T J rows')"
  shows "sql_rows_inv T J rows'"
  using assms by (simp add: sql_rows_inv_def)

lemma sql_set_status_refines:
  assumes inv: "sql_inv T J s" and cd: "Option.bind u (tt_parse T) = cd"
  shows "sql_refines T J s (sql_set_status st u p l s) (set_status st cd p l (sql_abs T J s))"
proof -
  let ?rows = "db_rows (sq_db s)"
  let ?f = "\<lambda>r. r\<lparr> ar_status := status_str st, ar_cooldown_until := u \<rparr>"
  let ?new = "map (\<lambda>r. if has_name p l r then ?f r else r) ?rows"
  let ?k = "\<lambda>affected db. (if affected = 0 then Err (CNotFound p l) else Ok (), db)"
  let ?m = "db_bind (update_where (has_name p l) ?f) ?k"
  have i: "sql_rows_inv T J ?rows" "db_ok (sq_db s)" using inv by (simp_all add: sql_inv_def)
  have run: "sql_set_status st u p l s = (case db_try CState (db_try CSqlite ?m) (sq_db s) of (r, d) \<Rightarrow> (r, s\<lparr> sq_db := d \<rparr>))"
    by (simp add: sql_set_status_def on_rows_def db_bind_try)
  have mapof: "map_of (abs_rows T J ?rows) (p, l) = map_option (row_account T J) (List.find (has_name p l) ?rows)"
    by (rule map_of_abs)
  show ?thesis
  proof (cases rule: db_try2_cases [of CState CSqlite ?m "sq_db s"])
    case (failed e d)
    then show ?thesis unfolding run using sql_inv_same [OF inv, of "s\<lparr> sq_db := d \<rparr>"]
      by (cases "set_status st cd p l (sql_abs T J s)") (auto intro!: sql_refines_failed)
  next
    case (ran d)
    have m: "?m d = (if filter (has_name p l) ?rows = [] then Err (CNotFound p l) else Ok (), d\<lparr> db_rows := ?new \<rparr>)"
      by (simp add: db_bind_def update_where_def ran(2))
    have rel: "reliable (sq_db s) \<longrightarrow> reliable (d\<lparr> db_rows := ?new \<rparr>)" using ran(4) by simp
    show ?thesis
    proof (cases "List.find (has_name p l) ?rows")
      case None
      then have n: "filter (has_name p l) ?rows = []" "?new = ?rows"
        by (auto simp: find_None_iff filter_empty_conv intro!: map_idI)
      have "sql_inv T J (s\<lparr> sq_db := d\<lparr> db_rows := ?rows \<rparr> \<rparr>)"
        by (rule sql_inv_same [OF inv]) (simp_all add: ran(3))
      with None rel n mapof show ?thesis unfolding run ran(1) m
        by (auto simp: set_status_def sql_abs_def intro!: sql_refines_same)
    next
      case (Some r)
      then have ne: "filter (has_name p l) ?rows \<noteq> []" by (auto dest!: find_Some_in simp: filter_empty_conv)
      let ?g = "\<lambda>a :: account. a\<lparr> ac_status := st, ac_cooldown_until := cd \<rparr>"
      have d: "distinct (map fst (abs_rows T J ?rows))" using i by (simp add: sql_rows_inv_def rows_inv_def)
      have mo: "map_of (abs_rows T J ?rows) (p, l) = Some (row_account T J r)" using mapof Some by simp
      have ab: "abs_rows T J ?new = AList.update (p, l) (?g (row_account T J r)) (abs_rows T J ?rows)"
        unfolding update_present [OF d mo, of ?g]
        by (rule abs_rows_update) (simp_all add: row_account_status cd)
      have "rows_inv (abs_rows T J ?new)" unfolding ab
        by (rule rows_inv_status [OF _ mo]) (use i in \<open>simp add: sql_rows_inv_def\<close>)
      then have "sql_rows_inv T J ?new"
        using i(1) by (intro sql_rows_inv_rows [OF i(1)]) (auto simp: sql_rows_inv_def comp_def)
      then have iv: "sql_inv T J (s\<lparr> sq_db := d\<lparr> db_rows := ?new \<rparr> \<rparr>)"
        using i(2) ran(3) by (simp add: sql_inv_def db_ok_def)
      have "set_status st cd p l (sql_abs T J s) = (Ok (), sql_abs T J (s\<lparr> sq_db := d\<lparr> db_rows := ?new \<rparr> \<rparr>))"
        using mo ab by (simp add: set_status_def sql_abs_def)
      with iv rel ne show ?thesis unfolding run ran(1) m by (auto intro!: sql_refines_same)
    qed
  qed
qed

lemma remove_tx_spec:
  assumes inv: "sql_rows_inv T J rows" and ok: "db_ok db" and db: "db_rows db = rows"
  shows "step_ok db (remove_tx p l)
    (\<lambda>x rs. \<exists>r. List.find (has_name p l) rows = Some r \<and> fst x = ar_key_id r \<and> snd x \<noteq> 0 \<and>
       rs = filter (\<lambda>r. \<not> has_name p l r) rows)
    (\<lambda>e. List.find (has_name p l) rows = None \<and> e = CNotFound p l)"
  unfolding remove_tx_def
proof (rule step_bind [where Q' = "\<lambda>k rs. k = map_option ar_key_id (List.find (has_name p l) rows) \<and> rs = rows"])
  let ?E = "\<lambda>e. List.find (has_name p l) rows = None \<and> e = CNotFound p l"
  have f: "db_rows d = db_rows db \<Longrightarrow> db_scan d = db_scan db \<Longrightarrow>
      one_row (select (has_name p l) d) = List.find (has_name p l) rows" for d
    using first_named [of T J db d p l] inv ok db by simp
  show "step_ok db (db_try CSqlite (\<lambda>db. (Ok (map_option ar_key_id (one_row (select (has_name p l) db))), db)))
      (\<lambda>k rs. k = map_option ar_key_id (List.find (has_name p l) rows) \<and> rs = rows) ?E"
    by (intro step_try step_pure) (simp_all add: f db)
next
  let ?E = "\<lambda>e. List.find (has_name p l) rows = None \<and> e = CNotFound p l"
  let ?Q = "\<lambda>x rs. \<exists>r. List.find (has_name p l) rows = Some r \<and> fst x = ar_key_id r \<and> snd x \<noteq> (0 :: nat) \<and>
       rs = filter (\<lambda>r. \<not> has_name p l r) rows"
  fix k and d :: account_db
  assume k: "k = map_option ar_key_id (List.find (has_name p l) rows) \<and> db_rows d = rows"
  show "step_ok d (case k of None \<Rightarrow> (\<lambda>db. (Err (CNotFound p l), db))
      | Some k \<Rightarrow> db_try CSqlite (\<lambda>db. (Ok (k, length (filter (has_name p l) (db_rows db))),
           db\<lparr> db_rows := filter (\<lambda>r. \<not> has_name p l r) (db_rows db) \<rparr>))) ?Q ?E"
  proof (cases "List.find (has_name p l) rows")
    case None
    with k show ?thesis by (auto intro: step_pure)
  next
    case (Some r)
    then have "filter (has_name p l) rows \<noteq> []" by (auto dest!: find_Some_in simp: filter_empty_conv)
    with k Some show ?thesis by (auto intro!: step_try step_run)
  qed
qed

lemma sql_rows_inv_filter:
  assumes "sql_rows_inv T J rows"
  shows "sql_rows_inv T J (filter (\<lambda>r. \<not> has_name p l r) rows)"
  using assms rows_inv_delete [of "abs_rows T J rows" "(p, l)"]
  by (simp add: sql_rows_inv_def distinct_map_filter abs_rows_filter)

lemma sql_remove_refines:
  assumes inv: "sql_inv T J s"
  shows "sql_refines T J s (sql_remove B p l s) (remove_account B p l (sql_abs T J s))"
proof -
  let ?rows = "db_rows (sq_db s)"
  have i: "sql_rows_inv T J ?rows" "db_ok (sq_db s)" using inv by (simp_all add: sql_inv_def)
  obtain o1 d where t: "db_try CState (in_tx CSqlite (remove_tx p l)) (sq_db s) = (o1, d)" by force
  have "step_ok e (remove_tx p l)
    (\<lambda>x rs. \<exists>r. List.find (has_name p l) ?rows = Some r \<and> fst x = ar_key_id r \<and> snd x \<noteq> 0 \<and>
       rs = filter (\<lambda>r. \<not> has_name p l r) ?rows)
    (\<lambda>e. List.find (has_name p l) ?rows = None \<and> e = CNotFound p l)"
    if "db_rows e = ?rows" "db_scan e = db_scan (sq_db s)" for e
    using remove_tx_spec [OF i(1) _ that(1)] i(2) that(2) by (simp add: db_ok_def)
  from conn_tx_outcome [OF this t]
  have d: "db_scan d = db_scan (sq_db s)" "reliable (sq_db s) \<longrightarrow> reliable d"
    "case o1 of Ok x \<Rightarrow> \<exists>r. List.find (has_name p l) ?rows = Some r \<and> fst x = ar_key_id r \<and> snd x \<noteq> 0 \<and>
       db_rows d = filter (\<lambda>r. \<not> has_name p l r) ?rows
     | Err e \<Rightarrow> db_rows d = ?rows \<and> (reliable (sq_db s) \<longrightarrow> List.find (has_name p l) ?rows = None \<and> e = CNotFound p l)"
    by auto
  show ?thesis
  proof (cases o1)
    case (Ok x)
    then obtain r where r: "List.find (has_name p l) ?rows = Some r" "fst x = ar_key_id r" "snd x \<noteq> 0"
      "db_rows d = filter (\<lambda>r. \<not> has_name p l r) ?rows" using d(3) by auto
    let ?s' = "\<lparr> sq_db = d, sq_keyring = snd (kr_delete B (ar_key_id r) (sq_keyring s)) \<rparr>"
    have run: "sql_remove B p l s = (Ok (), ?s')"
      using t Ok r by (simp add: sql_remove_def case_prod_beta)
    have "remove_account B p l (sql_abs T J s) = (Ok (), sql_abs T J ?s')"
      using r by (simp add: remove_account_def map_of_abs sql_abs_def abs_rows_filter)
    moreover have "sql_inv T J ?s'"
      using sql_rows_inv_filter [OF i(1)] i(2) r(4) d(1) by (simp add: sql_inv_def db_ok_def)
    ultimately show ?thesis unfolding run using d(2) by (auto intro!: sql_refines_same)
  next
    case (Err e)
    have run: "sql_remove B p l s = (Err e, s\<lparr> sq_db := d \<rparr>)" using t Err by (simp add: sql_remove_def)
    have iv: "sql_inv T J (s\<lparr> sq_db := d \<rparr>)"
      by (rule sql_inv_same [OF inv]) (use d Err in simp_all)
    show ?thesis
    proof (cases "reliable (sq_db s)")
      case True
      with d Err have "List.find (has_name p l) ?rows = None" "e = CNotFound p l" "db_rows d = ?rows" by auto
      with iv d(2) show ?thesis unfolding run
        by (auto simp: remove_account_def map_of_abs sql_abs_def intro!: sql_refines_same)
    next
      case False
      with iv d(3) Err show ?thesis unfolding run
        by (cases "remove_account B p l (sql_abs T J s)") (auto intro!: sql_refines_failed)
    qed
  qed
qed

definition defaulted :: "string \<Rightarrow> string \<Rightarrow> account_row list \<Rightarrow> account_row list" where
  "defaulted p l rows = map (\<lambda>r. if has_name p l r then r\<lparr> ar_is_default := 1 \<rparr> else r) (cleared p rows)"

lemma default_tx_spec:
  assumes db: "db_rows db = rows"
  shows "step_ok db (default_tx p l)
    (\<lambda>_ rs. List.find (has_name p l) rows \<noteq> None \<and> rs = defaulted p l rows)
    (\<lambda>e. List.find (has_name p l) rows = None \<and> e = CNotFound p l)"
  unfolding default_tx_def
proof (rule step_bind [where Q' = "\<lambda>n rs. n = length (filter (has_name p l) rows) \<and> rs = rows"])
  show "step_ok db (db_try CSqlite (count_where (has_name p l)))
      (\<lambda>n rs. n = length (filter (has_name p l) rows) \<and> rs = rows)
      (\<lambda>e. List.find (has_name p l) rows = None \<and> e = CNotFound p l)"
    by (intro step_try step_count_where) (simp add: db)
next
  let ?Q = "\<lambda>_ :: unit. \<lambda>rs. List.find (has_name p l) rows \<noteq> None \<and> rs = defaulted p l rows"
  let ?E = "\<lambda>e. List.find (has_name p l) rows = None \<and> e = CNotFound p l"
  fix n :: nat and d :: account_db
  assume n: "n = length (filter (has_name p l) rows) \<and> db_rows d = rows"
  show "step_ok d (if n = 0 then (\<lambda>db. (Err (CNotFound p l), db))
      else db_bind (db_try CSqlite (clear_defaults p)) (\<lambda>_.
        db_bind (db_try CSqlite (update_where (has_name p l) (\<lambda>r. r\<lparr> ar_is_default := 1 \<rparr>))) (\<lambda>_ db. (Ok (), db)))) ?Q ?E"
  proof (cases "n = 0")
    case True
    then have "List.find (has_name p l) rows = None" using n by (simp add: find_None_iff filter_empty_conv)
    with True show ?thesis by (auto intro: step_pure)
  next
    case False
    then have "List.find (has_name p l) rows \<noteq> None" using n by (auto simp: find_None_iff filter_empty_conv)
    then show ?thesis unfolding if_not_P [OF False] clear_defaults_def
      by (intro step_bind [where Q' = "\<lambda>_ rs. rs = cleared p rows"]
          step_bind [where Q' = "\<lambda>_ rs. rs = defaulted p l rows"] step_try step_update_where step_pure)
        (use n in \<open>auto simp: cleared_def defaulted_def\<close>)
  qed
qed

lemma abs_rows_defaulted:
  "abs_rows T J (defaulted p l rows) =
    map_rows (\<lambda>r. if ac_provider r = p then r\<lparr> ac_is_default := (ac_label r = l) \<rparr> else r) (abs_rows T J rows)"
  unfolding defaulted_def cleared_def
  by (induction rows) (auto simp: map_rows_def has_name_def row_account_default)

lemma defaulted_ids: "map ar_id (defaulted p l rows) = map ar_id rows"
  unfolding defaulted_def cleared_def by (induction rows) (auto simp: has_name_def)

lemma defaulted_reads:
  "\<forall>r \<in> set rows. tt_parse T (ar_created_at r) \<noteq> None \<and> (ar_is_default r = 0 \<or> ar_is_default r = 1) \<Longrightarrow>
   \<forall>r \<in> set (defaulted p l rows). tt_parse T (ar_created_at r) \<noteq> None \<and> (ar_is_default r = 0 \<or> ar_is_default r = 1)"
  unfolding defaulted_def cleared_def by auto

lemma sql_set_default_refines:
  assumes inv: "sql_inv T J s"
  shows "sql_refines T J s (sql_set_default p l s) (set_default p l (sql_abs T J s))"
proof -
  let ?rows = "db_rows (sq_db s)"
  have i: "sql_rows_inv T J ?rows" "db_ok (sq_db s)" using inv by (simp_all add: sql_inv_def)
  obtain o1 d where t: "db_try CState (in_tx CSqlite (default_tx p l)) (sq_db s) = (o1, d)" by force
  have run: "sql_set_default p l s = (o1, s\<lparr> sq_db := d \<rparr>)" by (simp add: sql_set_default_def on_rows_def t)
  from conn_tx_outcome [OF default_tx_spec t]
  have d: "db_scan d = db_scan (sq_db s)" "reliable (sq_db s) \<longrightarrow> reliable d"
    "case o1 of Ok _ \<Rightarrow> List.find (has_name p l) ?rows \<noteq> None \<and> db_rows d = defaulted p l ?rows
     | Err e \<Rightarrow> db_rows d = ?rows \<and> (reliable (sq_db s) \<longrightarrow> List.find (has_name p l) ?rows = None \<and> e = CNotFound p l)"
    by auto
  show ?thesis
  proof (cases o1)
    case (Ok u)
    with d(3) have f: "List.find (has_name p l) ?rows \<noteq> None" "db_rows d = defaulted p l ?rows" by auto
    have ri: "rows_inv (abs_rows T J (defaulted p l ?rows))"
      unfolding abs_rows_defaulted by (rule rows_inv_default) (use i in \<open>simp add: sql_rows_inv_def\<close>)
    have "sql_rows_inv T J (defaulted p l ?rows)"
      by (rule sql_rows_inv_rows [OF i(1) defaulted_ids defaulted_reads ri]) (use i(1) in \<open>simp add: sql_rows_inv_def\<close>)
    then have "sql_inv T J (s\<lparr> sq_db := d \<rparr>)" using f(2) i(2) d(1) by (simp add: sql_inv_def db_ok_def)
    moreover have "set_default p l (sql_abs T J s) = (Ok (), sql_abs T J (s\<lparr> sq_db := d \<rparr>))"
      using f by (simp add: set_default_def map_of_abs sql_abs_def abs_rows_defaulted)
    ultimately show ?thesis unfolding run using Ok d(2) by (auto intro!: sql_refines_same)
  next
    case (Err e)
    have iv: "sql_inv T J (s\<lparr> sq_db := d \<rparr>)" by (rule sql_inv_same [OF inv]) (use d Err in simp_all)
    show ?thesis
    proof (cases "reliable (sq_db s)")
      case True
      with d Err have "List.find (has_name p l) ?rows = None" "e = CNotFound p l" "db_rows d = ?rows" by auto
      with iv d(2) Err show ?thesis unfolding run
        by (auto simp: set_default_def map_of_abs sql_abs_def intro!: sql_refines_same)
    next
      case False
      with iv d(3) Err show ?thesis unfolding run
        by (cases "set_default p l (sql_abs T J s)") (auto intro!: sql_refines_failed)
    qed
  qed
qed

subsection \<open>Reading the rows\<close>

text \<open>A read answers from the rows as they are, or fails without a change.\<close>

definition sql_reads ::
    "time_text \<Rightarrow> json_text \<Rightarrow> 'k sql_store \<Rightarrow> ('a, cred_error) result \<times> 'k sql_store \<Rightarrow> ('a, cred_error) result \<Rightarrow> bool" where
  "sql_reads T J s = (\<lambda>(out, s') r.
    sql_inv T J s' \<and> sql_abs T J s' = sql_abs T J s \<and>
    (is_ok out \<longrightarrow> out = r) \<and> (reliable (sq_db s) \<longrightarrow> out = r \<and> reliable (sq_db s')))"

lemma step_reads:
  assumes inv: "sql_inv T J s" and step: "step_ok (sq_db s) m (\<lambda>v rs. rs = db_rows (sq_db s) \<and> v = x) (\<lambda>_. False)"
    and frame: "db_rows (snd (m (sq_db s))) = db_rows (sq_db s)"
  shows "sql_reads T J s (on_rows m s) (Ok x)"
proof -
  obtain out d where m: "m (sq_db s) = (out, d)" by force
  note st = step_okD [OF step m]
  have "sql_inv T J (s\<lparr> sq_db := d \<rparr>)" "sql_abs T J (s\<lparr> sq_db := d \<rparr>) = sql_abs T J s"
    using st frame by (auto intro!: sql_inv_same [OF inv] simp: m sql_abs_def)
  with st show ?thesis by (auto simp: sql_reads_def on_rows_def m split: result.splits)
qed

text \<open>Sorting the rows of a query by a key they do not share forgets the order of the engine.\<close>

lemma sorted_distinct_sort_key:
  fixes f :: "'a \<Rightarrow> 'b::linorder"
  assumes m: "mset ys = mset xs" and s: "sorted (map f ys)" and d: "distinct (map f xs)"
  shows "sort_key f xs = ys"
proof -
  have set: "set (sort_key f xs) = set ys" using mset_eq_setD [OF m] by simp
  have "distinct (map f ys)" using d m by (metis mset_map mset_eq_imp_distinct_iff)
  then have e: "map f (sort_key f xs) = map f ys"
    using s d set sorted_sort_key [of f xs] distinct_map_sort_key [of f f xs]
    by (intro sorted_distinct_set_unique) (simp_all only: set_map)
  have "inj_on f (set (sort_key f xs) \<union> set ys)" using d mset_eq_setD [OF m] by (simp add: distinct_map)
  from map_inj_on [OF e this] show ?thesis .
qed

lemma read_sorted:
  fixes k :: "account \<Rightarrow> 'b::linorder"
  assumes inv: "sql_inv T J s" and db: "db_rows d = db_rows (sq_db s)" "db_scan d = db_scan (sq_db s)"
    and kr: "\<And>r. k (row_account T J r) = kr r" and dist: "distinct (map kr (filter P (db_rows (sq_db s))))"
  shows "read_accounts T J (sort_key kr (select P d)) =
    Ok (sort_key k (map (row_account T J) (filter P (db_rows (sq_db s)))))"
proof -
  have ok: "db_ok d" using inv db by (simp add: sql_inv_def db_ok_def)
  have m: "mset (select P d) = mset (filter P (db_rows (sq_db s)))" using mset_select [OF ok, of P] db by simp
  have "\<forall>r \<in> set (sort_key kr (select P d)). tt_parse T (ar_created_at r) \<noteq> None"
    using inv mset_eq_setD [OF m] by (auto simp: sql_inv_def sql_rows_inv_def)
  then have r: "read_accounts T J (sort_key kr (select P d)) = Ok (map (row_account T J) (sort_key kr (select P d)))"
    by (rule read_accounts_reads)
  have "sort_key k (map (row_account T J) (filter P (db_rows (sq_db s)))) = map (row_account T J) (sort_key kr (select P d))"
  proof (rule sorted_distinct_sort_key)
    show "mset (map (row_account T J) (sort_key kr (select P d))) = mset (map (row_account T J) (filter P (db_rows (sq_db s))))"
      using m by simp
    show "sorted (map k (map (row_account T J) (sort_key kr (select P d))))"
      using sorted_sort_key [of kr "select P d"] by (simp add: kr comp_def)
    show "distinct (map k (map (row_account T J) (filter P (db_rows (sq_db s)))))"
      using dist by (simp add: kr comp_def)
  qed
  with r show ?thesis by simp
qed

lemma distinct_names:
  assumes "sql_inv T J s"
  shows "distinct (map (\<lambda>r. (ar_provider r, ar_label r)) (db_rows (sq_db s)))"
proof -
  have "map fst (abs_rows T J (db_rows (sq_db s))) = map (\<lambda>r. (ar_provider r, ar_label r)) (db_rows (sq_db s))"
    by (simp add: abs_rows_def)
  with assms show ?thesis by (simp add: sql_inv_def sql_rows_inv_def rows_inv_def)
qed

lemma distinct_labels:
  "distinct (map (\<lambda>r. (ar_provider r, ar_label r)) rows) \<Longrightarrow> distinct (map ar_label (filter (\<lambda>r. ar_provider r = p) rows))"
  by (induction rows) (auto simp: image_iff)

lemma sql_list_reads: "sql_inv T J s \<Longrightarrow> sql_reads T J s (sql_list T J s) (Ok (list_accounts (sql_abs T J s)))"
  unfolding sql_list_def
proof (rule step_reads)
  assume inv: "sql_inv T J s"
  let ?f = "\<lambda>db. map_err CSqlite (read_accounts T J (sort_key (\<lambda>r. (ar_provider r, ar_label r)) (select (\<lambda>_. True) db)))"
  have r: "?f d = Ok (list_accounts (sql_abs T J s))" if "db_rows d = db_rows (sq_db s)" "db_scan d = db_scan (sq_db s)" for d
    using read_sorted [OF inv that, of "\<lambda>a. (ac_provider a, ac_label a)" "\<lambda>r. (ar_provider r, ar_label r)" "\<lambda>_. True"]
      distinct_names [OF inv] by (simp add: list_accounts_def)
  show "step_ok (sq_db s) (db_try CState (db_try CSqlite (\<lambda>db. (?f db, db))))
      (\<lambda>v rs. rs = db_rows (sq_db s) \<and> v = list_accounts (sql_abs T J s)) (\<lambda>_. False)"
    by (intro step_try step_pure) (simp_all add: r)
  show "db_rows (snd (db_try CState (db_try CSqlite (\<lambda>db. (?f db, db))) (sq_db s))) = db_rows (sq_db s)"
    by (intro db_try_rows) simp
qed

lemma sql_list_for_provider_reads:
  "sql_inv T J s \<Longrightarrow> sql_reads T J s (sql_list_for_provider T J p s) (Ok (list_for_provider p (sql_abs T J s)))"
  unfolding sql_list_for_provider_def
proof (rule step_reads)
  assume inv: "sql_inv T J s"
  let ?f = "\<lambda>db. map_err CSqlite (read_accounts T J (sort_key ar_label (select (\<lambda>r. ar_provider r = p) db)))"
  have r: "?f d = Ok (list_for_provider p (sql_abs T J s))" if "db_rows d = db_rows (sq_db s)" "db_scan d = db_scan (sq_db s)" for d
    using read_sorted [OF inv that, of ac_label ar_label "\<lambda>r. ar_provider r = p"]
      distinct_labels [OF distinct_names [OF inv], of p] by (simp add: list_for_provider_def of_provider_abs)
  show "step_ok (sq_db s) (db_try CState (db_try CSqlite (\<lambda>db. (?f db, db))))
      (\<lambda>v rs. rs = db_rows (sq_db s) \<and> v = list_for_provider p (sql_abs T J s)) (\<lambda>_. False)"
    by (intro step_try step_pure) (simp_all add: r)
  show "db_rows (snd (db_try CState (db_try CSqlite (\<lambda>db. (?f db, db))) (sq_db s))) = db_rows (sq_db s)"
    by (intro db_try_rows) simp
qed

lemma fetch_reads:
  assumes "sql_inv T J s" "length (filter P (db_rows (sq_db s))) \<le> 1"
  shows "sql_reads T J s (on_rows (fetch_account T J P) s) (Ok (map_option (row_account T J) (List.find P (db_rows (sq_db s)))))"
  using assms fetch_spec [of T J "sq_db s" P] fetch_rows [of T J P "sq_db s"]
  by (intro step_reads) (simp_all add: sql_inv_def)

lemma sql_get_default_reads:
  assumes inv: "sql_inv T J s"
  shows "sql_reads T J s (sql_get_default T J p s) (Ok (get_default p (sql_abs T J s)))"
proof -
  have f: "List.find (\<lambda>a. ac_provider a = p \<and> ac_is_default a) (map (row_account T J) rows) =
      map_option (row_account T J) (List.find (\<lambda>r. ar_provider r = p \<and> ar_is_default r = 1) rows)"
    if "\<forall>r \<in> set rows. ar_is_default r = 0 \<or> ar_is_default r = 1" for rows
    using that by (induction rows) auto
  have "get_default p (sql_abs T J s) =
      map_option (row_account T J) (List.find (\<lambda>r. ar_provider r = p \<and> ar_is_default r = 1) (db_rows (sq_db s)))"
    using f [of "db_rows (sq_db s)"] inv by (simp add: get_default_def sql_inv_def sql_rows_inv_def)
  then show ?thesis
    using fetch_reads [OF inv unique_default [of T J, of _ p]] inv
    by (simp add: sql_get_default_def sql_inv_def)
qed

lemma sql_load_key_reads:
  assumes inv: "sql_inv T J s"
  shows "sql_reads T J s (sql_load_key T J B p l s) (load_key B p l (sql_abs T J s))"
proof -
  have i: "sql_rows_inv T J (db_rows (sq_db s))" using inv by (simp add: sql_inv_def)
  obtain out s' where f: "on_rows (fetch_account T J (has_name p l)) s = (out, s')" by force
  have k: "sq_keyring s' = sq_keyring s" using f by (auto simp: on_rows_def split: prod.splits)
  let ?v = "map_option (row_account T J) (List.find (has_name p l) (db_rows (sq_db s)))"
  have "load_key B p l (sql_abs T J s) = try_res (Ok ?v) (\<lambda>v. try_res (opt_ok_or v (CNotFound p l)) (\<lambda>a.
      try_res (kr_load B (ac_key_id a) (sq_keyring s)) (\<lambda>k. opt_ok_or k (COrphanedKey p l (ac_key_id a)))))"
    by (simp add: load_key_def get_locked_def map_of_abs)
  with fetch_reads [OF inv unique_name [OF i], of p l] f k show ?thesis
    by (cases out) (auto simp: sql_reads_def sql_load_key_def)
qed

lemma sql_resolve_reads:
  assumes inv: "sql_inv T J s"
  shows "sql_reads T J s (sql_resolve T J B now p s) (resolve B now p (sql_abs T J s))"
proof -
  let ?A = "sql_abs T J s"
  obtain out s' where f: "sql_list_for_provider T J p s = (out, s')" by force
  have k: "sq_keyring s' = sq_keyring s"
    using f by (auto simp: sql_list_for_provider_def on_rows_def split: prod.splits)
  note r = sql_list_for_provider_reads [OF inv, of p, unfolded f]
  have key: "load_key B (ac_provider a) (ac_label a) ?A =
      try_res (kr_load B (ac_key_id a) (sq_keyring s)) (\<lambda>k. opt_ok_or k (COrphanedKey (ac_provider a) (ac_label a) (ac_key_id a)))"
    if "min_by_key ac_last_used_at (filter (is_eligible_at now) (list_for_provider p ?A)) = Some a" for a
  proof -
    from that obtain ys zs where "filter (is_eligible_at now) (list_for_provider p ?A) = ys @ a # zs"
      by (rule min_by_key_Some)
    then have "a \<in> set (filter (is_eligible_at now) (list_for_provider p ?A))" by simp
    then have "a \<in> set (list_for_provider p ?A)" by simp
    then have "a \<in> set (map snd (cs_rows ?A))" by (auto simp: list_for_provider_def of_provider_def)
    then have "map_of (cs_rows ?A) (ac_provider a, ac_label a) = Some a"
      using row_in_map_of inv by (metis sql_abs_simps(1) sql_inv_def sql_rows_inv_def)
    then show ?thesis by (simp add: load_key_def get_locked_def del: sql_abs_simps(1))
  qed
  have mo: "map_ok (\<lambda>k. (a, k)) (try_res x (\<lambda>k. opt_ok_or k e)) = try_res x (\<lambda>k. map_ok (\<lambda>x. (a, x)) (opt_ok_or k e))" for a x e
    by (cases x) simp_all
  show ?thesis
  proof (cases out)
    case (Err e)
    with r show ?thesis by (auto simp: sql_reads_def sql_resolve_def f)
  next
    case (Ok cs)
    with r have cs: "cs = list_for_provider p ?A" by (auto simp: sql_reads_def)
    have "fst (sql_resolve T J B now p s) = resolve B now p ?A" "snd (sql_resolve T J B now p s) = s'"
      using key by (auto simp: sql_resolve_def f Ok cs resolve_def Let_def k mo split: option.split)
    with r show ?thesis by (cases "sql_resolve T J B now p s") (auto simp: sql_reads_def)
  qed
qed

subsection \<open>Properties\<close>

text \<open>The states that the operations reach from an empty table; the identifiers of a new account are ones
  that no row has.\<close>

inductive sql_reach :: "time_text \<Rightarrow> json_text \<Rightarrow> 'k keyring_api \<Rightarrow> 'k sql_store \<Rightarrow> bool" for T J B where
  sq_new: "db_ok (db_new scan faults) \<Longrightarrow> sql_reach T J B \<lparr> sq_db = db_new scan faults, sq_keyring = k \<rparr>"
| sq_add: "sql_reach T J B s \<Longrightarrow> row_id \<notin> ar_id ` set (db_rows (sq_db s)) \<Longrightarrow>
    key_id \<notin> ar_key_id ` set (db_rows (sq_db s)) \<Longrightarrow> text_time now \<Longrightarrow> sql_reach T J B (snd (sql_add T J B a key_id row_id now s))"
| sq_remove: "sql_reach T J B s \<Longrightarrow> sql_reach T J B (snd (sql_remove B p l s))"
| sq_default: "sql_reach T J B s \<Longrightarrow> sql_reach T J B (snd (sql_set_default p l s))"
| sq_cooldown: "sql_reach T J B s \<Longrightarrow> sql_reach T J B (snd (sql_mark_cooldown T p l until s))"
| sq_dead: "sql_reach T J B s \<Longrightarrow> sql_reach T J B (snd (sql_mark_dead p l s))"
| sq_clear: "sql_reach T J B s \<Longrightarrow> sql_reach T J B (snd (sql_clear_status p l s))"
| sq_list: "sql_reach T J B s \<Longrightarrow> sql_reach T J B (snd (sql_list T J s))"
| sq_provider: "sql_reach T J B s \<Longrightarrow> sql_reach T J B (snd (sql_list_for_provider T J p s))"
| sq_get_default: "sql_reach T J B s \<Longrightarrow> sql_reach T J B (snd (sql_get_default T J p s))"
| sq_load: "sql_reach T J B s \<Longrightarrow> sql_reach T J B (snd (sql_load_key T J B p l s))"
| sq_resolve: "sql_reach T J B s \<Longrightarrow> sql_reach T J B (snd (sql_resolve T J B now p s))"

lemma sql_refines_inv: "sql_refines T J s x y \<Longrightarrow> sql_inv T J (snd x)"
  by (cases x; cases y) (simp add: sql_refines_def)

lemma sql_reads_inv: "sql_reads T J s x r \<Longrightarrow> sql_inv T J (snd x)"
  by (cases x) (simp add: sql_reads_def)

lemma sql_status_refines:
  assumes "sql_inv T J s"
  shows "texts_ok T J \<Longrightarrow> text_time until \<Longrightarrow>
      sql_refines T J s (sql_mark_cooldown T p l until s) (mark_cooldown p l (whole_secs until) (sql_abs T J s))"
    "sql_refines T J s (sql_mark_dead p l s) (mark_dead p l (sql_abs T J s))"
    "sql_refines T J s (sql_clear_status p l s) (clear_status p l (sql_abs T J s))"
  using assms unfolding sql_mark_cooldown_def mark_cooldown_def sql_mark_dead_def mark_dead_def
    sql_clear_status_def clear_status_def
  by (simp_all add: sql_set_status_refines texts_ok_def time_text_ok_def)

lemma cooldown_inv: "sql_inv T J s \<Longrightarrow> sql_inv T J (snd (sql_mark_cooldown T p l until s))"
  unfolding sql_mark_cooldown_def by (rule sql_refines_inv [OF sql_set_status_refines [OF _ refl]])

lemma reach_sql_inv: "sql_reach T J B s \<Longrightarrow> texts_ok T J \<Longrightarrow> sql_inv T J s"
proof (induction rule: sql_reach.induct)
  case (sq_new scan faults k)
  then show ?case by (simp add: sql_inv_def sql_rows_inv_def db_new_def rows_inv_def defaults_def)
next
  case (sq_add s row_id key_id a now)
  then show ?case by (intro sql_refines_inv [OF sql_add_refines]) auto
qed (blast intro: sql_refines_inv [OF sql_remove_refines] sql_refines_inv [OF sql_set_default_refines]
    sql_status_refines(2,3) [THEN sql_refines_inv] cooldown_inv sql_list_reads [THEN sql_reads_inv]
    sql_list_for_provider_reads [THEN sql_reads_inv] sql_get_default_reads [THEN sql_reads_inv]
    sql_load_key_reads [THEN sql_reads_inv] sql_resolve_reads [THEN sql_reads_inv])+

text \<open>C31: the SQLite store refines the in-memory store, whatever calls to the database fail: after any
  operations each write leaves the rows as they were or as the in-memory store would have them, a reported
  success is exactly the success of the in-memory store, and while the database answers the two stores
  agree on results, rows and keyring (with instants cut to whole seconds; they are in the years that RFC 3339 has).\<close>

theorem sql_store_refines:
  assumes "sql_reach T J B s" "texts_ok T J" "text_time now" "text_time until"
    and "row_id \<notin> ar_id ` set (db_rows (sq_db s))" "key_id \<notin> ar_key_id ` set (db_rows (sq_db s))"
  shows "sql_refines T J s (sql_add T J B a key_id row_id now s) (add B a key_id row_id (whole_secs now) (sql_abs T J s)) \<and>
    sql_refines T J s (sql_remove B p l s) (remove_account B p l (sql_abs T J s)) \<and>
    sql_refines T J s (sql_set_default p l s) (set_default p l (sql_abs T J s)) \<and>
    sql_refines T J s (sql_mark_cooldown T p l until s) (mark_cooldown p l (whole_secs until) (sql_abs T J s)) \<and>
    sql_refines T J s (sql_mark_dead p l s) (mark_dead p l (sql_abs T J s)) \<and>
    sql_refines T J s (sql_clear_status p l s) (clear_status p l (sql_abs T J s))"
  using reach_sql_inv [OF assms(1,2)] assms
  by (intro conjI sql_add_refines sql_remove_refines sql_set_default_refines sql_status_refines)

text \<open>Reading the SQLite store is reading the in-memory store: the answer does not depend on the order in
  which the engine visits the rows, and a failed read changes nothing.\<close>

theorem sql_store_reads:
  assumes "sql_reach T J B s" "texts_ok T J"
  shows "sql_reads T J s (sql_list T J s) (Ok (list_accounts (sql_abs T J s))) \<and>
    sql_reads T J s (sql_list_for_provider T J p s) (Ok (list_for_provider p (sql_abs T J s))) \<and>
    sql_reads T J s (sql_get_default T J p s) (Ok (get_default p (sql_abs T J s))) \<and>
    sql_reads T J s (sql_load_key T J B p l s) (load_key B p l (sql_abs T J s)) \<and>
    sql_reads T J s (sql_resolve T J B now p s) (resolve B now p (sql_abs T J s))"
  using reach_sql_inv [OF assms]
  by (intro conjI sql_list_reads sql_list_for_provider_reads sql_get_default_reads sql_load_key_reads sql_resolve_reads)

text \<open>A key that was stored stays in the keyring when no connection can be had for the insertion.\<close>

lemma sql_add_leaks_key:
  assumes "validate_new a = Ok ()" "resolve_endpoint a = Ok ep"
    and "kr_store B key_id (na_api_key a) (sq_keyring s) = (Ok (), k1)" "db_faults (sq_db s) = Some e # fs"
  shows "sql_add T J B a key_id row_id now s =
    (Err (CState e), \<lparr> sq_db = (sq_db s)\<lparr> db_faults := fs \<rparr>, sq_keyring = k1 \<rparr>)"
  using assms by (simp add: sql_add_def db_try_def db_call_def)

definition demo_clock :: time_text where
  "demo_clock =
    \<lparr> tt_show = (\<lambda>t. (if t < 0 then CHR ''-'' else CHR ''+'') # replicate (nat \<bar>t div 1000000000\<bar>) (CHR ''s'')),
      tt_parse = (\<lambda>s. case s of [] \<Rightarrow> None
        | c # r \<Rightarrow> Some (1000000000 * (if c = CHR ''-'' then - int (length r) else int (length r)))) \<rparr>"

definition demo_objects :: json_text where
  "demo_objects = \<lparr> jt_print = (\<lambda>_. ''{}''), jt_parse = (\<lambda>s. if s = ''{}'' then Some (JObj []) else None) \<rparr>"

lemma demo_texts_ok: "texts_ok demo_clock demo_objects"
proof -
  have "t - t mod 1000000000 = 1000000000 * (t div 1000000000)" for t :: int
    by (metis add_diff_cancel_right' mult.commute div_mult_mod_eq)
  moreover have "t < 0 \<Longrightarrow> t div 1000000000 < 0" "0 \<le> t \<Longrightarrow> 0 \<le> t div 1000000000" for t :: int
    by (simp_all add: pos_imp_zdiv_neg_iff pos_imp_zdiv_nonneg_iff)
  ultimately show ?thesis
    by (auto simp: texts_ok_def time_text_ok_def demo_clock_def demo_objects_def whole_secs_def)
qed

definition demo_sql :: "file_keyring sql_store" where
  "demo_sql = \<lparr> sq_db = db_new rev [], sq_keyring = cs_backend demo_store \<rparr>"

definition demo_sql1 :: "file_keyring sql_store" where
  "demo_sql1 = snd (sql_add demo_clock demo_objects (file_backend demo_enc) demo_account ''k1'' ''r1'' 0 demo_sql)"

lemma demo_sql_reach:
  "sql_reach demo_clock demo_objects (file_backend demo_enc) demo_sql"
  "sql_reach demo_clock demo_objects (file_backend demo_enc) demo_sql1"
proof -
  show r: "sql_reach demo_clock demo_objects (file_backend demo_enc) demo_sql"
    unfolding demo_sql_def by (rule sq_new) (simp add: db_ok_def db_new_def)
  show "sql_reach demo_clock demo_objects (file_backend demo_enc) demo_sql1"
    unfolding demo_sql1_def by (rule sq_add [OF r]) (simp_all add: demo_sql_def db_new_def text_time_def)
qed

lemma sql_store_refines_witness:
  "sql_refines demo_clock demo_objects demo_sql
     (sql_add demo_clock demo_objects (file_backend demo_enc) demo_account ''k1'' ''r1'' 0 demo_sql)
     (add (file_backend demo_enc) demo_account ''k1'' ''r1'' 0 (sql_abs demo_clock demo_objects demo_sql))"
  using sql_store_refines [OF demo_sql_reach(1) demo_texts_ok, of 0 0 "''r1''" "''k1''" demo_account]
  by (simp add: demo_sql_def db_new_def whole_secs_def text_time_def)

lemma demo_sql1_reliable: "reliable (sq_db demo_sql1)" "db_rows (sq_db demo_sql1) \<noteq> []"
  by (code_simp, code_simp)

lemma sql_store_reads_witness:
  "fst (sql_list demo_clock demo_objects demo_sql1) = Ok (list_accounts (sql_abs demo_clock demo_objects demo_sql1)) \<and>
   list_accounts (sql_abs demo_clock demo_objects demo_sql1) \<noteq> []"
proof
  have "length (list_accounts (sql_abs demo_clock demo_objects demo_sql1)) = length (db_rows (sq_db demo_sql1))"
    by (simp add: list_accounts_def)
  with demo_sql1_reliable(2) show "list_accounts (sql_abs demo_clock demo_objects demo_sql1) \<noteq> []" by auto
  obtain out s' where l: "sql_list demo_clock demo_objects demo_sql1 = (out, s')" by force
  have "sql_reads demo_clock demo_objects demo_sql1 (out, s') (Ok (list_accounts (sql_abs demo_clock demo_objects demo_sql1)))"
    using sql_store_reads [OF demo_sql_reach(2) demo_texts_ok, THEN conjunct1] unfolding l .
  then show "fst (sql_list demo_clock demo_objects demo_sql1) = Ok (list_accounts (sql_abs demo_clock demo_objects demo_sql1))"
    unfolding l sql_reads_def prod.case fst_conv using demo_sql1_reliable(1) by blast
qed

end
