(* ===== verification/MockProvider.thy ===== *)
theory MockProvider
  imports Wire
begin

text \<open>
  The scripted provider (\<^verbatim>\<open>provider/src/mock.rs\<close>), which the tests and the offline mode of the program run
  against. Its two fields behind a mutex are fields of its state; a sink is any function, as in \<open>Wire\<close>.
\<close>

datatype mock_script =
    MockText string "string list" usage
  | MockEvents "stream_event list"
  | MockFail provider_error

definition script_from_text :: "string \<Rightarrow> string \<Rightarrow> mock_script" where
  "script_from_text model t =
    (let chunks = (if t = [] then [] else map (\<lambda>w. w @ '' '') (split_whitespace t))
     in MockText model chunks \<lparr> input_tokens = 1, output_tokens = of_nat (length chunks) \<rparr>)"

record mock_provider =
  mk_name :: string
  mk_supports_tools :: bool
  mk_response :: llm_response
  mk_script :: mock_script

definition mock_new :: "string \<Rightarrow> llm_response \<Rightarrow> mock_provider" where
  "mock_new name r =
    \<lparr> mk_name = name, mk_supports_tools = True, mk_response = r,
      mk_script = script_from_text (rs_model r) (as_text (rs_content r)) \<rparr>"

definition mock_text :: "string \<Rightarrow> string \<Rightarrow> string \<Rightarrow> mock_provider" where
  "mock_text name model t = mock_new name (llm_response_text model t)"

definition mock_default :: mock_provider where
  "mock_default = mock_text ''mock'' ''mock-model'' ''ok''"

definition mock_with_tools :: "bool \<Rightarrow> mock_provider \<Rightarrow> mock_provider" where
  "mock_with_tools b m = m\<lparr> mk_supports_tools := b \<rparr>"

definition set_complete_response :: "llm_response \<Rightarrow> mock_provider \<Rightarrow> mock_provider" where
  "set_complete_response r m = m\<lparr> mk_response := r \<rparr>"

definition set_stream_script :: "mock_script \<Rightarrow> mock_provider \<Rightarrow> mock_provider" where
  "set_stream_script s m = m\<lparr> mk_script := s \<rparr>"

definition refuses_tools :: "mock_provider \<Rightarrow> llm_request \<Rightarrow> bool" where
  "refuses_tools m req \<longleftrightarrow> has_tools req \<and> \<not> mk_supports_tools m"

definition mock_complete :: "mock_provider \<Rightarrow> llm_request \<Rightarrow> (llm_response, provider_error) result" where
  "mock_complete m req =
    (if refuses_tools m req then Err (PToolUnsupported (mk_name m)) else Ok (mk_response m))"

text \<open>Sending events until the sink refuses one.\<close>

fun send_all :: "'k sink \<Rightarrow> stream_event list \<Rightarrow> 'k \<Rightarrow> (unit, provider_error) result \<times> 'k" where
  "send_all send [] k = (Ok (), k)"
| "send_all send (e # es) k = send_then send e (send_all send es) k"

definition final_text :: "string \<Rightarrow> string list \<Rightarrow> usage \<Rightarrow> llm_response" where
  "final_text model chunks u =
    \<lparr> rs_content = Text (trim (concat chunks)), rs_stop_reason = Stop, rs_tool_calls = [],
      rs_usage = u, rs_model = model \<rparr>"

definition mock_stream ::
    "mock_provider \<Rightarrow> llm_request \<Rightarrow> 'k sink \<Rightarrow> 'k \<Rightarrow> (unit, provider_error) result \<times> 'k" where
  "mock_stream m req send k =
    (if refuses_tools m req then (Err (PToolUnsupported (mk_name m)), k)
     else case mk_script m of
       MockFail e \<Rightarrow> send_all send [StreamError e] k
     | MockEvents es \<Rightarrow> send_all send es k
     | MockText model chunks u \<Rightarrow>
         send_all send ([MessageStart (llm_response_text model [])] @ map ContentDelta chunks @
           [MessageStop (final_text model chunks u)]) k)"

definition capture_stream ::
    "(llm_request \<Rightarrow> capturing_sink sink \<Rightarrow> capturing_sink \<Rightarrow> (unit, provider_error) result \<times> capturing_sink) \<Rightarrow>
     llm_request \<Rightarrow> (string \<times> llm_response option, provider_error) result" where
  "capture_stream stream req =
    (case stream req (\<lambda>e k. (Ok (), sink_send e k)) sink_new of
       (Err e, _) \<Rightarrow> Err e
     | (Ok _, s) \<Rightarrow> Ok (sk_text s, sk_final_response s))"

lemma send_all_log: "send_all (log_sink (\<lambda>_. Ok ())) es log = (Ok (), log @ es)"
  by (induction es arbitrary: log) (simp_all add: send_then_def log_sink_def)

subsection \<open>What the mock streams\<close>

lemma send_all_capture: "send_all (\<lambda>e k. (Ok (), sink_send e k)) es s = (Ok (), sink_run es s)"
  by (induction es arbitrary: s) (simp_all add: send_then_def sink_run_def)

lemma sink_run_deltas:
  "sk_text (sink_run (map ContentDelta ts) s) = sk_text s @ concat ts"
  by (induction ts arbitrary: s) (simp_all add: sink_run_def)

lemma sink_run_Cons: "sink_run (e # es) s = sink_run es (sink_send e s)"
  by (simp add: sink_run_def)

lemma sink_run_Nil: "sink_run [] s = s"
  by (simp add: sink_run_def)

lemma capture_text:
  "sk_text (sink_run (MessageStart m # map ContentDelta ts @ [MessageStop r]) sink_new) = concat ts"
  "sk_final_response (sink_run (MessageStart m # map ContentDelta ts @ [MessageStop r]) sink_new) = Some r"
proof -
  have a: "sink_run (xs @ ys) s = sink_run ys (sink_run xs s)" for xs ys s by (simp add: sink_run_def)
  show "sk_text (sink_run (MessageStart m # map ContentDelta ts @ [MessageStop r]) sink_new) = concat ts"
    "sk_final_response (sink_run (MessageStart m # map ContentDelta ts @ [MessageStop r]) sink_new) = Some r"
    by (simp_all add: sink_run_Cons sink_run_Nil a sink_run_deltas sink_new_def)
qed

text \<open>Words with a space after each of them, trimmed, are the words with single spaces between them.\<close>

lemma trim_final_space:
  assumes "s \<noteq> []" "\<not> is_ws (hd (chars s))" "\<not> is_ws (last (chars s))"
  shows "trim (s @ '' '') = s"
proof -
  have c: "chars (s @ '' '') = chars s @ ['' '']" using chars_append [of "'' ''" s] by (simp add: chars_ascii ascii_def byte_def)
  obtain x xs where x: "chars s = x # xs" using assms(1) by (cases "chars s") auto
  have "dropWhile is_ws (chars s @ ['' '']) = chars s @ ['' '']" using x assms(2) by simp
  moreover have "dropWhile is_ws (rev (chars s)) = rev (chars s)"
    using assms(1,3) by (cases "rev (chars s)") (auto simp: hd_rev [symmetric])
  ultimately show ?thesis by (simp add: trim_def c)
qed

lemma join_words:
  "\<forall>w \<in> set ws. token w \<Longrightarrow> ws \<noteq> [] \<Longrightarrow>
    concat (map (\<lambda>w. w @ '' '') ws) = join '' '' ws @ '' '' \<and> join '' '' ws \<noteq> [] \<and>
    \<not> is_cont (hd (join '' '' ws)) \<and> \<not> is_ws (hd (chars (join '' '' ws))) \<and> \<not> is_ws (last (chars (join '' '' ws)))"
proof (induction ws)
  case (Cons w ws)
  have w: "w \<noteq> []" "\<not> is_cont (hd w)" "\<not> is_ws (hd (chars w))" "\<not> is_ws (last (chars w))"
    using Cons.prems(1) by (auto simp: token_def)
  show ?case
  proof (cases "ws = []")
    case False
    let ?j = "join '' '' ws"
    have ih: "concat (map (\<lambda>w. w @ '' '') ws) = ?j @ '' ''" "?j \<noteq> []" "\<not> is_cont (hd ?j)"
      "\<not> is_ws (last (chars ?j))" using Cons.IH False Cons.prems(1) by auto
    have c: "chars (w @ '' '' @ ?j) = chars w @ chars ('' '' @ ?j)" by (rule chars_append) simp
    have d: "chars ((w @ '' '') @ ?j) = chars (w @ '' '') @ chars ?j" by (rule chars_append) (use ih(3) in simp)
    have j: "join '' '' (w # ws) = w @ '' '' @ ?j" using False by (simp add: join_Cons)
    have "\<not> is_ws (hd (chars (join '' '' (w # ws))))" unfolding j c using w by simp
    moreover have "\<not> is_ws (last (chars (join '' '' (w # ws))))"
      unfolding j using d ih(2,4) by (simp del: chars.simps)
    ultimately show ?thesis using w ih(1) j by simp
  qed (use w in simp)
qed simp

text \<open>What the mock streams for a text: its words, a space after each, and a final response with the
  words joined by single spaces and as many output tokens as words, whereas \<^verbatim>\<open>complete\<close> returns the text as it is.\<close>

theorem mock_stream_text:
  assumes "\<not> has_tools req" "t = [] \<or> \<not> is_cont (hd t)"
  defines "ws \<equiv> split_whitespace t"
  shows "capture_stream (mock_stream (mock_text name model t)) req =
      Ok (concat (map (\<lambda>w. w @ '' '') ws),
        Some (llm_response_text model (join '' '' ws)
          \<lparr> rs_usage := \<lparr> input_tokens = 1, output_tokens = of_nat (length ws) \<rparr> \<rparr>)) \<and>
    mock_complete (mock_text name model t) req = Ok (llm_response_text model t)"
proof -
  have tok: "\<forall>w \<in> set ws. token w"
    unfolding ws_def split_whitespace_def by (rule split_ws_chars_tokens [OF chars_code_points_all [OF assms(2)]])
  have trim: "trim (concat (map (\<lambda>w. w @ '' '') ws)) = join '' '' ws"
  proof (cases "ws = []")
    case False
    from join_words [OF tok False] show ?thesis by (simp add: trim_final_space)
  qed simp
  have nil: "t = [] \<Longrightarrow> ws = []" by (simp add: ws_def split_whitespace_def split_ws_chars_stop)
  then have script: "script_from_text model t =
      MockText model (map (\<lambda>w. w @ '' '') ws) \<lparr> input_tokens = 1, output_tokens = of_nat (length ws) \<rparr>"
    by (simp add: script_from_text_def Let_def ws_def)
  have run: "mock_stream (mock_text name model t) req (\<lambda>e k. (Ok (), sink_send e k)) sink_new =
      (Ok (), sink_run ([MessageStart (llm_response_text model [])] @ map ContentDelta (map (\<lambda>w. w @ '' '') ws) @
        [MessageStop (final_text model (map (\<lambda>w. w @ '' '') ws) \<lparr> input_tokens = 1, output_tokens = of_nat (length ws) \<rparr>)]) sink_new)"
    using assms(1) by (simp add: mock_stream_def refuses_tools_def mock_text_def mock_new_def llm_response_text_def
        script [unfolded llm_response_text_def] send_all_capture)
  show ?thesis
    using assms(1) unfolding capture_stream_def run
    by (simp add: capture_text final_text_def trim llm_response_text_def mock_complete_def refuses_tools_def
        mock_text_def mock_new_def del: map_map)
qed

lemma mock_stream_text_witness:
  "capture_stream (mock_stream (mock_text ''mock'' ''m'' '' two  words'')) (single_user ''m'' ''p'') =
     Ok (''two words '', Some (llm_response_text ''m'' ''two words'' \<lparr> rs_usage := \<lparr> input_tokens = 1, output_tokens = 2 \<rparr> \<rparr>))"
proof -
  have "split_whitespace '' two  words'' = [''two'', ''words'']" by code_simp
  then show ?thesis
    using mock_stream_text [of "single_user ''m'' ''p''" "'' two  words''" "''mock''" "''m''"]
    by (simp add: single_user_def has_tools_def is_cont_def byte_def)
qed

end
