(* ===== verification/VectorIndex.thy ===== *)
theory VectorIndex
  imports Json Selection "HOL-Library.AList"
begin

text \<open>
  The in-memory vector store (\<^verbatim>\<open>vector-index/src/memory.rs\<close>, \<^verbatim>\<open>types.rs\<close>, \<^verbatim>\<open>error.rs\<close>). A 32-bit float is
  its bit pattern and the arithmetic of the processor is a parameter; the \<^verbatim>\<open>HashMap\<close> is an association
  list that a query visits in an order of its own, another parameter. The lock serialises the operations.
\<close>

subsection \<open>Types\<close>

datatype ordering = OrdLess | OrdEqual | OrdGreater

record f32_ops =
  fo_sum_zero :: u32
  fo_mul :: "u32 \<Rightarrow> u32 \<Rightarrow> u32"
  fo_add :: "u32 \<Rightarrow> u32 \<Rightarrow> u32"
  fo_div :: "u32 \<Rightarrow> u32 \<Rightarrow> u32"
  fo_sqrt :: "u32 \<Rightarrow> u32"
  fo_cmp :: "u32 \<Rightarrow> u32 \<Rightarrow> ordering option"

record vector_record =
  vr_id :: string
  vr_vector :: "u32 list"
  vr_metadata :: json

record vector_query =
  vq_vector :: "u32 list"
  vq_limit :: nat

record vector_hit =
  vh_id :: string
  vh_score :: u32
  vh_metadata :: json

datatype vector_error =
    VeDimensionMismatch nat nat
  | VeInvalidId string
  | VeBackend string
  | VeMetadataSerde string

record vector_store =
  vs_dim :: nat
  vs_inner :: "(string \<times> u32 list \<times> json) list"

subsection \<open>Operations\<close>

definition vector_store_new :: "nat \<Rightarrow> vector_store" where
  "vector_store_new dim = \<lparr> vs_dim = dim, vs_inner = [] \<rparr>"

definition vector_upsert :: "vector_record \<Rightarrow> vector_store \<Rightarrow> (unit, vector_error) result \<times> vector_store" where
  "vector_upsert r s =
    (if trim (vr_id r) = [] then (Err (VeInvalidId ''empty id''), s)
     else if length (vr_vector r) \<noteq> vs_dim s then
       (Err (VeDimensionMismatch (vs_dim s) (length (vr_vector r))), s)
     else (Ok (), s\<lparr> vs_inner := AList.update (vr_id r) (vr_vector r, vr_metadata r) (vs_inner s) \<rparr>))"

text \<open>\<^verbatim>\<open>sum\<close> adds from the left, from the zero of the library (the positive or the negative one, by its version).\<close>

definition f32_sum :: "f32_ops \<Rightarrow> u32 list \<Rightarrow> u32" where
  "f32_sum F xs = foldl (fo_add F) (fo_sum_zero F) xs"

definition f32_is_zero :: "f32_ops \<Rightarrow> u32 \<Rightarrow> bool" where
  "f32_is_zero F x \<longleftrightarrow> fo_cmp F x 0 = Some OrdEqual"

definition cosine :: "f32_ops \<Rightarrow> u32 list \<Rightarrow> u32 list \<Rightarrow> u32" where
  "cosine F a b =
    (if a = [] \<or> b = [] \<or> length a \<noteq> length b then 0
     else
       let dot = f32_sum F (map (\<lambda>(x, y). fo_mul F x y) (zip a b));
           norm_a = fo_sqrt F (f32_sum F (map (\<lambda>x. fo_mul F x x) a));
           norm_b = fo_sqrt F (f32_sum F (map (\<lambda>x. fo_mul F x x) b))
       in if f32_is_zero F norm_a \<or> f32_is_zero F norm_b then 0
          else fo_div F dot (fo_mul F norm_a norm_b))"

text \<open>\<^verbatim>\<open>sort_by\<close>: the stable sort by a comparison (which has to be a total order).\<close>

definition cmp_gt :: "('a \<Rightarrow> 'a \<Rightarrow> ordering) \<Rightarrow> 'a \<Rightarrow> 'a \<Rightarrow> bool" where
  "cmp_gt cmp a b \<longleftrightarrow> cmp a b = OrdGreater"

fun insert_by :: "('a \<Rightarrow> 'a \<Rightarrow> ordering) \<Rightarrow> 'a \<Rightarrow> 'a list \<Rightarrow> 'a list" where
  "insert_by cmp x [] = [x]"
| "insert_by cmp x (y # ys) = (if cmp_gt cmp x y then y # insert_by cmp x ys else x # y # ys)"

definition sort_by :: "('a \<Rightarrow> 'a \<Rightarrow> ordering) \<Rightarrow> 'a list \<Rightarrow> 'a list" where
  "sort_by cmp xs = foldr (insert_by cmp) xs []"

definition score_cmp :: "f32_ops \<Rightarrow> vector_hit \<Rightarrow> vector_hit \<Rightarrow> ordering" where
  "score_cmp F a b = unwrap_or (fo_cmp F (vh_score b) (vh_score a)) OrdEqual"

definition vector_hits ::
    "f32_ops \<Rightarrow> u32 list \<Rightarrow> (string \<times> u32 list \<times> json) list \<Rightarrow> vector_hit list" where
  "vector_hits F q items =
    map (\<lambda>(i, v, m). \<lparr> vh_id = i, vh_score = cosine F q v, vh_metadata = m \<rparr>) items"

definition vector_search ::
    "f32_ops \<Rightarrow> ((string \<times> u32 list \<times> json) list \<Rightarrow> (string \<times> u32 list \<times> json) list) \<Rightarrow> vector_query \<Rightarrow>
     vector_store \<Rightarrow> (vector_hit list, vector_error) result" where
  "vector_search F order q s =
    (if length (vq_vector q) \<noteq> vs_dim s then
       Err (VeDimensionMismatch (vs_dim s) (length (vq_vector q)))
     else Ok (take (max (vq_limit q) 1)
       (sort_by (score_cmp F) (vector_hits F (vq_vector q) (order (vs_inner s))))))"

definition vector_delete :: "string \<Rightarrow> vector_store \<Rightarrow> (bool, vector_error) result \<times> vector_store" where
  "vector_delete i s =
    (if trim i = [] then (Err (VeInvalidId ''empty id''), s)
     else (Ok (map_of (vs_inner s) i \<noteq> None), s\<lparr> vs_inner := AList.delete i (vs_inner s) \<rparr>))"

subsection \<open>Sorting by a comparison\<close>

lemma mset_insert_by [simp]: "mset (insert_by cmp x ys) = add_mset x (mset ys)"
  by (induction ys) auto

lemma mset_sort_by [simp]: "mset (sort_by cmp xs) = mset xs"
  unfolding sort_by_def by (induction xs) auto

lemma set_sort_by [simp]: "set (sort_by cmp xs) = set xs"
  by (rule mset_eq_setD) simp

lemma set_insert_by [simp]: "set (insert_by cmp x ys) = insert x (set ys)"
  by (induction ys) auto

text \<open>The comparison is a total preorder on the elements.\<close>

definition cmp_total :: "('a \<Rightarrow> 'a \<Rightarrow> ordering) \<Rightarrow> 'a set \<Rightarrow> bool" where
  "cmp_total cmp A \<longleftrightarrow>
    (\<forall>a \<in> A. \<forall>b \<in> A. cmp_gt cmp a b \<longrightarrow> \<not> cmp_gt cmp b a) \<and>
    (\<forall>a \<in> A. \<forall>b \<in> A. \<forall>c \<in> A. \<not> cmp_gt cmp a b \<longrightarrow> \<not> cmp_gt cmp b c \<longrightarrow> \<not> cmp_gt cmp a c)"

lemma cmp_total_subset: "cmp_total cmp A \<Longrightarrow> B \<subseteq> A \<Longrightarrow> cmp_total cmp B"
  unfolding cmp_total_def subset_iff by blast

lemma cmp_total_asym: "cmp_total cmp A \<Longrightarrow> a \<in> A \<Longrightarrow> b \<in> A \<Longrightarrow> cmp_gt cmp a b \<Longrightarrow> \<not> cmp_gt cmp b a"
  unfolding cmp_total_def by blast

lemma cmp_total_trans:
  "cmp_total cmp A \<Longrightarrow> a \<in> A \<Longrightarrow> b \<in> A \<Longrightarrow> c \<in> A \<Longrightarrow> \<not> cmp_gt cmp a b \<Longrightarrow> \<not> cmp_gt cmp b c \<Longrightarrow> \<not> cmp_gt cmp a c"
  unfolding cmp_total_def by blast

lemma sorted_insert_by:
  "cmp_total cmp (insert x (set ys)) \<Longrightarrow> sorted_wrt (\<lambda>a b. \<not> cmp_gt cmp a b) ys \<Longrightarrow>
    sorted_wrt (\<lambda>a b. \<not> cmp_gt cmp a b) (insert_by cmp x ys)"
proof (induction ys)
  case (Cons y ys)
  have sub: "cmp_total cmp (insert x (set ys))" by (rule cmp_total_subset [OF Cons.prems(1)]) auto
  show ?case
  proof (cases "cmp_gt cmp x y")
    case True
    then have "\<not> cmp_gt cmp y x" by (intro cmp_total_asym [OF Cons.prems(1)]) simp_all
    with True Cons.prems(2) Cons.IH [OF sub] show ?thesis by simp
  next
    case False
    have "\<not> cmp_gt cmp x z" if "z \<in> set ys" for z
      by (rule cmp_total_trans [OF Cons.prems(1), of x y z]) (use that False Cons.prems(2) in simp_all)
    with False Cons.prems show ?thesis by simp
  qed
qed simp

lemma sorted_sort_by: "cmp_total cmp (set xs) \<Longrightarrow> sorted_wrt (\<lambda>a b. \<not> cmp_gt cmp a b) (sort_by cmp xs)"
proof (induction xs)
  case (Cons x xs)
  have "cmp_total cmp (set xs)" by (rule cmp_total_subset [OF Cons.prems]) auto
  with Cons.IH have "sorted_wrt (\<lambda>a b. \<not> cmp_gt cmp a b) (sort_by cmp xs)" .
  moreover have "cmp_total cmp (insert x (set (sort_by cmp xs)))" using Cons.prems by simp
  ultimately have "sorted_wrt (\<lambda>a b. \<not> cmp_gt cmp a b) (insert_by cmp x (sort_by cmp xs))" by (intro sorted_insert_by)
  then show ?case by (simp add: sort_by_def)
qed (simp add: sort_by_def)

subsection \<open>The store as a map\<close>

definition vector_inv :: "vector_store \<Rightarrow> bool" where
  "vector_inv s \<longleftrightarrow> distinct (map fst (vs_inner s)) \<and>
    (\<forall>(i, v, m) \<in> set (vs_inner s). trim i \<noteq> [] \<and> length v = vs_dim s)"

inductive vector_reach :: "nat \<Rightarrow> vector_store \<Rightarrow> bool" for dim where
  vr_new: "vector_reach dim (vector_store_new dim)"
| vr_upsert: "vector_reach dim s \<Longrightarrow> vector_reach dim (snd (vector_upsert r s))"
| vr_delete: "vector_reach dim s \<Longrightarrow> vector_reach dim (snd (vector_delete i s))"

lemma set_update_subset: "x \<in> set (AList.update k v xs) \<Longrightarrow> x = (k, v) \<or> x \<in> set xs"
  by (induction xs) (auto split: if_splits)

lemma vector_inv_upsert:
  assumes "vector_inv s"
  shows "vector_inv (snd (vector_upsert r s))"
proof -
  have "vector_inv (s\<lparr> vs_inner := AList.update (vr_id r) (vr_vector r, vr_metadata r) (vs_inner s) \<rparr>)"
    if "trim (vr_id r) \<noteq> []" "length (vr_vector r) = vs_dim s"
    using assms that unfolding vector_inv_def
    by (auto simp: distinct_update dest!: set_update_subset)
  then show ?thesis using assms by (auto simp: vector_upsert_def)
qed

lemma vector_reach_inv: "vector_reach dim s \<Longrightarrow> vector_inv s \<and> vs_dim s = dim"
proof (induction rule: vector_reach.induct)
  case vr_new
  then show ?case by (simp add: vector_store_new_def vector_inv_def)
next
  case (vr_upsert s r)
  then show ?case using vector_inv_upsert [of s r] by (auto simp: vector_upsert_def)
next
  case (vr_delete s i)
  then show ?case
    by (auto simp: vector_delete_def vector_inv_def AList.delete_eq intro!: distinct_map_filter)
qed

subsection \<open>What a search promises\<close>

text \<open>The cosine of two vectors of \<open>n\<close> components, component by component: it is 0 when a norm is 0.\<close>

definition dot_product :: "f32_ops \<Rightarrow> nat \<Rightarrow> u32 list \<Rightarrow> u32 list \<Rightarrow> u32" where
  "dot_product F n a b = foldl (\<lambda>sum i. fo_add F sum (fo_mul F (a ! i) (b ! i))) (fo_sum_zero F) [0..<n]"

definition similarity :: "f32_ops \<Rightarrow> nat \<Rightarrow> u32 list \<Rightarrow> u32 list \<Rightarrow> u32" where
  "similarity F n a b =
    (let na = fo_sqrt F (dot_product F n a a); nb = fo_sqrt F (dot_product F n b b)
     in if n = 0 \<or> fo_cmp F na 0 = Some OrdEqual \<or> fo_cmp F nb 0 = Some OrdEqual then 0
        else fo_div F (dot_product F n a b) (fo_mul F na nb))"

lemma f32_sum_dot: "length a = n \<Longrightarrow> length b = n \<Longrightarrow> f32_sum F (map (\<lambda>(x, y). fo_mul F x y) (zip a b)) = dot_product F n a b"
proof -
  assume "length a = n" "length b = n"
  then have "map (\<lambda>(x, y). fo_mul F x y) (zip a b) = map (\<lambda>i. fo_mul F (a ! i) (b ! i)) [0..<n]"
    by (intro nth_equalityI) simp_all
  then show ?thesis by (simp add: f32_sum_def dot_product_def foldl_map)
qed

lemma f32_sum_squares: "length a = n \<Longrightarrow> f32_sum F (map (\<lambda>x. fo_mul F x x) a) = dot_product F n a a"
proof -
  assume "length a = n"
  then have "map (\<lambda>x. fo_mul F x x) a = map (\<lambda>i. fo_mul F (a ! i) (a ! i)) [0..<n]"
    by (intro nth_equalityI) simp_all
  then show ?thesis by (simp add: f32_sum_def dot_product_def foldl_map)
qed

lemma cosine_similarity: "length a = n \<Longrightarrow> length b = n \<Longrightarrow> cosine F a b = similarity F n a b"
  by (auto simp: cosine_def similarity_def f32_sum_dot f32_sum_squares f32_is_zero_def Let_def)

text \<open>No score is NaN: the comparison of the processor is that of the numbers, which
  \<open>val\<close> puts on a line (there are finitely many of 32 bits, so integers suffice).\<close>

definition compares :: "f32_ops \<Rightarrow> (u32 \<Rightarrow> int) \<Rightarrow> u32 set \<Rightarrow> bool" where
  "compares F val A \<longleftrightarrow> (\<forall>x \<in> A. \<forall>y \<in> A. fo_cmp F x y =
    Some (if val x < val y then OrdLess else if val x = val y then OrdEqual else OrdGreater))"

lemma compares_subset: "compares F val B \<Longrightarrow> A \<subseteq> B \<Longrightarrow> compares F val A"
  unfolding compares_def by blast

lemma compares_gt:
  "compares F val (vh_score ` H) \<Longrightarrow> a \<in> H \<Longrightarrow> b \<in> H \<Longrightarrow>
    cmp_gt (score_cmp F) a b \<longleftrightarrow> val (vh_score a) < val (vh_score b)"
  by (auto simp: compares_def cmp_gt_def score_cmp_def unwrap_or_def)

lemma compares_total: "compares F val (vh_score ` H) \<Longrightarrow> cmp_total (score_cmp F) H"
  unfolding cmp_total_def by (auto simp: compares_gt)

lemma vector_hits_of:
  assumes "vector_inv s" "length q = vs_dim s"
  shows "h \<in> set (vector_hits F q (vs_inner s)) \<longleftrightarrow> (\<exists>v. map_of (vs_inner s) (vh_id h) = Some (v, vh_metadata h) \<and>
    vh_score h = similarity F (vs_dim s) q v)"
proof -
  have c: "cosine F q v = similarity F (vs_dim s) q v" if "(i, v, m) \<in> set (vs_inner s)" for i v m
    using that assms by (auto simp: vector_inv_def intro: cosine_similarity)
  have m: "(i, x) \<in> set (vs_inner s) \<longleftrightarrow> map_of (vs_inner s) i = Some x" for i x
    using assms(1) by (simp add: vector_inv_def)
  have "h \<in> set (vector_hits F q (vs_inner s)) \<longleftrightarrow> (\<exists>i v m. (i, v, m) \<in> set (vs_inner s) \<and>
      h = \<lparr> vh_id = i, vh_score = similarity F (vs_dim s) q v, vh_metadata = m \<rparr>)"
    using c by (force simp: vector_hits_def)
  then show ?thesis by (cases h) (auto simp: m)
qed

lemma vector_hits_ids: "map vh_id (vector_hits F q items) = map fst items"
  by (simp add: vector_hits_def comp_def split_beta)

lemma vector_search_best:
  assumes "vector_inv s" "length (vq_vector q) = vs_dim s" "\<And>xs. mset (order xs) = mset xs"
    and "compares F val (similarity F (vs_dim s) (vq_vector q) ` {v. \<exists>i m. map_of (vs_inner s) i = Some (v, m)})"
  shows "\<exists>hits. vector_search F order q s = Ok hits \<and>
    length hits = min (max (vq_limit q) 1) (card (dom (map_of (vs_inner s)))) \<and> distinct (map vh_id hits) \<and>
    (\<forall>h \<in> set hits. \<exists>v. map_of (vs_inner s) (vh_id h) = Some (v, vh_metadata h) \<and>
      vh_score h = similarity F (vs_dim s) (vq_vector q) v) \<and>
    sorted_wrt (\<lambda>h h'. val (vh_score h') \<le> val (vh_score h)) hits \<and>
    (\<forall>i v m. map_of (vs_inner s) i = Some (v, m) \<and> i \<notin> vh_id ` set hits \<longrightarrow>
      (\<forall>h \<in> set hits. val (similarity F (vs_dim s) (vq_vector q) v) \<le> val (vh_score h)))"
proof -
  let ?all = "vector_hits F (vq_vector q) (vs_inner s)" let ?vis = "vector_hits F (vq_vector q) (order (vs_inner s))"
  let ?hits = "take (max (vq_limit q) 1) (sort_by (score_cmp F) ?vis)"
  note hit = vector_hits_of [OF assms(1,2), of _ F]
  have m: "mset ?vis = mset ?all" using assms(3) [of "vs_inner s"] by (simp add: vector_hits_def)
  have "vh_score ` set ?all \<subseteq> similarity F (vs_dim s) (vq_vector q) ` {v. \<exists>i m. map_of (vs_inner s) i = Some (v, m)}"
  proof (rule image_subsetI)
    fix h assume "h \<in> set ?all"
    with hit [of h] obtain v where "map_of (vs_inner s) (vh_id h) = Some (v, vh_metadata h)"
      "vh_score h = similarity F (vs_dim s) (vq_vector q) v" by blast
    then show "vh_score h \<in> similarity F (vs_dim s) (vq_vector q) ` {v. \<exists>i m. map_of (vs_inner s) i = Some (v, m)}"
      by blast
  qed
  from compares_subset [OF assms(4) this] have cmp: "compares F val (vh_score ` set ?all)" .
  have "best_of (\<lambda>a b. \<not> cmp_gt (score_cmp F) a b) (max (vq_limit q) 1) ?all ?hits"
    using m mset_eq_setD [OF m] compares_total [OF cmp] by (intro best_of_take sorted_sort_by) simp_all
  then obtain rest where b: "mset (?hits @ rest) = mset ?all" "sorted_wrt (\<lambda>a b. \<not> cmp_gt (score_cmp F) a b) ?hits"
    "\<forall>a \<in> set ?hits. \<forall>b \<in> set rest. \<not> cmp_gt (score_cmp F) a b" "length ?hits = min (max (vq_limit q) 1) (length ?all)"
    unfolding best_of_def by blast
  have sets: "set ?hits \<union> set rest = set ?all" using mset_eq_setD [OF b(1)] by simp
  have ge: "val (vh_score y) \<le> val (vh_score x)" if "\<not> cmp_gt (score_cmp F) x y" "x \<in> set ?all" "y \<in> set ?all" for x y
    using that compares_gt [OF cmp] by auto
  have "distinct (map vh_id ?all)" using assms(1) by (simp add: vector_hits_ids vector_inv_def)
  moreover have "mset (map vh_id (?hits @ rest)) = mset (map vh_id ?all)" using b(1) by (metis mset_map)
  ultimately have "distinct (map vh_id (?hits @ rest))" by (metis mset_eq_imp_distinct_iff)
  then have d: "distinct (map vh_id ?hits)" by simp
  have "card (dom (map_of (vs_inner s))) = length (map fst (vs_inner s))"
    using assms(1) by (simp only: dom_map_of_conv_image_fst vector_inv_def flip: set_map) (simp only: distinct_card)
  then have n: "length ?all = card (dom (map_of (vs_inner s)))" by (simp add: vector_hits_def)
  have sorted: "sorted_wrt (\<lambda>h h'. val (vh_score h') \<le> val (vh_score h)) ?hits"
    by (rule sorted_wrt_mono_rel [OF _ b(2)]) (use sets ge in blast)
  have rest: "val (similarity F (vs_dim s) (vq_vector q) v) \<le> val (vh_score h)"
    if "map_of (vs_inner s) i = Some (v, x)" "i \<notin> vh_id ` set ?hits" "h \<in> set ?hits" for i v x h
  proof -
    let ?g = "\<lparr> vh_id = i, vh_score = similarity F (vs_dim s) (vq_vector q) v, vh_metadata = x \<rparr>"
    have "?g \<in> set ?all" using hit [of ?g] that(1) by simp
    moreover have "?g \<notin> set ?hits" using that(2) by force
    ultimately have "?g \<in> set rest" using sets by blast
    with b(3) that(3) have "\<not> cmp_gt (score_cmp F) h ?g" by blast
    from ge [OF this] sets that(3) \<open>?g \<in> set ?all\<close> show ?thesis by auto
  qed
  show ?thesis
  proof (intro exI conjI)
    show "vector_search F order q s = Ok ?hits" using assms(2) by (simp add: vector_search_def)
    show "length ?hits = min (max (vq_limit q) 1) (card (dom (map_of (vs_inner s))))" using b(4) n by simp
    show "\<forall>h \<in> set ?hits. \<exists>v. map_of (vs_inner s) (vh_id h) = Some (v, vh_metadata h) \<and>
        vh_score h = similarity F (vs_dim s) (vq_vector q) v"
      using hit sets by blast
    show "\<forall>i v m. map_of (vs_inner s) i = Some (v, m) \<and> i \<notin> vh_id ` set ?hits \<longrightarrow>
        (\<forall>h \<in> set ?hits. val (similarity F (vs_dim s) (vq_vector q) v) \<le> val (vh_score h))"
      using rest by blast
  qed (rule d sorted)+
qed

text \<open>C32: the vector store is a map from ids to vectors and metadata: an upsert replaces exactly its id, or refuses a
  blank id or a vector of another dimension; a delete removes exactly its id and says whether it was there; and a search,
  when no score is NaN, returns the records with the highest cosines with the query, best first, each once and with its
  cosine and metadata: as many as the limit, but one where the limit is 0 (the trait promises at most \<^verbatim>\<open>limit\<close>).\<close>

theorem vector_store_spec:
  assumes "vector_reach dim s" "\<And>xs. mset (order xs) = mset xs"
    and "compares F val (similarity F dim (vq_vector q) ` {v. \<exists>i m. map_of (vs_inner s) i = Some (v, m)})"
  shows "(map_of (vs_inner (snd (vector_upsert r s))) =
      (if trim (vr_id r) \<noteq> [] \<and> length (vr_vector r) = dim
       then (map_of (vs_inner s))(vr_id r \<mapsto> (vr_vector r, vr_metadata r)) else map_of (vs_inner s))) \<and>
    (is_ok (fst (vector_upsert r s)) \<longleftrightarrow> trim (vr_id r) \<noteq> [] \<and> length (vr_vector r) = dim) \<and>
    map_of (vs_inner (snd (vector_delete i s))) = (if trim i = [] then map_of (vs_inner s) else (map_of (vs_inner s))(i := None)) \<and>
    (trim i \<noteq> [] \<longrightarrow> fst (vector_delete i s) = Ok (map_of (vs_inner s) i \<noteq> None)) \<and>
    (case vector_search F order q s of
       Err e \<Rightarrow> length (vq_vector q) \<noteq> dim \<and> e = VeDimensionMismatch dim (length (vq_vector q))
     | Ok hits \<Rightarrow> length (vq_vector q) = dim \<and>
         length hits = min (max (vq_limit q) 1) (card (dom (map_of (vs_inner s)))) \<and> distinct (map vh_id hits) \<and>
         (\<forall>h \<in> set hits. \<exists>v. map_of (vs_inner s) (vh_id h) = Some (v, vh_metadata h) \<and>
           vh_score h = similarity F dim (vq_vector q) v) \<and>
         sorted_wrt (\<lambda>h h'. val (vh_score h') \<le> val (vh_score h)) hits \<and>
         (\<forall>i v m. map_of (vs_inner s) i = Some (v, m) \<and> i \<notin> vh_id ` set hits \<longrightarrow>
           (\<forall>h \<in> set hits. val (similarity F dim (vq_vector q) v) \<le> val (vh_score h))))"
proof -
  note inv = vector_reach_inv [OF assms(1)]
  show ?thesis
  proof (cases "length (vq_vector q) = dim")
    case True
    then have "length (vq_vector q) = vs_dim s" using inv by simp
    from vector_search_best [OF _ this assms(2), of F val] inv assms(3)
    obtain hits where "vector_search F order q s = Ok hits" "length hits = min (max (vq_limit q) 1) (card (dom (map_of (vs_inner s))))"
      "distinct (map vh_id hits)" "\<forall>h \<in> set hits. \<exists>v. map_of (vs_inner s) (vh_id h) = Some (v, vh_metadata h) \<and>
        vh_score h = similarity F dim (vq_vector q) v" "sorted_wrt (\<lambda>h h'. val (vh_score h') \<le> val (vh_score h)) hits"
      "\<forall>i v m. map_of (vs_inner s) i = Some (v, m) \<and> i \<notin> vh_id ` set hits \<longrightarrow>
        (\<forall>h \<in> set hits. val (similarity F dim (vq_vector q) v) \<le> val (vh_score h))"
      by auto
    with inv True show ?thesis
      by (simp add: vector_upsert_def vector_delete_def update_conv' delete_conv')
  next
    case False
    with inv show ?thesis
      by (simp add: vector_search_def vector_upsert_def vector_delete_def update_conv' delete_conv')
  qed
qed

text \<open>A search with the limit 0 returns a hit.\<close>

lemma vector_limit_zero:
  assumes "length (vq_vector q) = vs_dim s" "vq_limit q = 0" "vs_inner s \<noteq> []" "\<And>xs. mset (order xs) = mset xs"
  shows "\<exists>h. vector_search F order q s = Ok [h]"
proof -
  have "order (vs_inner s) \<noteq> []" using assms(3,4) by (metis mset_zero_iff)
  then have "sort_by (score_cmp F) (vector_hits F (vq_vector q) (order (vs_inner s))) \<noteq> []"
    by (metis (no_types) map_is_Nil_conv mset_sort_by mset_zero_iff vector_hits_def)
  then show ?thesis using assms(1,2)
    by (cases "sort_by (score_cmp F) (vector_hits F (vq_vector q) (order (vs_inner s)))") (auto simp: vector_search_def)
qed

text \<open>An arithmetic on bit patterns read as integers.\<close>

definition demo_f32 :: f32_ops where
  "demo_f32 = \<lparr> fo_sum_zero = 0, fo_mul = (*), fo_add = (+), fo_div = (\<lambda>x y. x), fo_sqrt = (\<lambda>x. x),
     fo_cmp = (\<lambda>x y. Some (if x < y then OrdLess else if x = y then OrdEqual else OrdGreater)) \<rparr>"

lemma demo_f32_compares: "compares demo_f32 uint A"
  by (auto simp: compares_def demo_f32_def word_less_def dest: word_uint_eq_iff [THEN iffD2])

definition demo_vectors :: vector_store where
  "demo_vectors = snd (vector_upsert \<lparr> vr_id = ''b'', vr_vector = [2], vr_metadata = JNull \<rparr>
     (snd (vector_upsert \<lparr> vr_id = ''a'', vr_vector = [1], vr_metadata = JNull \<rparr> (vector_store_new 1))))"

lemma demo_vectors_reach: "vector_reach 1 demo_vectors"
  unfolding demo_vectors_def by (intro vector_reach.intros)

theorem vector_store_spec_witness:
  "vector_search demo_f32 rev \<lparr> vq_vector = [3], vq_limit = 1 \<rparr> demo_vectors =
    Ok [\<lparr> vh_id = ''b'', vh_score = 6, vh_metadata = JNull \<rparr>]"
proof -
  let ?q = "\<lparr> vq_vector = [3], vq_limit = 1 \<rparr> :: vector_query"
  have m: "mset (rev xs) = mset xs" for xs :: "(string \<times> u32 list \<times> json) list" by simp
  have l: "vs_inner demo_vectors = [(''a'', [1], JNull), (''b'', [2], JNull)]" "vs_dim demo_vectors = 1" by code_simp+
  have sim: "similarity demo_f32 1 [3] [1] = 3" "similarity demo_f32 1 [3] [2] = 6" by code_simp+
  have dom: "dom (map_of (vs_inner demo_vectors)) = {''a'', ''b''}" by (auto simp: l dom_def)
  obtain hits where h: "vector_search demo_f32 rev ?q demo_vectors = Ok hits"
    by (simp add: vector_search_def l(2))
  note spec = vector_store_spec [OF demo_vectors_reach m demo_f32_compares, where q = ?q,
    THEN conjunct2, THEN conjunct2, THEN conjunct2, THEN conjunct2, unfolded h result.case]
  then have "length hits = 1" by (simp only: dom) simp
  then obtain x where x: "hits = [x]" by (auto simp: length_Suc_conv)
  from spec obtain v where v: "map_of (vs_inner demo_vectors) (vh_id x) = Some (v, vh_metadata x)"
    "vh_score x = similarity demo_f32 1 [3] v" by (auto simp: x)
  have b: "map_of (vs_inner demo_vectors) ''b'' = Some ([2], JNull)" by (simp add: l)
  from spec have others: "\<And>i v m. map_of (vs_inner demo_vectors) i = Some (v, m) \<Longrightarrow> i \<noteq> vh_id x \<Longrightarrow>
      uint (similarity demo_f32 1 [3] v) \<le> uint (vh_score x)" by (auto simp: x)
  from others [OF b] have best: "vh_id x \<noteq> ''b'' \<Longrightarrow> uint (similarity demo_f32 1 [3] [2]) \<le> uint (vh_score x)"
    by (simp add: eq_commute)
  from v have "vh_id x = ''a'' \<and> v = [1] \<and> vh_metadata x = JNull \<or> vh_id x = ''b'' \<and> v = [2] \<and> vh_metadata x = JNull"
    by (auto simp: l split: if_splits)
  with v(2) best sim have "vh_id x = ''b'' \<and> vh_score x = 6 \<and> vh_metadata x = JNull" by auto
  then have "x = \<lparr> vh_id = ''b'', vh_score = 6, vh_metadata = JNull \<rparr>" by (cases x) simp
  with h x show ?thesis by (simp only:)
qed

end
