(* ===== verification/ModelsCatalog.thy ===== *)
theory ModelsCatalog
  imports Json "HOL-Library.AList" "HOL-Library.Char_ord" "HOL-Library.List_Lexorder"
begin

text \<open>
  The catalog of models (\<^verbatim>\<open>provider/src/models_catalog.rs\<close>): what serde derives for its types, the
  lookups, and the two ways of listing the models of some providers. The snapshot
  (\<^verbatim>\<open>provider/data/models-dev.json\<close>) is data: the lemmas hold for every text that decodes. A \<^verbatim>\<open>BTreeMap\<close>
  is an association list in the order of its keys.
\<close>

subsection \<open>Types\<close>

record model_limit =
  ml_context :: "u64 option"
  ml_output :: "u64 option"

record model_modalities =
  mm_input :: "string list"
  mm_output :: "string list"

record model_entry =
  me_id :: string
  me_name :: string
  me_tool_call :: bool
  me_reasoning :: bool
  me_limit :: model_limit
  me_modalities :: model_modalities

record provider_entry =
  pe_id :: string
  pe_name :: string
  pe_models :: "(string \<times> model_entry) list"

record model_ref =
  mr_provider_id :: string
  mr_provider_name :: string
  mr_model :: model_entry

type_synonym models_catalog = "(string \<times> provider_entry) list"

subsection \<open>Decoding\<close>

text \<open>A field with \<^verbatim>\<open>serde(default)\<close>: absent, it has its default; present, it has to decode.\<close>

definition def_field :: "(json \<Rightarrow> 'a option) \<Rightarrow> 'a \<Rightarrow> (string \<Rightarrow> json option) \<Rightarrow> string \<Rightarrow> 'a option" where
  "def_field get d f k = (case f k of None \<Rightarrow> Some d | Some j \<Rightarrow> get j)"

definition jopt_of :: "(json \<Rightarrow> 'a option) \<Rightarrow> json \<Rightarrow> 'a option option" where
  "jopt_of get j = (if j = JNull then Some None else map_option Some (get j))"

fun all_some :: "'a option list \<Rightarrow> 'a list option" where
  "all_some [] = Some []"
| "all_some (x # xs) = Option.bind x (\<lambda>y. map_option ((#) y) (all_some xs))"

definition strings_of_json :: "json \<Rightarrow> string list option" where
  "strings_of_json j = Option.bind (jarr j) (\<lambda>xs. all_some (map jstr xs))"

definition u64_of_json :: "json \<Rightarrow> u64 option" where
  "u64_of_json j = map_option of_nat (jnat j)"

text \<open>The entries of an object, inserted one after the other.\<close>

definition btree_of :: "(string \<times> 'v) list \<Rightarrow> (string \<times> 'v) list" where
  "btree_of kvs = sort_key fst (fold (\<lambda>(k, v) t. AList.update k v t) kvs [])"

definition btree_of_json :: "(json \<Rightarrow> 'v option) \<Rightarrow> json \<Rightarrow> (string \<times> 'v) list option" where
  "btree_of_json get j =
    (case j of
       JObj fs \<Rightarrow> map_option btree_of (all_some (map (\<lambda>(k, x). map_option (Pair k) (get x)) fs))
     | _ \<Rightarrow> None)"

definition model_limit_of_json :: "json \<Rightarrow> model_limit option" where
  "model_limit_of_json j =
    Option.bind (text_fields [''context'', ''output''] j) (\<lambda>f.
    Option.bind (def_field (jopt_of u64_of_json) None f ''context'') (\<lambda>c.
    Option.bind (def_field (jopt_of u64_of_json) None f ''output'') (\<lambda>out.
    Some \<lparr> ml_context = c, ml_output = out \<rparr>)))"

definition model_modalities_of_json :: "json \<Rightarrow> model_modalities option" where
  "model_modalities_of_json j =
    Option.bind (text_fields [''input'', ''output''] j) (\<lambda>f.
    Option.bind (def_field strings_of_json [] f ''input'') (\<lambda>inp.
    Option.bind (def_field strings_of_json [] f ''output'') (\<lambda>out.
    Some \<lparr> mm_input = inp, mm_output = out \<rparr>)))"

definition model_entry_of_json :: "json \<Rightarrow> model_entry option" where
  "model_entry_of_json j =
    Option.bind (text_fields [''id'', ''name'', ''tool_call'', ''reasoning'', ''limit'', ''modalities''] j) (\<lambda>f.
    Option.bind (req_field jstr f ''id'') (\<lambda>i.
    Option.bind (req_field jstr f ''name'') (\<lambda>n.
    Option.bind (def_field jbool False f ''tool_call'') (\<lambda>t.
    Option.bind (def_field jbool False f ''reasoning'') (\<lambda>r.
    Option.bind (def_field model_limit_of_json \<lparr> ml_context = None, ml_output = None \<rparr> f ''limit'') (\<lambda>l.
    Option.bind (def_field model_modalities_of_json \<lparr> mm_input = [], mm_output = [] \<rparr> f ''modalities'') (\<lambda>m.
    Some \<lparr> me_id = i, me_name = n, me_tool_call = t, me_reasoning = r, me_limit = l, me_modalities = m \<rparr>)))))))"

definition provider_entry_of_json :: "json \<Rightarrow> provider_entry option" where
  "provider_entry_of_json j =
    Option.bind (text_fields [''id'', ''name'', ''models''] j) (\<lambda>f.
    Option.bind (req_field jstr f ''id'') (\<lambda>i.
    Option.bind (req_field jstr f ''name'') (\<lambda>n.
    Option.bind (def_field (btree_of_json model_entry_of_json) [] f ''models'') (\<lambda>ms.
    Some \<lparr> pe_id = i, pe_name = n, pe_models = ms \<rparr>))))"

definition models_catalog_of_json :: "json \<Rightarrow> models_catalog option" where
  "models_catalog_of_json j = btree_of_json provider_entry_of_json j"

text \<open>\<^verbatim>\<open>ModelsCatalog::get\<close>; \<open>None\<close> is its panic.\<close>

definition models_catalog_get :: "json_text \<Rightarrow> string \<Rightarrow> models_catalog option" where
  "models_catalog_get J embedded = Option.bind (jt_parse J embedded) models_catalog_of_json"

subsection \<open>Lookups\<close>

definition get_provider :: "models_catalog \<Rightarrow> string \<Rightarrow> provider_entry option" where
  "get_provider c i = map_of c i"

definition provider_models :: "provider_entry \<Rightarrow> model_ref list" where
  "provider_models p =
    map (\<lambda>(_, m). \<lparr> mr_provider_id = pe_id p, mr_provider_name = pe_name p, mr_model = m \<rparr>) (pe_models p)"

definition all_models :: "models_catalog \<Rightarrow> model_ref list" where
  "all_models c = concat (map (\<lambda>(_, p). provider_models p) c)"

fun models_for_providers :: "models_catalog \<Rightarrow> string list \<Rightarrow> model_ref list" where
  "models_for_providers c [] = []"
| "models_for_providers c (i # is) =
    (case get_provider c i of Some p \<Rightarrow> provider_models p | None \<Rightarrow> []) @ models_for_providers c is"

subsection \<open>What decoding gives\<close>

lemma btree_of_sorted: "sorted (map fst (btree_of kvs)) \<and> distinct (map fst (btree_of kvs))"
proof -
  have "distinct (map fst t) \<Longrightarrow> distinct (map fst (fold (\<lambda>(k, v) t. AList.update k v t) kvs t))"
    for t :: "(string \<times> 'a) list"
    by (induction kvs arbitrary: t) (auto simp: distinct_update)
  from this [of "[]"] show ?thesis
    unfolding btree_of_def by (auto simp: distinct_map inj_on_def)
qed

lemma map_of_sort_key: "distinct (map fst kvs) \<Longrightarrow> map_of (sort_key fst kvs) = map_of (kvs :: (string \<times> 'v) list)"
  by (rule map_of_inject_set [THEN iffD2]) (simp_all add: distinct_map inj_on_def)

text \<open>The last entry with a key counts, as \<^verbatim>\<open>BTreeMap::insert\<close> has it.\<close>

lemma map_of_btree: "map_of (btree_of kvs) = map_of (rev kvs)"
proof -
  have d: "distinct (map fst t) \<Longrightarrow> distinct (map fst (fold (\<lambda>(k, v) t. AList.update k v t) kvs t))"
    for t :: "(string \<times> 'a) list"
    by (induction kvs arbitrary: t) (auto simp: distinct_update)
  have "map_of (fold (\<lambda>(k, v) t. AList.update k v t) kvs t) = map_of (rev kvs @ t)" for t :: "(string \<times> 'a) list"
    by (induction kvs arbitrary: t) (auto simp: update_conv' fun_eq_iff map_add_def split: option.split)
  from this [of "[]"] d [of "[]"] show ?thesis by (simp add: btree_of_def map_of_sort_key)
qed

text \<open>In a catalog whose text decodes the providers are sorted; in the snapshot each stands under its own id.\<close>

definition catalog_sorted :: "models_catalog \<Rightarrow> bool" where
  "catalog_sorted c \<longleftrightarrow> sorted (map fst c) \<and> distinct (map fst c)"

definition keys_are_ids :: "models_catalog \<Rightarrow> bool" where
  "keys_are_ids c \<longleftrightarrow> list_all (\<lambda>(k, p). pe_id p = k) c"

lemma decoded_sorted: "models_catalog_get J text = Some c \<Longrightarrow> catalog_sorted c"
  by (auto simp: models_catalog_get_def models_catalog_of_json_def btree_of_json_def catalog_sorted_def
      btree_of_sorted split: Option.bind_splits json.splits)

lemma filter_provider_models:
  "filter (\<lambda>r. P (mr_provider_id r)) (provider_models p) = (if P (pe_id p) then provider_models p else [])"
  by (auto simp: provider_models_def filter_map o_def split_def)

lemma filter_all_models:
  "keys_are_ids c \<Longrightarrow> filter (\<lambda>r. P (mr_provider_id r)) (all_models c) =
    concat (map (\<lambda>(_, p). provider_models p) (filter (\<lambda>(k, _). P k) c))"
  by (induction c) (auto simp: all_models_def keys_are_ids_def filter_provider_models)

fun picked :: "models_catalog \<Rightarrow> string list \<Rightarrow> (string \<times> provider_entry) list" where
  "picked c [] = []"
| "picked c (i # is) = (case map_of c i of Some p \<Rightarrow> (i, p) # picked c is | None \<Rightarrow> picked c is)"

lemma models_for_picked: "models_for_providers c is = concat (map (\<lambda>(_, p). provider_models p) (picked c is))"
  by (induction "is") (auto simp: get_provider_def split: option.split)

lemma picked_keys: "map fst (picked c is) = filter (\<lambda>i. map_of c i \<noteq> None) is"
  by (induction "is") (auto split: option.split)

lemma set_picked: "set (picked c is) = {(i, p). i \<in> set is \<and> map_of c i = Some p}"
  by (induction "is") (auto split: option.split)

lemma picked_filter:
  assumes "catalog_sorted c" "sorted is" "distinct is"
  shows "picked c is = filter (\<lambda>(k, _). k \<in> set is) c"
proof (rule map_sorted_distinct_set_unique [where f = fst])
  have d: "distinct (map fst c)" and s: "sorted (map fst c)" using assms(1) by (simp_all add: catalog_sorted_def)
  show e: "set (picked c is) = set (filter (\<lambda>(k, _). k \<in> set is) c)"
    unfolding set_picked using d by auto
  show "inj_on fst (set (picked c is) \<union> set (filter (\<lambda>(k, _). k \<in> set is) c))"
    unfolding e using d by (auto simp: distinct_map intro: inj_on_subset)
  show "sorted (map fst (picked c is))" "distinct (map fst (picked c is))"
    unfolding picked_keys using assms(2,3) by (simp_all add: sorted_filter [of "\<lambda>i. i", simplified])
  show "sorted (map fst (filter (\<lambda>(k, _). k \<in> set is) c))" by (rule sorted_filter [OF s])
  show "distinct (map fst (filter (\<lambda>(k, _). k \<in> set is) c))" using d by (simp add: distinct_map_filter)
qed

text \<open>Both ways of listing the models of some providers agree, in content and order.\<close>

lemma model_lists_agree:
  assumes "models_catalog_get J text = Some c" "keys_are_ids c" "sorted is" "distinct is"
  shows "models_for_providers c is = filter (\<lambda>r. mr_provider_id r \<in> set is) (all_models c)"
  using picked_filter [OF decoded_sorted [OF assms(1)] assms(3,4)] filter_all_models [OF assms(2), of "\<lambda>k. k \<in> set is"]
  by (simp add: models_for_picked)

definition demo_catalog_json :: json where
  "demo_catalog_json = JObj
    [(''openai'', JObj [(''id'', JStr ''openai''), (''name'', JStr ''OpenAI''), (''env'', JArr []),
       (''models'', JObj [(''o3'', JObj [(''id'', JStr ''o3''), (''name'', JStr ''o3''), (''tool_call'', JBool True),
          (''limit'', JObj [(''context'', JInt 200000)])])])])]"

definition demo_catalog_text :: json_text where
  "demo_catalog_text = \<lparr> jt_print = (\<lambda>_. []), jt_parse = (\<lambda>_. Some demo_catalog_json) \<rparr>"

definition demo_models_catalog :: models_catalog where
  "demo_models_catalog =
    [(''openai'', \<lparr> pe_id = ''openai'', pe_name = ''OpenAI'', pe_models =
       [(''o3'', \<lparr> me_id = ''o3'', me_name = ''o3'', me_tool_call = True, me_reasoning = False,
          me_limit = \<lparr> ml_context = Some 200000, ml_output = None \<rparr>,
          me_modalities = \<lparr> mm_input = [], mm_output = [] \<rparr> \<rparr>)] \<rparr>)]"

lemma demo_catalog_decodes: "models_catalog_get demo_catalog_text [] = Some demo_models_catalog"
  by (simp add: models_catalog_get_def demo_catalog_text_def demo_catalog_json_def models_catalog_of_json_def
      btree_of_json_def provider_entry_of_json_def model_entry_of_json_def model_limit_of_json_def
      text_fields_def struct_fields_def req_field_def def_field_def jopt_of_def u64_of_json_def btree_of_def
      demo_models_catalog_def)

end
