(* ===== verification/Cli.thy ===== *)
theory Cli
  imports ThreadStore SqlCredentials LoginWizard TuiApp ModelsCatalog
begin

text \<open>
  The commands of the binary (\<^verbatim>\<open>cli/src/bin/mscode.rs\<close>, \<^verbatim>\<open>cli/src/lib.rs\<close>). One process is a
  \<open>host\<close>: its environment variables, terminal, keyrings, clock and fresh identifiers. What processes share or
  leave behind is the \<open>world\<close>: the two tables, the keyrings, the unread input, and what was printed. A command
  maps a world to an exit code and a world; \<open>None\<close> is a login wizard that its keys do not end. Parsing the
  arguments is clap's, drawing is in \<open>Screen\<close>, and printing does not fail.
\<close>

subsection \<open>Commands and their world\<close>

datatype login_command =
    LoginAdd "string option" "string option" "string option" "string option" bool bool
  | LoginList "string option"
  | LoginRemove string string
  | LoginUse string string

datatype command =
    CmdVersion
  | CmdNew
  | CmdChat "string option"
  | CmdResume string
  | CmdSessions bool
  | CmdModels bool "string option"
  | CmdLogin login_command

record mscode_version =
  mv_major :: u32
  mv_minor :: u32
  mv_patch :: u32
  mv_git_sha :: "string option"

definition semver_string :: "mscode_version \<Rightarrow> string" where
  "semver_string v =
    show_nat (unat (mv_major v)) @ ''.'' @ show_nat (unat (mv_minor v)) @ ''.'' @ show_nat (unat (mv_patch v))"

definition full_string :: "mscode_version \<Rightarrow> string" where
  "full_string v =
    (case mv_git_sha v of Some sha \<Rightarrow> semver_string v @ ''+'' @ sha | None \<Rightarrow> semver_string v)"

record 'k host =
  ho_version :: mscode_version
  ho_var :: "string \<Rightarrow> string option"
  ho_cwd :: "string option"
  ho_tty :: bool
  ho_open_state :: "string \<Rightarrow> string option"
  ho_os_keyring :: "'k keyring_api"
  ho_map_print :: "(string \<times> string) list \<Rightarrow> string"
  ho_map_parse :: "string \<Rightarrow> (string \<times> string) list option"
  ho_unreadable :: "string \<Rightarrow> bool"
  ho_time :: time_text
  ho_json :: json_text
  ho_uuid :: string
  ho_key_uuid :: string
  ho_now_text :: string
  ho_now :: int
  ho_catalog :: models_catalog
  ho_low :: "string \<Rightarrow> string"
  ho_keys :: "key_event list"
  ho_wizard_fault :: "string option"
  ho_tui :: "app \<Rightarrow> string option"
  ho_password :: "(string, string) result"

text \<open>Where secrets are: in the keyring of the system and in files; and the map that this process has read from its file,
  with the faults of the coming writes.\<close>

record 'k vault =
  va_os :: 'k
  va_files :: "string \<rightharpoonup> string"
  va_map :: "(string \<times> string) list"
  va_faults :: "string option list"

record 'k world =
  wo_sessions :: session_db
  wo_store :: "'k vault sql_store"
  wo_stdin :: string
  wo_out :: string
  wo_err :: string

type_synonym 'k exit = "nat \<times> 'k world"

definition println :: "string \<Rightarrow> 'k world \<Rightarrow> 'k world" where
  "println s w = w\<lparr> wo_out := wo_out w @ s @ [nl] \<rparr>"

definition eprintln :: "string \<Rightarrow> 'k world \<Rightarrow> 'k world" where
  "eprintln s w = w\<lparr> wo_err := wo_err w @ s @ [nl] \<rparr>"

definition fail :: "string \<Rightarrow> 'k world \<Rightarrow> 'k exit" where
  "fail msg w = (2, eprintln (''mscode: '' @ msg) w)"

subsection \<open>Errors as text\<close>

fun thread_error_text :: "thread_error \<Rightarrow> string" where
  "thread_error_text (TsSqlite e) = ''sqlite error: '' @ e"
| "thread_error_text (TsState e) = ''state error: '' @ e"
| "thread_error_text (TsAmbiguousPrefix n) = ''ambiguous prefix: '' @ show_nat n @ '' sessions matched''"
| "thread_error_text (TsNotFound i) = ''session not found: '' @ i"
| "thread_error_text (TsInvalidId e) = ''invalid id: '' @ e"

text \<open>A failure of the keyring keeps its operation but not its cause, which no command prints.\<close>

fun cred_error_text :: "cred_error \<Rightarrow> string" where
  "cred_error_text (CSqlite e) = ''sqlite error: '' @ e"
| "cred_error_text (CState e) = ''state error: '' @ e"
| "cred_error_text (CKeyring operation) = ''keyring '' @ operation @ '' failed''"
| "cred_error_text CKeyringUnavailable = ''OS keyring unavailable; install gnome-keyring or set MSCODE_CREDENTIALS_FILE''"
| "cred_error_text CKeyringPoisoned = ''keyring mutex poisoned''"
| "cred_error_text (CNotFound p l) = ''no account found for provider `'' @ p @ ''` label `'' @ l @ ''`''"
| "cred_error_text (CDuplicate p l) = ''account already exists for provider `'' @ p @ ''` label `'' @ l @ ''`''"
| "cred_error_text (CInvalidInput e) = ''invalid input: '' @ e"
| "cred_error_text (CNoEligible p) = ''no eligible account for provider `'' @ p @ ''`''"
| "cred_error_text (COrphanedKey p l k) = ''key with id `'' @ k @ ''` missing from keyring (row '' @ p @ ''/'' @ l @ '')''"
| "cred_error_text (CSerde e) = ''metadata serialization error: '' @ e"

definition print_credential_error :: "cred_error \<Rightarrow> 'k world \<Rightarrow> 'k world" where
  "print_credential_error e =
    (case e of
       CKeyringUnavailable \<Rightarrow> eprintln
         ''mscode: OS keyring unavailable; set MSCODE_CREDENTIALS_FILE to opt into plaintext file fallback''
     | CKeyring operation \<Rightarrow> eprintln
         (''mscode: OS keyring '' @ operation @ '' failed; check platform credentials service'')
     | other \<Rightarrow> eprintln (''mscode: '' @ cred_error_text other))"

subsection \<open>The state database\<close>

definition dirs_home :: "'k host \<Rightarrow> string option" where
  "dirs_home h = (case ho_var h ''HOME'' of Some d \<Rightarrow> Some d | None \<Rightarrow> ho_var h ''USERPROFILE'')"

definition state_db_path :: "'k host \<Rightarrow> (string, string) result" where
  "state_db_path h =
    (case ho_var h ''MSCODE_HOME'' of
       Some home \<Rightarrow> Ok (path_join home ''state.db'')
     | None \<Rightarrow>
         (case dirs_home h of
            None \<Rightarrow> Err ''could not resolve home directory''
          | Some d \<Rightarrow> Ok (path_join (path_join d ''.mscode'') ''state.db'')))"

definition open_state :: "'k host \<Rightarrow> (unit, string) result" where
  "open_state h =
    try_res (state_db_path h) (\<lambda>p.
      case ho_open_state h p of
        None \<Rightarrow> Ok ()
      | Some e \<Rightarrow> Err (''failed to open state db at '' @ p @ '': '' @ e))"

definition current_cwd :: "'k host \<Rightarrow> string" where
  "current_cwd h = unwrap_or (ho_cwd h) ''.''"

subsection \<open>Sessions\<close>

definition run_version :: "'k host \<Rightarrow> 'k world \<Rightarrow> 'k exit" where
  "run_version h w = (0, println (''mscode '' @ full_string (ho_version h)) w)"

definition new_session_of :: "'k host \<Rightarrow> new_session" where
  "new_session_of h =
    \<lparr> ns_id = ho_uuid h, ns_cwd = current_cwd h, ns_project_root = None, ns_created_at = None, ns_summary = None \<rparr>"

definition run_new :: "'k host \<Rightarrow> 'k world \<Rightarrow> 'k exit" where
  "run_new h w =
    (case open_state h of
       Err e \<Rightarrow> fail e w
     | Ok _ \<Rightarrow>
         (case session_create (new_session_of h) (ho_now_text h) (wo_sessions w) of
            (Ok s, d) \<Rightarrow> (0, println (se_id s) (w\<lparr> wo_sessions := d \<rparr>))
          | (Err e, d) \<Rightarrow> fail (''failed to create session: '' @ thread_error_text e) (w\<lparr> wo_sessions := d \<rparr>)))"

definition session_line :: "session \<Rightarrow> string" where
  "session_line r =
    (let base = se_id r @ [CHR 0x09] @ se_updated_at r @ [CHR 0x09] @ se_cwd r; summary = unwrap_or (se_summary r) []
     in if summary = [] then base else base @ [CHR 0x09] @ summary)"

definition sessions_filter :: "'k host \<Rightarrow> bool \<Rightarrow> list_filter" where
  "sessions_filter h all = \<lparr> lf_cwd = (if all then None else Some (current_cwd h)), lf_limit = Some 200 \<rparr>"

definition run_sessions :: "'k host \<Rightarrow> bool \<Rightarrow> 'k world \<Rightarrow> 'k exit" where
  "run_sessions h all w =
    (case open_state h of
       Err e \<Rightarrow> fail e w
     | Ok _ \<Rightarrow>
         (case list_sessions (sessions_filter h all) (wo_sessions w) of
            (Ok rows, d) \<Rightarrow> (0, fold (\<lambda>r. println (session_line r)) rows (w\<lparr> wo_sessions := d \<rparr>))
          | (Err e, d) \<Rightarrow> fail (''failed to list sessions: '' @ thread_error_text e) (w\<lparr> wo_sessions := d \<rparr>)))"

subsection \<open>The credential store and the list of models\<close>

text \<open>The keyring of the system, and the file backend of a path, over the vault.\<close>

definition os_keyring :: "'k keyring_api \<Rightarrow> 'k vault keyring_api" where
  "os_keyring B =
    \<lparr> kr_store = (\<lambda>i x v. case kr_store B i x (va_os v) of (r, k) \<Rightarrow> (r, v\<lparr> va_os := k \<rparr>)),
      kr_load = (\<lambda>i v. kr_load B i (va_os v)),
      kr_delete = (\<lambda>i v. case kr_delete B i (va_os v) of (r, k) \<Rightarrow> (r, v\<lparr> va_os := k \<rparr>)) \<rparr>"

definition vault_file :: "string \<Rightarrow> 'k vault \<Rightarrow> file_keyring" where
  "vault_file path v = \<lparr> fk_map = va_map v, fk_file = va_files v path, fk_faults = va_faults v \<rparr>"

definition set_vault_file :: "string \<Rightarrow> file_keyring \<Rightarrow> 'k vault \<Rightarrow> 'k vault" where
  "set_vault_file path k v =
    v\<lparr> va_map := fk_map k, va_files := (va_files v)(path := fk_file k), va_faults := fk_faults k \<rparr>"

definition keyring_at :: "((string \<times> string) list \<Rightarrow> string) \<Rightarrow> string \<Rightarrow> 'k vault keyring_api" where
  "keyring_at enc path =
    \<lparr> kr_store = (\<lambda>i x v. case kr_store (file_backend enc) i x (vault_file path v) of (r, k) \<Rightarrow> (r, set_vault_file path k v)),
      kr_load = (\<lambda>i v. kr_load (file_backend enc) i (vault_file path v)),
      kr_delete = (\<lambda>i v. case kr_delete (file_backend enc) i (vault_file path v) of (r, k) \<Rightarrow> (r, set_vault_file path k v)) \<rparr>"

definition open_keyring_at :: "'k host \<Rightarrow> string \<Rightarrow> 'k vault \<Rightarrow> ('k vault, cred_error) result" where
  "open_keyring_at h path v =
    (if va_files v path \<noteq> None \<and> ho_unreadable h path then Err (CKeyring ''file-read'')
     else map_ok (\<lambda>k. set_vault_file path k v) (fk_open (ho_map_parse h) (va_files v path) (va_faults v)))"

text \<open>\<^verbatim>\<open>credential_store\<close>: the keyring it chooses, and the store over it.\<close>

definition credential_store :: "'k host \<Rightarrow> 'k world \<Rightarrow> ('k vault keyring_api, string) result \<times> 'k world" where
  "credential_store h w =
    (case open_state h of
       Err e \<Rightarrow> (Err e, w)
     | Ok _ \<Rightarrow>
         (case ho_var h ''MSCODE_CREDENTIALS_FILE'' of
            None \<Rightarrow> (Ok (os_keyring (ho_os_keyring h)), w)
          | Some path \<Rightarrow>
              if path = [] then (Ok (os_keyring (ho_os_keyring h)), w)
              else (case open_keyring_at h path (sq_keyring (wo_store w)) of
                Err e \<Rightarrow> (Err (''failed to open MSCODE_CREDENTIALS_FILE: '' @ cred_error_text e), w)
              | Ok v \<Rightarrow> (Ok (keyring_at (ho_map_print h) path), w\<lparr> wo_store := (wo_store w)\<lparr> sq_keyring := v \<rparr> \<rparr>))))"

definition model_item_of :: "model_ref \<Rightarrow> model_item" where
  "model_item_of r =
    \<lparr> mi_provider_id = mr_provider_id r, mi_model_id = me_id (mr_model r),
      mi_display_label = mr_provider_name r @ '' / '' @ me_name (mr_model r),
      mi_context_window = ml_context (me_limit (mr_model r)), mi_supports_tools = me_tool_call (mr_model r) \<rparr>"

text \<open>The provider ids with an account; any failure is printed and counts as none.\<close>

definition account_providers :: "'k host \<Rightarrow> 'k world \<Rightarrow> string list \<times> 'k world" where
  "account_providers h w =
    (case credential_store h w of
       (Err e, w1) \<Rightarrow> ([], eprintln (''mscode: '' @ e) w1)
     | (Ok _, w1) \<Rightarrow>
         (case sql_list (ho_time h) (ho_json h) (wo_store w1) of
            (Ok accounts, s) \<Rightarrow> (remdups_adj (sort (map ac_provider accounts)), w1\<lparr> wo_store := s \<rparr>)
          | (Err e, s) \<Rightarrow>
              ([], eprintln (''mscode: failed to list credentials: '' @ cred_error_text e) (w1\<lparr> wo_store := s \<rparr>))))"

definition allowed_providers :: "'k host \<Rightarrow> string option \<Rightarrow> bool \<Rightarrow> 'k world \<Rightarrow> string set \<times> 'k world" where
  "allowed_providers h filter_id all w =
    (if all then
       (case filter_id of Some p \<Rightarrow> {p} | None \<Rightarrow> set (map fst (ho_catalog h)), w)
     else
       (case account_providers h w of
          (ids, w1) \<Rightarrow>
            (case filter_id of Some p \<Rightarrow> if p \<in> set ids then {p} else {} | None \<Rightarrow> set ids, w1)))"

definition load_models_items :: "'k host \<Rightarrow> string option \<Rightarrow> bool \<Rightarrow> 'k world \<Rightarrow> model_item list \<times> 'k world" where
  "load_models_items h filter_id all w =
    (case allowed_providers h filter_id all w of
       (allow, w1) \<Rightarrow>
         (map model_item_of (filter (\<lambda>r. mr_provider_id r \<in> allow) (all_models (ho_catalog h))), w1))"

definition model_line :: "model_item \<Rightarrow> string" where
  "model_line it =
    column 14 (mi_provider_id it) @ '' '' @ column 34 (mi_display_label it) @ '' '' @
    column 10 (case mi_context_window it of Some c \<Rightarrow> show_nat (unat c) | None \<Rightarrow> ''-'') @ '' '' @
    column 6 (if mi_supports_tools it then ''yes'' else []) @ '' '' @ mi_model_id it"

definition run_models :: "'k host \<Rightarrow> bool \<Rightarrow> string option \<Rightarrow> 'k world \<Rightarrow> 'k exit" where
  "run_models h all provider w =
    (case load_models_items h provider all w of
       (items, w1) \<Rightarrow>
         (0, if items = [] then
               println
                 (if all then
                    (case provider of
                       Some p \<Rightarrow> ''no models for provider `'' @ p @ ''`''
                     | None \<Rightarrow> ''no models in catalog'')
                  else
                    (case provider of
                       Some p \<Rightarrow> ''no models for provider `'' @ p @ ''`; log in with `mscode login add --provider '' @ p @
                         ''` or use `--all`''
                     | None \<Rightarrow> ''no providers configured; run `mscode login add` to add one'')) w1
             else
               fold (\<lambda>it. println (model_line it)) items
                 (println (column 14 ''PROVIDER'' @ '' '' @ column 34 ''NAME'' @ '' '' @ column 10 ''CONTEXT'' @ '' '' @
                    column 6 ''TOOLS'' @ '' MODEL'') w1)))"

subsection \<open>Resuming and chatting\<close>

text \<open>The session id is dropped.\<close>

definition launch_tui :: "'k host \<Rightarrow> string option \<Rightarrow> 'k world \<Rightarrow> 'k exit" where
  "launch_tui h session_id w =
    (case load_models_items h None False w of
       (items, w1) \<Rightarrow>
         (case ho_tui h (with_models items (app_new (current_cwd h) tui_config_default)) of
            None \<Rightarrow> (0, w1)
          | Some e \<Rightarrow> fail (''tui error: '' @ e) w1))"

definition run_resume :: "'k host \<Rightarrow> string \<Rightarrow> 'k world \<Rightarrow> 'k exit" where
  "run_resume h i w =
    (case open_state h of
       Err e \<Rightarrow> fail e w
     | Ok _ \<Rightarrow>
         (case session_get_by_id_prefix i (wo_sessions w) of
            (Ok s, d) \<Rightarrow>
              let w1 = w\<lparr> wo_sessions := d \<rparr> in
              if ho_tty h then launch_tui h (Some (se_id s)) w1 else (0, println (se_id s) w1)
          | (Err e, d) \<Rightarrow>
              fail (''could not resume `'' @ i @ ''`: '' @ thread_error_text e) (w\<lparr> wo_sessions := d \<rparr>)))"

definition run_chat :: "'k host \<Rightarrow> string option \<Rightarrow> 'k world \<Rightarrow> 'k exit" where
  "run_chat h session w =
    (if \<not> ho_tty h then fail ''chat requires an interactive terminal (stdout is not a TTY)'' w
     else case session of
       None \<Rightarrow> launch_tui h None w
     | Some i \<Rightarrow>
         (case open_state h of
            Err e \<Rightarrow> fail e w
          | Ok _ \<Rightarrow>
              (case session_get_by_id_prefix i (wo_sessions w) of
                 (Ok s, d) \<Rightarrow> launch_tui h (Some (se_id s)) (w\<lparr> wo_sessions := d \<rparr>)
               | (Err e, d) \<Rightarrow>
                   fail (''could not resolve session `'' @ i @ ''`: '' @ thread_error_text e)
                     (w\<lparr> wo_sessions := d \<rparr>))))"

subsection \<open>Login\<close>

text \<open>A line of the input, with its newline; what is not UTF-8 is an error.\<close>

definition read_line :: "'k world \<Rightarrow> string option \<times> 'k world" where
  "read_line w =
    (let line = takeWhile (\<lambda>c. c \<noteq> nl) (wo_stdin w); rest = dropWhile (\<lambda>c. c \<noteq> nl) (wo_stdin w)
     in (if utf8_valid line then Some (line @ take 1 rest) else None, w\<lparr> wo_stdin := drop 1 rest \<rparr>))"

definition prompt_line :: "string \<Rightarrow> 'k world \<Rightarrow> string option \<times> 'k world" where
  "prompt_line text w =
    (case read_line (w\<lparr> wo_out := wo_out w @ text \<rparr>) of
       (None, w1) \<Rightarrow> (None, w1)
     | (Some buf, w1) \<Rightarrow> (if trim buf = [] then None else Some (trim buf), w1))"

definition popular_providers :: "string list" where
  "popular_providers =
    filter (\<lambda>i. is_recommended i \<or> i \<in> set [''mistral'', ''groq'', ''deepseek'', ''ollama'', ''github-copilot''])
      (map ce_id PROVIDER_CATALOG)"

definition prompt_provider :: "'k world \<Rightarrow> string option \<times> 'k world" where
  "prompt_provider =
    prompt_line (''provider ['' @ join '', '' popular_providers @ ''] (or `custom:<name>`): '')"

definition prompt_label :: "'k world \<Rightarrow> string option \<times> 'k world" where
  "prompt_label = prompt_line ''label (e.g. work, personal): ''"

definition prompt_secret :: "'k host \<Rightarrow> 'k world \<Rightarrow> string option \<times> 'k world" where
  "prompt_secret h w =
    (case ho_password h of
       Ok s \<Rightarrow> if s \<noteq> [] then (Some s, w) else (None, eprintln ''mscode: empty api key'' w)
     | Err e \<Rightarrow> (None, eprintln (''mscode: failed to read api key: '' @ e) w))"

text \<open>The whole input, less the line ends it ends with.\<close>

definition trim_line_ends :: "string \<Rightarrow> string" where
  "trim_line_ends s = rev (dropWhile (\<lambda>c. c = nl \<or> c = CHR 0x0D) (rev s))"

definition read_secret :: "'k host \<Rightarrow> string option \<Rightarrow> bool \<Rightarrow> 'k world \<Rightarrow> string option \<times> 'k world" where
  "read_secret h given from_stdin w =
    (case given of
       Some k \<Rightarrow> (Some k, w)
     | None \<Rightarrow>
         if from_stdin then
           (if utf8_valid (wo_stdin w) then (Some (trim_line_ends (wo_stdin w)), w\<lparr> wo_stdin := [] \<rparr>)
            else (None, eprintln ''mscode: failed to read api key from stdin'' (w\<lparr> wo_stdin := [] \<rparr>)))
         else prompt_secret h w)"

definition should_launch_wizard ::
    "bool \<Rightarrow> string option \<Rightarrow> string option \<Rightarrow> string option \<Rightarrow> bool \<Rightarrow> bool" where
  "should_launch_wizard is_tty provider label api_key api_key_stdin \<longleftrightarrow>
    is_tty \<and> provider = None \<and> label = None \<and> api_key = None \<and> \<not> api_key_stdin"

datatype wizard_outcome = WoFinished string string string | WoCancelled | WoFailed string

definition wizard_items :: "picker_item list" where
  "wizard_items =
    map (\<lambda>e. item_catalog (ce_id e) (ce_display_name e) (ce_endpoint e))
      (filter (\<lambda>e. ce_auth e \<in> {ApiKey, BothAuth, LocalAuth}) PROVIDER_CATALOG)"

definition launch_login_wizard :: "'k host \<Rightarrow> wizard_outcome option" where
  "launch_login_wizard h =
    (case ho_wizard_fault h of
       Some e \<Rightarrow> Some (WoFailed e)
     | None \<Rightarrow>
         (case wizard_loop (ho_low h) (ho_keys h) (login_wizard_new wizard_items) of
            None \<Rightarrow> None
          | Some None \<Rightarrow> Some WoCancelled
          | Some (Some (p, l, s)) \<Rightarrow> Some (WoFinished p l s)))"

definition new_account_of :: "string \<Rightarrow> string \<Rightarrow> string \<Rightarrow> string option \<Rightarrow> bool \<Rightarrow> new_account" where
  "new_account_of p l k endpoint set_def =
    (let a = with_default set_def (new_account_new p l k)
     in case endpoint of Some ep \<Rightarrow> with_endpoint ep a | None \<Rightarrow> a)"

definition store_account :: "'k host \<Rightarrow> new_account \<Rightarrow> 'k world \<Rightarrow> 'k exit" where
  "store_account h a w =
    (case credential_store h w of
       (Err e, w1) \<Rightarrow> fail e w1
     | (Ok B, w1) \<Rightarrow>
         (case sql_add (ho_time h) (ho_json h) B a (ho_key_uuid h) (ho_uuid h) (ho_now h) (wo_store w1) of
            (Ok acc, s) \<Rightarrow>
              (0, println (''added '' @ ac_provider acc @ '' account `'' @ ac_label acc @ ''` with endpoint '' @
                     ac_endpoint acc @ (if ac_is_default acc then '' (default)'' else [])) (w1\<lparr> wo_store := s \<rparr>))
          | (Err e, s) \<Rightarrow> (2, print_credential_error e (w1\<lparr> wo_store := s \<rparr>))))"

text \<open>What is still missing after the wizard or the flags is prompted for; then the account is stored.\<close>

definition finish_login_add ::
    "'k host \<Rightarrow> string option \<Rightarrow> string option \<Rightarrow> string option \<Rightarrow> string option \<Rightarrow> bool \<Rightarrow> bool \<Rightarrow>
     'k world \<Rightarrow> 'k exit" where
  "finish_login_add h provider label secret endpoint from_stdin set_def w =
    (case (case provider of Some p \<Rightarrow> (Some p, w) | None \<Rightarrow> prompt_provider w) of
       (None, w1) \<Rightarrow> (2, w1)
     | (Some p, w1) \<Rightarrow>
         (case (case label of Some l \<Rightarrow> (Some l, w1) | None \<Rightarrow> prompt_label w1) of
            (None, w2) \<Rightarrow> (2, w2)
          | (Some l, w2) \<Rightarrow>
              (case read_secret h secret from_stdin w2 of
                 (None, w3) \<Rightarrow> (2, w3)
               | (Some k, w3) \<Rightarrow> store_account h (new_account_of p l k endpoint set_def) w3)))"

definition run_login_add ::
    "'k host \<Rightarrow> string option \<Rightarrow> string option \<Rightarrow> string option \<Rightarrow> string option \<Rightarrow> bool \<Rightarrow> bool \<Rightarrow>
     'k world \<Rightarrow> 'k exit option" where
  "run_login_add h provider label endpoint api_key api_key_stdin set_def w =
    (if should_launch_wizard (ho_tty h) provider label api_key api_key_stdin then
       (case launch_login_wizard h of
          None \<Rightarrow> None
        | Some WoCancelled \<Rightarrow> Some (130, w)
        | Some (WoFailed e) \<Rightarrow> Some (fail (''login wizard error: '' @ e) w)
        | Some (WoFinished p l s) \<Rightarrow>
            Some (finish_login_add h (Some p) (Some l) (Some s) endpoint api_key_stdin set_def w))
     else Some (finish_login_add h provider label api_key endpoint api_key_stdin set_def w))"

definition account_line :: "account \<Rightarrow> string" where
  "account_line a =
    column 10 (ac_provider a) @ '' '' @ column 14 (ac_label a) @ '' '' @ column 8 (status_str (ac_status a)) @ '' '' @
    column 8 (if ac_is_default a then ''yes'' else []) @ '' '' @ ac_endpoint a"

definition run_login_list :: "'k host \<Rightarrow> string option \<Rightarrow> 'k world \<Rightarrow> 'k exit" where
  "run_login_list h provider w =
    (case credential_store h w of
       (Err e, w1) \<Rightarrow> fail e w1
     | (Ok B, w1) \<Rightarrow>
         (case (case provider of
                  Some p \<Rightarrow> sql_list_for_provider (ho_time h) (ho_json h) p (wo_store w1)
                | None \<Rightarrow> sql_list (ho_time h) (ho_json h) (wo_store w1)) of
            (Err e, s) \<Rightarrow> (2, print_credential_error e (w1\<lparr> wo_store := s \<rparr>))
          | (Ok rows, s) \<Rightarrow>
              let w2 = w1\<lparr> wo_store := s \<rparr> in
              (0, if rows = [] then
                    println (case provider of
                      Some p \<Rightarrow> ''no accounts configured for provider `'' @ p @ ''`''
                    | None \<Rightarrow> ''no accounts configured; run `mscode login add` to add one'') w2
                  else
                    fold (\<lambda>a. println (account_line a)) rows
                      (println (column 10 ''PROVIDER'' @ '' '' @ column 14 ''LABEL'' @ '' '' @ column 8 ''STATUS'' @ '' '' @
                         column 8 ''DEFAULT'' @ '' ENDPOINT'') w2))))"

text \<open>\<^verbatim>\<open>remove\<close> and \<^verbatim>\<open>use\<close>: one operation of the store and a line that says it is done.\<close>

definition run_store_op ::
    "'k host \<Rightarrow> ('k vault keyring_api \<Rightarrow> 'k vault sql_store \<Rightarrow> (unit, cred_error) result \<times> 'k vault sql_store) \<Rightarrow> string \<Rightarrow>
     'k world \<Rightarrow> 'k exit" where
  "run_store_op h f msg w =
    (case credential_store h w of
       (Err e, w1) \<Rightarrow> fail e w1
     | (Ok B, w1) \<Rightarrow>
         (case f B (wo_store w1) of
            (Ok _, s) \<Rightarrow> (0, println msg (w1\<lparr> wo_store := s \<rparr>))
          | (Err e, s) \<Rightarrow> (2, print_credential_error e (w1\<lparr> wo_store := s \<rparr>))))"

definition run_login_remove :: "'k host \<Rightarrow> string \<Rightarrow> string \<Rightarrow> 'k world \<Rightarrow> 'k exit" where
  "run_login_remove h p l = run_store_op h (\<lambda>B. sql_remove B p l) (''removed '' @ p @ ''/'' @ l)"

definition run_login_use :: "'k host \<Rightarrow> string \<Rightarrow> string \<Rightarrow> 'k world \<Rightarrow> 'k exit" where
  "run_login_use h p l = run_store_op h (\<lambda>B. sql_set_default p l) (''default for '' @ p @ '' is now `'' @ l @ ''`'')"

subsection \<open>The binary\<close>

fun run_login :: "'k host \<Rightarrow> login_command \<Rightarrow> 'k world \<Rightarrow> 'k exit option" where
  "run_login h (LoginAdd provider label endpoint api_key api_key_stdin set_def) w =
     run_login_add h provider label endpoint api_key api_key_stdin set_def w"
| "run_login h (LoginList provider) w = Some (run_login_list h provider w)"
| "run_login h (LoginRemove p l) w = Some (run_login_remove h p l w)"
| "run_login h (LoginUse p l) w = Some (run_login_use h p l w)"

fun run_main :: "'k host \<Rightarrow> command option \<Rightarrow> 'k world \<Rightarrow> 'k exit option" where
  "run_main h None w = Some (run_version h w)"
| "run_main h (Some CmdVersion) w = Some (run_version h w)"
| "run_main h (Some CmdNew) w = Some (run_new h w)"
| "run_main h (Some (CmdSessions all)) w = Some (run_sessions h all w)"
| "run_main h (Some (CmdResume i)) w = Some (run_resume h i w)"
| "run_main h (Some (CmdChat session)) w = Some (run_chat h session w)"
| "run_main h (Some (CmdModels all provider)) w = Some (run_models h all provider w)"
| "run_main h (Some (CmdLogin cmd)) w = run_login h cmd w"

subsection \<open>Reading commands\<close>

lemma println_simps [simp]:
  "wo_sessions (println s w) = wo_sessions w" "wo_store (println s w) = wo_store w"
  "wo_out (println s w) = wo_out w @ s @ [nl]" "wo_err (println s w) = wo_err w"
  "wo_sessions (eprintln s w) = wo_sessions w" "wo_store (eprintln s w) = wo_store w"
  "wo_out (eprintln s w) = wo_out w" "wo_stdin (println s w) = wo_stdin w" "wo_stdin (eprintln s w) = wo_stdin w"
  by (simp_all add: println_def eprintln_def)

lemma fail_simps [simp]:
  "fst (fail s w) = 2" "wo_sessions (snd (fail s w)) = wo_sessions w" "wo_store (snd (fail s w)) = wo_store w"
  by (simp_all add: fail_def)

lemma print_credential_error_simps [simp]:
  "wo_sessions (print_credential_error e w) = wo_sessions w" "wo_store (print_credential_error e w) = wo_store w"
  by (cases e; simp add: print_credential_error_def)+

lemma fold_println [simp]:
  "wo_sessions (fold (\<lambda>r. println (f r)) rs w) = wo_sessions w"
  "wo_store (fold (\<lambda>r. println (f r)) rs w) = wo_store w"
  "wo_out (fold (\<lambda>r. println (f r)) rs w) = wo_out w @ concat (map (\<lambda>r. f r @ [nl]) rs)"
  by (induction rs arbitrary: w) simp_all

text \<open>The tables and the secrets are as they were, in the keyring of the system and in every file; the rest of the world
  is printed text, input, coming faults, and what this process has read.\<close>

definition same_data :: "'k world \<Rightarrow> 'k world \<Rightarrow> bool" where
  "same_data w w' \<longleftrightarrow>
    db_rows (wo_sessions w') = db_rows (wo_sessions w) \<and>
    db_rows (sq_db (wo_store w')) = db_rows (sq_db (wo_store w)) \<and>
    va_os (sq_keyring (wo_store w')) = va_os (sq_keyring (wo_store w)) \<and>
    va_files (sq_keyring (wo_store w')) = va_files (sq_keyring (wo_store w))"

lemma same_data_refl [simp]: "same_data w w"
  by (simp add: same_data_def)

lemma open_keyring_same: "open_keyring_at h path v = Ok v' \<Longrightarrow> va_os v' = va_os v \<and> va_files v' = va_files v"
  by (auto simp: open_keyring_at_def set_vault_file_def fk_open_def fun_upd_idem split: if_splits option.splits result.splits)

lemma credential_store_same:
  assumes "credential_store h w = (r, w1)"
  shows "same_data w w1 \<and> sq_db (wo_store w1) = sq_db (wo_store w) \<and> wo_sessions w1 = wo_sessions w \<and> wo_out w1 = wo_out w"
  using assms
  by (auto simp: credential_store_def same_data_def split: result.splits option.splits if_splits prod.splits
      dest!: open_keyring_same)

text \<open>The law of the keyrings, which both of them keep.\<close>

lemma os_keyring_backend: "keyring_backend B \<Longrightarrow> keyring_backend (os_keyring B)"
  unfolding keyring_backend_def by (auto simp: os_keyring_def split: prod.splits)

interpretation vault_kr: keyring_backend "keyring_at enc path" for enc path
  by unfold_locales
    (auto simp: keyring_at_def file_backend_def vault_file_def set_vault_file_def update_conv' delete_conv'
      split: prod.splits dest!: fk_flush_mapD)

lemma credential_store_backend:
  "credential_store h w = (Ok B, w1) \<Longrightarrow> keyring_backend (ho_os_keyring h) \<Longrightarrow> keyring_backend B"
  by (auto simp: credential_store_def os_keyring_backend vault_kr.keyring_backend_axioms
      split: result.splits option.splits if_splits prod.splits)

lemma session_read_rows:
  "db_rows (snd (list_sessions f db)) = db_rows db"
  "db_rows (snd (session_get_by_id_prefix i db)) = db_rows db"
proof -
  have q: "db_rows (snd (query_rows session_schema P order n db)) = db_rows db" for P order n and db :: session_db
    unfolding query_rows_def with_conn_def by (intro db_try_rows) simp
  then show "db_rows (snd (list_sessions f db)) = db_rows db" by (simp add: list_sessions_def)
  have g: "db_rows (snd (session_get_by_id i db)) = db_rows db"
    unfolding session_get_by_id_def get_row_def with_id_def with_conn_def
    by (cases "empty_id i") (simp, simp, intro db_try_rows, simp)
  obtain x d where x: "session_get_by_id i db = (x, d)" by force
  let ?q = "query_rows session_schema (\<lambda>r. sql_like (i @ ''%'') (se_id r)) (order_asc se_id) None"
  obtain y e where y: "?q d = (y, e)" by force
  have "db_rows e = db_rows db" "db_rows d = db_rows db"
    using q [of _ _ _ d] g x y by (metis snd_conv)+
  then show "db_rows (snd (session_get_by_id_prefix i db)) = db_rows db"
    by (auto simp: session_get_by_id_prefix_def db_bind_def x y split: result.splits option.splits)
qed

lemma on_rows_frame:
  "db_rows (sq_db (snd (on_rows m s))) = db_rows (snd (m (sq_db s)))" "sq_keyring (snd (on_rows m s)) = sq_keyring s"
  by (simp_all add: on_rows_def split: prod.split)

lemma sql_read_frame:
  "db_rows (sq_db (snd (sql_list T J s))) = db_rows (sq_db s)"
  "db_rows (sq_db (snd (sql_list_for_provider T J p s))) = db_rows (sq_db s)"
  "sq_keyring (snd (sql_list T J s)) = sq_keyring s"
  "sq_keyring (snd (sql_list_for_provider T J p s)) = sq_keyring s"
  unfolding sql_list_def sql_list_for_provider_def on_rows_frame by (simp_all add: db_try_rows)

lemma load_models_same: "same_data w (snd (load_models_items h p all w)) \<and>
    wo_sessions (snd (load_models_items h p all w)) = wo_sessions w \<and>
    wo_out (snd (load_models_items h p all w)) = wo_out w"
proof -
  obtain r w1 where c: "credential_store h w = (r, w1)" by force
  note s = credential_store_same [OF c]
  have "same_data w (snd (account_providers h w)) \<and> wo_sessions (snd (account_providers h w)) = wo_sessions w \<and>
      wo_out (snd (account_providers h w)) = wo_out w"
    using s sql_read_frame(1,3) [of "ho_time h" "ho_json h" "wo_store w1"]
    by (auto simp: account_providers_def c same_data_def split: result.splits prod.splits)
  then show ?thesis
    by (auto simp: load_models_items_def allowed_providers_def split: prod.splits)
qed

fun reads_only :: "command option \<Rightarrow> bool" where
  "reads_only (Some CmdNew) = False"
| "reads_only (Some (CmdLogin (LoginList _))) = True"
| "reads_only (Some (CmdLogin _)) = False"
| "reads_only _ = True"

lemma same_data_sessions:
  "same_data (w\<lparr> wo_sessions := d \<rparr>) w' \<Longrightarrow> db_rows d = db_rows (wo_sessions w) \<Longrightarrow> same_data w w'"
  by (simp add: same_data_def)

lemma same_data_print [simp]:
  "same_data w (println s w') = same_data w w'" "same_data w (eprintln s w') = same_data w w'"
  "same_data w (print_credential_error e w') = same_data w w'" "same_data w (snd (fail s w')) = same_data w w'"
  "same_data w (fold (\<lambda>r. println (f r)) rs w') = same_data w w'"
  by (simp_all add: same_data_def)

lemma launch_tui_same: "same_data w (snd (launch_tui h i w))"
proof (cases "load_models_items h None False w")
  case (Pair items w1)
  with load_models_same [of w h None False] show ?thesis by (auto simp: launch_tui_def split: option.split)
qed

lemma run_models_same: "same_data w (snd (run_models h all p w))"
proof (cases "load_models_items h p all w")
  case (Pair items w1)
  with load_models_same [of w h p all] show ?thesis by (simp add: run_models_def split: option.split)
qed

lemma run_sessions_same: "same_data w (snd (run_sessions h all w))"
proof (cases "list_sessions (sessions_filter h all) (wo_sessions w)")
  case (Pair r d)
  have "db_rows d = db_rows (wo_sessions w)" by (metis Pair session_read_rows(1) snd_conv)
  then have "same_data w (w\<lparr> wo_sessions := d \<rparr>)" by (simp add: same_data_def)
  with Pair show ?thesis by (simp add: run_sessions_def split: result.split)
qed

lemma resolve_same:
  assumes "session_get_by_id_prefix i (wo_sessions w) = (r, d)"
  shows "same_data w (w\<lparr> wo_sessions := d \<rparr>)" "same_data w (snd (launch_tui h j (w\<lparr> wo_sessions := d \<rparr>)))"
proof -
  have d: "db_rows d = db_rows (wo_sessions w)" using session_read_rows(2) [of i "wo_sessions w"] assms by simp
  then show "same_data w (w\<lparr> wo_sessions := d \<rparr>)" by (simp add: same_data_def)
  show "same_data w (snd (launch_tui h j (w\<lparr> wo_sessions := d \<rparr>)))"
    by (rule same_data_sessions [OF launch_tui_same d])
qed

lemma run_resume_same: "same_data w (snd (run_resume h i w))"
proof (cases "session_get_by_id_prefix i (wo_sessions w)")
  case (Pair r d)
  with resolve_same [OF Pair] show ?thesis by (simp add: run_resume_def Let_def split: result.split)
qed

lemma run_chat_same: "same_data w (snd (run_chat h session w))"
proof (cases session)
  case None
  then show ?thesis by (simp add: run_chat_def launch_tui_same)
next
  case (Some i)
  obtain r d where Pair: "session_get_by_id_prefix i (wo_sessions w) = (r, d)" by force
  with Some resolve_same [OF Pair] show ?thesis by (simp add: run_chat_def split: result.split)
qed

lemma run_login_list_same: "same_data w (snd (run_login_list h p w))"
proof (cases "credential_store h w")
  case (Pair r w1)
  note s = credential_store_same [OF Pair]
  let ?m = "case p of Some p \<Rightarrow> sql_list_for_provider (ho_time h) (ho_json h) p (wo_store w1)
    | None \<Rightarrow> sql_list (ho_time h) (ho_json h) (wo_store w1)"
  have "db_rows (sq_db (snd ?m)) = db_rows (sq_db (wo_store w1))" "sq_keyring (snd ?m) = sq_keyring (wo_store w1)"
    by (simp_all add: sql_read_frame split: option.split)
  with s have "same_data w (w1\<lparr> wo_store := snd ?m \<rparr>)" by (simp add: same_data_def)
  moreover obtain x t where "?m = (x, t)" by force
  ultimately show ?thesis using s Pair by (simp add: run_login_list_def Let_def split: result.split)
qed

lemma run_version_same: "same_data w (snd (run_version h w))"
  by (simp add: run_version_def)

lemma same_dataD: "x = (code, w') \<Longrightarrow> same_data w (snd x) \<Longrightarrow> same_data w w'"
  by simp

text \<open>C37: a command that only looks (version, sessions, resume, chat, models, login list) leaves the tables of
  sessions and accounts as they are, and every stored secret, in the keyring of the system and in every keyring file,
  whatever fails while it runs. So \<^verbatim>\<open>chat\<close> creates no session, though its help says that it does.\<close>

theorem looking_changes_nothing:
  assumes "run_main h c w = Some (code, w')" "reads_only c"
  shows "same_data w w'"
  using assms
  by (cases c rule: reads_only.cases)
    (auto dest: same_dataD [OF _ run_version_same] same_dataD [OF _ run_sessions_same] same_dataD [OF _ run_resume_same]
      same_dataD [OF _ run_chat_same] same_dataD [OF _ run_models_same] same_dataD [OF _ run_login_list_same])

subsection \<open>From one process to the next\<close>

lemma session_prefix_exact:
  assumes inv: "session_inv db" and "reliable db" "\<not> empty_id i" "session_map db i = Some s"
  shows "\<exists>e. session_get_by_id_prefix i db = (Ok s, e)"
proof -
  obtain q d where g: "session_get_by_id i db = (q, d)" by force
  from sessions.get_row_spec [OF inv [unfolded session_inv_def] g [unfolded session_get_by_id_def]] assms(2-4)
  have "q = Ok (Some s)" by (auto simp: session_map_def split: result.splits)
  with assms(3) show ?thesis by (simp add: session_get_by_id_prefix_def db_bind_def g)
qed

lemma dom_sessions: "session_inv db \<Longrightarrow> dom (session_map db) = set (map se_id (db_rows db))"
  using sessions.table_map_None [of db] by (auto simp: dom_def session_map_def session_inv_def)

lemma finite_sessions: "session_inv db \<Longrightarrow> finite (dom (session_map db))"
  by (simp add: dom_sessions)

lemma length_sessions:
  assumes "session_inv db"
  shows "length (db_rows db) = card (dom (session_map db))"
proof -
  have "dom (session_map db) = set (map se_id (db_rows db))" by (rule dom_sessions [OF assms])
  moreover have "distinct (map se_id (db_rows db))" using assms by (simp add: session_inv_def table_inv_def)
  ultimately show ?thesis using distinct_card by (metis length_map)
qed

lemma best_of_all: "best_of R n rs out \<Longrightarrow> length rs \<le> n \<Longrightarrow> mset out = mset rs"
proof -
  assume "best_of R n rs out" "length rs \<le> n"
  then obtain rest where r: "mset (out @ rest) = mset rs" "length out = length rs" by (auto simp: best_of_def)
  with mset_eq_length [OF r(1)] show "mset out = mset rs" by simp
qed

lemma list_all_sessions:
  assumes "session_inv db" "reliable db" "length (db_rows db) \<le> 200"
  shows "\<exists>out d. list_sessions (sessions_filter h True) db = (Ok out, d) \<and> mset out = mset (db_rows db)"
proof -
  have n: "row_limit (Some 200) = 200" by (simp add: row_limit_def unwrap_or_def)
  obtain q d where l: "list_sessions (sessions_filter h True) db = (q, d)" by force
  from l have "query_rows session_schema (\<lambda>r. True) (order_desc se_updated_at) (Some 200) db = (q, d)"
    by (simp add: list_sessions_def sessions_filter_def n)
  from sessions.query_first [OF assms(1) [unfolded session_inv_def] this mset_order(2) sorted_order(2) assms(2)]
  obtain vs where "q = Ok vs" "best_of (\<lambda>a b. se_updated_at b \<le> se_updated_at a) 200 (db_rows db) vs" by auto
  with best_of_all [OF this(2) assms(3)] l show ?thesis by blast
qed

text \<open>C33: on databases that answer, \<^verbatim>\<open>new\<close> prints the identifier of a session that it stores; a later
  \<^verbatim>\<open>resume\<close> in any directory finds it by that identifier, and while there are at most 200 sessions a
  later \<^verbatim>\<open>sessions --all\<close> lists it.\<close>

theorem new_session_resumes:
  assumes "session_reach (wo_sessions w)" "reliable (wo_sessions w)"
    and "\<not> empty_id (ho_uuid h)" "session_map (wo_sessions w) (ho_uuid h) = None"
    and "open_state h = Ok ()" "open_state h2 = Ok ()" "\<not> ho_tty h2"
  defines "s \<equiv> session_of_new (new_session_of h) (ho_now_text h)"
  shows "\<exists>w1 w2 w3 rows. run_main h (Some CmdNew) w = Some (0, w1) \<and> wo_out w1 = wo_out w @ ho_uuid h @ [nl] \<and>
    run_main h2 (Some (CmdResume (ho_uuid h))) w1 = Some (0, w2) \<and> wo_out w2 = wo_out w1 @ ho_uuid h @ [nl] \<and>
    (length (db_rows (wo_sessions w)) < 200 \<longrightarrow>
      run_main h2 (Some (CmdSessions True)) w1 = Some (0, w3) \<and> s \<in> set rows \<and>
      wo_out w3 = wo_out w1 @ concat (map (\<lambda>r. session_line r @ [nl]) rows))"
proof -
  let ?db = "wo_sessions w" and ?n = "new_session_of h"
  have id: "ns_id ?n = ho_uuid h" "se_id s = ho_uuid h" by (simp_all add: new_session_of_def s_def)
  obtain out d where c: "session_create ?n (ho_now_text h) ?db = (out, d)" by force
  note inv = reach_session_inv [OF assms(1)]
  note o = session_create_outcome [OF inv c]
  from o assms(2-4) have out: "out = Ok s" and d: "session_inv d" "reliable d" "session_map d (ho_uuid h) = Some s"
      "session_map d = (session_map ?db)(ho_uuid h \<mapsto> s)"
    unfolding session_outcome_def id s_def by (auto simp: ok_value_def is_ok_iff)
  define w1 where "w1 = println (ho_uuid h) (w\<lparr> wo_sessions := d \<rparr>)"
  have new: "run_main h (Some CmdNew) w = Some (0, w1)" "wo_sessions w1 = d"
    using assms(5) by (simp_all add: run_new_def c out id w1_def)
  obtain e where "session_get_by_id_prefix (ho_uuid h) d = (Ok s, e)"
    using session_prefix_exact [OF d(1,2) assms(3) d(3)] by blast
  then have res: "run_main h2 (Some (CmdResume (ho_uuid h))) w1 = Some (0, println (ho_uuid h) (w1\<lparr> wo_sessions := e \<rparr>))"
    using assms(6,7) by (simp add: run_resume_def new(2) id)
  have ses: "\<exists>w3 rows. run_main h2 (Some (CmdSessions True)) w1 = Some (0, w3) \<and> s \<in> set rows \<and>
      wo_out w3 = wo_out w1 @ concat (map (\<lambda>r. session_line r @ [nl]) rows)"
    if "length (db_rows ?db) < 200"
  proof -
    have "length (db_rows d) = Suc (length (db_rows ?db))"
      using length_sessions [OF d(1)] length_sessions [OF inv] finite_sessions [OF inv] d(4) assms(4) by (simp add: domIff)
    with that list_all_sessions [OF d(1,2), of h2] obtain rows d3 where
      l: "list_sessions (sessions_filter h2 True) d = (Ok rows, d3)" "mset rows = mset (db_rows d)" by auto
    have "s \<in> set (db_rows d)"
      using d(3) sessions.table_map_Some [OF d(1) [unfolded session_inv_def]] by (simp add: session_map_def)
    with mset_eq_setD [OF l(2)] have "s \<in> set rows" by simp
    with l(1) assms(6) show ?thesis by (auto simp: run_sessions_def new(2))
  qed
  then show ?thesis using new(1) res by (fastforce simp: w1_def)
qed

subsection \<open>The list of models\<close>

lemma sql_readsD: "sql_reads T J s (out, s') r \<Longrightarrow> reliable (sq_db s) \<Longrightarrow> out = r"
  by (simp add: sql_reads_def)

lemma listed_providers:
  assumes "sql_inv (ho_time h) (ho_json h) (wo_store w)" "reliable (sq_db (wo_store w))" "credential_store h w = (Ok B, w1)"
  shows "set (fst (account_providers h w)) = ar_provider ` set (db_rows (sq_db (wo_store w)))"
proof -
  have db: "sq_db (wo_store w1) = sq_db (wo_store w)" using credential_store_same [OF assms(3)] by simp
  have inv: "sql_inv (ho_time h) (ho_json h) (wo_store w1)" using assms(1) by (simp add: sql_inv_def db)
  obtain out s where l: "sql_list (ho_time h) (ho_json h) (wo_store w1) = (out, s)" by force
  have "reliable (sq_db (wo_store w1))" unfolding db by (rule assms(2))
  from sql_readsD [OF sql_list_reads [OF inv, unfolded l] this]
  have "out = Ok (list_accounts (sql_abs (ho_time h) (ho_json h) (wo_store w1)))" .
  with l have "fst (account_providers h w) =
      remdups_adj (sort (map ac_provider (list_accounts (sql_abs (ho_time h) (ho_json h) (wo_store w1)))))"
    by (simp add: account_providers_def assms(3))
  moreover have "set (map ac_provider (list_accounts (sql_abs (ho_time h) (ho_json h) (wo_store w1)))) =
      ar_provider ` set (db_rows (sq_db (wo_store w)))"
    by (simp add: list_accounts_def db image_image)
  ultimately show ?thesis by (simp only: remdups_adj_set set_sort)
qed

text \<open>The models of the providers of a catalog that satisfy \<open>P\<close>, in the order of the catalog, as the picker has them
  and as a table.\<close>

definition catalog_items :: "(string \<Rightarrow> bool) \<Rightarrow> models_catalog \<Rightarrow> model_item list" where
  "catalog_items P c = concat (map (\<lambda>(k, p). if P k then map (\<lambda>(_, m).
     \<lparr> mi_provider_id = k, mi_model_id = me_id m, mi_display_label = pe_name p @ '' / '' @ me_name m,
       mi_context_window = ml_context (me_limit m), mi_supports_tools = me_tool_call m \<rparr>) (pe_models p) else []) c)"

definition table_row :: "string \<Rightarrow> string \<Rightarrow> string \<Rightarrow> string \<Rightarrow> string \<Rightarrow> string" where
  "table_row provider name context tools model =
    column 14 provider @ '' '' @ column 34 name @ '' '' @ column 10 context @ '' '' @ column 6 tools @ '' '' @ model @ [nl]"

definition models_table :: "model_item list \<Rightarrow> string" where
  "models_table items = table_row ''PROVIDER'' ''NAME'' ''CONTEXT'' ''TOOLS'' ''MODEL'' @
    concat (map (\<lambda>m. table_row (mi_provider_id m) (mi_display_label m)
      (case mi_context_window m of Some c \<Rightarrow> show_nat (unat c) | None \<Rightarrow> ''-'')
      (if mi_supports_tools m then ''yes'' else []) (mi_model_id m)) items)"

lemma filtered_catalog_items:
  assumes "keys_are_ids c"
  shows "map model_item_of (filter (\<lambda>r. mr_provider_id r \<in> A) (all_models c)) = catalog_items (\<lambda>k. k \<in> A) c"
  using assms
  by (induction c)
    (auto simp: all_models_def keys_are_ids_def filter_provider_models catalog_items_def provider_models_def
      model_item_of_def comp_def split_def)

lemma catalog_items_cong:
  "(\<And>k. k \<in> fst ` set c \<Longrightarrow> P k = Q k) \<Longrightarrow> catalog_items P c = catalog_items Q c"
  by (induction c) (auto simp: catalog_items_def)

lemma run_models_table:
  assumes "load_models_items h provider all w = (items, w1)"
  shows "\<exists>w'. run_models h all provider w = (0, w') \<and>
    (if items = [] then \<exists>hint. wo_out w' = wo_out w @ hint @ [nl] else wo_out w' = wo_out w @ models_table items)"
  using assms load_models_same [of w h provider all]
  by (simp add: run_models_def models_table_def table_row_def model_line_def)

text \<open>C36: \<^verbatim>\<open>models\<close> and the picker of the terminal show exactly the models of the catalog whose provider has an
  account, in the order of the catalog: \<^verbatim>\<open>models\<close> prints them as a table, one row each, and \<^verbatim>\<open>chat\<close> and
  \<^verbatim>\<open>resume\<close> give them to the application that they start. \<^verbatim>\<open>--provider\<close> leaves only those of one provider, \<^verbatim>\<open>--all\<close>
  asks for no account. Without a match a hint is printed; a credential store that cannot be opened has no accounts.\<close>

theorem models_of_accounts:
  assumes "sql_reach (ho_time h) (ho_json h) B0 (wo_store w)" "texts_ok (ho_time h) (ho_json h)"
    and "reliable (sq_db (wo_store w))" "credential_store h w = (r, w1)" "keys_are_ids (ho_catalog h)"
  defines "ids \<equiv> if is_ok r then ar_provider ` set (db_rows (sq_db (wo_store w))) else {}"
  shows "(\<exists>w'. run_main h (Some (CmdModels all provider)) w = Some (0, w') \<and>
      (let items = catalog_items (\<lambda>k. (all \<or> k \<in> ids) \<and> (case provider of None \<Rightarrow> True | Some p \<Rightarrow> k = p)) (ho_catalog h)
       in if items = [] then \<exists>hint. wo_out w' = wo_out w @ hint @ [nl]
          else wo_out w' = wo_out w @ models_table items)) \<and>
    (\<exists>a w'. ap_models_items a = catalog_items (\<lambda>k. k \<in> ids) (ho_catalog h) \<and>
      launch_tui h i w = (case ho_tui h a of None \<Rightarrow> (0, w') | Some e \<Rightarrow> fail (''tui error: '' @ e) w'))"
proof -
  let ?c = "ho_catalog h"
  have ids: "set (fst (account_providers h w)) = ids"
  proof (cases r)
    case (Ok B)
    with assms(4) listed_providers [OF reach_sql_inv [OF assms(1,2)] assms(3)] show ?thesis by (simp add: ids_def)
  next
    case (Err e)
    with assms(4) show ?thesis by (simp add: ids_def account_providers_def)
  qed
  have items: "fst (load_models_items h provider all w) =
      catalog_items (\<lambda>k. (all \<or> k \<in> ids) \<and> (case provider of None \<Rightarrow> True | Some p \<Rightarrow> k = p)) ?c" for all provider
  proof -
    have "fst (load_models_items h provider all w) =
        catalog_items (\<lambda>k. k \<in> fst (allowed_providers h provider all w)) ?c"
      by (simp add: load_models_items_def split_def filtered_catalog_items [OF assms(5)])
    also have "\<dots> = catalog_items (\<lambda>k. (all \<or> k \<in> ids) \<and> (case provider of None \<Rightarrow> True | Some p \<Rightarrow> k = p)) ?c"
      using ids by (intro catalog_items_cong) (auto simp: allowed_providers_def split_def split: option.splits)
    finally show ?thesis .
  qed
  obtain its w2 where l: "load_models_items h provider all w = (its, w2)" by force
  obtain its' w3 where l': "load_models_items h None False w = (its', w3)" by force
  have "\<exists>a w'. ap_models_items a = its' \<and>
      launch_tui h i w = (case ho_tui h a of None \<Rightarrow> (0, w') | Some e \<Rightarrow> fail (''tui error: '' @ e) w')"
    by (intro exI [of _ "with_models its' (app_new (current_cwd h) tui_config_default)"] exI [of _ w3])
      (simp add: launch_tui_def l' with_models_def)
  moreover have "its = catalog_items (\<lambda>k. (all \<or> k \<in> ids) \<and> (case provider of None \<Rightarrow> True | Some p \<Rightarrow> k = p)) ?c"
    "its' = catalog_items (\<lambda>k. k \<in> ids) ?c"
    using items [of provider all] items [of None False] l l' by simp_all
  moreover note run_models_table [OF l]
  ultimately show ?thesis unfolding run_main.simps option.inject Let_def by blast
qed

subsection \<open>Adding an account\<close>

lemma add_ok_iff:
  "is_ok (fst (add B a key_id row_id now s)) \<longleftrightarrow>
    validate_new a = Ok () \<and> is_ok (resolve_endpoint a) \<and> is_ok (fst (kr_store B key_id (na_api_key a) (cs_backend s))) \<and>
    map_of (cs_rows s) (na_provider a, na_label a) = None"
  by (cases "validate_new a"; cases "resolve_endpoint a"; cases "kr_store B key_id (na_api_key a) (cs_backend s)";
      cases "fst (kr_store B key_id (na_api_key a) (cs_backend s))")
    (auto simp: add_def split: prod.split)

lemma add_refused_rows: "\<not> is_ok (fst (add B a key_id row_id now s)) \<Longrightarrow> cs_rows (snd (add B a key_id row_id now s)) = cs_rows s"
  by (rule add_cases [of B a key_id row_id now s]) auto

lemma add_then_load:
  assumes "keyring_backend B" "add B a key_id row_id now s = (Ok row, t)"
  shows "load_key B (na_provider a) (na_label a) t = Ok (na_api_key a)"
proof (rule add_cases [of B a key_id row_id now s])
  fix ep k1 row' rows
  assume c: "add B a key_id row_id now s = (Ok row', \<lparr> cs_rows = rows, cs_backend = k1 \<rparr>)"
    "kr_store B key_id (na_api_key a) (cs_backend s) = (Ok (), k1)"
    "insert_row (new_row a ep key_id row_id now) (cs_rows s) = (row', rows)"
  have "map_of rows (na_provider a, na_label a) = Some row'" "ac_key_id row' = key_id"
    using c(3) by (auto simp: insert_row_def Let_def new_row_def update_conv' split: if_splits)
  moreover have "kr_load B key_id k1 = Ok (Some (na_api_key a))" by (rule keyring_backend.load_store [OF assms(1) c(2)])
  ultimately show ?thesis using assms(2) c(1) by (auto simp: load_key_def get_locked_def)
qed (use assms(2) in auto)

lemma new_account_of_simps [simp]:
  "na_provider (new_account_of p l k ep d) = p" "na_label (new_account_of p l k ep d) = l"
  "na_api_key (new_account_of p l k ep d) = k"
  by (simp_all add: new_account_of_def with_default_def new_account_new_def with_endpoint_def Let_def split: option.split)

text \<open>C34: on a database that answers, at a time that has a text, \<^verbatim>\<open>login add\<close> with a provider, a label and a key succeeds exactly when
  they are valid, an endpoint is given or known, the keyring stores the key and the account is new; then the key is
  the one that later loads for the account, and otherwise the accounts are as before and the exit code is 2.\<close>

theorem login_add_stores_key:
  assumes "sql_reach (ho_time h) (ho_json h) B0 (wo_store w)" "texts_ok (ho_time h) (ho_json h)" "text_time (ho_now h)"
    and "reliable (sq_db (wo_store w))" "credential_store h w = (Ok B, w1)" "keyring_backend B"
    and "ho_uuid h \<notin> ar_id ` set (db_rows (sq_db (wo_store w)))" "ho_key_uuid h \<notin> ar_key_id ` set (db_rows (sq_db (wo_store w)))"
    and "run_main h (Some (CmdLogin (LoginAdd (Some p) (Some l) ep (Some k) False d))) w = Some (code, w')"
  defines "a \<equiv> new_account_of p l k ep d"
  shows "(code = 0 \<longleftrightarrow> validate_new a = Ok () \<and> is_ok (resolve_endpoint a) \<and>
      is_ok (fst (kr_store B (ho_key_uuid h) k (sq_keyring (wo_store w1)))) \<and>
      (\<forall>r \<in> set (db_rows (sq_db (wo_store w))). \<not> has_name p l r)) \<and>
    (code = 0 \<longrightarrow> fst (sql_load_key (ho_time h) (ho_json h) B p l (wo_store w')) = Ok k) \<and>
    (code \<noteq> 0 \<longrightarrow> code = 2 \<and>
      cs_rows (sql_abs (ho_time h) (ho_json h) (wo_store w')) = cs_rows (sql_abs (ho_time h) (ho_json h) (wo_store w)))"
proof -
  let ?T = "ho_time h" and ?J = "ho_json h" and ?s = "wo_store w1"
  have db: "sq_db ?s = sq_db (wo_store w)" using credential_store_same [OF assms(5)] by simp
  have inv: "sql_inv ?T ?J ?s" using reach_sql_inv [OF assms(1,2)] by (simp add: sql_inv_def db)
  obtain out s' where o: "sql_add ?T ?J B a (ho_key_uuid h) (ho_uuid h) (ho_now h) ?s = (out, s')" by force
  obtain r t where m: "add B a (ho_key_uuid h) (ho_uuid h) (whole_secs (ho_now h)) (sql_abs ?T ?J ?s) = (r, t)" by force
  have "sql_refines ?T ?J ?s (out, s') (r, t)"
    using sql_add_refines [OF inv assms(2,3), of "ho_uuid h" "ho_key_uuid h" B a] assms(7,8) by (simp add: db o m)
  then have s': "sql_inv ?T ?J s'" "out = r" "sql_abs ?T ?J s' = t" "reliable (sq_db s')"
    using assms(4) by (simp_all add: sql_refines_def db)
  have w': "code = (if is_ok r then 0 else 2)" "wo_store w' = s'"
    using assms(9) by (auto simp: run_login_add_def should_launch_wizard_def finish_login_add_def read_secret_def
        store_account_def assms(5) o [unfolded a_def] s'(2) split: result.splits)
  have ok: "is_ok r \<longleftrightarrow> validate_new a = Ok () \<and> is_ok (resolve_endpoint a) \<and>
      is_ok (fst (kr_store B (ho_key_uuid h) k (sq_keyring ?s))) \<and> (\<forall>r \<in> set (db_rows (sq_db (wo_store w))). \<not> has_name p l r)"
    using add_ok_iff [of B a "ho_key_uuid h" "ho_uuid h" "whole_secs (ho_now h)" "sql_abs ?T ?J ?s"]
    unfolding m by (simp add: db a_def map_of_abs find_None_iff Ball_def)
  have "fst (sql_load_key ?T ?J B p l s') = Ok k" if r: "is_ok r"
  proof -
    obtain row where "r = Ok row" using r by (cases r) auto
    from add_then_load [OF assms(6) m [unfolded this]] have "load_key B p l t = Ok k" by (simp add: a_def)
    moreover obtain x y where xy: "sql_load_key ?T ?J B p l s' = (x, y)" by force
    moreover have "x = load_key B p l t"
      by (rule sql_readsD [OF sql_load_key_reads [OF s'(1), of B p l, unfolded xy s'(3)] s'(4)])
    ultimately show ?thesis by simp
  qed
  moreover have "cs_rows t = cs_rows (sql_abs ?T ?J (wo_store w))" if "\<not> is_ok r"
    using add_refused_rows [of B a "ho_key_uuid h" "ho_uuid h" "whole_secs (ho_now h)" "sql_abs ?T ?J ?s"] that
    by (simp add: m db)
  ultimately show ?thesis using ok w' s'(3) by auto
qed

subsection \<open>Providers without an endpoint\<close>

lemma no_custom_ids: "list_all (\<lambda>e. \<not> starts_with ''custom:'' (ce_id e)) PROVIDER_CATALOG"
  by code_simp

lemma custom_no_endpoint: "starts_with ''custom:'' p \<Longrightarrow> default_endpoint p = None"
proof -
  assume c: "starts_with ''custom:'' p"
  have "lookup p = None"
  proof (rule ccontr)
    assume "lookup p \<noteq> None"
    then obtain e where "lookup p = Some e" by blast
    then have "e \<in> set PROVIDER_CATALOG" "ce_id e = p" unfolding lookup_def by (auto dest: find_Some_in)
    with c no_custom_ids show False by (auto simp: list_all_iff)
  qed
  then show ?thesis by (simp add: default_endpoint_def)
qed

lemma resolve_unknown: "default_endpoint p = None \<Longrightarrow> \<not> is_ok (resolve_endpoint (new_account_of p l k None d))"
  by (simp add: resolve_endpoint_def new_account_of_def with_default_def new_account_new_def Let_def)

lemma sql_add_refused:
  assumes "\<not> is_ok (resolve_endpoint a)"
  shows "\<exists>e. sql_add T J B a key_id row_id now s = (Err e, s)"
  using assms by (cases "validate_new a"; cases "resolve_endpoint a") (simp_all add: sql_add_def)


subsection \<open>A process to run\<close>

definition demo_wizard_keys :: "key_event list" where
  "demo_wizard_keys = map key [KDown, KDown, KDown, KDown, KDown, KDown, KEnter, KChar ''w'', KEnter, KChar ''k'', KEnter]"

definition demo_host :: "bool \<Rightarrow> file_keyring host" where
  "demo_host tty =
    \<lparr> ho_version = \<lparr> mv_major = 0, mv_minor = 1, mv_patch = 0, mv_git_sha = None \<rparr>,
      ho_var = (\<lambda>x. if x = ''HOME'' then Some ''/h'' else None), ho_cwd = Some ''/w'', ho_tty = tty,
      ho_open_state = (\<lambda>_. None), ho_os_keyring = file_backend demo_enc,
      ho_map_print = demo_enc, ho_map_parse = demo_dec, ho_unreadable = (\<lambda>_. False),
      ho_time = demo_clock, ho_json = demo_objects, ho_uuid = ''u1'', ho_key_uuid = ''k9'',
      ho_now_text = ''2026-01-03T00:00:00Z'', ho_now = 0, ho_catalog = demo_models_catalog, ho_low = (\<lambda>s. s),
      ho_keys = demo_wizard_keys, ho_wizard_fault = None, ho_tui = (\<lambda>_. None), ho_password = Ok ''pw'' \<rparr>"

definition demo_keyring :: "file_keyring vault keyring_api" where
  "demo_keyring = os_keyring (file_backend demo_enc)"

definition demo_vault :: "file_keyring vault" where
  "demo_vault = \<lparr> va_os = cs_backend demo_store, va_files = [''/k'' \<mapsto> demo_enc [(''k2'', ''s'')]], va_map = [], va_faults = [] \<rparr>"

definition demo_accounts :: "file_keyring vault sql_store" where
  "demo_accounts = snd (sql_add demo_clock demo_objects demo_keyring demo_account ''k1'' ''r1'' 0
     \<lparr> sq_db = db_new rev [], sq_keyring = demo_vault \<rparr>)"

lemma demo_accounts_reach: "sql_reach demo_clock demo_objects demo_keyring demo_accounts"
  unfolding demo_accounts_def
  by (rule sq_add [OF sq_new]) (simp_all add: db_ok_def db_new_def text_time_def)

lemma demo_accounts_reliable: "reliable (sq_db demo_accounts)"
  by code_simp

definition demo_world :: "file_keyring world" where
  "demo_world = \<lparr> wo_sessions = demo_db, wo_store = demo_accounts, wo_stdin = [], wo_out = [], wo_err = [] \<rparr>"

lemma demo_open [simp]: "open_state (demo_host tty) = Ok ()"
  by (simp add: open_state_def state_db_path_def dirs_home_def demo_host_def)

lemma demo_store_ok [simp]: "credential_store (demo_host tty) demo_world = (Ok demo_keyring, demo_world)"
  unfolding credential_store_def demo_open by (simp add: demo_host_def demo_keyring_def)

lemma demo_world_simps [simp]:
  "wo_sessions demo_world = demo_db" "wo_store demo_world = demo_accounts" "wo_out demo_world = []"
  by (simp_all add: demo_world_def)

lemma demo_host_simps [simp]:
  "ho_time (demo_host tty) = demo_clock" "ho_json (demo_host tty) = demo_objects" "ho_uuid (demo_host tty) = ''u1''"
  "ho_key_uuid (demo_host tty) = ''k9''" "ho_tty (demo_host tty) = tty" "ho_catalog (demo_host tty) = demo_models_catalog"
  by (simp_all add: demo_host_def)

text \<open>A process whose keyring is a file.\<close>

definition demo_file_host :: "file_keyring host" where
  "demo_file_host = (demo_host True)\<lparr> ho_var := (\<lambda>x. if x = ''HOME'' then Some ''/h'' else
     if x = ''MSCODE_CREDENTIALS_FILE'' then Some ''/k'' else None) \<rparr>"

theorem looking_changes_nothing_witness:
  "\<exists>w'. run_main demo_file_host (Some (CmdChat None)) demo_world = Some (0, w') \<and>
    db_rows (sq_db (wo_store w')) = db_rows (sq_db demo_accounts) \<and>
    va_files (sq_keyring (wo_store w')) ''/k'' = Some (demo_enc [(''k2'', ''s'')])"
proof -
  obtain code w' where r: "run_main demo_file_host (Some (CmdChat None)) demo_world = Some (code, w')"
    by (cases "run_chat demo_file_host None demo_world") simp
  have "ho_tui demo_file_host a = None" "ho_tty demo_file_host" for a by (simp_all add: demo_file_host_def demo_host_def)
  with r have "code = 0" by (simp add: run_chat_def launch_tui_def split: prod.splits)
  moreover have "va_files (sq_keyring demo_accounts) ''/k'' = Some (demo_enc [(''k2'', ''s'')])" by code_simp
  ultimately show ?thesis using r looking_changes_nothing [OF r] by (simp add: same_data_def)
qed

lemma new_session_resumes_witness:
  "\<exists>w1 w2. run_main (demo_host False) (Some CmdNew) demo_world = Some (0, w1) \<and>
    run_main (demo_host False) (Some (CmdResume ''u1'')) w1 = Some (0, w2) \<and> wo_out w2 = wo_out w1 @ ''u1'' @ [nl]"
proof -
  have "\<not> empty_id ''u1''" by code_simp
  moreover have "session_map demo_db ''u1'' = None"
    by (simp add: session_map_def table_map_def demo_db_rows)
  ultimately show ?thesis
    using new_session_resumes [of demo_world "demo_host False" "demo_host False"] demo_db_reach demo_db_rows(2) by simp blast
qed

lemma demo_providers: "ar_provider ` set (db_rows (sq_db demo_accounts)) = {''openai''}"
proof -
  have "map ar_provider (db_rows (sq_db demo_accounts)) = [''openai'']" by code_simp
  then show ?thesis by (metis list.simps(15) list.set_map empty_set)
qed

theorem models_of_accounts_witness:
  "(\<exists>w'. run_main (demo_host True) (Some (CmdModels False None)) demo_world = Some (0, w') \<and>
      wo_out w' = models_table [\<lparr> mi_provider_id = ''openai'', mi_model_id = ''o3'', mi_display_label = ''OpenAI / o3'',
        mi_context_window = Some 200000, mi_supports_tools = True \<rparr>]) \<and>
   (\<exists>w' hint. run_main (demo_host True) (Some (CmdModels False (Some ''groq''))) demo_world = Some (0, w') \<and>
      wo_out w' = hint @ [nl])"
proof -
  have k: "keys_are_ids (ho_catalog (demo_host True))" by (simp add: keys_are_ids_def demo_models_catalog_def)
  note shown = models_of_accounts [of "demo_host True" demo_keyring demo_world, OF _ _ _ demo_store_ok k,
    simplified demo_world_simps demo_host_simps, OF demo_accounts_reach demo_texts_ok demo_accounts_reliable,
    THEN conjunct1]
  show ?thesis
    using shown [of False None] shown [of False "Some ''groq''"]
    by (simp add: demo_providers catalog_items_def demo_models_catalog_def Let_def)
qed

lemma demo_keyring_backend: "keyring_backend demo_keyring"
  unfolding demo_keyring_def by (rule os_keyring_backend) (rule file_kr.keyring_backend_axioms)

lemma demo_now: "text_time (ho_now (demo_host tty))"
  by (simp add: demo_host_def text_time_def)

theorem login_add_stores_key_witness:
  "\<exists>w'. run_main (demo_host False) (Some (CmdLogin (LoginAdd (Some ''groq'') (Some ''work'') None (Some ''gsk'') False False)))
      demo_world = Some (0, w') \<and>
    fst (sql_load_key demo_clock demo_objects demo_keyring ''groq'' ''work'' (wo_store w')) = Ok ''gsk''"
proof -
  let ?c = "Some (CmdLogin (LoginAdd (Some ''groq'') (Some ''work'') None (Some ''gsk'') False False))"
  let ?a = "new_account_of ''groq'' ''work'' (''gsk'') None False"
  obtain code w' where r: "run_main (demo_host False) ?c demo_world = Some (code, w')"
    by (cases "run_main (demo_host False) ?c demo_world") (auto simp: run_login_add_def should_launch_wizard_def)
  have v: "validate_new ?a = Ok ()" "is_ok (resolve_endpoint ?a)"
    "is_ok (fst (kr_store demo_keyring ''k9'' ''gsk'' (sq_keyring demo_accounts)))"
    "list_all (\<lambda>r. \<not> has_name ''groq'' ''work'' r) (db_rows (sq_db demo_accounts))"
    "''u1'' \<notin> ar_id ` set (db_rows (sq_db demo_accounts))" "''k9'' \<notin> ar_key_id ` set (db_rows (sq_db demo_accounts))"
    by code_simp+
  show ?thesis
    using login_add_stores_key [OF _ _ _ _ demo_store_ok demo_keyring_backend _ _ r, of demo_keyring]
      demo_accounts_reach demo_texts_ok demo_now demo_accounts_reliable v r
    by (auto simp: list_all_iff)
qed

lemma demo_launch: "launch_login_wizard (demo_host True) = Some (WoFinished ''azure'' ''w'' ''k'')"
  by code_simp


end
