(* ===== verification/Screen.thy ===== *)
theory Screen
  imports TuiApp LoginWizard
begin

text \<open>
  What the terminal shows and how its events arrive: the frames of \<^verbatim>\<open>tui/src/render.rs\<close> and
  \<^verbatim>\<open>tui/src/login_render.rs\<close>, the raw mode guard and the loop of the wizard in \<^verbatim>\<open>tui/src/lib.rs\<close>, and
  \<^verbatim>\<open>App::run\<close> in \<^verbatim>\<open>tui/src/app.rs\<close>. A frame is the list of widgets given to ratatui, each with its
  area; the division of an area by constraints is ratatui's and a parameter, and a text is kept whole, with the
  line breaks that ratatui splits it at. The rows of a picker are read
  through its indices, which are in range (\<open>pp_ok\<close>, \<open>mp_ok\<close>).
\<close>

subsection \<open>Frames\<close>

datatype color = Cyan | DarkGray | Yellow | White | Black | Magenta

datatype attr = Fg color | Bg color | Dim | Bold | Italic | SlowBlink

type_synonym style = "attr list"

type_synonym span = "style \<times> string"

datatype constraint = CMin nat | CLength nat

type_synonym area = "nat \<times> nat \<times> nat \<times> nat"

type_synonym layout = "constraint list \<Rightarrow> area \<Rightarrow> area list"

record block =
  bl_title :: "string option"
  bl_rounded :: bool
  bl_style :: style

datatype widget =
    LineW "span list"
  | ParaW style "block option" "(style \<times> span list) list" bool
  | ListW "block option" "(style \<times> string) list" style string "nat option"

type_synonym frame = "(area \<times> widget) list"

definition bordered :: "string option \<Rightarrow> block" where
  "bordered title = \<lparr> bl_title = title, bl_rounded = False, bl_style = [] \<rparr>"

definition rounded :: "string option \<Rightarrow> block" where
  "rounded title = \<lparr> bl_title = title, bl_rounded = True, bl_style = [] \<rparr>"

text \<open>Characters of the frames that are not ASCII, as UTF-8.\<close>

definition em_dash :: string where "em_dash = [CHR 0xE2, CHR 0x80, CHR 0x94]"

definition ellipsis :: string where "ellipsis = [CHR 0xE2, CHR 0x80, CHR 0xA6]"

definition bullet :: string where "bullet = [CHR 0xE2, CHR 0x80, CHR 0xA2]"

definition star :: string where "star = [CHR 0xE2, CHR 0x9C, CHR 0xA6]"

definition pointer :: string where "pointer = [CHR 0xE2, CHR 0x96, CHR 0xB6, CHR '' '']"

definition caret :: string where "caret = [CHR 0xE2, CHR 0x96, CHR 0x8E]"

definition wrench :: string where "wrench = [CHR 0xF0, CHR 0x9F, CHR 0x94, CHR 0xA7]"

definition arrow_up :: string where "arrow_up = [CHR 0xE2, CHR 0x86, CHR 0x91]"

definition arrow_down :: string where "arrow_down = [CHR 0xE2, CHR 0x86, CHR 0x93]"

definition arrow_left :: string where "arrow_left = [CHR 0xE2, CHR 0x86, CHR 0x90]"

definition arrow_right :: string where "arrow_right = [CHR 0xE2, CHR 0x86, CHR 0x92]"

text \<open>The search box that both pickers have, and the style of the highlighted row.\<close>

definition search_line :: "string \<Rightarrow> span list" where
  "search_line query =
    (if query = [] then [([Fg DarkGray], ''Search: ''), ([Fg DarkGray], ''type to filter'' @ ellipsis)]
     else [([Fg Cyan], ''Search: ''), ([], query)])"

definition highlight :: style where
  "highlight = [Bg Cyan, Fg Black, Bold]"

subsection \<open>The login wizard (login\_render.rs)\<close>

fun step_indicator :: "wizard_step \<Rightarrow> nat \<times> string" where
  "step_indicator WProvider = (1, ''Provider'')"
| "step_indicator WCustomProvider = (1, ''Provider'')"
| "step_indicator WLabel = (2, ''Label'')"
| "step_indicator WSecret = (3, ''Secret'')"
| "step_indicator WDone = (3, ''Done'')"
| "step_indicator WCancelled = (0, ''Cancelled'')"

definition draw_title :: "login_wizard \<Rightarrow> area \<Rightarrow> frame" where
  "draw_title w area =
    (case step_indicator (lw_step w) of
       (n, label) \<Rightarrow>
         [(area, ParaW [] (Some \<lparr> bl_title = None, bl_rounded = True, bl_style = [Fg Cyan] \<rparr>)
            [([], [([Bold], '' mscode login '' @ em_dash @ '' step '' @ show_nat n @ '' of 3: '' @ label @ '' '')])] False)])"

definition provider_row :: "picker_item \<Rightarrow> style \<times> string" where
  "provider_row it =
    (let display =
       (case pi_endpoint it of
          Some ep \<Rightarrow> column 14 (pi_display_name it) @ '' '' @ ep
        | None \<Rightarrow>
            if pi_is_custom it then column 14 (pi_display_name it) @ '' (enter your own id)''
            else pi_display_name it)
     in if pi_is_custom it then ([Fg Magenta], star @ '' '' @ display) else ([], ''  '' @ display))"

definition draw_provider_picker :: "layout \<Rightarrow> login_wizard \<Rightarrow> area \<Rightarrow> frame" where
  "draw_provider_picker L w area =
    (let p = lw_picker w; inner = L [CLength 3, CMin 3] area in
     [(inner ! 0, ParaW [] (Some (rounded (Some '' Select provider ''))) [([], search_line (pp_query p))] False),
      (inner ! 1, ListW (Some (rounded None)) (map provider_row (pp_rows p)) highlight pointer (pp_cursor p))])"

definition draw_text_input_block ::
    "layout \<Rightarrow> area \<Rightarrow> string \<Rightarrow> text_input \<Rightarrow> string option \<Rightarrow> string \<Rightarrow> frame" where
  "draw_text_input_block L area title input pfx hint =
    (let chunks = L [CLength 3, CLength 1] area;
         value_span =
           (if ti_masked input then ([], replicate (length (chars (ti_value input))) (CHR ''*'')) else ([], ti_value input));
         spans = (case pfx of Some x \<Rightarrow> [([Fg Cyan], x)] | None \<Rightarrow> []) @ [value_span, ([SlowBlink], caret)]
     in [(chunks ! 0, ParaW [] (Some (rounded (Some title))) [([], spans)] False),
         (chunks ! 1, LineW [([Fg DarkGray], ''  '' @ hint)])])"

definition draw_custom_input :: "layout \<Rightarrow> login_wizard \<Rightarrow> area \<Rightarrow> frame" where
  "draw_custom_input L w area =
    draw_text_input_block L area '' Custom provider id '' (lw_custom_input w) (Some ''custom:'')
      (''example: together '' @ em_dash @ '' the wizard will prefix `custom:` automatically'')"

definition draw_label_input :: "layout \<Rightarrow> login_wizard \<Rightarrow> area \<Rightarrow> frame" where
  "draw_label_input L w area =
    draw_text_input_block L area '' Account label '' (lw_label_input w) None ''example: work, personal, ci''"

definition draw_secret_input :: "layout \<Rightarrow> login_wizard \<Rightarrow> area \<Rightarrow> frame" where
  "draw_secret_input L w area =
    draw_text_input_block L area '' API key / secret '' (lw_secret_input w) None
      (''value is masked '' @ em_dash @ '' stored via OS keyring at exit'')"

definition draw_content :: "layout \<Rightarrow> login_wizard \<Rightarrow> area \<Rightarrow> frame" where
  "draw_content L w area =
    (case lw_step w of
       WProvider \<Rightarrow> draw_provider_picker L w area
     | WCustomProvider \<Rightarrow> draw_custom_input L w area
     | WLabel \<Rightarrow> draw_label_input L w area
     | WSecret \<Rightarrow> draw_secret_input L w area
     | _ \<Rightarrow> [(area, ParaW [] (Some (bordered None)) [([], [([], [])])] False)])"

definition help_text :: "wizard_step \<Rightarrow> string" where
  "help_text st =
    (let sep = ''  '' @ bullet @ ''  '' in
     if st = WProvider then
       arrow_up @ ''/'' @ arrow_down @ '' select'' @ sep @ ''Enter confirm'' @ sep @ ''Type to search'' @ sep @
       ''Backspace deletes'' @ sep @ ''Esc cancel'' @ sep @ ''Ctrl-C cancel''
     else if st \<in> {WCustomProvider, WLabel, WSecret} then
       ''Enter confirm'' @ sep @ arrow_left @ ''/'' @ arrow_right @ '' move'' @ sep @ ''Backspace deletes'' @ sep @
       ''Ctrl-U clear'' @ sep @ ''Esc back'' @ sep @ ''Ctrl-C cancel''
     else [])"

definition draw_help_line :: "login_wizard \<Rightarrow> area \<Rightarrow> frame" where
  "draw_help_line w area = [(area, ParaW [] None [([], [([Fg DarkGray, Italic], help_text (lw_step w))])] True)]"

definition draw_login :: "layout \<Rightarrow> login_wizard \<Rightarrow> area \<Rightarrow> frame" where
  "draw_login L w area =
    (let chunks = L [CLength 3, CMin 5, CLength 1] area
     in draw_title w (chunks ! 0) @ draw_content L w (chunks ! 1) @ draw_help_line w (chunks ! 2))"

subsection \<open>The application (render.rs)\<close>

definition message_row :: "history_entry \<Rightarrow> style \<times> span list" where
  "message_row e =
    (if he_pending_approval e then [Fg Yellow, Dim] else [],
     [([], (if he_pending_approval e then ''[PLAN] '' else []) @ he_text e)])"

definition draw_message_log :: "app \<Rightarrow> area \<Rightarrow> frame" where
  "draw_message_log a area =
    [(area, ParaW [] (Some (bordered (Some ''Messages''))) (map message_row (mb_history (ap_messages a))) True)]"

definition model_row :: "model_item \<Rightarrow> style \<times> string" where
  "model_row it =
    ([], mi_display_label it @
       (case mi_context_window it of Some c \<Rightarrow> ''   ['' @ show_nat (unat c) @ '' ctx]'' | None \<Rightarrow> []) @
       (if mi_supports_tools it then '' '' @ wrench else []))"

definition draw_models_picker :: "layout \<Rightarrow> app \<Rightarrow> area \<Rightarrow> frame" where
  "draw_models_picker L a area =
    (case ap_models_picker a of
       None \<Rightarrow> []
     | Some p \<Rightarrow>
         if mp_items p = [] then
           [(area, ParaW [] (Some (bordered (Some '' Models '')))
              [([], [([Fg DarkGray], '' no credentials configured '' @ em_dash @ '' run `mscode login add` to add one'')])] False)]
         else
           (let inner = L [CLength 3, CMin 3] area in
            [(inner ! 0, ParaW [] (Some (bordered (Some '' Models (filter) ''))) [([], search_line (mp_query p))] False),
             (inner ! 1, ListW (Some (bordered None)) (map model_row (mp_rows p)) highlight pointer (mp_cursor p))]))"

definition input_title :: "input_mode \<Rightarrow> string" where
  "input_title m =
    (case m of
       Normal \<Rightarrow> ''Input (press i to insert, / for commands)''
     | Insert \<Rightarrow> ''Input (Esc to leave, Enter to submit, Tab to queue)''
     | SlashCommand \<Rightarrow> ''Commands''
     | ModelsPicker \<Rightarrow> ''Models (picker)'')"

definition draw_input_region :: "layout \<Rightarrow> app \<Rightarrow> area \<Rightarrow> frame" where
  "draw_input_region L a area =
    (if ap_input_mode a = SlashCommand then
       [(area, ListW (Some (bordered (Some ''Commands (filter)''))) (map (\<lambda>s. ([], ''/'' @ s)) (ap_slash_matches a)) [] [] None)]
     else if ap_input_mode a = ModelsPicker then draw_models_picker L a area
     else
       [(area, ParaW [] (Some (bordered (Some (input_title (ap_input_mode a)))))
          [([], [([], tc_prompt (ap_config a) @ mb_draft (ap_messages a))])] True)])"

definition mode_label :: "input_mode \<Rightarrow> string" where
  "mode_label m =
    (case m of Normal \<Rightarrow> ''NORMAL'' | Insert \<Rightarrow> ''INSERT'' | SlashCommand \<Rightarrow> ''SLASH'' | ModelsPicker \<Rightarrow> ''MODELS'')"

definition plan_indicator :: "app \<Rightarrow> string" where
  "plan_indicator a =
    (if tc_show_plan_indicator (ap_config a) then
       (case ap_plan_mode a of Planning \<Rightarrow> ''[PLAN MODE]'' | Executing \<Rightarrow> ''[EXEC]'')
     else [])"

definition draw_status_bar :: "app \<Rightarrow> area \<Rightarrow> frame" where
  "draw_status_bar a area =
    [(area, ParaW [Fg White] None
       [([], [([Fg Black, Bg Cyan], '' '' @ mode_label (ap_input_mode a) @ '' ''), ([], '' ''),
              ([Fg Yellow], plan_indicator a), ([], '' ''), ([], ''cwd: '' @ ap_cwd a)])] False)]"

definition draw_app :: "layout \<Rightarrow> app \<Rightarrow> area \<Rightarrow> frame" where
  "draw_app L a area =
    (let chunks = L [CMin 5, CLength 3, CLength 1] area
     in draw_message_log a (chunks ! 0) @ draw_input_region L a (chunks ! 1) @ draw_status_bar a (chunks ! 2))"

subsection \<open>The terminal and its events\<close>

text \<open>Every call to the terminal may fail; \<open>tm_faults\<close> says which of the next ones do. Polling is one call, and
  reading is another when the poll announced an event.\<close>

record terminal =
  tm_raw :: bool
  tm_alternate :: bool
  tm_frames :: "frame list"
  tm_faults :: "string option list"

datatype term_event = EvTimeout | EvKey key_event | EvOther

definition tm_try :: "string \<Rightarrow> terminal \<Rightarrow> (unit, string) result \<times> terminal" where
  "tm_try what t =
    (case tm_faults t of
       Some e # fs \<Rightarrow> (Err (what @ e), t\<lparr> tm_faults := fs \<rparr>)
     | _ \<Rightarrow> (Ok (), t\<lparr> tm_faults := tl (tm_faults t) \<rparr>))"

definition tm_call :: "terminal \<Rightarrow> (unit, string) result \<times> terminal" where
  "tm_call = tm_try ''io error: ''"

text \<open>Constructing the terminal, and the runtime of the application.\<close>

definition tm_new :: "terminal \<Rightarrow> (unit, string) result \<times> terminal" where
  "tm_new = tm_try ''terminal init failed: failed to construct terminal: ''"

definition tm_runtime :: "terminal \<Rightarrow> (unit, string) result \<times> terminal" where
  "tm_runtime = tm_try ''terminal init failed: failed to start runtime: ''"

definition tm_do :: "(terminal \<Rightarrow> terminal) \<Rightarrow> terminal \<Rightarrow> (unit, string) result \<times> terminal" where
  "tm_do f t = (case tm_call t of (Ok _, t1) \<Rightarrow> (Ok (), f t1) | (Err e, t1) \<Rightarrow> (Err e, t1))"

definition tm_draw :: "frame \<Rightarrow> terminal \<Rightarrow> (unit, string) result \<times> terminal" where
  "tm_draw fr = tm_do (\<lambda>t. t\<lparr> tm_frames := tm_frames t @ [fr] \<rparr>)"

text \<open>\<^verbatim>\<open>RawModeGuard\<close>: its construction, and its drop, which ignores failures.\<close>

definition guard_enable :: "terminal \<Rightarrow> (unit, string) result \<times> terminal" where
  "guard_enable t =
    (case tm_do (\<lambda>t. t\<lparr> tm_raw := True \<rparr>) t of
       (Err e, t1) \<Rightarrow> (Err e, t1)
     | (Ok _, t1) \<Rightarrow> tm_do (\<lambda>t. t\<lparr> tm_alternate := True \<rparr>) t1)"

definition guard_drop :: "terminal \<Rightarrow> terminal" where
  "guard_drop t =
    snd (tm_do (\<lambda>t. t\<lparr> tm_alternate := False \<rparr>) (snd (tm_do (\<lambda>t. t\<lparr> tm_raw := False \<rparr>) t)))"

text \<open>Waiting for one event: the poll, and the read when there is something to read.\<close>

definition next_key :: "term_event \<Rightarrow> terminal \<Rightarrow> (key_event option, string) result \<times> terminal" where
  "next_key ev t =
    (case tm_call t of
       (Err e, t1) \<Rightarrow> (Err e, t1)
     | (Ok _, t1) \<Rightarrow>
         (case ev of
            EvTimeout \<Rightarrow> (Ok None, t1)
          | EvKey k \<Rightarrow> (case tm_call t1 of (Err e, t2) \<Rightarrow> (Err e, t2) | (Ok _, t2) \<Rightarrow> (Ok (Some k), t2))
          | EvOther \<Rightarrow> (case tm_call t1 of (Err e, t2) \<Rightarrow> (Err e, t2) | (Ok _, t2) \<Rightarrow> (Ok None, t2))))"

text \<open>The loop of the wizard; \<open>None\<close> while the events do not end it.\<close>

fun wizard_events ::
    "(string \<Rightarrow> string) \<Rightarrow> layout \<Rightarrow> area \<Rightarrow> term_event list \<Rightarrow> login_wizard \<Rightarrow> terminal \<Rightarrow>
     (((string \<times> string \<times> string) option, string) result \<times> terminal) option" where
  "wizard_events low L area [] w t = None"
| "wizard_events low L area (ev # evs) w t =
    (case next_key ev t of
       (Err e, t1) \<Rightarrow> Some (Err e, t1)
     | (Ok k, t1) \<Rightarrow>
         (case (case k of None \<Rightarrow> Some (WContinue, w) | Some k \<Rightarrow> lw_handle_key low k w) of
            None \<Rightarrow> None
          | Some (WCancel, w1) \<Rightarrow> Some (Ok None, t1)
          | Some (WFinish, w1) \<Rightarrow> Some (Ok (lw_result w1), t1)
          | Some (WContinue, w1) \<Rightarrow>
              (case tm_draw (draw_login L w1 area) t1 of
                 (Err e, t2) \<Rightarrow> Some (Err e, t2)
               | (Ok _, t2) \<Rightarrow> wizard_events low L area evs w1 t2)))"

definition run_login_wizard ::
    "(string \<Rightarrow> string) \<Rightarrow> layout \<Rightarrow> area \<Rightarrow> picker_item list \<Rightarrow> term_event list \<Rightarrow> terminal \<Rightarrow>
     (((string \<times> string \<times> string) option, string) result \<times> terminal) option" where
  "run_login_wizard low L area catalog evs t =
    (case tm_new t of
       (Err e, t0) \<Rightarrow> Some (Err e, t0)
     | (Ok _, t0) \<Rightarrow>
         (let w = login_wizard_new catalog in
          case guard_enable t0 of
            (Err e, t1) \<Rightarrow> Some (Err e, t1)
          | (Ok _, t1) \<Rightarrow>
              map_option (\<lambda>(r, t3). (r, guard_drop t3))
                (case tm_draw (draw_login L w area) t1 of
                   (Err e, t2) \<Rightarrow> Some (Err e, t2)
                 | (Ok _, t2) \<Rightarrow> wizard_events low L area evs w t2)))"

text \<open>\<^verbatim>\<open>App::run\<close>: draw, wait, handle; \<open>None\<close> while the events do not end it. The outcome of a key is dropped.\<close>

fun app_events ::
    "(string \<Rightarrow> string) \<Rightarrow> layout \<Rightarrow> area \<Rightarrow> term_event list \<Rightarrow> app \<Rightarrow> terminal \<Rightarrow>
     ((unit, string) result \<times> app \<times> terminal) option" where
  "app_events low L area evs a t =
    (case tm_draw (draw_app L a area) t of
       (Err e, t1) \<Rightarrow> Some (Err e, a, t1)
     | (Ok _, t1) \<Rightarrow>
         (case evs of
            [] \<Rightarrow> None
          | ev # evs' \<Rightarrow>
              (case next_key ev t1 of
                 (Err e, t2) \<Rightarrow> Some (Err e, a, t2)
               | (Ok None, t2) \<Rightarrow> app_events low L area evs' a t2
               | (Ok (Some k), t2) \<Rightarrow>
                   (case app_handle_key low k a of
                      None \<Rightarrow> None
                    | Some (outcome, b) \<Rightarrow>
                        if ap_should_quit b then Some (Ok (), b, t2) else app_events low L area evs' b t2))))"

definition run_app ::
    "(string \<Rightarrow> string) \<Rightarrow> layout \<Rightarrow> area \<Rightarrow> term_event list \<Rightarrow> app \<Rightarrow> terminal \<Rightarrow>
     ((unit, string) result \<times> app \<times> terminal) option" where
  "run_app low L area evs a t =
    (case tm_new t of
       (Err e, t1) \<Rightarrow> Some (Err e, a, t1)
     | (Ok _, t1) \<Rightarrow>
         (case tm_runtime t1 of
            (Err e, t2) \<Rightarrow> Some (Err e, a, t2)
          | (Ok _, t2) \<Rightarrow>
              (case guard_enable t2 of
                 (Err e, t3) \<Rightarrow> Some (Err e, a, t3)
               | (Ok _, t3) \<Rightarrow> map_option (\<lambda>(r, b, t4). (r, b, guard_drop t4)) (app_events low L area evs a t3))))"


declare app_events.simps [simp del]

subsection \<open>The secret stays off the screen\<close>

lemma ti_key_masked: "ti_key k t = Some t' \<Longrightarrow> ti_masked t' = ti_masked t"
  by (induction k t rule: ti_key.induct)
    (auto simp: ti_insert_def ti_backspace_def ti_clear_def ti_move_left_def ti_move_right_def Option.bind_eq_Some_conv
      split: key_code.splits if_splits option.splits list.splits)

lemma secret_masked: "wiz_reach low cat w \<Longrightarrow> ti_masked (lw_secret_input w)"
proof (induction rule: wiz_reach.induct)
  case wiz_start
  then show ?case by (simp add: login_wizard_new_def text_input_new_def)
next
  case (wiz_step w k e w')
  then show ?case
    by (auto simp: lw_handle_key_def handle_provider_key_def handle_custom_provider_key_def handle_label_key_def
        handle_secret_key_def simp del: ti_key.simps dest: ti_key_masked
        split: if_splits wizard_step.splits key_code.splits option.splits)
qed

text \<open>C38: what the login wizard draws does not depend on the secret that was typed: with any other secret of as many
  characters every frame is the same, in every reachable state.\<close>

theorem secret_never_drawn:
  assumes "wiz_reach low cat w" "length (chars v) = length (chars (ti_value (lw_secret_input w)))"
  shows "draw_login L (w\<lparr> lw_secret_input := (lw_secret_input w)\<lparr> ti_value := v \<rparr> \<rparr>) area = draw_login L w area"
  using secret_masked [OF assms(1)] assms(2)
  by (simp add: draw_login_def draw_title_def draw_content_def draw_help_line_def draw_provider_picker_def
      draw_custom_input_def draw_label_input_def draw_secret_input_def draw_text_input_block_def
      cong: wizard_step.case_cong)

subsection \<open>The highlighted row\<close>

text \<open>The row that a list widget highlights.\<close>

fun highlighted :: "widget \<Rightarrow> string option" where
  "highlighted (ListW b rows st marker (Some c)) = (if c < length rows then Some (snd (rows ! c)) else None)"
| "highlighted _ = None"

lemma highlighted_row_at: "highlighted (ListW b (map f rows) st marker c) = map_option (snd \<circ> f) (row_at rows c)"
  by (cases c) (simp_all add: row_at_def)

text \<open>C39: the row that a picker highlights is the one that Enter takes: in the wizard's list of providers and in the
  application's list of models the highlighted text is that of the selected item, and there is none when no row is left.\<close>

theorem highlighted_is_selected:
  assumes "wiz_reach low cat w" "app_reach low a" "ap_input_mode a = ModelsPicker" "ap_models_items a \<noteq> []"
  shows "(\<exists>it. pp_selected (lw_picker w) = Some it \<and>
      map (highlighted \<circ> snd) (draw_provider_picker L w area) = [None, Some (snd (provider_row it))]) \<and>
    (\<exists>p. ap_models_picker a = Some p \<and>
      map (highlighted \<circ> snd) (draw_models_picker L a area) = [None, map_option (snd \<circ> model_row) (mp_selected p)])"
proof
  have p: "pp_current low cat (lw_picker w)" using wiz_reach_inv [OF assms(1)] by (simp add: wiz_inv_def)
  then have "pp_selected (lw_picker w) = row_at (pp_rows (lw_picker w)) (pp_cursor (lw_picker w))"
    by (simp add: pp_current_def provider_rows.selected)
  with pp_selected_Some [OF p] show "\<exists>it. pp_selected (lw_picker w) = Some it \<and>
      map (highlighted \<circ> snd) (draw_provider_picker L w area) = [None, Some (snd (provider_row it))]"
    by (auto simp: draw_provider_picker_def Let_def highlighted_row_at)
next
  from app_inv_reach [OF assms(2)] assms(3) obtain p where p: "ap_models_picker a = Some p" "mp_current low (ap_models_items a) p"
    by (auto simp: app_inv_def)
  then have "mp_selected p = row_at (mp_rows p) (mp_cursor p)" "mp_items p \<noteq> []"
    using assms(4) by (simp_all add: mp_current_def model_rows.selected)
  with p(1) show "\<exists>p. ap_models_picker a = Some p \<and>
      map (highlighted \<circ> snd) (draw_models_picker L a area) = [None, map_option (snd \<circ> model_row) (mp_selected p)]"
    by (simp add: draw_models_picker_def Let_def highlighted_row_at)
qed

subsection \<open>The event loops\<close>

fun event_keys :: "term_event list \<Rightarrow> key_event list" where
  "event_keys [] = []"
| "event_keys (EvKey k # evs) = k # event_keys evs"
| "event_keys (_ # evs) = event_keys evs"

definition tm_sound :: "terminal \<Rightarrow> bool" where
  "tm_sound t \<longleftrightarrow> (\<forall>x \<in> set (tm_faults t). x = None)"

lemma tm_try_sound:
  assumes "tm_sound t"
  shows "tm_try what t = (Ok (), t\<lparr> tm_faults := tl (tm_faults t) \<rparr>)" "tm_sound (t\<lparr> tm_faults := tl (tm_faults t) \<rparr>)"
  using assms by (cases "tm_faults t"; auto simp: tm_try_def tm_sound_def)+

lemmas tm_call_sound = tm_try_sound(1) [of _ "''io error: ''", folded tm_call_def] tm_try_sound(2)

lemma tm_open_sound:
  assumes "tm_sound t" shows "\<exists>t1. tm_new t = (Ok (), t1) \<and> tm_sound t1" "\<exists>t1. tm_runtime t = (Ok (), t1) \<and> tm_sound t1"
  using tm_try_sound [OF assms] by (simp_all add: tm_new_def tm_runtime_def)

lemma tm_do_sound:
  assumes "tm_sound t" "\<And>u. tm_faults (f u) = tm_faults u"
  shows "tm_do f t = (Ok (), f (t\<lparr> tm_faults := tl (tm_faults t) \<rparr>))" "tm_sound (f (t\<lparr> tm_faults := tl (tm_faults t) \<rparr>))"
  using tm_call_sound [OF assms(1)] assms(2) by (simp_all add: tm_do_def tm_sound_def)

lemma next_key_sound:
  assumes "tm_sound t"
  shows "\<exists>t1. tm_sound t1 \<and> next_key ev t = (Ok (case ev of EvKey k \<Rightarrow> Some k | _ \<Rightarrow> None), t1)"
  using tm_call_sound [OF assms] tm_call_sound [OF tm_call_sound(2) [OF assms]]
  by (cases ev) (auto simp: next_key_def)

lemma tm_draw_sound: "tm_sound t \<Longrightarrow> \<exists>t1. tm_draw fr t = (Ok (), t1) \<and> tm_sound t1"
  using tm_do_sound [of t "\<lambda>t. t\<lparr> tm_frames := tm_frames t @ [fr] \<rparr>"] by (simp add: tm_draw_def)

lemma guard_drop_sound:
  assumes "tm_sound t" shows "\<not> tm_raw (guard_drop t) \<and> \<not> tm_alternate (guard_drop t)"
  using tm_do_sound [OF assms, of "\<lambda>t. t\<lparr> tm_raw := False \<rparr>"]
    tm_do_sound [of "snd (tm_do (\<lambda>t. t\<lparr> tm_raw := False \<rparr>) t)" "\<lambda>t. t\<lparr> tm_alternate := False \<rparr>"]
  by (simp add: guard_drop_def)

lemma guard_enable_sound: "tm_sound t \<Longrightarrow> \<exists>t1. guard_enable t = (Ok (), t1) \<and> tm_sound t1"
  using tm_do_sound [of t "\<lambda>t. t\<lparr> tm_raw := True \<rparr>"]
    tm_do_sound [of "snd (tm_do (\<lambda>t. t\<lparr> tm_raw := True \<rparr>) t)" "\<lambda>t. t\<lparr> tm_alternate := True \<rparr>"]
  by (auto simp: guard_enable_def)

lemma wizard_events_loop:
  assumes "tm_sound t"
  shows "case wizard_loop low (event_keys evs) w of
      None \<Rightarrow> wizard_events low L area evs w t = None
    | Some r \<Rightarrow> \<exists>t'. wizard_events low L area evs w t = Some (Ok r, t') \<and> tm_sound t'"
  using assms
proof (induction evs arbitrary: w t)
  case (Cons ev evs)
  obtain t1 where n: "tm_sound t1" "next_key ev t = (Ok (case ev of EvKey k \<Rightarrow> Some k | _ \<Rightarrow> None), t1)"
    using next_key_sound [OF Cons.prems] by blast
  have d: "\<exists>t2. tm_draw (draw_login L w1 area) t1 = (Ok (), t2) \<and> tm_sound t2" for w1
    by (rule tm_draw_sound [OF n(1)])
  show ?case
  proof (cases ev)
    case (EvKey k)
    show ?thesis
    proof (cases "lw_handle_key low k w")
      case (Some p)
      obtain eff w1 where p: "p = (eff, w1)" by force
      obtain t2 where t2: "tm_draw (draw_login L w1 area) t1 = (Ok (), t2)" "tm_sound t2" using d by blast
      from Cons.IH [OF t2(2), of w1] n(1) n(2) [unfolded EvKey] t2(1) show ?thesis
        unfolding EvKey by (cases eff) (simp_all add: Some p split: option.splits)
    qed (use n(2) [unfolded EvKey] in \<open>simp add: EvKey\<close>)
  next
    case EvTimeout
    obtain t2 where t2: "tm_draw (draw_login L w area) t1 = (Ok (), t2)" "tm_sound t2" using d by blast
    from Cons.IH [OF t2(2), of w] n(2) [unfolded EvTimeout] t2(1) show ?thesis
      unfolding EvTimeout by (simp split: option.splits)
  next
    case EvOther
    obtain t2 where t2: "tm_draw (draw_login L w area) t1 = (Ok (), t2)" "tm_sound t2" using d by blast
    from Cons.IH [OF t2(2), of w] n(2) [unfolded EvOther] t2(1) show ?thesis
      unfolding EvOther by (simp split: option.splits)
  qed
qed simp

lemma app_events_run:
  assumes "tm_sound t" "\<not> ap_should_quit a"
  shows "case app_run low (event_keys evs) a of
      None \<Rightarrow> app_events low L area evs a t = None
    | Some (outs, b) \<Rightarrow>
        if ap_should_quit b then \<exists>t'. app_events low L area evs a t = Some (Ok (), b, t') \<and> tm_sound t'
        else app_events low L area evs a t = None"
  using assms
proof (induction evs arbitrary: a t)
  case Nil
  then show ?case using tm_draw_sound [OF Nil.prems(1), of "draw_app L a area"]
    by (auto simp: app_events.simps [of low L area "[]"])
next
  case (Cons ev evs)
  obtain t1 where d: "tm_draw (draw_app L a area) t = (Ok (), t1)" "tm_sound t1"
    using tm_draw_sound [OF Cons.prems(1)] by blast
  obtain t2 where n: "tm_sound t2" "next_key ev t1 = (Ok (case ev of EvKey k \<Rightarrow> Some k | _ \<Rightarrow> None), t2)"
    using next_key_sound [OF d(2)] by blast
  show ?case
  proof (cases ev)
    case (EvKey k)
    show ?thesis
    proof (cases "app_handle_key low k a")
      case (Some p)
      obtain r b where p: "p = (r, b)" by force
      from Cons.IH [OF n(1), of b] d(1) n(1) n(2) [unfolded EvKey] show ?thesis
        unfolding EvKey app_events.simps [of low L area "EvKey k # evs" a t]
        by (cases "ap_should_quit b") (auto simp: Some p split: option.splits prod.splits)
    qed (use d(1) n(2) [unfolded EvKey] in \<open>simp add: EvKey app_events.simps [of low L area "EvKey k # evs" a t]\<close>)
  next
    case EvTimeout
    from Cons.IH [OF n(1) Cons.prems(2)] d(1) n(2) [unfolded EvTimeout] Cons.prems(2) show ?thesis
      unfolding EvTimeout app_events.simps [of low L area "EvTimeout # evs" a t] by (simp split: option.splits prod.splits)
  next
    case EvOther
    from Cons.IH [OF n(1) Cons.prems(2)] d(1) n(2) [unfolded EvOther] Cons.prems(2) show ?thesis
      unfolding EvOther app_events.simps [of low L area "EvOther # evs" a t] by (simp split: option.splits prod.splits)
  qed
qed

text \<open>C40: while the terminal works, the loops over its events do with their keys what the state machines do: the
  wizard returns the result of \<open>wizard_loop\<close>, the application ends when a key makes it quit, time-outs and other
  events change nothing, and whenever a loop returns the terminal is out of raw mode and the alternate screen.\<close>

theorem event_loops_run_keys:
  assumes "tm_sound t" "\<not> ap_should_quit a"
  shows "(case wizard_loop low (event_keys evs) (login_wizard_new cat) of
      None \<Rightarrow> run_login_wizard low L area cat evs t = None
    | Some r \<Rightarrow> \<exists>t'. run_login_wizard low L area cat evs t = Some (Ok r, t') \<and> \<not> tm_raw t' \<and> \<not> tm_alternate t') \<and>
    (case app_run low (event_keys evs) a of
      None \<Rightarrow> run_app low L area evs a t = None
    | Some (outs, b) \<Rightarrow>
        if ap_should_quit b
        then \<exists>t'. run_app low L area evs a t = Some (Ok (), b, t') \<and> \<not> tm_raw t' \<and> \<not> tm_alternate t'
        else run_app low L area evs a t = None)"
proof
  obtain t0 where n: "tm_new t = (Ok (), t0)" "tm_sound t0" using tm_open_sound(1) [OF assms(1)] by blast
  obtain t1 where g: "guard_enable t0 = (Ok (), t1)" "tm_sound t1" using guard_enable_sound [OF n(2)] by blast
  obtain t2 where d: "tm_draw (draw_login L (login_wizard_new cat) area) t1 = (Ok (), t2)" "tm_sound t2"
    using tm_draw_sound [OF g(2)] by blast
  from wizard_events_loop [OF d(2), where low = low and evs = evs and w = "login_wizard_new cat" and L = L and area = area] guard_drop_sound
  show "case wizard_loop low (event_keys evs) (login_wizard_new cat) of
      None \<Rightarrow> run_login_wizard low L area cat evs t = None
    | Some r \<Rightarrow> \<exists>t'. run_login_wizard low L area cat evs t = Some (Ok r, t') \<and> \<not> tm_raw t' \<and> \<not> tm_alternate t'"
    by (auto simp: run_login_wizard_def Let_def n(1) g(1) d(1) split: option.splits)
  obtain t3 where u: "tm_runtime t0 = (Ok (), t3)" "tm_sound t3" using tm_open_sound(2) [OF n(2)] by blast
  obtain t4 where e: "guard_enable t3 = (Ok (), t4)" "tm_sound t4" using guard_enable_sound [OF u(2)] by blast
  from app_events_run [OF e(2) assms(2), where low = low and evs = evs and L = L and area = area] guard_drop_sound
  show "case app_run low (event_keys evs) a of
      None \<Rightarrow> run_app low L area evs a t = None
    | Some (outs, b) \<Rightarrow>
        if ap_should_quit b
        then \<exists>t'. run_app low L area evs a t = Some (Ok (), b, t') \<and> \<not> tm_raw t' \<and> \<not> tm_alternate t'
        else run_app low L area evs a t = None"
    by (auto simp: run_app_def n(1) u(1) e(1) split: option.splits prod.splits if_splits)
qed

text \<open>When the alternate screen cannot be entered, the guard is never built and raw mode stays on.\<close>

lemma failed_guard_leaves_raw:
  assumes "tm_faults t = None # None # Some e # fs"
  shows "\<exists>t'. run_login_wizard low L area cat evs t = Some (Err (''io error: '' @ e), t') \<and> tm_raw t'"
  using assms by (simp add: run_login_wizard_def guard_enable_def tm_do_def tm_call_def tm_new_def tm_try_def Let_def)

text \<open>A run keeps the application reachable; here, with one model, typing \<^verbatim>\<open>i/models\<close> and pressing Enter opens the picker.\<close>

lemma app_run_reach: "app_reach low a \<Longrightarrow> app_run low ks a = Some (rs, b) \<Longrightarrow> app_reach low b"
proof (induction ks arbitrary: a rs)
  case (Cons k ks)
  from Cons.prems(2) obtain r c where r: "app_handle_key low k a = Some (r, c)"
    by (auto split: option.splits)
  from Cons.prems(2) r Cons.IH [OF ar_key [OF Cons.prems(1) r]] ar_key [OF Cons.prems(1) r] show ?case
    by (auto split: if_splits)
qed simp

definition demo_models :: "model_item list" where
  "demo_models = [\<lparr> mi_provider_id = ''ollama'', mi_model_id = ''m1'', mi_display_label = ''m1'',
    mi_context_window = None, mi_supports_tools = True \<rparr>]"

lemma demo_parse: "parse_slash_command ''/models'' = Ok (Some CModels)" "trim ''/models'' = ''/models''"
    "trim_start ''/models'' = ''/models''"
  by code_simp+

lemma demo_picker: "\<exists>a. app_reach demo_low a \<and> ap_input_mode a = ModelsPicker \<and> ap_models_items a = demo_models"
proof -
  let ?a = "with_models demo_models (with_cwd ''/w'' (app_new ''/w'' tui_config_default))"
  let ?b = "?a\<lparr> ap_input_mode := Insert \<rparr>"
  let ?c = "?b\<lparr> ap_messages := mb_push_str ''/models'' (ap_messages ?b) \<rparr>"
  have "app_run demo_low [key (KChar ''i'')] ?a = Some ([KoTransitioned], ?b)"
    by (simp add: app_handle_key_def key_def is_ctrl_c_def app_new_def with_models_def with_cwd_def handle_normal_key_def)
  from app_run_reach [OF ar_new this] have b: "app_reach demo_low ?b" .
  have "app_run demo_low (map (\<lambda>c. key (KChar c)) (map (\<lambda>c. [c]) ''/models'')) ?b =
      Some (replicate 7 KoConsumed, ?c)"
    by (subst type_chars) (simp_all add: app_new_def with_models_def with_cwd_def eval_nat_numeral)
  from app_run_reach [OF b this] have c: "app_reach demo_low ?c" .
  have d: "mb_draft (ap_messages ?c) = ''/models''"
    by (simp add: app_new_def with_models_def with_cwd_def mb_new_def mb_push_str_def)
  obtain e where e: "submit_draft ?c = (SoCommand CModels, e)" "ap_input_mode e = ModelsPicker"
      "ap_models_items e = demo_models"
    using d by (simp add: submit_draft_def Let_def demo_parse starts_with_def with_models_def)
  then have "app_run demo_low [key KEnter] ?c = Some ([KoSubmitted (SoCommand CModels)], e)"
    by (simp add: app_handle_key_def key_def is_ctrl_c_def handle_insert_key_def)
  from app_run_reach [OF c this] e show ?thesis by blast
qed

text \<open>The wizard at its secret, of which two characters are typed.\<close>

definition pressed :: "key_event list \<Rightarrow> login_wizard \<Rightarrow> login_wizard" where
  "pressed ks w = foldl (\<lambda>w k. snd (the (lw_handle_key demo_low k w))) w ks"

lemma pressed_reach: "wiz_reach demo_low cat w \<Longrightarrow> list_all key_ok ks \<Longrightarrow> wiz_reach demo_low cat (pressed ks w)"
proof (induction ks arbitrary: w)
  case (Cons k ks)
  have "key_ok k" using Cons.prems(2) by simp
  from wiz_inv_key [OF wiz_reach_inv [OF Cons.prems(1)] this]
  obtain e w' where k: "lw_handle_key demo_low k w = Some (e, w')" by blast
  with Cons.prems have "wiz_reach demo_low cat w'" by (auto intro: wiz_step)
  with Cons.IH [of w'] Cons.prems(2) k show ?case by (simp add: pressed_def)
qed (simp add: pressed_def)

definition secret_wizard :: login_wizard where
  "secret_wizard = pressed (map key [KChar ''w'', KEnter, KChar ''s'', KChar ''3'']) demo_wizard"

theorem secret_never_drawn_witness:
  "lw_step secret_wizard = WSecret \<and> ti_value (lw_secret_input secret_wizard) = ''s3'' \<and>
   (\<forall>L area. draw_login L (secret_wizard\<lparr> lw_secret_input := (lw_secret_input secret_wizard)\<lparr> ti_value := ''xy'' \<rparr> \<rparr>) area =
     draw_login L secret_wizard area)"
proof -
  have r: "wiz_reach demo_low demo_catalog secret_wizard"
    unfolding secret_wizard_def by (rule pressed_reach [OF demo_wizard_reach]) (simp add: key_ok_def key_def code_point_def is_cont_def byte_def)
  have s: "lw_step secret_wizard = WSecret" "ti_value (lw_secret_input secret_wizard) = ''s3''"
    "length (chars ''xy'') = length (chars ''s3'')" by code_simp+
  have "length (chars ''xy'') = length (chars (ti_value (lw_secret_input secret_wizard)))" using s by simp
  from secret_never_drawn [OF r this] s show ?thesis by blast
qed

theorem highlighted_is_selected_witness:
  "\<exists>it. pp_selected (lw_picker demo_wizard) = Some it \<and>
    map (highlighted \<circ> snd) (draw_provider_picker (\<lambda>cs a. map (\<lambda>_. a) cs) demo_wizard (0, 0, 80, 24)) =
      [None, Some (snd (provider_row it))]"
proof -
  obtain a where a: "app_reach demo_low a" "ap_input_mode a = ModelsPicker" "ap_models_items a = demo_models"
    using demo_picker by blast
  from highlighted_is_selected [OF demo_wizard_reach a(1,2)] a(3) show ?thesis by (simp add: demo_models_def)
qed

definition demo_terminal :: terminal where
  "demo_terminal = \<lparr> tm_raw = False, tm_alternate = False, tm_frames = [], tm_faults = [] \<rparr>"

theorem event_loops_run_keys_witness:
  "\<exists>b t. run_app demo_low (\<lambda>cs a. map (\<lambda>_. a) cs) (0, 0, 80, 24)
      [EvTimeout, EvOther, EvKey \<lparr> ke_code = KChar ''c'', ke_ctrl = True \<rparr>] demo_app demo_terminal = Some (Ok (), b, t) \<and>
    ap_should_quit b \<and> \<not> tm_raw t"
proof -
  let ?evs = "[EvTimeout, EvOther, EvKey \<lparr> ke_code = KChar ''c'', ke_ctrl = True \<rparr>]"
  have r: "app_run demo_low (event_keys ?evs) demo_app = Some ([KoQuit], demo_app\<lparr> ap_should_quit := True \<rparr>)"
    by (simp add: app_handle_key_def is_ctrl_c_def)
  have h: "tm_sound demo_terminal" "\<not> ap_should_quit demo_app"
    by (simp_all add: tm_sound_def demo_terminal_def demo_app_def app_new_def)
  note runs = event_loops_run_keys [OF h, where low = demo_low and evs = ?evs and L = "\<lambda>cs a. map (\<lambda>_. a) cs" and area = "(0, 0, 80, 24)"]
  show ?thesis
    using runs [THEN conjunct2, unfolded r option.case prod.case]
    by (intro exI [of _ "demo_app\<lparr> ap_should_quit := True \<rparr>"]) auto
qed

end
