(* ===== verification/Spec2Isabelle.thy ===== *)
theory Spec2Isabelle
  imports DagGraph Provider Sse Exec Agents Protocol SessionState Rollout Sandbox EditFormats
    Catalog Keyring Credentials Slash TextInput Pickers LoginWizard MessageBuffer TuiApp Config
    FileTree Tools Registry Mcp Adapters Timestamps ThreadStore Memories SqlCredentials
    MockProvider VectorIndex ModelsCatalog Cli Screen
begin

text \<open>
  \<^bold>\<open>A verification development for mscode.\<close> The program is a local-first command-line agent in Rust: a
  binary over a workspace of crates (\<^verbatim>\<open>src/crates/*\<close>). A session is a log of events that a reducer folds
  into a state; a turn is planned as a dependency graph of steps that are executed, criticised and revised;
  models are called over HTTP and stream their answers; tools read and write files inside a sandbox; stores over
  SQLite keep sessions, memories and accounts, and a keyring keeps the secrets; a terminal interface and a set
  of commands put these parts in front of the user. The theories model these parts one by one, in the order in
  which they use each other, and this root imports them all.

  \<^bold>\<open>Conventions.\<close>
  \<^item> A Rust string is the list of its UTF-8 bytes (\<open>RustStr\<close>); slicing off a character boundary, indexing out of
    range and an overflow that panics are the value \<open>None\<close>, and where no panic is possible a lemma says so.
  \<^item> \<^verbatim>\<open>Result\<close> is the datatype \<open>result\<close>, the \<^verbatim>\<open>?\<close> operator is \<open>try_res\<close> (\<open>MsPrelude\<close>); every error of the source
    is a constructor of an error datatype and every early return a branch.
  \<^item> State is passed explicitly: an operation maps a record to a result and a record. A lock makes an object's
    operations a sequence, so an execution is any sequence of operations; the reachable states are inductive
    predicates (\<open>dag_reachable\<close>, \<open>cred_reach\<close>, \<open>wiz_reach\<close>, \<open>app_reach\<close>, \<open>session_reach\<close>, \<open>memory_reach\<close>, \<open>sql_reach\<close>, \<open>vector_reach\<close>).
  \<^item> Words are kept at their width where they can wrap or saturate (token counts, limits, sizes).
  \<^item> Code that is not in the repository is a parameter, a record of functions or a function argument, and what
    is assumed of it is a named predicate or the assumptions of a locale, with an instance that satisfies it:
    petgraph (\<open>dag_api\<close>, locale \<open>dag_contract\<close>, interpreted on a reference graph in \<open>Petgraph\<close>), the text form of JSON
    (\<open>json_text\<close>), the HTTP transport (\<open>Wire\<close>), the keyring service (\<open>keyring_api\<close>, locale \<open>keyring_backend\<close>), SQLite (\<open>db\<close>:
    any call may fail, a statement or a transaction takes effect as a whole, rows come in any order), the file
    system's own failures (\<open>os\<close>), regular expressions and globs, the shell, chrono's text of an instant (\<open>time_text\<close>),
    SHA-256, the arithmetic of 32-bit floats (\<open>f32_ops\<close>), Unicode lower case, clocks and fresh identifiers.

  \<^bold>\<open>The theories and the code they model.\<close>
  \<^item> \<open>MsPrelude\<close>, \<open>RustStr\<close>, \<open>Json\<close>: results, strings and JSON values; \<open>Selection\<close>: the first rows of an order.
  \<^item> \<open>Petgraph\<close>, \<open>DagGraph\<close> (\<^verbatim>\<open>dag-runtime\<close>): nodes with a life cycle, edges that may not close a cycle, claims by
    processes, readiness, scheduling. Lemmas: well-formedness and acyclicity of every reachable graph, when an
    edge is accepted, exclusive claims, schedules that respect the edges.
  \<^item> \<open>Exec\<close> (\<^verbatim>\<open>exec\<close>), \<open>Agents\<close> (\<^verbatim>\<open>agents\<close>): dispatch to handlers; planner, critic and the supervisor's turn. Lemmas: a
    turn leaves no node half done, settled nodes stay settled, and it ends within three passes.
  \<^item> \<open>Protocol\<close> (\<^verbatim>\<open>protocol\<close>), \<open>SessionState\<close> (\<^verbatim>\<open>core\<close>), \<open>Rollout\<close> (\<^verbatim>\<open>rollout\<close>): events and their JSON, the reducer, the
    append-only log with its crash repair, the orchestrator. Lemmas: encoding round trip, replay, recovery of
    every complete event after a torn write.
  \<^item> \<open>Provider\<close>, \<open>Sse\<close>, \<open>Wire\<close>, \<open>Anthropic\<close>, \<open>OpenAi\<close>, \<open>Ollama\<close>, \<open>Adapters\<close>, \<open>MockProvider\<close>, \<open>ModelsCatalog\<close> (\<^verbatim>\<open>provider\<close>): the request
    and response types, the event-stream parser, the three adapters with their request bodies and stream
    decoders, the scripted provider, the catalog of models. Lemmas: parsing does not depend on how the bytes
    are cut, streaming a response and completing it give the same, no stream goes on after its end.
  \<^item> \<open>Sandbox\<close> (\<^verbatim>\<open>sandbox\<close>), \<open>FileTree\<close>, \<open>Tools\<close>, \<open>Registry\<close> (\<^verbatim>\<open>tools\<close>), \<open>EditFormats\<close> (\<^verbatim>\<open>edit-formats\<close>): path and command
    policy, a file tree, the built-in tools, the parsers and appliers of edits. Lemmas: an accepted write is inside
    a root, a failed write leaves no partial file, grep against its specification, an edit changes its range only.
  \<^item> \<open>Mcp\<close> (\<^verbatim>\<open>mcp-client\<close>, \<^verbatim>\<open>mcp-server\<close>): envelopes, client, server and their exchange over lines. Lemmas: every
    request is answered with its id, and a remote call gives what the tool gives.
  \<^item> \<open>Config\<close> (\<^verbatim>\<open>config\<close>): layers and their precedence.
  \<^item> \<open>Catalog\<close>, \<open>Keyring\<close>, \<open>Credentials\<close>, \<open>SqlTable\<close>, \<open>SqlCredentials\<close> (\<^verbatim>\<open>credentials\<close>, \<^verbatim>\<open>state/src/migrations.rs\<close>): the catalog of
    providers, keyring backends, accounts in memory and over SQLite. Lemmas: one default per provider, keys that
    live with their account, resolution, and the SQLite store as a refinement of the one in memory whatever fails.
  \<^item> \<open>Calendar\<close>, \<open>Timestamps\<close>, \<open>KeyedTable\<close>, \<open>ThreadStore\<close>, \<open>Memories\<close> (\<^verbatim>\<open>thread-store\<close>, \<^verbatim>\<open>memories\<close>): the civil calendar and
    the order of time stamps; the locale \<open>keyed_store\<close> of tables with a text key, interpreted on both stores.
    Lemmas: each store is a map whose writes take their full effect or none; queries give the first rows of
    their order.
  \<^item> \<open>VectorIndex\<close> (\<^verbatim>\<open>vector-index\<close>): the store of vectors and its search by cosine.
  \<^item> \<open>Slash\<close>, \<open>TextInput\<close>, \<open>Pickers\<close>, \<open>LoginWizard\<close>, \<open>MessageBuffer\<close>, \<open>TuiApp\<close> (\<^verbatim>\<open>tui\<close>): the state machines of the terminal:
    commands, text field, lists with a cursor (locale \<open>cursor_list\<close>), login wizard, message history, application.
    Lemmas: no key panics or gets the user stuck, the text field is a pair of character lists, nothing is sent
    while planning.
  \<^item> \<open>Screen\<close> (\<^verbatim>\<open>tui/src/render.rs\<close>, \<^verbatim>\<open>login_render.rs\<close>, \<^verbatim>\<open>lib.rs\<close>): the frames, the raw mode guard and the loops over the
    terminal's events. Lemmas: no frame shows a secret, the highlighted row is the selected one, and the loops do
    what the state machines do and leave raw mode when they return.
  \<^item> \<open>Cli\<close> (\<^verbatim>\<open>cli\<close>, \<^verbatim>\<open>shared/src/version.rs\<close>): the commands of the binary over the stores. Lemmas: what \<^verbatim>\<open>new\<close> prints can be
    resumed, an added key can be loaded, the listed models, and commands that change nothing.

  \<^bold>\<open>Termination and bounds.\<close> No definition takes fuel. Loops over a collection, a directory tree or a JSON value are
  structural recursions. The parsers of \<open>Sse\<close> and \<open>EditFormats\<close> and the event pump of \<open>Wire\<close> are functions with a
  measure, the bytes that are left; the supervisor's loop (\<open>run_loop\<close>) has the passes that are left as its measure and is
  shown to end within three. The loops that wait for the user or for a
  peer are recursions over the list of what arrives, and their result on a list that does not end them is \<open>None\<close>;
  \<open>wizard_never_stuck\<close> shows that some keys always end the wizard. The counter of accesses of a memory is unbounded
  in the model; the code's 64 bits would take longer than any run to overflow.

  \<^bold>\<open>Not modelled.\<close> Building connection pools and creating directories (\<^verbatim>\<open>state/src/pool.rs\<close>) and sockets or child
  processes are input and output only; parsing of arguments is generated by clap from \<open>command\<close>; the embedding model
  is called through fastembed and its vectors are opaque; \<^verbatim>\<open>vector-index-lancedb\<close> is a stub in the source; what
  ratatui draws from a frame is left out. Formatting for \<^verbatim>\<open>Debug\<close> and re-exports are left out. Concurrency is that of
  operations made atomic by a lock, a transaction or the single thread of the terminal; interleavings inside an operation
  are considered where the source allows them (torn appends of the log, processes between commands).
\<close>

end
